(* ===== verification/Prelude.thy ===== *)
theory Prelude
  imports Complex_Main "HOL-Library.Word" "HOL-Library.Multiset"
begin

text \<open>
  Shared vocabulary of the development.  It holds:
  \<^item> the types every component names: 128-bit identifiers (\<open>Uuid\<close>), instants, and Rust's
    \<open>i64\<close> as an integer whose arithmetic wraps (a release build has no overflow checks);
  \<^item> \<open>ApiError\<close> of \<^verbatim>\<open>crates/server/src/error.rs\<close> and the \<open>?\<close> operator on results;
  \<^item> text: decimal and hexadecimal printing, \<open>join\<close>, \<open>str::trim\<close> on UTF-8 bytes;
  \<^item> the generic lemmas on results, lists and lookups that the component theories share.
\<close>

named_theorems row_simps \<open>projections and updates of tables\<close>
named_theorems check_defs \<open>the decision procedures of the write paths\<close>
named_theorems result_simps \<open>inversion of the ? operator\<close>

section \<open>Scalars\<close>

type_synonym uuid = "128 word"
type_synonym time = int
type_synonym i64 = int

text \<open>Two's complement wrap-around at 64 bits, written out on \<open>int\<close>.\<close>

definition wrap64 :: "int \<Rightarrow> i64" where
  "wrap64 x = (x + 2 ^ 63) mod 2 ^ 64 - 2 ^ 63"

definition in_i64 :: "int \<Rightarrow> bool" where
  "in_i64 x \<longleftrightarrow> - (2 ^ 63) \<le> x \<and> x < 2 ^ 63"

definition i64_add :: "i64 \<Rightarrow> i64 \<Rightarrow> i64" where
  "i64_add a b = wrap64 (a + b)"

definition i64_sub :: "i64 \<Rightarrow> i64 \<Rightarrow> i64" where
  "i64_sub a b = wrap64 (a - b)"

definition i64_neg :: "i64 \<Rightarrow> i64" where
  "i64_neg a = wrap64 (- a)"

lemma wrap64_id [simp]: "in_i64 x \<Longrightarrow> wrap64 x = x"
  by (simp add: wrap64_def in_i64_def)

lemma in_i64_wrap64 [simp]: "in_i64 (wrap64 x)"
proof -
  have "0 \<le> (x + 2 ^ 63) mod 2 ^ 64" and "(x + 2 ^ 63) mod 2 ^ 64 < 2 ^ 64"
    by simp_all
  then show ?thesis unfolding wrap64_def in_i64_def by simp
qed

lemma wrap64_eq_0_iff:
  assumes "- (2 ^ 64) < x" and "x < 2 ^ 64"
  shows "wrap64 x = 0 \<longleftrightarrow> x = 0"
proof
  assume "wrap64 x = 0"
  then have "(x + 2 ^ 63) mod 2 ^ 64 = 2 ^ 63" by (simp add: wrap64_def)
  then have "x mod 2 ^ 64 = 0"
    by (metis (no_types, opaque_lifting) add_diff_cancel_right' diff_self mod_0 mod_diff_left_eq)
  then have "2 ^ 64 dvd x" by presburger
  then show "x = 0" using assms zdvd_not_zless [of "\<bar>x\<bar>" "2 ^ 64"] by (cases "x = 0") auto
qed (simp add: wrap64_def)

lemma i64_sub_eq_0_iff [simp]:
  "in_i64 a \<Longrightarrow> in_i64 b \<Longrightarrow> i64_sub a b = 0 \<longleftrightarrow> a = b"
  unfolding i64_sub_def by (subst wrap64_eq_0_iff) (auto simp: in_i64_def)

lemma i64_sub_exact: "in_i64 (a - b) \<Longrightarrow> i64_sub a b = a - b"
  by (simp add: i64_sub_def)

lemma i64_add_exact: "in_i64 (a + b) \<Longrightarrow> i64_add a b = a + b"
  by (simp add: i64_add_def)

lemma i64_neg_exact: "in_i64 (- a) \<Longrightarrow> i64_neg a = - a"
  by (simp add: i64_neg_def)

lemma in_i64_diff_nonneg: "in_i64 a \<Longrightarrow> in_i64 b \<Longrightarrow> 0 \<le> a \<Longrightarrow> 0 \<le> b \<Longrightarrow> in_i64 (a - b)"
  by (auto simp: in_i64_def)

text \<open>128-bit arithmetic, where 64-bit operands are widened first.\<close>

definition in_i128 :: "int \<Rightarrow> bool" where
  "in_i128 x \<longleftrightarrow> - (2 ^ 127) \<le> x \<and> x < 2 ^ 127"

definition wrap128 :: "int \<Rightarrow> int" where
  "wrap128 x = (x + 2 ^ 127) mod 2 ^ 128 - 2 ^ 127"

lemma wrap128_id: "in_i128 x \<Longrightarrow> wrap128 x = x"
  by (simp add: wrap128_def in_i128_def)

lemma in_i64_0 [simp]: "in_i64 0" and in_i64_1 [simp]: "in_i64 1"
  by (simp_all add: in_i64_def)

lemma in_i64_numeral: "in_i64 (numeral n) \<longleftrightarrow> numeral n < (2 ^ 63 :: int)"
  by (auto simp: in_i64_def intro: order_trans [of _ 0])

text \<open>
  A \<open>f64\<close> where the code only compares: a NaN, the infinities, and the finite doubles, each of
  which is a rational.  \<open>0.0\<close> and \<open>-0.0\<close> compare equal and are one value here.
\<close>

datatype f64 = NaN | NegInf | Fin rat | PosInf

fun f64_lt :: "f64 \<Rightarrow> f64 \<Rightarrow> bool" where
  "f64_lt NaN y = False"
| "f64_lt x NaN = False"
| "f64_lt NegInf y = (y \<noteq> NegInf)"
| "f64_lt x NegInf = False"
| "f64_lt PosInf y = False"
| "f64_lt x PosInf = True"
| "f64_lt (Fin a) (Fin b) = (a < b)"

definition f64_eq :: "f64 \<Rightarrow> f64 \<Rightarrow> bool" where
  "f64_eq x y \<longleftrightarrow> x \<noteq> NaN \<and> x = y"

definition f64_le :: "f64 \<Rightarrow> f64 \<Rightarrow> bool" where
  "f64_le x y \<longleftrightarrow> f64_lt x y \<or> f64_eq x y"

lemma f64_lt_irrefl [simp]: "\<not> f64_lt x x"
  by (cases x) auto

lemma f64_lt_trans: "f64_lt x y \<Longrightarrow> f64_lt y z \<Longrightarrow> f64_lt x z"
  by (cases x; cases y; cases z) auto

lemma f64_lt_NaN [simp]: "\<not> f64_lt NaN y" "\<not> f64_lt x NaN"
  by (cases y; simp) (cases x; simp)

lemma f64_linear: "x \<noteq> NaN \<Longrightarrow> y \<noteq> NaN \<Longrightarrow> \<not> f64_lt x y \<Longrightarrow> f64_le y x"
  by (cases x; cases y) (auto simp: f64_le_def f64_eq_def)

lemma f64_le_refl [simp]: "x \<noteq> NaN \<Longrightarrow> f64_le x x"
  by (simp add: f64_le_def f64_eq_def)

lemma f64_le_trans: "f64_le x y \<Longrightarrow> f64_le y z \<Longrightarrow> f64_le x z"
  by (auto simp: f64_le_def f64_eq_def dest: f64_lt_trans)

section \<open>Errors and the ? operator\<close>

text \<open>
  \<open>ApiError\<close>.  The payloads of the database and pool errors are values of third-party
  types and are left out; no code reads them except to log.  \<open>Panicked\<close> is not a variant of
  \<open>ApiError\<close>: it stands for a handler that panicked (a failed \<open>expect\<close>), so that its absence
  can be proved.
\<close>

datatype api_error =
    Database
  | Pool
  | Configuration string
  | NoTenant
  | Unauthenticated
  | NotFound
  | Forbidden string
  | Rejected string
  | Panicked

text \<open>\<open>status_code\<close>: the HTTP status of each class.\<close>

fun status_code :: "api_error \<Rightarrow> nat" where
  "status_code NoTenant = 400"
| "status_code (Rejected d) = 400"
| "status_code Unauthenticated = 401"
| "status_code NotFound = 404"
| "status_code (Forbidden d) = 403"
| "status_code _ = 500"

text \<open>\<open>error_response\<close>: the class and, for two variants only, a detail.\<close>

fun error_body :: "api_error \<Rightarrow> string \<times> string option" where
  "error_body NoTenant = (''no tenant on the request'', None)"
| "error_body Unauthenticated = (''not signed in'', None)"
| "error_body NotFound = (''not found'', None)"
| "error_body (Rejected d) = (''rejected'', Some d)"
| "error_body (Forbidden d) = (''forbidden'', Some d)"
| "error_body _ = (''internal error'', None)"

text \<open>\<open>e?\<close> followed by the rest of the function.\<close>

definition and_then :: "'e + 'a \<Rightarrow> ('a \<Rightarrow> 'e + 'b) \<Rightarrow> 'e + 'b" where
  "and_then m f = (case m of Inl e \<Rightarrow> Inl e | Inr x \<Rightarrow> f x)"

lemma and_then_simps [simp]:
  "and_then (Inl e) f = Inl e"
  "and_then (Inr x) f = f x"
  by (simp_all add: and_then_def)

lemma and_then_eq_Inr [result_simps]:
  "and_then m f = Inr y \<longleftrightarrow> (\<exists>x. m = Inr x \<and> f x = Inr y)"
  by (cases m) simp_all

lemma and_then_eq_Inl [result_simps]:
  "and_then m f = Inl e \<longleftrightarrow> m = Inl e \<or> (\<exists>x. m = Inr x \<and> f x = Inl e)"
  by (cases m) auto

lemma and_then_cong [fundef_cong]:
  "m = m' \<Longrightarrow> (\<And>x. m' = Inr x \<Longrightarrow> f x = g x) \<Longrightarrow> and_then m f = and_then m' g"
  by (cases m') simp_all

text \<open>\<open>Option::ok_or\<close> and \<open>if c { return Err(e) }\<close>.\<close>

definition ok_or :: "'a option \<Rightarrow> 'e \<Rightarrow> 'e + 'a" where
  "ok_or x e = (case x of None \<Rightarrow> Inl e | Some y \<Rightarrow> Inr y)"

lemma ok_or_simps [simp]: "ok_or None e = Inl e" "ok_or (Some y) e = Inr y"
  by (simp_all add: ok_or_def)

lemma ok_or_eq_Inr [result_simps]: "ok_or x e = Inr y \<longleftrightarrow> x = Some y"
  by (cases x) simp_all

definition guard :: "bool \<Rightarrow> 'e \<Rightarrow> 'e + unit" where
  "guard c e = (if c then Inr () else Inl e)"

lemma guard_simps [simp]: "guard True e = Inr ()" "guard False e = Inl e"
  by (simp_all add: guard_def)

lemma guard_eq_Inr [result_simps]: "guard c e = Inr u \<longleftrightarrow> c"
  by (simp add: guard_def)

text \<open>
  How every write path treats the problems its decision procedure reports: any hard one rejects
  the request with their texts joined, and the soft ones become warnings.
\<close>

definition hard_or_warnings ::
  "('p \<Rightarrow> bool) \<Rightarrow> (string list \<Rightarrow> string) \<Rightarrow> ('p \<Rightarrow> string) \<Rightarrow> 'p list \<Rightarrow> api_error + string list" where
  "hard_or_warnings is_hard joined show problems =
     (let hard = map show (filter is_hard problems) in
      if hard \<noteq> [] then Inl (Rejected (joined hard))
      else Inr (map show (filter (\<lambda>p. \<not> is_hard p) problems)))"

lemma hard_or_warnings_Inr [result_simps]:
  "hard_or_warnings h j sh ps = Inr ws \<longleftrightarrow> filter h ps = [] \<and> ws = map sh ps"
  by (auto simp: hard_or_warnings_def Let_def filter_empty_conv intro!: arg_cong [of _ _ "map sh"]
      filter_True)

lemma hard_or_warnings_Inl:
  "hard_or_warnings h j sh ps = Inl e \<longleftrightarrow>
   filter h ps \<noteq> [] \<and> e = Rejected (j (map sh (filter h ps)))"
  by (auto simp: hard_or_warnings_def Let_def)

section \<open>Text\<close>

definition digit_char :: "nat \<Rightarrow> char" where
  "digit_char d = char_of (48 + d)"

fun show_nat :: "nat \<Rightarrow> string" where
  "show_nat n = (if n < 10 then [digit_char n] else show_nat (n div 10) @ [digit_char (n mod 10)])"

declare show_nat.simps [simp del]

definition show_int :: "int \<Rightarrow> string" where
  "show_int i = (if i < 0 then ''-'' @ show_nat (nat (- i)) else show_nat (nat i))"

text \<open>A \<open>Uuid\<close> prints as lower-case hexadecimal in groups of 8, 4, 4, 4 and 12.\<close>

definition hex_char :: "nat \<Rightarrow> char" where
  "hex_char d = (if d < 10 then char_of (48 + d) else char_of (87 + d))"

fun show_hex :: "nat \<Rightarrow> nat \<Rightarrow> string" where
  "show_hex 0 n = []"
| "show_hex (Suc w) n = show_hex w (n div 16) @ [hex_char (n mod 16)]"

definition show_uuid :: "uuid \<Rightarrow> string" where
  "show_uuid u = (let h = show_hex 32 (unat u) in
     take 8 h @ ''-'' @ take 4 (drop 8 h) @ ''-'' @ take 4 (drop 12 h) @ ''-''
       @ take 4 (drop 16 h) @ ''-'' @ drop 20 h)"

text \<open>\<open>Vec<String>::join(sep)\<close>.\<close>

fun join :: "string \<Rightarrow> string list \<Rightarrow> string" where
  "join sep [] = []"
| "join sep [x] = x"
| "join sep (x # y # zs) = x @ sep @ join sep (y # zs)"

text \<open>
  \<open>str::trim\<close>.  A string is its UTF-8 bytes; Unicode \<open>White_Space\<close> is the ASCII blanks and the
  multi-byte sequences of U+0085, U+00A0, U+1680, U+2000 to U+200A, U+2028, U+2029, U+202F,
  U+205F and U+3000.
\<close>

definition wide_blanks :: "nat list list" where
  "wide_blanks = [[194, 133], [194, 160], [225, 154, 128], [226, 128, 168], [226, 128, 169],
     [226, 128, 175], [226, 129, 159], [227, 128, 128]]
     @ map (\<lambda>k. [226, 128, 128 + k]) [0..<11]"

definition blank_len :: "nat list \<Rightarrow> nat" where
  \<comment> \<open>bytes of the blank a string starts with, 0 for none\<close>
  "blank_len bs =
     (if bs = [] then 0
      else if hd bs = 32 \<or> (9 \<le> hd bs \<and> hd bs \<le> 13) then 1
      else if take 2 bs \<in> set wide_blanks then 2
      else if take 3 bs \<in> set wide_blanks then 3
      else 0)"

definition blank_len_rev :: "nat list \<Rightarrow> nat" where
  \<comment> \<open>the same from the end, on the reversed bytes\<close>
  "blank_len_rev bs =
     (if bs = [] then 0
      else if hd bs = 32 \<or> (9 \<le> hd bs \<and> hd bs \<le> 13) then 1
      else if rev (take 2 bs) \<in> set wide_blanks then 2
      else if rev (take 3 bs) \<in> set wide_blanks then 3
      else 0)"

function strip_by :: "(nat list \<Rightarrow> nat) \<Rightarrow> string \<Rightarrow> string" where
  "strip_by len s =
     (let k = len (map of_char s) in if k = 0 \<or> s = [] then s else strip_by len (drop k s))"
  by pat_completeness auto
termination
  by (relation "measure (\<lambda>(_, s). length s)") auto

declare strip_by.simps [simp del]

definition trim :: "string \<Rightarrow> string" where
  "trim s = rev (strip_by blank_len_rev (rev (strip_by blank_len s)))"

lemma strip_by_Nil [simp]: "strip_by f [] = []"
  by (simp add: strip_by.simps)

lemma trim_Nil [simp]: "trim [] = []"
  by (simp add: trim_def)

section \<open>Orderings and sorting\<close>

text \<open>
  \<open>std::cmp::Ordering\<close>, \<open>Ord::cmp\<close> on a linear order, \<open>Ordering::then\<close>, and the stable
  \<open>slice::sort_by\<close>: insertion from the right keeps equal elements in their order, and for a
  total preorder the stable result is unique.
\<close>

datatype ordering = Less | Equal | Greater

definition cmp :: "'a::linorder \<Rightarrow> 'a \<Rightarrow> ordering" where
  "cmp a b = (if a < b then Less else if a = b then Equal else Greater)"

definition then_cmp :: "ordering \<Rightarrow> ordering \<Rightarrow> ordering" where
  "then_cmp x y = (if x = Equal then y else x)"

fun insort_by :: "('a \<Rightarrow> 'a \<Rightarrow> ordering) \<Rightarrow> 'a \<Rightarrow> 'a list \<Rightarrow> 'a list" where
  "insort_by c x [] = [x]"
| "insort_by c x (y # ys) = (if c x y \<noteq> Greater then x # y # ys else y # insort_by c x ys)"

definition sort_by :: "('a \<Rightarrow> 'a \<Rightarrow> ordering) \<Rightarrow> 'a list \<Rightarrow> 'a list" where
  "sort_by c xs = foldr (insort_by c) xs []"

lemma mset_insort_by [simp]: "mset (insort_by c x xs) = add_mset x (mset xs)"
  by (induction xs) auto

lemma mset_sort_by [simp]: "mset (sort_by c xs) = mset xs"
  by (induction xs) (auto simp: sort_by_def)

lemma set_sort_by [simp]: "set (sort_by c xs) = set xs"
  by (metis mset_sort_by set_mset_mset)

lemma length_sort_by [simp]: "length (sort_by c xs) = length xs"
  by (metis mset_sort_by size_mset)

lemma sort_by_eq_Nil [simp]: "sort_by c xs = [] \<longleftrightarrow> xs = []"
  by (metis length_0_conv length_sort_by)

lemma sort_by_Nil [simp]: "sort_by c [] = []"
  by (simp add: sort_by_def)

lemma insort_by_least: "\<forall>z \<in> set ys. c x z \<noteq> Greater \<Longrightarrow> insort_by c x ys = x # ys"
  by (cases ys) auto

lemma sort_by_sorted: "sorted_wrt (\<lambda>a b. c a b \<noteq> Greater) xs \<Longrightarrow> sort_by c xs = xs"
  by (induction xs) (auto simp: sort_by_def insort_by_least)

lemma sort_by_map: "sort_by c (map f xs) = map f (sort_by (\<lambda>a b. c (f a) (f b)) xs)"
proof -
  have "insort_by c (f x) (map f ys) = map f (insort_by (\<lambda>a b. c (f a) (f b)) x ys)" for x ys
    by (induction ys) auto
  then show ?thesis by (induction xs) (simp_all add: sort_by_def)
qed

text \<open>A comparator's contract, the precondition of \<open>sort_by\<close>: total and transitive.\<close>

locale comparator =
  fixes c :: "'a \<Rightarrow> 'a \<Rightarrow> ordering"
  assumes total: "c x y = Greater \<Longrightarrow> c y x \<noteq> Greater"
    and trans: "c x y \<noteq> Greater \<Longrightarrow> c y z \<noteq> Greater \<Longrightarrow> c x z \<noteq> Greater"
begin

lemma sorted_insort_by:
  "sorted_wrt (\<lambda>x y. c x y \<noteq> Greater) xs \<Longrightarrow>
   sorted_wrt (\<lambda>x y. c x y \<noteq> Greater) (insort_by c x xs)"
proof (induction xs)
  case (Cons y ys)
  have elems: "set (insort_by c x ys) = insert x (set ys)"
    by (metis mset_insort_by set_mset_add_mset_insert set_mset_mset)
  show ?case
  proof (cases "c x y = Greater")
    case True
    with Cons show ?thesis by (auto simp: elems dest: total)
  next
    case False
    moreover have "c x z \<noteq> Greater" if "z \<in> set ys" for z
      using that False Cons.prems trans [of x y z] by auto
    ultimately show ?thesis using Cons.prems by auto
  qed
qed simp

lemma sorted_sort_by: "sorted_wrt (\<lambda>x y. c x y \<noteq> Greater) (sort_by c xs)"
  by (induction xs) (auto simp: sort_by_def intro: sorted_insort_by)

lemma hd_sort_by_least:
  assumes "xs \<noteq> []" and "x \<in> set xs"
  shows "c (hd (sort_by c xs)) x \<noteq> Greater"
proof -
  obtain y ys where s: "sort_by c xs = y # ys"
    using assms(1) by (cases "sort_by c xs") auto
  have "x \<in> set (y # ys)" using assms(2) s by (metis set_sort_by)
  moreover have "sorted_wrt (\<lambda>x y. c x y \<noteq> Greater) (y # ys)"
    using sorted_sort_by [of xs] s by simp
  moreover have "c y y \<noteq> Greater" using total by blast
  ultimately show ?thesis using s by auto
qed

text \<open>Sorting is stable, so what a filter keeps is sorted as it was.\<close>

lemma filter_insort_by:
  assumes "sorted_wrt (\<lambda>a b. c a b \<noteq> Greater) xs"
  shows "filter P (insort_by c x xs) = (if P x then insort_by c x (filter P xs) else filter P xs)"
  using assms
proof (induction xs)
  case (Cons y ys)
  have "\<forall>z \<in> set (filter P ys). c x z \<noteq> Greater" if "c x y \<noteq> Greater"
    using that Cons.prems trans by auto
  then show ?case using Cons by (auto simp: insort_by_least)
qed simp

lemma filter_sort_by: "filter P (sort_by c xs) = sort_by c (filter P xs)"
proof (induction xs)
  case (Cons x xs)
  have "sort_by c (x # xs) = insort_by c x (sort_by c xs)" by (simp add: sort_by_def)
  moreover have "sort_by c (x # filter P xs) = insort_by c x (sort_by c (filter P xs))"
    by (simp add: sort_by_def)
  ultimately show ?case using Cons by (simp add: filter_insort_by [OF sorted_sort_by])
qed simp

text \<open>One more element: it comes first, or the first stays first.\<close>

lemma hd_sort_by_snoc:
  "xs \<noteq> [] \<Longrightarrow> hd (sort_by c (xs @ [e])) = e \<or> hd (sort_by c (xs @ [e])) = hd (sort_by c xs)"
proof (induction xs)
  case (Cons x xs)
  show ?case
  proof (cases "xs = []")
    case False
    obtain y ys where y: "sort_by c (xs @ [e]) = y # ys" by (cases "sort_by c (xs @ [e])") auto
    obtain z zs where z: "sort_by c xs = z # zs" using False by (cases "sort_by c xs") auto
    have "c e z \<noteq> Greater" if "y = e"
    proof -
      have "z \<in> set (xs @ [e])" using z by (metis UnI1 list.set_intros(1) set_append set_sort_by)
      then show ?thesis using hd_sort_by_least [of "xs @ [e]" z] y that by simp
    qed
    then show ?thesis
      using Cons.IH [OF False] y z trans [of x e z] by (auto simp: sort_by_def)
  qed (auto simp: sort_by_def)
qed simp

text \<open>Where no two elements compare equal both ways, the result depends on the multiset alone.\<close>

lemma sort_by_perm:
  assumes "mset xs = mset ys"
    and strict: "\<And>x y. x \<in> set xs \<Longrightarrow> y \<in> set xs \<Longrightarrow> c x y \<noteq> Greater \<Longrightarrow> c y x \<noteq> Greater \<Longrightarrow> x = y"
  shows "sort_by c xs = sort_by c ys"
proof -
  have uniq: "us = vs"
    if "mset us = mset vs" "set us \<subseteq> set xs"
      "sorted_wrt (\<lambda>x y. c x y \<noteq> Greater) us" "sorted_wrt (\<lambda>x y. c x y \<noteq> Greater) vs" for us vs
    using that
  proof (induction us arbitrary: vs)
    case (Cons u us)
    then obtain v vs' where vs: "vs = v # vs'" by (cases vs) auto
    have mem: "set (u # us) = set (v # vs')" using Cons.prems(1) vs by (metis set_mset_mset)
    have refl: "c a a \<noteq> Greater" for a using total by blast
    have "v \<in> set (u # us)" and "u \<in> set (v # vs')" using mem by auto
    then have "c u v \<noteq> Greater" and "c v u \<noteq> Greater"
      using Cons.prems(3,4) vs refl by auto
    moreover have "u \<in> set xs" "v \<in> set xs"
      using Cons.prems(2) \<open>v \<in> set (u # us)\<close> by auto
    ultimately have "u = v" using strict by blast
    with Cons vs show ?case by auto
  qed simp
  show ?thesis by (rule uniq) (use assms(1) in \<open>auto intro: sorted_sort_by\<close>)
qed

end

text \<open>\<open>Ord::cmp\<close> satisfies the contract, and so does \<open>then\<close> of two that do.\<close>

interpretation cmp_order: comparator "cmp :: 'a::linorder \<Rightarrow> 'a \<Rightarrow> ordering"
  by unfold_locales (auto simp: cmp_def split: if_splits)

text \<open>Sorting by a key, \<open>ORDER BY key\<close>.\<close>

interpretation cmp_on: comparator "\<lambda>x y. cmp (f x) (f y)" for f :: "'b \<Rightarrow> 'a::linorder"
  by unfold_locales (auto simp: cmp_def split: if_splits)

section \<open>Lists and lookups\<close>

lemma find_cong_on: "(\<And>x. x \<in> set xs \<Longrightarrow> P x = Q x) \<Longrightarrow> find P xs = find Q xs"
  by (induction xs) auto

lemma find_append: "find P (xs @ ys) = (case find P xs of None \<Rightarrow> find P ys | Some x \<Rightarrow> Some x)"
  by (induction xs) auto

lemma find_SomeD: "find P xs = Some x \<Longrightarrow> x \<in> set xs \<and> P x"
  by (induction xs) (auto split: if_splits)

lemma filter_eq_Nil_iff: "filter P xs = [] \<longleftrightarrow> (\<forall>x \<in> set xs. \<not> P x)"
  by (induction xs) auto

lemma if_single_Nil [check_defs]: "(if c then [x] else []) = [] \<longleftrightarrow> \<not> c"
  by simp

lemma list_ex_filter: "list_ex P xs \<longleftrightarrow> filter P xs \<noteq> []"
  by (induction xs) auto

lemma distinct_map_filter_single:
  assumes "distinct (map f xs)" and "x \<in> set xs" and "\<And>y. y \<in> set xs \<Longrightarrow> P y \<longleftrightarrow> f y = f x"
  shows "filter P xs = [x]"
  using assms
proof (induction xs)
  case (Cons a xs)
  show ?case
  proof (cases "x = a")
    case True
    with Cons.prems have "\<forall>y \<in> set xs. \<not> P y" by (auto simp: image_iff)
    with True Cons.prems show ?thesis by (auto simp: filter_eq_Nil_iff)
  next
    case False
    with Cons.prems have "\<not> P a" by (auto simp: image_iff)
    with False Cons show ?thesis by auto
  qed
qed simp

end
