(* ===== verification/Policy.thy ===== *)
theory Policy
  imports Prelude
begin

text \<open>
  The policy resolver, \<^verbatim>\<open>crates/policy/src/lib.rs\<close>: the precedence order each kind declares
  over the six dimensions, the winner among the bindings that match, the sentence that explains
  it, and the clamps a less specific binding puts on the winner's values.  Depths are \<open>i32\<close> that
  are only compared, so they are \<open>int\<close>; the values clamped are \<open>f64\<close> that are only compared.
\<close>

section \<open>Dimensions and kinds\<close>

datatype dimension = Tenancy | Product | Counterparty | Space | Ownership | Metric

text \<open>\<open>#[derive(PartialOrd, Ord)]\<close>: the order of declaration.\<close>

fun dimension_rank :: "dimension \<Rightarrow> nat" where
  "dimension_rank Tenancy = 0"
| "dimension_rank Product = 1"
| "dimension_rank Counterparty = 2"
| "dimension_rank Space = 3"
| "dimension_rank Ownership = 4"
| "dimension_rank Metric = 5"

lemma dimension_rank_inj [simp]: "dimension_rank a = dimension_rank b \<longleftrightarrow> a = b"
  by (cases a; cases b) simp_all

instantiation dimension :: linorder
begin

definition less_eq_dimension :: "dimension \<Rightarrow> dimension \<Rightarrow> bool" where
  "less_eq_dimension a b \<longleftrightarrow> dimension_rank a \<le> dimension_rank b"

definition less_dimension :: "dimension \<Rightarrow> dimension \<Rightarrow> bool" where
  "less_dimension a b \<longleftrightarrow> dimension_rank a < dimension_rank b"

instance
proof
  fix a b :: dimension
  show "a \<le> b \<Longrightarrow> b \<le> a \<Longrightarrow> a = b"
    by (metis dimension_rank_inj le_antisym less_eq_dimension_def)
qed (auto simp: less_eq_dimension_def less_dimension_def)

end

fun dimension_name :: "dimension \<Rightarrow> string" where
  "dimension_name Tenancy = ''tenancy''"
| "dimension_name Product = ''product''"
| "dimension_name Counterparty = ''counterparty''"
| "dimension_name Space = ''space''"
| "dimension_name Ownership = ''ownership''"
| "dimension_name Metric = ''metric''"

datatype policy_kind =
    Allocation | Putaway | Receiving | OrderTolerance | CountTolerance | ShelfLife
  | Sampling | CycleCount | Specification | ObservationPrecedence | ObservationAcceptance

definition all_kinds :: "policy_kind list" where
  "all_kinds = [Allocation, Putaway, Receiving, OrderTolerance, CountTolerance, ShelfLife,
     Sampling, CycleCount, Specification, ObservationPrecedence, ObservationAcceptance]"

fun as_str :: "policy_kind \<Rightarrow> string" where
  "as_str Allocation = ''allocation''"
| "as_str Putaway = ''putaway''"
| "as_str Receiving = ''receiving''"
| "as_str OrderTolerance = ''order_tolerance''"
| "as_str CountTolerance = ''count_tolerance''"
| "as_str ShelfLife = ''shelf_life''"
| "as_str Sampling = ''sampling''"
| "as_str CycleCount = ''cycle_count''"
| "as_str Specification = ''specification''"
| "as_str ObservationPrecedence = ''observation_precedence''"
| "as_str ObservationAcceptance = ''observation_acceptance''"

fun dimensions :: "policy_kind \<Rightarrow> dimension list" where
  "dimensions Allocation = [Tenancy, Counterparty, Product, Space, Ownership, Metric]"
| "dimensions Putaway = [Tenancy, Product, Space, Counterparty, Ownership, Metric]"
| "dimensions Receiving = [Tenancy, Counterparty, Product, Space, Ownership, Metric]"
| "dimensions OrderTolerance = [Tenancy, Counterparty, Product, Space, Ownership, Metric]"
| "dimensions CountTolerance = [Tenancy, Product, Space, Counterparty, Ownership, Metric]"
| "dimensions ShelfLife = [Tenancy, Counterparty, Product, Space, Ownership, Metric]"
| "dimensions Sampling = [Tenancy, Product, Counterparty, Space, Ownership, Metric]"
| "dimensions CycleCount = [Tenancy, Product, Space, Counterparty, Ownership, Metric]"
| "dimensions Specification = [Tenancy, Metric, Product, Counterparty, Space, Ownership]"
| "dimensions ObservationPrecedence = [Tenancy, Metric, Counterparty, Product, Space, Ownership]"
| "dimensions ObservationAcceptance = [Tenancy, Counterparty, Metric, Product, Space, Ownership]"

fun rationale :: "policy_kind \<Rightarrow> string" where
  "rationale Allocation =
     ''Counterparty first. Which stock may be picked for a demand is mostly a '' @
     ''promise to a named customer -- no mixed lots, minimum life on arrival, this '' @
     ''brand only -- and a promise beats a product default. Product is second '' @
     ''because the rest of allocation is about what the goods are. Ownership last '' @
     ''today and the first candidate to move: for a 3PL client the owner authors '' @
     ''the rule, which is questions 65 and 81.''"
| "rationale Putaway =
     ''Product over Space, which is one of the two orderings the record already '' @
     ''asserts. Where a thing may be put follows from what it is -- temperature, '' @
     ''hazard, weight, velocity -- and the site constrains what is available '' @
     ''rather than what is suitable. A zone rule that beat a product rule would '' @
     ''let a layout change silently relax a handling requirement.''"
| "rationale Receiving =
     ''Counterparty first, because receiving discipline is a statement about a '' @
     ''supplier: this one short-ships, count every pallet; that one is trusted, '' @
     ''sample. Product second for what the goods demand on arrival. A site cannot '' @
     ''know a supplier is unreliable, which is why Space is third rather than '' @
     ''second.''"
| "rationale OrderTolerance =
     ''Counterparty first. An over- or under-delivery tolerance is a commercial '' @
     ''term, agreed with one party and quoted back in a dispute, so it must not be '' @
     ''overridden by a product default. This is the same argument as ShelfLife and '' @
     ''the two should move together.''"
| "rationale CountTolerance =
     ''Product first, and this one is deliberately not Counterparty. How much '' @
     ''variance a count may show is a property of the goods -- countability, unit '' @
     ''value, whether they are weighed or scanned -- and stock being counted is '' @
     ''ours whoever sold it to us. Space is second because a bulk zone and a pick '' @
     ''face are counted differently. Counterparty is nearly inert here and is '' @
     ''third only to keep it declarable.''"
| "rationale ShelfLife =
     ''Counterparty over Product, the other ordering the record already asserts. A '' @
     ''customer requiring ninety days remaining means it for every line they buy, '' @
     ''and a product's default life is what applies when nobody has negotiated. '' @
     ''Reversing this would let a catalogue edit quietly break a contract.''"
| "rationale Sampling =
     ''Product first, because a sampling regime follows the hazard: an allergen or '' @
     ''a chilled line is sampled on what it is, not on who sent it. Counterparty '' @
     ''second and close behind -- supplier risk is the standard modifier, and a '' @
     ''new supplier is sampled harder -- which is why this is the one ordering '' @
     ''where the top two are genuinely arguable and the argument is recorded '' @
     ''rather than settled by taste.''"
| "rationale CycleCount =
     ''Product first for value and velocity, Space second for how the location '' @
     ''behaves. Counting cadence is an internal discipline; no counterparty has a '' @
     ''view on it, so Counterparty sits below both.''"
| "rationale Specification =
     ''Metric first, and this is the ordering most likely to surprise. A '' @
     ''specification is a statement about one attribute -- two to eight degrees, '' @
     ''under fifteen percent moisture -- so a binding that names the attribute is '' @
     ''speaking about the thing being specified, and one that does not is a '' @
     ''default for everything measurable. Product second, because the attribute is '' @
     ''a property of the goods. A statutory limit a customer must not be able to '' @
     ''loosen is not modelled by precedence at all: it is a platform-shipped '' @
     ''clamp, which D22 provides.''"
| "rationale ObservationPrecedence =
     ''Metric first, straight from D23's own example: 'trust supplier dimensions '' @
     ''for items we have never measured, but never trust their weight over our '' @
     ''scale.' That is a rule about which metric, and it cannot be expressed if '' @
     ''Counterparty outranks Metric. Counterparty second, because the rest of the '' @
     ''sentence is about whose number it is. D78's maintainer applies a default in '' @
     ''place of this until the kind is built.''"
| "rationale ObservationAcceptance =
     ''Counterparty first, inverting the kind above it, and the inversion is the '' @
     ''point. Whether a declared value needs a human to accept it is a question '' @
     ''about trust in a party -- this supplier's weights go straight in, that '' @
     ''one's are checked -- where which value wins once accepted is a question '' @
     ''about the metric.''"

declare rationale.simps [simp del]

text \<open>\<open>Vec::sort\<close> followed by \<open>Vec::dedup\<close>, which drops consecutive repeats.\<close>

definition ordering_is_well_formed :: "policy_kind \<Rightarrow> string + unit" where
  "ordering_is_well_formed kind =
     (let dims = dimensions kind in
      if (case dims of [] \<Rightarrow> None | d # _ \<Rightarrow> Some d) \<noteq> Some Tenancy then
        Inl (as_str kind @
          '': tenancy is not index 0, so a platform default could outrank a tenant's own configuration'')
      else
        let seen = remdups_adj (sort dims) in
        if length seen \<noteq> length dims then Inl (as_str kind @ '': a dimension is named twice'')
        else if length seen \<noteq> 6 then
          Inl (as_str kind @ '': names '' @ show_nat (length seen) @
            '' dimensions, not six, so some bindings cannot be ordered'')
        else Inr ())"

lemma dimensions_hd: "hd (dimensions k) = Tenancy" and
  dimensions_not_Nil [simp]: "dimensions k \<noteq> []" and
  dimensions_distinct [simp]: "distinct (dimensions k)" and
  set_dimensions [simp]: "set (dimensions k) = {Tenancy, Product, Counterparty, Space, Ownership, Metric}"
  by (cases k; auto)+

lemma set_dimensions_UNIV: "d \<in> set (dimensions k)"
  by (cases d) simp_all

section \<open>Resolution\<close>

record candidate =
  binding :: "128 word"
  tenancy :: int
  product_depth :: int
  counterparty :: int
  space :: int
  ownership :: int
  metric :: int

fun on :: "candidate \<Rightarrow> dimension \<Rightarrow> int" where
  "on c Tenancy = tenancy c"
| "on c Product = product_depth c"
| "on c Counterparty = counterparty c"
| "on c Space = space c"
| "on c Ownership = ownership c"
| "on c Metric = metric c"

record resolution =
  winner :: candidate
  decided_on :: "dimension option"
  runner_up :: "candidate option"
  ambiguous_with :: "candidate list"

text \<open>The comparator \<open>better\<close>: deeper first on each dimension in turn, then the lower id.\<close>

fun better :: "dimension list \<Rightarrow> candidate \<Rightarrow> candidate \<Rightarrow> ordering" where
  "better [] a b = cmp (binding a) (binding b)"
| "better (d # ds) a b =
     (case cmp (on b d) (on a d) of
        Equal \<Rightarrow> better ds a b
      | other \<Rightarrow> other)"

definition resolve :: "policy_kind \<Rightarrow> candidate list \<Rightarrow> resolution option" where
  "resolve kind candidates =
     (let dims = dimensions kind;
          ranked = sort_by (better dims) candidates
      in case ranked of
           [] \<Rightarrow> None
         | w # rest \<Rightarrow>
             let r_up = (case rest of [] \<Rightarrow> None | r # _ \<Rightarrow> Some r);
                 decided = Option.bind r_up (\<lambda>r. find (\<lambda>d. on w d \<noteq> on r d) dims);
                 ambiguous = filter (\<lambda>c. list_all (\<lambda>d. on c d = on w d) dims) rest
             in Some \<lparr>winner = w, decided_on = decided, runner_up = r_up,
                      ambiguous_with = ambiguous\<rparr>)"

definition explain :: "policy_kind \<Rightarrow> resolution \<Rightarrow> string" where
  "explain kind r =
     (if ambiguous_with r \<noteq> [] then
        show_nat (length (ambiguous_with r) + 1) @ '' bindings are equally specific for '' @
        as_str kind @
        ''; the lowest id was taken and this is a discrepancy, not a decision''
      else case (decided_on r, runner_up r) of
        (Some d, Some _) \<Rightarrow>
          ''won on '' @ dimension_name d @ '', which outranks the rest for '' @ as_str kind @
          '' because '' @ rationale kind
      | _ \<Rightarrow> ''the only binding matching this request for '' @ as_str kind)"

text \<open>
  What the comparator decides, without running it: \<open>a\<close> is ahead of \<open>b\<close> when some dimension
  separates them in \<open>a\<close>'s favour and every dimension before it does not separate them.
\<close>

definition deeper :: "dimension list \<Rightarrow> candidate \<Rightarrow> candidate \<Rightarrow> bool" where
  "deeper dims a b \<longleftrightarrow>
     (\<exists>pre d post. dims = pre @ d # post \<and> (\<forall>e \<in> set pre. on a e = on b e) \<and> on b d < on a d)"

definition tied :: "dimension list \<Rightarrow> candidate \<Rightarrow> candidate \<Rightarrow> bool" where
  "tied dims a b \<longleftrightarrow> (\<forall>d \<in> set dims. on a d = on b d)"

lemma deeper_Nil [simp]: "\<not> deeper [] a b"
  by (simp add: deeper_def)

lemma deeper_Cons [simp]:
  "deeper (d # ds) a b \<longleftrightarrow> on b d < on a d \<or> (on a d = on b d \<and> deeper ds a b)"
proof
  assume "deeper (d # ds) a b"
  then obtain pre e post where "d # ds = pre @ e # post" "\<forall>x \<in> set pre. on a x = on b x"
    "on b e < on a e" unfolding deeper_def by blast
  then show "on b d < on a d \<or> (on a d = on b d \<and> deeper ds a b)"
    by (cases pre) (auto simp: deeper_def)
next
  assume "on b d < on a d \<or> (on a d = on b d \<and> deeper ds a b)"
  then show "deeper (d # ds) a b"
  proof
    assume "on b d < on a d"
    then show ?thesis unfolding deeper_def by (intro exI [of _ "[]"]) auto
  next
    assume *: "on a d = on b d \<and> deeper ds a b"
    then obtain pre e post where "ds = pre @ e # post" "\<forall>x \<in> set pre. on a x = on b x"
      "on b e < on a e" unfolding deeper_def by blast
    with * show ?thesis unfolding deeper_def by (intro exI [of _ "d # pre"]) auto
  qed
qed

lemma tied_Cons [simp]: "tied (d # ds) a b \<longleftrightarrow> on a d = on b d \<and> tied ds a b"
  by (simp add: tied_def)

lemma tied_Nil [simp]: "tied [] a b"
  by (simp add: tied_def)

lemma better_not_Greater:
  "better ds a b \<noteq> Greater \<longleftrightarrow> deeper ds a b \<or> (tied ds a b \<and> binding a \<le> binding b)"
  by (induction ds) (auto simp: cmp_def)

lemma deeper_trans: "deeper ds a b \<Longrightarrow> deeper ds b c \<Longrightarrow> deeper ds a c"
  by (induction ds) auto

lemma deeper_tied: "deeper ds a b \<Longrightarrow> tied ds b c \<Longrightarrow> deeper ds a c"
  "tied ds a b \<Longrightarrow> deeper ds b c \<Longrightarrow> deeper ds a c"
  by (induction ds) auto

lemma deeper_total: "deeper ds a b \<or> tied ds a b \<or> deeper ds b a"
  by (induction ds) auto

lemma tied_sym: "tied ds a b \<longleftrightarrow> tied ds b a"
  by (auto simp: tied_def)

lemma tied_trans: "tied ds a b \<Longrightarrow> tied ds b c \<Longrightarrow> tied ds a c"
  by (auto simp: tied_def)

lemma deeper_asym: "deeper ds a b \<Longrightarrow> \<not> deeper ds b a"
  by (induction ds) auto

lemma deeper_not_tied: "deeper ds a b \<Longrightarrow> \<not> tied ds a b" "deeper ds a b \<Longrightarrow> \<not> tied ds b a"
  by (induction ds) auto

text \<open>\<open>better\<close> meets the contract of \<open>sort_by\<close>, whatever dimensions it is given.\<close>

interpretation ranking: comparator "better dims" for dims
proof
  fix x y z
  show "better dims x y = Greater \<Longrightarrow> better dims y x \<noteq> Greater"
    using better_not_Greater [of dims x y] better_not_Greater [of dims y x]
      deeper_total [of dims x y] tied_sym [of dims x y] by auto
  show "better dims x y \<noteq> Greater \<Longrightarrow> better dims y z \<noteq> Greater \<Longrightarrow> better dims x z \<noteq> Greater"
    unfolding better_not_Greater by (meson deeper_tied deeper_trans order_trans tied_trans)
qed

text \<open>Two candidates that tie on all six dimensions and carry one id are one candidate.\<close>

lemma tied_same_binding:
  assumes "tied (dimensions k) a b" and "binding a = binding b"
  shows "a = b"
proof -
  have "on a d = on b d" for d
    using assms(1) set_dimensions_UNIV unfolding tied_def by blast
  then have "on a Tenancy = on b Tenancy" "on a Product = on b Product"
    "on a Counterparty = on b Counterparty" "on a Space = on b Space"
    "on a Ownership = on b Ownership" "on a Metric = on b Metric" by blast+
  with assms(2) show ?thesis by simp
qed

lemma better_antisym:
  assumes "better (dimensions k) a b \<noteq> Greater" and "better (dimensions k) b a \<noteq> Greater"
  shows "a = b"
  using assms unfolding better_not_Greater
  by (metis deeper_asym deeper_not_tied(1) deeper_not_tied(2) order_antisym tied_same_binding)

lemma resolve_None_iff: "resolve k cs = None \<longleftrightarrow> cs = []"
  by (auto simp: resolve_def Let_def split: list.splits)

lemma resolve_SomeE:
  assumes "resolve k cs = Some r"
  obtains rest where "sort_by (better (dimensions k)) cs = winner r # rest"
    and "runner_up r = (case rest of [] \<Rightarrow> None | x # _ \<Rightarrow> Some x)"
    and "decided_on r =
           Option.bind (runner_up r) (\<lambda>x. find (\<lambda>d. on (winner r) d \<noteq> on x d) (dimensions k))"
    and "ambiguous_with r = filter (\<lambda>c. tied (dimensions k) c (winner r)) rest"
  using assms unfolding resolve_def Let_def tied_def list_all_iff
  by (cases "sort_by (better (dimensions k)) cs") auto

lemma resolve_Some_exists: "cs \<noteq> [] \<Longrightarrow> \<exists>r. resolve k cs = Some r"
  by (metis not_None_eq resolve_None_iff)

lemma winner_not_worse:
  assumes "resolve k cs = Some r" and "c \<in> set cs"
  shows "better (dimensions k) (winner r) c \<noteq> Greater"
proof -
  obtain rest where "sort_by (better (dimensions k)) cs = winner r # rest"
    using assms(1) by (rule resolve_SomeE)
  then have "winner r = hd (sort_by (better (dimensions k)) cs)" by simp
  moreover have "cs \<noteq> []" using assms(2) by auto
  ultimately show ?thesis using ranking.hd_sort_by_least assms(2) by metis
qed

lemma winner_in: "resolve k cs = Some r \<Longrightarrow> winner r \<in> set cs"
  by (metis list.set_intros(1) resolve_SomeE set_sort_by)

lemma find_first_difference:
  assumes "deeper ds a b"
  obtains pre d post where "ds = pre @ d # post" "\<forall>e \<in> set pre. on a e = on b e"
    "on b d < on a d" "find (\<lambda>d. on a d \<noteq> on b d) ds = Some d"
proof -
  from assms obtain pre d post where
    d: "ds = pre @ d # post" "\<forall>e \<in> set pre. on a e = on b e" "on b d < on a d"
    unfolding deeper_def by blast
  moreover have "find (\<lambda>d. on a d \<noteq> on b d) pre = None"
    using d(2) by (auto simp: find_None_iff)
  ultimately have "find (\<lambda>d. on a d \<noteq> on b d) ds = Some d"
    by (simp add: find_append)
  with d show ?thesis by (rule that)
qed

lemma find_difference_None: "find (\<lambda>d. on a d \<noteq> on b d) ds = None \<longleftrightarrow> tied ds a b"
  by (auto simp: find_None_iff tied_def)

text \<open>
  resolution picks the most specific binding.  With at least one binding matching there is a
  winner; it is one of the bindings, and against every binding it is strictly deeper on the first
  dimension (in the kind's declared order) that separates them, or it ties on all six dimensions
  and has the lower id.
\<close>

theorem resolve_winner_outranks:
  assumes "cs \<noteq> []"
  shows "\<exists>r. resolve k cs = Some r \<and> winner r \<in> set cs \<and>
           (\<forall>c \<in> set cs. deeper (dimensions k) (winner r) c \<or>
              (tied (dimensions k) (winner r) c \<and> binding (winner r) \<le> binding c))"
proof -
  obtain r where r: "resolve k cs = Some r" using assms resolve_Some_exists by blast
  then show ?thesis
    using winner_in winner_not_worse unfolding better_not_Greater by blast
qed

theorem resolve_winner_outranks_witness:
  "\<exists>r. resolve ShelfLife [\<lparr>binding = 1, tenancy = 1, product_depth = 1000, counterparty = 0,
      space = 0, ownership = 0, metric = 0\<rparr>] = Some r \<and> binding (winner r) = 1"
  using resolve_winner_outranks [of "[\<lparr>binding = 1, tenancy = 1, product_depth = 1000,
      counterparty = 0, space = 0, ownership = 0, metric = 0\<rparr>]" ShelfLife]
  by auto

text \<open>
  the answer does not depend on the order the database returned the bindings in.  When ids
  are not repeated, any permutation of the candidates resolves to the same winner, deciding
  dimension, runner-up and list of ties.
\<close>

theorem resolve_order_independent:
  assumes "mset cs = mset ds" and "distinct (map binding cs)"
  shows "resolve k cs = resolve k ds"
proof -
  have "sort_by (better (dimensions k)) cs = sort_by (better (dimensions k)) ds"
    using assms(1) by (rule ranking.sort_by_perm) (rule better_antisym)
  then show ?thesis by (simp only: resolve_def Let_def)
qed

theorem resolve_order_independent_witness:
  "resolve Putaway [\<lparr>binding = 1, tenancy = 1, product_depth = 0, counterparty = 2, space = 0,
      ownership = 0, metric = 0\<rparr>, \<lparr>binding = 2, tenancy = 1, product_depth = 5, counterparty = 0,
      space = 0, ownership = 0, metric = 0\<rparr>] =
   resolve Putaway [\<lparr>binding = 2, tenancy = 1, product_depth = 5, counterparty = 0, space = 0,
      ownership = 0, metric = 0\<rparr>, \<lparr>binding = 1, tenancy = 1, product_depth = 0, counterparty = 2,
      space = 0, ownership = 0, metric = 0\<rparr>]"
  by (rule resolve_order_independent) auto

text \<open>
  A tenant's own binding always beats a platform-shipped one.  For every kind, whatever the
  other depths, the winner's tenancy depth is the greatest of all candidates, so a candidate at
  tenancy depth 0 never wins while one at depth 1 matches.
\<close>

theorem tenant_beats_platform:
  assumes "resolve k cs = Some r" and "c \<in> set cs"
  shows "tenancy c \<le> tenancy (winner r)"
proof -
  obtain ds where ds: "dimensions k = Tenancy # ds"
    by (cases k) simp_all
  show ?thesis
    using winner_not_worse [OF assms] unfolding better_not_Greater ds by auto
qed

theorem tenant_beats_platform_witness:
  "\<exists>r. resolve Allocation [\<lparr>binding = 1, tenancy = 0, product_depth = 1000, counterparty = 0,
        space = 0, ownership = 0, metric = 0\<rparr>, \<lparr>binding = 2, tenancy = 1, product_depth = 0,
        counterparty = 0, space = 0, ownership = 0, metric = 0\<rparr>] = Some r \<and> 1 \<le> tenancy (winner r)"
proof -
  let ?cs = "[\<lparr>binding = 1, tenancy = 0, product_depth = 1000, counterparty = 0, space = 0,
      ownership = 0, metric = 0\<rparr>, \<lparr>binding = 2, tenancy = 1, product_depth = 0,
      counterparty = 0, space = 0, ownership = 0, metric = 0\<rparr>] :: candidate list"
  obtain r where "resolve Allocation ?cs = Some r" using resolve_Some_exists by blast
  moreover from this have "tenancy (?cs ! 1) \<le> tenancy (winner r)"
    by (rule tenant_beats_platform) simp
  ultimately show ?thesis by auto
qed

text \<open>
  the explanation names what decided.  With a runner-up, either the deciding dimension is the
  first one of the kind's order on which winner and runner-up differ and the winner is deeper
  there, or nothing decided and the two tie on all six; and the reported ambiguous bindings are
  exactly the candidates other than the winner that tie with it, so an undecided resolution is
  always reported as ambiguous.
\<close>

theorem resolve_explains:
  assumes r: "resolve k cs = Some r" and u: "runner_up r = Some u"
    and d: "distinct (map binding cs)"
  shows "(case decided_on r of
            None \<Rightarrow> tied (dimensions k) (winner r) u \<and> u \<in> set (ambiguous_with r)
          | Some d \<Rightarrow> \<exists>pre post. dimensions k = pre @ d # post \<and>
              (\<forall>e \<in> set pre. on (winner r) e = on u e) \<and> on u d < on (winner r) d) \<and>
         set (ambiguous_with r) = {c \<in> set cs. c \<noteq> winner r \<and> tied (dimensions k) c (winner r)}"
proof -
  obtain rest where s: "sort_by (better (dimensions k)) cs = winner r # rest"
    and up: "runner_up r = (case rest of [] \<Rightarrow> None | x # _ \<Rightarrow> Some x)"
    and dec: "decided_on r =
        Option.bind (runner_up r) (\<lambda>x. find (\<lambda>d. on (winner r) d \<noteq> on x d) (dimensions k))"
    and amb: "ambiguous_with r = filter (\<lambda>c. tied (dimensions k) c (winner r)) rest"
    using r by (rule resolve_SomeE)
  have perm: "mset cs = add_mset (winner r) (mset rest)" by (metis mset_sort_by s mset.simps(2))
  then have "mset (map binding cs) = mset (map binding (winner r # rest))" by simp
  then have "distinct (map binding (winner r # rest))" using d mset_eq_imp_distinct_iff by blast
  then have "winner r \<notin> set rest" by auto
  moreover have "set cs = insert (winner r) (set rest)" using perm
    by (metis set_mset_add_mset_insert set_mset_mset)
  ultimately have ambset:
    "set (ambiguous_with r) = {c \<in> set cs. c \<noteq> winner r \<and> tied (dimensions k) c (winner r)}"
    using amb by auto
  have "u \<in> set rest" using u up by (auto split: list.splits)
  then have "better (dimensions k) (winner r) u \<noteq> Greater"
    using winner_not_worse [OF r] \<open>set cs = insert (winner r) (set rest)\<close> by blast
  moreover have dec': "decided_on r = find (\<lambda>d. on (winner r) d \<noteq> on u d) (dimensions k)"
    using dec u by simp
  ultimately consider "deeper (dimensions k) (winner r) u" | "tied (dimensions k) (winner r) u"
    unfolding better_not_Greater by blast
  then have "case decided_on r of
            None \<Rightarrow> tied (dimensions k) (winner r) u \<and> u \<in> set (ambiguous_with r)
          | Some d \<Rightarrow> \<exists>pre post. dimensions k = pre @ d # post \<and>
              (\<forall>e \<in> set pre. on (winner r) e = on u e) \<and> on u d < on (winner r) d"
  proof cases
    case 1
    then obtain pre d post where "dimensions k = pre @ d # post"
      "\<forall>e \<in> set pre. on (winner r) e = on u e" "on u d < on (winner r) d"
      "find (\<lambda>d. on (winner r) d \<noteq> on u d) (dimensions k) = Some d"
      by (rule find_first_difference)
    then show ?thesis by (auto simp: dec')
  next
    case 2
    then have "decided_on r = None" using dec' find_difference_None by metis
    moreover have "u \<in> set (ambiguous_with r)"
      using 2 amb \<open>u \<in> set rest\<close> tied_sym by auto
    ultimately show ?thesis using 2 by simp
  qed
  with ambset show ?thesis by blast
qed

theorem resolve_explains_witness:
  "\<exists>r u. resolve ShelfLife [\<lparr>binding = 1, tenancy = 1, product_depth = 1000, counterparty = 0,
        space = 0, ownership = 0, metric = 0\<rparr>, \<lparr>binding = 2, tenancy = 1, product_depth = 0,
        counterparty = 1, space = 0, ownership = 0, metric = 0\<rparr>] = Some r \<and>
      runner_up r = Some u \<and> ambiguous_with r = []"
proof -
  let ?a = "\<lparr>binding = 1, tenancy = 1, product_depth = 1000, counterparty = 0, space = 0,
      ownership = 0, metric = 0\<rparr> :: candidate"
  let ?b = "\<lparr>binding = 2, tenancy = 1, product_depth = 0, counterparty = 1, space = 0,
      ownership = 0, metric = 0\<rparr> :: candidate"
  have r: "resolve ShelfLife [?a, ?b] = Some \<lparr>winner = ?b, decided_on = Some Counterparty,
      runner_up = Some ?a, ambiguous_with = []\<rparr>"
    by (simp add: resolve_def sort_by_def cmp_def Let_def)
  show ?thesis using resolve_explains [OF r, of ?a] r by auto
qed

section \<open>Clamps\<close>

datatype clamp = Floor | Ceiling

fun clamped_fields :: "policy_kind \<Rightarrow> (string \<times> clamp) list" where
  "clamped_fields ShelfLife = [(''min_shelf_life_days'', Floor), (''min_shelf_life_pct'', Floor)]"
| "clamped_fields Receiving =
     [(''respond_by_hours'', Ceiling), (''tolerance_over_pct'', Ceiling),
      (''tolerance_under_pct'', Ceiling), (''require_lot'', Floor)]"
| "clamped_fields ObservationPrecedence =
     [(''prefer_own'', Floor), (''accept_counterparty'', Ceiling)]"
| "clamped_fields _ = []"

record clamped =
  cl_field :: string
  cl_direction :: clamp
  winner_said :: f64
  applied :: f64
  bound_by :: "128 word"

type_synonym policy_value = "128 word \<times> string \<times> f64"

text \<open>\<open>binds\<close>: whether \<open>v\<close> is stricter than what is applied so far.\<close>

fun binds :: "clamp \<Rightarrow> f64 \<Rightarrow> f64 \<Rightarrow> bool" where
  "binds Floor v ap = f64_lt ap v"
| "binds Ceiling v ap = f64_lt v ap"

text \<open>The inner loop: the strictest of the other bindings' values of the field so far.\<close>

fun tighten :: "clamp \<Rightarrow> 128 word \<Rightarrow> string \<Rightarrow> policy_value list \<Rightarrow> f64 \<Rightarrow> 128 word \<Rightarrow> f64 \<times> 128 word" where
  "tighten dir win field [] ap by = (ap, by)"
| "tighten dir win field ((b, f, v) # vs) ap by =
     (if b = win \<or> f \<noteq> field then tighten dir win field vs ap by
      else if binds dir v ap then tighten dir win field vs v b
      else tighten dir win field vs ap by)"

definition winner_value :: "128 word \<Rightarrow> string \<Rightarrow> policy_value list \<Rightarrow> f64 option" where
  "winner_value win field values =
     map_option (\<lambda>(_, _, v). v) (find (\<lambda>(b, f, _). b = win \<and> f = field) values)"

fun clamp_loop :: "128 word \<Rightarrow> policy_value list \<Rightarrow> (string \<times> clamp) list \<Rightarrow> clamped list" where
  "clamp_loop win values [] = []"
| "clamp_loop win values ((field, dir) # fs) =
     (case winner_value win field values of
        None \<Rightarrow> clamp_loop win values fs
      | Some said \<Rightarrow>
          let (ap, by) = tighten dir win field values said win in
          (if \<not> f64_eq ap said
           then \<lparr>cl_field = field, cl_direction = dir, winner_said = said, applied = ap, bound_by = by\<rparr>
                  # clamp_loop win values fs
           else clamp_loop win values fs))"

definition apply_clamps :: "policy_kind \<Rightarrow> 128 word \<Rightarrow> policy_value list \<Rightarrow> clamped list" where
  "apply_clamps kind win values = clamp_loop win values (clamped_fields kind)"

text \<open>\<open>stricter dir x y\<close>: \<open>x\<close> is at least as strict as \<open>y\<close>.\<close>

fun as_strict :: "clamp \<Rightarrow> f64 \<Rightarrow> f64 \<Rightarrow> bool" where
  "as_strict Floor x y = f64_le y x"
| "as_strict Ceiling x y = f64_le x y"

lemma as_strict_refl: "x \<noteq> NaN \<Longrightarrow> as_strict dir x x"
  by (cases dir) simp_all

lemma as_strict_trans: "as_strict dir x y \<Longrightarrow> as_strict dir y z \<Longrightarrow> as_strict dir x z"
  by (cases dir) (auto intro: f64_le_trans)

lemma binds_as_strict: "binds dir v x \<Longrightarrow> as_strict dir v x"
  by (cases dir) (auto simp: f64_le_def)

lemma not_binds_as_strict: "v \<noteq> NaN \<Longrightarrow> x \<noteq> NaN \<Longrightarrow> \<not> binds dir v x \<Longrightarrow> as_strict dir x v"
  by (cases dir) (auto intro: f64_linear)

lemma tighten_spec:
  assumes "tighten dir win field vs ap by = (ap', by')" and "ap \<noteq> NaN"
    and "\<forall>(b, f, v) \<in> set vs. v \<noteq> NaN"
  shows "ap' \<noteq> NaN \<and> as_strict dir ap' ap \<and>
    (\<forall>(b, f, v) \<in> set vs. b \<noteq> win \<and> f = field \<longrightarrow> as_strict dir ap' v) \<and>
    ((ap', by') = (ap, by) \<or> (by' \<noteq> win \<and> (by', field, ap') \<in> set vs))"
  using assms
proof (induction vs arbitrary: ap "by")
  case Nil
  then show ?case by (simp add: as_strict_refl)
next
  case (Cons x vs)
  obtain b f v where x: "x = (b, f, v)" by (cases x) auto
  show ?case
  proof (cases "b \<noteq> win \<and> f = field \<and> binds dir v ap")
    case True
    then have "tighten dir win field vs v b = (ap', by')" and "v \<noteq> NaN"
      using Cons.prems x by auto
    from Cons.IH [OF this] Cons.prems(3) have
      IH: "ap' \<noteq> NaN" "as_strict dir ap' v"
        "\<forall>(b, f, v) \<in> set vs. b \<noteq> win \<and> f = field \<longrightarrow> as_strict dir ap' v"
        "(ap', by') = (v, b) \<or> (by' \<noteq> win \<and> (by', field, ap') \<in> set vs)"
      by auto
    moreover have "as_strict dir ap' ap"
      using IH(2) True binds_as_strict as_strict_trans by blast
    ultimately show ?thesis using True x by auto
  next
    case False
    then have "tighten dir win field vs ap by = (ap', by')"
      using Cons.prems(1) x by (auto split: if_splits)
    from Cons.IH [OF this Cons.prems(2)] Cons.prems(3) have
      IH: "ap' \<noteq> NaN" "as_strict dir ap' ap"
        "\<forall>(b, f, v) \<in> set vs. b \<noteq> win \<and> f = field \<longrightarrow> as_strict dir ap' v"
        "(ap', by') = (ap, by) \<or> (by' \<noteq> win \<and> (by', field, ap') \<in> set vs)"
      by auto
    moreover have "as_strict dir ap' v" if "b \<noteq> win" "f = field"
    proof -
      have "v \<noteq> NaN" and "\<not> binds dir v ap" using that False Cons.prems(3) x by auto
      then have "as_strict dir ap v" using Cons.prems(2) not_binds_as_strict by blast
      with IH(2) show ?thesis by (rule as_strict_trans)
    qed
    ultimately show ?thesis using x by auto
  qed
qed

lemma winner_value_not_NaN:
  "winner_value win field vs = Some x \<Longrightarrow> \<forall>(b, f, v) \<in> set vs. v \<noteq> NaN \<Longrightarrow> x \<noteq> NaN"
  by (auto simp: winner_value_def dest!: find_SomeD)

lemma clamp_loop_iff:
  "distinct (map fst fs) \<Longrightarrow>
   c \<in> set (clamp_loop win vs fs) \<longleftrightarrow>
     (cl_field c, cl_direction c) \<in> set fs \<and>
     winner_value win (cl_field c) vs = Some (winner_said c) \<and>
     tighten (cl_direction c) win (cl_field c) vs (winner_said c) win = (applied c, bound_by c) \<and>
     \<not> f64_eq (applied c) (winner_said c)"
proof (induction fs)
  case (Cons p fs)
  obtain field dir where p: "p = (field, dir)" by force
  have IH: "c \<in> set (clamp_loop win vs fs) \<longleftrightarrow>
     (cl_field c, cl_direction c) \<in> set fs \<and>
     winner_value win (cl_field c) vs = Some (winner_said c) \<and>
     tighten (cl_direction c) win (cl_field c) vs (winner_said c) win = (applied c, bound_by c) \<and>
     \<not> f64_eq (applied c) (winner_said c)"
    using Cons by auto
  have fresh: "(field, d) \<notin> set fs" for d using Cons.prems p by force
  show ?case
  proof (cases "winner_value win field vs")
    case None
    then show ?thesis using IH fresh p by auto
  next
    case (Some said)
    obtain ap bb where "tighten dir win field vs said win = (ap, bb)" by force
    then show ?thesis using Some IH fresh p by (cases c) auto
  qed
qed simp

lemma clamped_fields_distinct [simp]: "distinct (map fst (clamped_fields k))"
  by (cases k) simp_all

text \<open>
  C15: a clamp is the outer bound and nothing else moves.  With no NaN among the values, for a
  field the kind clamps and a value the winner gave: if the field is reported as moved, the
  applied value is at least as strict as the winner's and as every other binding's value of that
  field, and is the value of the binding named as binding it, which is not the winner; if it is
  not reported, the winner's own value is already as strict as every other binding's.
\<close>

theorem apply_clamps_outer_bound:
  assumes fields: "(field, dir) \<in> set (clamped_fields kind)"
    and said: "winner_value win field values = Some said"
    and no_nan: "\<forall>(b, f, v) \<in> set values. v \<noteq> NaN"
  shows "(\<forall>c \<in> set (apply_clamps kind win values). cl_field c = field \<longrightarrow>
            winner_said c = said \<and> as_strict dir (applied c) said \<and>
            (\<forall>(b, f, v) \<in> set values. b \<noteq> win \<and> f = field \<longrightarrow> as_strict dir (applied c) v) \<and>
            bound_by c \<noteq> win \<and> (bound_by c, field, applied c) \<in> set values) \<and>
         ((\<forall>c \<in> set (apply_clamps kind win values). cl_field c \<noteq> field) \<longrightarrow>
            (\<forall>(b, f, v) \<in> set values. b \<noteq> win \<and> f = field \<longrightarrow> as_strict dir said v))"
proof -
  obtain ap bb where t: "tighten dir win field values said win = (ap, bb)" by force
  have "said \<noteq> NaN" using said no_nan by (rule winner_value_not_NaN)
  note spec = tighten_spec [OF t this no_nan]
  have uniq: "d = dir" if "(field, d) \<in> set (clamped_fields kind)" for d
    using that fields by (meson clamped_fields_distinct eq_key_imp_eq_value)
  have moved: "(ap, bb) \<noteq> (said, win)" if "\<not> f64_eq ap said"
    using that \<open>said \<noteq> NaN\<close> by (auto simp: f64_eq_def)
  have iff: "c \<in> set (apply_clamps kind win values) \<and> cl_field c = field \<longleftrightarrow>
      c = \<lparr>cl_field = field, cl_direction = dir, winner_said = said, applied = ap, bound_by = bb\<rparr>
      \<and> \<not> f64_eq ap said" (is "?l c \<longleftrightarrow> ?r c") for c
  proof
    assume "?l c"
    then have c: "(field, cl_direction c) \<in> set (clamped_fields kind)"
      "winner_value win field values = Some (winner_said c)" "cl_field c = field"
      "tighten (cl_direction c) win field values (winner_said c) win = (applied c, bound_by c)"
      "\<not> f64_eq (applied c) (winner_said c)"
      unfolding apply_clamps_def clamp_loop_iff [OF clamped_fields_distinct] by auto
    have "cl_direction c = dir" using uniq c(1) .
    moreover have "winner_said c = said" using c(2) said by simp
    ultimately have "applied c = ap" "bound_by c = bb" using c(4) t by auto
    with c \<open>cl_direction c = dir\<close> \<open>winner_said c = said\<close> show "?r c" by (cases c) simp
  next
    assume "?r c"
    then show "?l c"
      unfolding apply_clamps_def clamp_loop_iff [OF clamped_fields_distinct]
      using fields said t by simp
  qed
  show ?thesis
  proof (cases "f64_eq ap said")
    case True
    then have "ap = said" by (simp add: f64_eq_def)
    moreover have "cl_field c \<noteq> field" if "c \<in> set (apply_clamps kind win values)" for c
      using iff [of c] that True by blast
    ultimately show ?thesis using spec by blast
  next
    case False
    let ?c = "\<lparr>cl_field = field, cl_direction = dir, winner_said = said, applied = ap, bound_by = bb\<rparr>"
    have "?c \<in> set (apply_clamps kind win values)" using iff [of ?c] False by blast
    moreover have "c = ?c" if "c \<in> set (apply_clamps kind win values)" "cl_field c = field" for c
      using iff [of c] that by blast
    moreover have "bb \<noteq> win" "(bb, field, ap) \<in> set values" using spec moved [OF False] by auto
    ultimately show ?thesis using spec by (metis clamped.select_convs)
  qed
qed

theorem apply_clamps_outer_bound_witness:
  "\<exists>c \<in> set (apply_clamps ShelfLife 2 [(2, ''min_shelf_life_days'', Fin 60),
       (1, ''min_shelf_life_days'', Fin 120)]). as_strict Floor (applied c) (Fin 120)"
proof -
  let ?vs = "[(2, ''min_shelf_life_days'', Fin 60), (1, ''min_shelf_life_days'', Fin 120)] :: policy_value list"
  have "\<not> (\<forall>c \<in> set (apply_clamps ShelfLife 2 ?vs). cl_field c \<noteq> ''min_shelf_life_days'')"
    by (simp add: apply_clamps_def winner_value_def f64_eq_def)
  then show ?thesis
    using apply_clamps_outer_bound [of "''min_shelf_life_days''" Floor ShelfLife 2 ?vs "Fin 60"]
    by (auto simp: winner_value_def)
qed

end
