(* ===== verification/Database.thy ===== *)
theory Database
  imports Prelude
begin

text \<open>
  The tables the write paths read and write, as the statements of
  \<^verbatim>\<open>crates/server/src\<close> see them, and the transaction that wraps every handler.

  A table is the list of its rows in the order they were inserted.  Columns no modelled
  statement touches are left out.  Every table read here carries a row-level policy
  \<open>USING (tenant_id = current_tenant())\<close>, so a statement of tenant \<open>t\<close> sees the rows of \<open>t\<close>
  only; \<open>adjustment_reason\<close> also shows the shared rows, whose tenant is null; \<open>person\<close> is global.

  PostgreSQL itself is a parameter: \<open>pg\<close> says whether it accepts a write (constraints, privileges,
  a lost connection), what \<open>now()\<close> answers, and which id a column default mints.
\<close>

section \<open>Rows\<close>

record client_event =
  ce_tenant :: uuid
  ce_id :: uuid
  ce_site :: "uuid option"
  ce_recorded_by :: uuid
  ce_submitted_at :: time
  ce_received_at :: time

text \<open>\<open>correction::Side\<close>: the five columns that make up one side of a movement.\<close>

record side =
  sd_location :: "uuid option"
  sd_package :: "uuid option"
  sd_lot :: "uuid option"
  sd_status :: "uuid option"
  sd_owner :: "uuid option"

definition no_side :: side where
  "no_side = \<lparr>sd_location = None, sd_package = None, sd_lot = None, sd_status = None, sd_owner = None\<rparr>"

record stock_movement =
  mv_id :: uuid
  mv_tenant :: uuid
  mv_event :: uuid
  mv_item :: uuid
  mv_quantity :: i64
  mv_from :: side
  mv_to :: side
  mv_reason :: string
  mv_occurred_at :: time
  mv_recorded_by :: uuid
  mv_reverses :: "uuid option"
  mv_adjustment_reason :: "uuid option"
  mv_line :: "uuid option"
  mv_receipt_line :: "uuid option"
  mv_external_pick :: "uuid option"

record stock_row =
  sk_id :: uuid
  sk_tenant :: uuid
  sk_item :: uuid
  sk_location :: "uuid option"
  sk_package :: "uuid option"
  sk_lot :: "uuid option"
  sk_status :: uuid
  sk_owner :: uuid
  sk_quantity :: i64
  sk_available :: i64

record location_row =
  lo_id :: uuid
  lo_tenant :: uuid
  lo_kind :: string
  lo_site :: "uuid option"

record package_row =
  pk_id :: uuid
  pk_tenant :: uuid
  pk_status :: "string option"
  pk_location :: "uuid option"
  pk_parent :: "uuid option"
  pk_fulfilment :: "uuid option"
  pk_sealed_at :: "time option"
  pk_breaks_down :: bool
  pk_barcode :: "string option"
  pk_type :: "uuid option"
  pk_sequence :: "int option"
  pk_config :: "uuid option"
  pk_own_item :: "uuid option"
  pk_own_level :: "string option"
  pk_carrier :: "uuid option"
  pk_rules :: "uuid option"

record package_event =
  pe_id :: uuid
  pe_tenant :: uuid
  pe_event :: uuid
  pe_package :: uuid
  pe_kind :: string
  pe_source :: string
  pe_occurred_at :: time
  pe_recorded_at :: time
  pe_recorded_by :: uuid
  pe_location :: "uuid option"
  pe_parent :: "uuid option"
  pe_hollow :: "bool option"
  pe_spot :: "(int \<times> int \<times> int \<times> bool) option"
  pe_barcode :: "string option"
  pe_sscc :: "string option"

record fulfilment_row =
  fu_id :: uuid
  fu_tenant :: uuid
  fu_state :: string
  fu_site :: "uuid option"

record fulfilment_line_row =
  fl_id :: uuid
  fl_tenant :: uuid
  fl_fulfilment :: uuid
  fl_order_line :: uuid
  fl_quantity :: i64
  fl_covered :: i64
  fl_picked :: i64
  fl_packed :: i64
  fl_despatched :: i64
  fl_uncovered :: i64

record order_line_row =
  ol_id :: uuid
  ol_tenant :: uuid
  ol_item :: uuid

record stock_count_row =
  sc_id :: uuid
  sc_tenant :: uuid
  sc_stock :: uuid
  sc_item :: uuid
  sc_holder :: side
  sc_counted :: i64
  sc_system :: i64
  sc_counted_at :: time
  sc_event :: uuid
  sc_recorded_by :: uuid
  sc_blind :: bool
  sc_challenged :: bool
  sc_challenge_context :: "string option"
  sc_confirmed :: "bool option"

record discrepancy_row =
  di_id :: uuid
  di_tenant :: uuid
  di_kind :: string
  di_state :: string
  di_item :: "uuid option"
  di_holder :: side
  di_expected :: "int option"
  di_observed :: "int option"
  di_stock_count :: "uuid option"
  di_detail :: "string option"
  di_detected_at :: time
  di_detected_by :: "uuid option"
  di_resolved_at :: "time option"
  di_resolved_by :: "uuid option"
  di_resolving_movement :: "uuid option"
  di_resolution_reason :: "string option"
  di_receipt_line :: "uuid option"

record adjustment_reason_row =
  ar_id :: uuid
  ar_tenant :: "uuid option"
  ar_class :: string
  ar_code :: string

record stock_allocation_row =
  al_id :: uuid
  al_tenant :: uuid
  al_stock :: "uuid option"
  al_line :: "uuid option"
  al_quantity :: i64
  al_state :: string
  al_firm :: bool
  al_bound_at :: time
  al_supply :: "uuid option"
  al_origin :: "uuid option"

record projection_dirty_row =
  pd_tenant :: uuid
  pd_at :: time
  pd_reason :: "string option"

record projection_freshness_row =
  pf_function :: string
  pf_tenant :: uuid
  pf_last_run_at :: "time option"

record goods_receipt_row =
  gr_id :: uuid
  gr_tenant :: uuid
  gr_site :: "uuid option"
  gr_purchase_order :: "uuid option"
  gr_received_at :: time
  gr_event :: uuid
  gr_recorded_by :: uuid

record goods_receipt_line_row =
  gl_id :: uuid
  gl_tenant :: uuid
  gl_receipt :: uuid
  gl_event :: uuid
  gl_accepted_at :: "time option"
  gl_policy :: "uuid option"
  gl_item :: uuid
  gl_supply :: "uuid option"
  gl_expected :: "i64 option"
  gl_quantity :: i64
  gl_entered :: i64
  gl_level :: string
  gl_config :: "uuid option"
  gl_lot :: "uuid option"
  gl_recorded_by :: uuid
  gl_rejected_at :: "time option"

record expected_supply_row =
  es_id :: uuid
  es_tenant :: uuid
  es_item :: uuid
  es_site :: "uuid option"
  es_owner :: "uuid option"
  es_status :: "uuid option"
  es_expected :: i64
  es_closed_at :: "time option"
  es_order_line :: uuid

record purchase_order_row =
  po_id :: uuid
  po_tenant :: uuid
  po_supplier :: "uuid option"

record purchase_order_line_row =
  pl_id :: uuid
  pl_tenant :: uuid
  pl_order :: uuid

text \<open>A \<open>date\<close> column is a number of days.\<close>

record packing_config_row =
  kg_id :: uuid
  kg_tenant :: uuid
  kg_item :: uuid
  kg_units_per_inner :: "int option"
  kg_inners_per_carton :: "int option"
  kg_cartons_per_layer :: "int option"
  kg_layers_per_pallet :: "int option"
  kg_effective_from :: int

record lot_row =
  lt_id :: uuid
  lt_tenant :: uuid
  lt_item :: uuid
  lt_code :: string
  lt_expiry :: "int option"

record inventory_status_row =
  iv_id :: uuid
  iv_tenant :: "uuid option"
  iv_code :: string

record observation_event_row =
  oe_id :: uuid
  oe_tenant :: uuid
  oe_event :: uuid

record observation_row =
  ob_id :: uuid
  ob_tenant :: uuid
  ob_observation_event :: uuid

record item_row =
  it_id :: uuid
  it_tenant :: uuid
  it_code :: string

record pack_check_row =
  kc_id :: uuid
  kc_tenant :: uuid
  kc_line :: uuid

record site_row =
  si_id :: uuid
  si_tenant :: uuid
  si_pack_location :: "uuid option"
  si_owner :: "uuid option"

record external_pick_row =
  xp_id :: uuid
  xp_tenant :: uuid
  xp_line :: uuid
  xp_external_line :: string
  xp_quantity :: i64
  xp_observed_at :: time
  xp_recorded_at :: time

text \<open>A row of the view \<open>package_type_effective\<close>; a shared type has no tenant.\<close>

record package_type_row =
  pt_id :: uuid
  pt_tenant :: "uuid option"
  pt_carries :: bool

record plan_parcel_row =
  pz_id :: uuid
  pz_tenant :: uuid
  pz_fulfilment :: uuid
  pz_package_type :: "uuid option"
  pz_on_parcel :: "uuid option"
  pz_on_package :: "uuid option"
  pz_x :: "int option"
  pz_y :: "int option"
  pz_z :: "int option"
  pz_turned :: bool
  pz_placed_by_hand :: bool
  pz_position :: int
  pz_own_item :: "uuid option"
  pz_own_level :: "string option"
  pz_config :: "uuid option"
  pz_carrier :: "uuid option"

record plan_line_row =
  pn_tenant :: uuid
  pn_parcel :: uuid
  pn_line :: uuid
  pn_quantity :: i64

record carrier_row =
  cy_id :: uuid
  cy_tenant :: "uuid option"
  cy_breakdown_rules :: "uuid option"
  cy_as_one_rules :: "uuid option"

record build_rules_version_row =
  bv_id :: uuid
  bv_tenant :: uuid
  bv_rules :: uuid
  bv_saved_at :: time

record workspace_setting_row =
  ws_tenant :: uuid
  ws_usual_carrier :: "uuid option"

record db =
  client_events :: "client_event list"
  movements :: "stock_movement list"
  stock :: "stock_row list"
  locations :: "location_row list"
  packages :: "package_row list"
  package_events :: "package_event list"
  fulfilments :: "fulfilment_row list"
  fulfilment_lines :: "fulfilment_line_row list"
  order_lines :: "order_line_row list"
  stock_counts :: "stock_count_row list"
  discrepancies :: "discrepancy_row list"
  adjustment_reasons :: "adjustment_reason_row list"
  allocations :: "stock_allocation_row list"
  goods_receipts :: "goods_receipt_row list"
  goods_receipt_lines :: "goods_receipt_line_row list"
  observation_events :: "observation_event_row list"
  observations :: "observation_row list"
  items :: "item_row list"
  pack_checks :: "pack_check_row list"
  dirty :: "projection_dirty_row list"
  freshness :: "projection_freshness_row list"
  expected_supplies :: "expected_supply_row list"
  purchase_orders :: "purchase_order_row list"
  purchase_order_lines :: "purchase_order_line_row list"
  packing_configs :: "packing_config_row list"
  lots :: "lot_row list"
  statuses :: "inventory_status_row list"
  sites :: "site_row list"
  external_picks :: "external_pick_row list"
  package_types :: "package_type_row list"
  plan_parcels :: "plan_parcel_row list"
  plan_lines :: "plan_line_row list"
  carriers :: "carrier_row list"
  build_rules_versions :: "build_rules_version_row list"
  workspace_settings :: "workspace_setting_row list"
  persons :: "uuid list"

section \<open>PostgreSQL as a parameter\<close>

datatype table =
    Client_event | Stock_movement | Stock_count | Discrepancy | Stock_allocation
  | Package | Package_event | Plan_parcel | Plan_line | Goods_receipt | Goods_receipt_line | Lot | Policy_finding
  | Projection_dirty | Commit

record pg =
  accepts :: "table \<Rightarrow> db \<Rightarrow> db \<Rightarrow> bool"
  now :: time
  minted :: "table \<Rightarrow> uuid"
  collates :: "string \<Rightarrow> string \<Rightarrow> ordering" \<comment> \<open>\<open>ORDER BY\<close> on text\<close>

text \<open>One write statement: the table it changes, and the database after it.\<close>

definition write_to :: "pg \<Rightarrow> table \<Rightarrow> db \<Rightarrow> db \<Rightarrow> api_error + db" where
  "write_to pg tbl s s' = (if accepts pg tbl s s' then Inr s' else Inl Database)"

lemma write_to_eq_Inr [result_simps]: "write_to pg tbl s s' = Inr x \<longleftrightarrow> x = s' \<and> accepts pg tbl s s'"
  by (auto simp: write_to_def)

text \<open>A server that refuses nothing and collates by bytes, for concrete runs.\<close>

fun byte_order :: "string \<Rightarrow> string \<Rightarrow> ordering" where
  "byte_order [] [] = Equal"
| "byte_order [] (y # ys) = Less"
| "byte_order (x # xs) [] = Greater"
| "byte_order (x # xs) (y # ys) = then_cmp (cmp (of_char x :: nat) (of_char y)) (byte_order xs ys)"

definition willing_pg :: "(table \<Rightarrow> uuid) \<Rightarrow> pg" where
  "willing_pg ids = \<lparr>accepts = \<lambda>_ _ _. True, now = 1000, minted = ids, collates = byte_order\<rparr>"

lemma willing_pg_simps [simp]:
  "accepts (willing_pg ids) tbl s s'"
  "now (willing_pg ids) = 1000"
  "minted (willing_pg ids) = ids"
  "collates (willing_pg ids) = byte_order"
  by (simp_all add: willing_pg_def)

text \<open>\<open>sum(...)::bigint\<close>: the cast fails out of range.\<close>

definition bigint :: "int \<Rightarrow> api_error + i64" where
  "bigint x = (if in_i64 x then Inr x else Inl Database)"

lemma bigint_eq_Inr [result_simps]: "bigint x = Inr y \<longleftrightarrow> y = x \<and> in_i64 x"
  by (auto simp: bigint_def)

section \<open>Reading under row-level security\<close>

text \<open>\<open>SELECT ... WHERE id = $1\<close> as tenant \<open>t\<close>.\<close>

definition by_id :: "('r \<Rightarrow> uuid) \<Rightarrow> ('r \<Rightarrow> uuid) \<Rightarrow> uuid \<Rightarrow> uuid \<Rightarrow> 'r list \<Rightarrow> 'r option" where
  "by_id tenant_of id_of t i rows = find (\<lambda>r. tenant_of r = t \<and> id_of r = i) rows"

definition visible :: "('r \<Rightarrow> uuid) \<Rightarrow> uuid \<Rightarrow> 'r list \<Rightarrow> 'r list" where
  "visible tenant_of t rows = filter (\<lambda>r. tenant_of r = t) rows"

lemma by_id_SomeD:
  "by_id tenant_of id_of t i rows = Some r \<Longrightarrow> r \<in> set rows \<and> tenant_of r = t \<and> id_of r = i"
  by (auto simp: by_id_def dest: find_SomeD)

lemma by_id_visible: "by_id tenant_of id_of t i (visible tenant_of t rows) = by_id tenant_of id_of t i rows"
  by (induction rows) (auto simp: by_id_def visible_def)

lemma visible_append [simp]:
  "visible tenant_of t (xs @ ys) = visible tenant_of t xs @ visible tenant_of t ys"
  by (simp add: visible_def)

definition stock_by_id :: "uuid \<Rightarrow> uuid \<Rightarrow> db \<Rightarrow> stock_row option" where
  [row_simps]: "stock_by_id t i s = by_id sk_tenant sk_id t i (stock s)"

definition location_by_id :: "uuid \<Rightarrow> uuid \<Rightarrow> db \<Rightarrow> location_row option" where
  [row_simps]: "location_by_id t i s = by_id lo_tenant lo_id t i (locations s)"

definition package_by_id :: "uuid \<Rightarrow> uuid \<Rightarrow> db \<Rightarrow> package_row option" where
  [row_simps]: "package_by_id t i s = by_id pk_tenant pk_id t i (packages s)"

definition movement_by_id :: "uuid \<Rightarrow> uuid \<Rightarrow> db \<Rightarrow> stock_movement option" where
  [row_simps]: "movement_by_id t i s = by_id mv_tenant mv_id t i (movements s)"

definition discrepancy_by_id :: "uuid \<Rightarrow> uuid \<Rightarrow> db \<Rightarrow> discrepancy_row option" where
  [row_simps]: "discrepancy_by_id t i s = by_id di_tenant di_id t i (discrepancies s)"

definition count_by_id :: "uuid \<Rightarrow> uuid \<Rightarrow> db \<Rightarrow> stock_count_row option" where
  [row_simps]: "count_by_id t i s = by_id sc_tenant sc_id t i (stock_counts s)"

definition allocation_by_id :: "uuid \<Rightarrow> uuid \<Rightarrow> db \<Rightarrow> stock_allocation_row option" where
  [row_simps]: "allocation_by_id t i s = by_id al_tenant al_id t i (allocations s)"

definition line_by_id :: "uuid \<Rightarrow> uuid \<Rightarrow> db \<Rightarrow> fulfilment_line_row option" where
  [row_simps]: "line_by_id t i s = by_id fl_tenant fl_id t i (fulfilment_lines s)"

text \<open>A shared-reference table also shows the rows whose tenant is null.\<close>

definition adjustment_reason_by_id :: "uuid \<Rightarrow> uuid \<Rightarrow> db \<Rightarrow> adjustment_reason_row option" where
  "adjustment_reason_by_id t i s =
     find (\<lambda>r. (ar_tenant r = None \<or> ar_tenant r = Some t) \<and> ar_id r = i) (adjustment_reasons s)"

text \<open>
  The join the pick, allocation and despatch handlers read a line by: the line, its fulfilment and
  its order line, each under its own policy.  The three values are the line, the item the order
  line names and whether the fulfilment is cancelled.
\<close>

definition line_joined :: "uuid \<Rightarrow> uuid \<Rightarrow> db \<Rightarrow> (fulfilment_line_row \<times> uuid \<times> bool) option" where
  "line_joined t i s =
     Option.bind (line_by_id t i s) (\<lambda>l.
       Option.bind (by_id fu_tenant fu_id t (fl_fulfilment l) (fulfilments s)) (\<lambda>f.
         Option.bind (by_id ol_tenant ol_id t (fl_order_line l) (order_lines s)) (\<lambda>o'.
           Some (l, ol_item o', fu_state f = ''cancelled''))))"

lemma line_joined_SomeD:
  "line_joined t i s = Some (l, item, c) \<Longrightarrow> line_by_id t i s = Some l"
  by (auto simp: line_joined_def bind_eq_Some_conv)

section \<open>Writing\<close>

definition insert_client_event :: "client_event \<Rightarrow> db \<Rightarrow> db" where
  [row_simps]: "insert_client_event e s = s\<lparr>client_events := client_events s @ [e]\<rparr>"

definition insert_movement :: "stock_movement \<Rightarrow> db \<Rightarrow> db" where
  [row_simps]: "insert_movement m s = s\<lparr>movements := movements s @ [m]\<rparr>"

definition insert_package_event :: "package_event \<Rightarrow> db \<Rightarrow> db" where
  [row_simps]: "insert_package_event e s = s\<lparr>package_events := package_events s @ [e]\<rparr>"

definition insert_stock_count :: "stock_count_row \<Rightarrow> db \<Rightarrow> db" where
  [row_simps]: "insert_stock_count c s = s\<lparr>stock_counts := stock_counts s @ [c]\<rparr>"

definition insert_discrepancy :: "discrepancy_row \<Rightarrow> db \<Rightarrow> db" where
  [row_simps]: "insert_discrepancy d s = s\<lparr>discrepancies := discrepancies s @ [d]\<rparr>"

definition insert_allocation :: "stock_allocation_row \<Rightarrow> db \<Rightarrow> db" where
  [row_simps]: "insert_allocation a s = s\<lparr>allocations := allocations s @ [a]\<rparr>"

text \<open>\<open>UPDATE ... SET ... WHERE id = $1 AND guard\<close> as tenant \<open>t\<close>: it reaches rows of \<open>t\<close> only.\<close>

definition update_rows ::
  "('r \<Rightarrow> uuid) \<Rightarrow> ('r \<Rightarrow> uuid) \<Rightarrow> uuid \<Rightarrow> uuid \<Rightarrow> ('r \<Rightarrow> bool) \<Rightarrow> ('r \<Rightarrow> 'r) \<Rightarrow> 'r list \<Rightarrow> 'r list" where
  "update_rows tenant_of id_of t i p f rows =
     map (\<lambda>r. if tenant_of r = t \<and> id_of r = i \<and> p r then f r else r) rows"

text \<open>How many rows such an update touches, which \<open>execute\<close> returns.\<close>

definition rows_hit ::
  "('r \<Rightarrow> uuid) \<Rightarrow> ('r \<Rightarrow> uuid) \<Rightarrow> uuid \<Rightarrow> uuid \<Rightarrow> ('r \<Rightarrow> bool) \<Rightarrow> 'r list \<Rightarrow> nat" where
  "rows_hit tenant_of id_of t i p rows =
     length (filter (\<lambda>r. tenant_of r = t \<and> id_of r = i \<and> p r) rows)"

lemma update_rows_length [simp]: "length (update_rows tn io t i p f rows) = length rows"
  by (simp add: update_rows_def)

lemma update_rows_visible_other:
  assumes "t' \<noteq> t" and "\<And>r. tn (f r) = tn r"
  shows "visible tn t' (update_rows tn io t i p f rows) = visible tn t' rows"
  using assms by (induction rows) (auto simp: update_rows_def visible_def)

text \<open>\<open>projection_mark_dirty(tenant, reason)\<close>: one row a tenant, upserted (migration 61).\<close>

fun upsert_dirty :: "uuid \<Rightarrow> time \<Rightarrow> string \<Rightarrow> projection_dirty_row list \<Rightarrow> projection_dirty_row list" where
  "upsert_dirty t w r [] = [\<lparr>pd_tenant = t, pd_at = w, pd_reason = Some r\<rparr>]"
| "upsert_dirty t w r (d # ds) =
     (if pd_tenant d = t then d\<lparr>pd_at := w, pd_reason := Some r\<rparr> # ds
      else d # upsert_dirty t w r ds)"

definition mark_dirty :: "pg \<Rightarrow> uuid \<Rightarrow> string \<Rightarrow> db \<Rightarrow> db" where
  "mark_dirty pg t r s = s\<lparr>dirty := upsert_dirty t (now pg) r (dirty s)\<rparr>"

lemma mark_dirty_simps [simp]:
  "client_events (mark_dirty pg t r s) = client_events s"
  "movements (mark_dirty pg t r s) = movements s"
  "stock (mark_dirty pg t r s) = stock s"
  "locations (mark_dirty pg t r s) = locations s"
  "packages (mark_dirty pg t r s) = packages s"
  "package_events (mark_dirty pg t r s) = package_events s"
  "fulfilments (mark_dirty pg t r s) = fulfilments s"
  "fulfilment_lines (mark_dirty pg t r s) = fulfilment_lines s"
  "order_lines (mark_dirty pg t r s) = order_lines s"
  "stock_counts (mark_dirty pg t r s) = stock_counts s"
  "discrepancies (mark_dirty pg t r s) = discrepancies s"
  "adjustment_reasons (mark_dirty pg t r s) = adjustment_reasons s"
  "allocations (mark_dirty pg t r s) = allocations s"
  "goods_receipts (mark_dirty pg t r s) = goods_receipts s"
  "goods_receipt_lines (mark_dirty pg t r s) = goods_receipt_lines s"
  "observation_events (mark_dirty pg t r s) = observation_events s"
  "observations (mark_dirty pg t r s) = observations s"
  "items (mark_dirty pg t r s) = items s"
  "pack_checks (mark_dirty pg t r s) = pack_checks s"
  "freshness (mark_dirty pg t r s) = freshness s"
  "expected_supplies (mark_dirty pg t r s) = expected_supplies s"
  "purchase_orders (mark_dirty pg t r s) = purchase_orders s"
  "purchase_order_lines (mark_dirty pg t r s) = purchase_order_lines s"
  "packing_configs (mark_dirty pg t r s) = packing_configs s"
  "lots (mark_dirty pg t r s) = lots s"
  "statuses (mark_dirty pg t r s) = statuses s"
  "sites (mark_dirty pg t r s) = sites s"
  "external_picks (mark_dirty pg t r s) = external_picks s"
  "package_types (mark_dirty pg t r s) = package_types s"
  "plan_parcels (mark_dirty pg t r s) = plan_parcels s"
  "plan_lines (mark_dirty pg t r s) = plan_lines s"
  "carriers (mark_dirty pg t r s) = carriers s"
  "build_rules_versions (mark_dirty pg t r s) = build_rules_versions s"
  "workspace_settings (mark_dirty pg t r s) = workspace_settings s"
  "persons (mark_dirty pg t r s) = persons s"
  by (simp_all add: mark_dirty_def)

lemma upsert_dirty_has: "\<exists>d \<in> set (upsert_dirty t w r ds). pd_tenant d = t \<and> pd_at d = w"
  by (induction ds) auto

lemma upsert_dirty_visible_other:
  "t' \<noteq> t \<Longrightarrow> visible pd_tenant t' (upsert_dirty t w r ds) = visible pd_tenant t' ds"
  by (induction ds) (auto simp: visible_def)

text \<open>
  The tail of a write path that adds one ledger row: the insert and the dirty mark the scheduler
  rebuilds the tenant's projections by.
\<close>

definition append_movement :: "pg \<Rightarrow> uuid \<Rightarrow> string \<Rightarrow> stock_movement \<Rightarrow> db \<Rightarrow> api_error + db" where
  "append_movement pg t why m s =
     and_then (write_to pg Stock_movement s (insert_movement m s)) (\<lambda>s'.
       write_to pg Projection_dirty s' (mark_dirty pg t why s'))"

lemma append_movement_Inr [result_simps]:
  "append_movement pg t why m s = Inr s' \<longleftrightarrow>
   s' = mark_dirty pg t why (insert_movement m s)
   \<and> accepts pg Stock_movement s (insert_movement m s)
   \<and> accepts pg Projection_dirty (insert_movement m s) s'"
  by (auto simp: append_movement_def result_simps)

section \<open>What a tenant sees\<close>

definition tenant_view :: "uuid \<Rightarrow> db \<Rightarrow> db" where
  "tenant_view t s =
     \<lparr>client_events = visible ce_tenant t (client_events s),
      movements = visible mv_tenant t (movements s),
      stock = visible sk_tenant t (stock s),
      locations = visible lo_tenant t (locations s),
      packages = visible pk_tenant t (packages s),
      package_events = visible pe_tenant t (package_events s),
      fulfilments = visible fu_tenant t (fulfilments s),
      fulfilment_lines = visible fl_tenant t (fulfilment_lines s),
      order_lines = visible ol_tenant t (order_lines s),
      stock_counts = visible sc_tenant t (stock_counts s),
      discrepancies = visible di_tenant t (discrepancies s),
      adjustment_reasons = filter (\<lambda>r. ar_tenant r = None \<or> ar_tenant r = Some t) (adjustment_reasons s),
      allocations = visible al_tenant t (allocations s),
      goods_receipts = visible gr_tenant t (goods_receipts s),
      goods_receipt_lines = visible gl_tenant t (goods_receipt_lines s),
      observation_events = visible oe_tenant t (observation_events s),
      observations = visible ob_tenant t (observations s),
      items = visible it_tenant t (items s),
      pack_checks = visible kc_tenant t (pack_checks s),
      dirty = visible pd_tenant t (dirty s),
      freshness = visible pf_tenant t (freshness s),
      expected_supplies = visible es_tenant t (expected_supplies s),
      purchase_orders = visible po_tenant t (purchase_orders s),
      purchase_order_lines = visible pl_tenant t (purchase_order_lines s),
      packing_configs = visible kg_tenant t (packing_configs s),
      lots = visible lt_tenant t (lots s),
      statuses = filter (\<lambda>r. iv_tenant r = None \<or> iv_tenant r = Some t) (statuses s),
      sites = visible si_tenant t (sites s),
      external_picks = visible xp_tenant t (external_picks s),
      package_types = filter (\<lambda>r. pt_tenant r = None \<or> pt_tenant r = Some t) (package_types s),
      plan_parcels = visible pz_tenant t (plan_parcels s),
      plan_lines = visible pn_tenant t (plan_lines s),
      carriers = filter (\<lambda>r. cy_tenant r = None \<or> cy_tenant r = Some t) (carriers s),
      build_rules_versions = visible bv_tenant t (build_rules_versions s),
      workspace_settings = visible ws_tenant t (workspace_settings s),
      persons = persons s\<rparr>"

text \<open>Nothing any other tenant sees has changed.\<close>

definition isolated :: "uuid \<Rightarrow> db \<Rightarrow> db \<Rightarrow> bool" where
  "isolated t s s' \<longleftrightarrow> (\<forall>t'. t' \<noteq> t \<longrightarrow> tenant_view t' s' = tenant_view t' s)"

lemma isolated_refl [simp]: "isolated t s s"
  by (simp add: isolated_def)

lemma isolated_trans: "isolated t s s' \<Longrightarrow> isolated t s' s'' \<Longrightarrow> isolated t s s''"
  by (simp add: isolated_def)

lemma isolated_mark_dirty [simp, intro]: "isolated t s (mark_dirty pg t why s)"
  by (auto simp: isolated_def tenant_view_def mark_dirty_def upsert_dirty_visible_other)

lemma isolated_insert:
  "ce_tenant e = t \<Longrightarrow> isolated t s (s\<lparr>client_events := client_events s @ [e]\<rparr>)"
  "mv_tenant m = t \<Longrightarrow> isolated t s (s\<lparr>movements := movements s @ [m]\<rparr>)"
  "pe_tenant p = t \<Longrightarrow> isolated t s (s\<lparr>package_events := package_events s @ [p]\<rparr>)"
  "sc_tenant c = t \<Longrightarrow> isolated t s (s\<lparr>stock_counts := stock_counts s @ [c]\<rparr>)"
  "di_tenant d = t \<Longrightarrow> isolated t s (s\<lparr>discrepancies := discrepancies s @ [d]\<rparr>)"
  "al_tenant a = t \<Longrightarrow> isolated t s (s\<lparr>allocations := allocations s @ [a]\<rparr>)"
  "gr_tenant g = t \<Longrightarrow> isolated t s (s\<lparr>goods_receipts := goods_receipts s @ [g]\<rparr>)"
  "pk_tenant k = t \<Longrightarrow> isolated t s (s\<lparr>packages := packages s @ [k]\<rparr>)"
  "gl_tenant l = t \<Longrightarrow> isolated t s (s\<lparr>goods_receipt_lines := goods_receipt_lines s @ [l]\<rparr>)"
  "lt_tenant w = t \<Longrightarrow> isolated t s (s\<lparr>lots := lots s @ [w]\<rparr>)"
  by (auto simp: isolated_def tenant_view_def visible_def)

text \<open>
  What a run of the maintainers may do: anything in the projections (stock, the lines' figures, the
  package rows, the promises) of its tenant, and nothing else.
\<close>

definition rebuilt :: "uuid \<Rightarrow> db \<Rightarrow> db \<Rightarrow> bool" where
  "rebuilt t s s' \<longleftrightarrow> isolated t s s'
     \<and> s' = s\<lparr>stock := stock s', fulfilment_lines := fulfilment_lines s', packages := packages s',
              expected_supplies := expected_supplies s', dirty := dirty s', freshness := freshness s'\<rparr>"

section \<open>Whose request it is, and its transaction\<close>

text \<open>\<open>auth::Caller\<close>, what every write path takes from the session.\<close>

record caller =
  ca_session :: uuid
  ca_person :: uuid
  ca_tenant :: uuid
  ca_site :: "uuid option"
  ca_remembered :: bool
  ca_issued_at :: time
  ca_expires_at :: time

text \<open>
  \<open>TenantScope::run\<close>: the closure's writes are kept when it returns \<open>Ok\<close> and the commit goes
  through, and rolled back otherwise.
\<close>

definition tenant_run :: "pg \<Rightarrow> (db \<Rightarrow> api_error + ('a \<times> db)) \<Rightarrow> db \<Rightarrow> (api_error + 'a) \<times> db" where
  "tenant_run pg f s =
     (case f s of
        Inl e \<Rightarrow> (Inl e, s)
      | Inr (v, s') \<Rightarrow> if accepts pg Commit s s' then (Inr v, s') else (Inl Database, s))"

lemma tenant_run_Inl: "tenant_run pg f s = (Inl e, s') \<Longrightarrow> s' = s"
  by (auto simp: tenant_run_def split: sum.splits if_splits)

lemma tenant_run_Inr:
  "tenant_run pg f s = (Inr v, s') \<longleftrightarrow> f s = Inr (v, s') \<and> accepts pg Commit s s'"
  by (auto simp: tenant_run_def split: sum.splits if_splits)

section \<open>A small warehouse for concrete runs\<close>

definition empty_db :: db where
  "empty_db = \<lparr>client_events = [], movements = [], stock = [], locations = [], packages = [],
     package_events = [], fulfilments = [], fulfilment_lines = [], order_lines = [],
     stock_counts = [], discrepancies = [], adjustment_reasons = [], allocations = [],
     goods_receipts = [], goods_receipt_lines = [], observation_events = [], observations = [],
     items = [], pack_checks = [], dirty = [], freshness = [],
     expected_supplies = [], purchase_orders = [], purchase_order_lines = [], packing_configs = [],
     lots = [], statuses = [], sites = [], external_picks = [],
     package_types = [], plan_parcels = [], plan_lines = [], carriers = [], build_rules_versions = [], workspace_settings = [],
     persons = []\<rparr>"

definition sample_caller :: caller where
  "sample_caller = \<lparr>ca_session = 900, ca_person = 20, ca_tenant = 10, ca_site = None,
     ca_remembered = False, ca_issued_at = 0, ca_expires_at = 100000\<rparr>"

definition sample_pg :: pg where
  "sample_pg = willing_pg (\<lambda>_. 77)"

text \<open>Fifty units of item 100 in bin 2, ten of them spoken for, and an empty bin 9.\<close>

definition sample_cell :: stock_row where
  "sample_cell = \<lparr>sk_id = 1, sk_tenant = 10, sk_item = 100, sk_location = Some 2, sk_package = None,
     sk_lot = Some 3, sk_status = 4, sk_owner = 5, sk_quantity = 50, sk_available = 40\<rparr>"

definition sample_receipt :: stock_movement where
  "sample_receipt = \<lparr>mv_id = 60, mv_tenant = 10, mv_event = 500, mv_item = 100, mv_quantity = 50,
     mv_from = no_side,
     mv_to = \<lparr>sd_location = Some 2, sd_package = None, sd_lot = Some 3, sd_status = Some 4, sd_owner = Some 5\<rparr>,
     mv_reason = ''receipt'', mv_occurred_at = 0, mv_recorded_by = 20, mv_reverses = None,
     mv_adjustment_reason = None, mv_line = None, mv_receipt_line = None, mv_external_pick = None\<rparr>"

definition sample_db :: db where
  "sample_db = empty_db\<lparr>
     client_events := [\<lparr>ce_tenant = 10, ce_id = 500, ce_site = None, ce_recorded_by = 20,
       ce_submitted_at = 0, ce_received_at = 0\<rparr>],
     movements := [sample_receipt],
     stock := [sample_cell],
     locations := [\<lparr>lo_id = 2, lo_tenant = 10, lo_kind = ''bin'', lo_site = None\<rparr>, \<lparr>lo_id = 9, lo_tenant = 10, lo_kind = ''bin'', lo_site = None\<rparr>]\<rparr>"

lemmas sample_defs = sample_db_def empty_db_def sample_caller_def sample_pg_def sample_cell_def
  sample_receipt_def no_side_def

end
