(* ===== verification/Client_Events.thy ===== *)
theory Client_Events
  imports Database
begin

text \<open>
  The act envelope, \<^verbatim>\<open>crates/server/src/client_events.rs\<close>: one physical submission owns one
  \<open>client_event\<close> row, keyed by tenant and the identifier the handheld minted.  \<open>claim_act\<close>
  inserts it or finds it already there; a replay then loads the facts the first submission wrote
  and writes none.  Every write path of the server is built on these operations.
\<close>

section \<open>Claiming an act\<close>

definition REPLAY_WARNING :: string where
  "REPLAY_WARNING = ''replay of an existing client_event; no new facts were written''"

record new_client_event =
  ne_tenant :: uuid
  ne_id :: uuid
  ne_site :: "uuid option"
  ne_recorded_by :: uuid
  ne_submitted_at :: time

datatype act_insert = Fresh | Replay

definition is_replay :: "act_insert \<Rightarrow> bool" where
  "is_replay a \<longleftrightarrow> a = Replay"

lemma is_replay_simps [simp]: "is_replay Replay" "\<not> is_replay Fresh"
  by (simp_all add: is_replay_def)

definition claimed :: "uuid \<Rightarrow> uuid \<Rightarrow> db \<Rightarrow> bool" where
  "claimed t act s \<longleftrightarrow> (\<exists>e \<in> set (client_events s). ce_tenant e = t \<and> ce_id e = act)"

text \<open>\<open>INSERT ... ON CONFLICT (tenant_id, client_event_id) DO NOTHING\<close> and its row count.\<close>

definition claim_act :: "pg \<Rightarrow> new_client_event \<Rightarrow> db \<Rightarrow> api_error + (act_insert \<times> db)" where
  "claim_act pg ev s =
     (if claimed (ne_tenant ev) (ne_id ev) s then Inr (Replay, s)
      else and_then
             (write_to pg Client_event s
               (insert_client_event
                 \<lparr>ce_tenant = ne_tenant ev, ce_id = ne_id ev, ce_site = ne_site ev,
                  ce_recorded_by = ne_recorded_by ev, ce_submitted_at = ne_submitted_at ev,
                  ce_received_at = now pg\<rparr> s))
             (\<lambda>s'. Inr (Fresh, s')))"

text \<open>The envelope \<open>claim_act\<close> writes, named for the inversion lemmas.\<close>

definition envelope :: "pg \<Rightarrow> new_client_event \<Rightarrow> client_event" where
  "envelope pg ev = \<lparr>ce_tenant = ne_tenant ev, ce_id = ne_id ev, ce_site = ne_site ev,
     ce_recorded_by = ne_recorded_by ev, ce_submitted_at = ne_submitted_at ev,
     ce_received_at = now pg\<rparr>"

lemma envelope_key [simp]:
  "ce_tenant (envelope pg ev) = ne_tenant ev" "ce_id (envelope pg ev) = ne_id ev"
  by (simp_all add: envelope_def)

lemma claim_act_Replay:
  "claim_act pg ev s = Inr (Replay, s') \<longleftrightarrow> s' = s \<and> claimed (ne_tenant ev) (ne_id ev) s"
  by (auto simp: claim_act_def result_simps)

lemma claim_act_Fresh:
  "claim_act pg ev s = Inr (Fresh, s') \<longleftrightarrow>
   \<not> claimed (ne_tenant ev) (ne_id ev) s
   \<and> s' = s\<lparr>client_events := client_events s @ [envelope pg ev]\<rparr>
   \<and> accepts pg Client_event s s'"
  by (auto simp: claim_act_def result_simps envelope_def row_simps)

lemma claimed_after_claim:
  "claim_act pg ev s = Inr (a, s') \<Longrightarrow> claimed (ne_tenant ev) (ne_id ev) s'"
  by (cases a) (auto simp: claim_act_Fresh claim_act_Replay claimed_def)

section \<open>The facts of an act\<close>

text \<open>Rows of one act a tenant sees, in \<open>ORDER BY id\<close>.\<close>

definition act_movements :: "uuid \<Rightarrow> uuid \<Rightarrow> db \<Rightarrow> stock_movement list" where
  "act_movements t act s =
     sort_by (\<lambda>a b. cmp (mv_id a) (mv_id b))
       (filter (\<lambda>m. mv_event m = act) (visible mv_tenant t (movements s)))"

definition act_package_events :: "uuid \<Rightarrow> uuid \<Rightarrow> db \<Rightarrow> package_event list" where
  "act_package_events t act s =
     sort_by (\<lambda>a b. cmp (pe_id a) (pe_id b))
       (filter (\<lambda>e. pe_event e = act) (visible pe_tenant t (package_events s)))"

definition require_one_movement :: "uuid \<Rightarrow> uuid \<Rightarrow> db \<Rightarrow> api_error + (uuid \<times> i64)" where
  "require_one_movement t act s =
     (case act_movements t act s of
        [] \<Rightarrow> Inl (Rejected ''client_event exists but no stock_movement was recorded; incomplete act'')
      | [m] \<Rightarrow> Inr (mv_id m, mv_quantity m)
      | _ \<Rightarrow> Inl (Rejected ''client_event owns multiple stock_movement rows; ambiguous replay for this endpoint''))"

definition optional_one_movement :: "uuid \<Rightarrow> uuid \<Rightarrow> db \<Rightarrow> api_error + (uuid \<times> i64) option" where
  "optional_one_movement t act s =
     (case act_movements t act s of
        [] \<Rightarrow> Inr None
      | [m] \<Rightarrow> Inr (Some (mv_id m, mv_quantity m))
      | _ \<Rightarrow> Inl (Rejected ''client_event owns multiple stock_movement rows; ambiguous replay for this endpoint''))"

definition require_one_package_event ::
  "uuid \<Rightarrow> uuid \<Rightarrow> db \<Rightarrow> api_error + (uuid \<times> uuid \<times> string)" where
  "require_one_package_event t act s =
     (case act_package_events t act s of
        [] \<Rightarrow> Inl (Rejected ''client_event exists but no package_event was recorded; incomplete act'')
      | [e] \<Rightarrow> Inr (pe_id e, pe_package e, pe_kind e)
      | _ \<Rightarrow> Inl (Rejected ''client_event owns multiple package_event rows; ambiguous replay for this endpoint''))"

definition require_despatch_facts :: "uuid \<Rightarrow> uuid \<Rightarrow> db \<Rightarrow> api_error + (uuid \<times> uuid)" where
  "require_despatch_facts t act s =
     and_then (require_one_package_event t act s) (\<lambda>(event_id, package_id, kind).
       if kind \<noteq> ''despatched''
       then Inl (Rejected (''client_event already recorded a package_event of kind '' @ kind @
                  '', not despatched''))
       else and_then (require_one_movement t act s) (\<lambda>(movement_id, qty).
              Inr (event_id, movement_id)))"

text \<open>The newest finding of a count: \<open>ORDER BY detected_at DESC, id DESC LIMIT 1\<close>.\<close>

definition newest_finding :: "discrepancy_row \<Rightarrow> discrepancy_row \<Rightarrow> ordering" where
  "newest_finding a b = then_cmp (cmp (di_detected_at b) (di_detected_at a)) (cmp (di_id b) (di_id a))"

definition require_count_facts ::
  "uuid \<Rightarrow> uuid \<Rightarrow> db \<Rightarrow> api_error + (uuid \<times> i64 \<times> i64 \<times> uuid option)" where
  "require_count_facts t act s =
     (case sort_by (\<lambda>a b. cmp (sc_id a) (sc_id b))
             (filter (\<lambda>c. sc_event c = act) (visible sc_tenant t (stock_counts s))) of
        [] \<Rightarrow> Inl (Rejected ''client_event exists but no stock_count was recorded; incomplete act'')
      | [c] \<Rightarrow>
          (let ds = sort_by newest_finding
                      (filter (\<lambda>d. di_stock_count d = Some (sc_id c))
                        (visible di_tenant t (discrepancies s)))
           in Inr (sc_id c, sc_system c, sc_counted c,
                   if ds = [] then None else Some (di_id (hd ds))))
      | _ \<Rightarrow> Inl (Rejected ''client_event owns multiple stock_count rows; ambiguous replay''))"

text \<open>
  A receipt line of the act, its header, and the movement where one was written:
  (header, line, movement, quantity, receiving policy, accepted).
\<close>

definition require_receipt_facts ::
  "uuid \<Rightarrow> uuid \<Rightarrow> db \<Rightarrow>
   api_error + (uuid \<times> uuid \<times> uuid option \<times> i64 option \<times> uuid option \<times> bool)" where
  "require_receipt_facts t act s =
     (case sort_by (\<lambda>a b. cmp (gl_id a) (gl_id b))
             (filter (\<lambda>l. gl_event l = act) (visible gl_tenant t (goods_receipt_lines s))) of
        [] \<Rightarrow> Inl (Rejected ''client_event exists but no goods_receipt_line was recorded; incomplete act'')
      | [l] \<Rightarrow>
          and_then (optional_one_movement t act s) (\<lambda>movement.
            Inr (gl_receipt l, gl_id l, map_option fst movement, map_option snd movement,
                 gl_policy l, gl_accepted_at l \<noteq> None))
      | _ \<Rightarrow> Inl (Rejected ''client_event owns multiple goods_receipt_line rows; ambiguous replay for this endpoint''))"

definition require_observation_facts ::
  "uuid \<Rightarrow> uuid \<Rightarrow> bool \<Rightarrow> db \<Rightarrow> api_error + (uuid \<times> uuid list)" where
  "require_observation_facts t act photographs s =
     (case sort_by (\<lambda>a b. cmp (oe_id a) (oe_id b))
             (filter (\<lambda>e. oe_event e = act) (visible oe_tenant t (observation_events s))) of
        [] \<Rightarrow> Inl (Rejected ''client_event exists but no observation_event was recorded; incomplete act'')
      | [e] \<Rightarrow>
          (let rows = sort_by (\<lambda>a b. cmp (ob_id a) (ob_id b))
                        (filter (\<lambda>o'. ob_observation_event o' = oe_id e)
                          (visible ob_tenant t (observations s)))
           in if rows = [] \<and> \<not> photographs
              then Inl (Rejected ''observation_event exists with no observations; incomplete act'')
              else Inr (oe_id e, map ob_id rows))
      | _ \<Rightarrow> Inl (Rejected ''client_event owns multiple observation_event rows; ambiguous replay''))"

section \<open>Disagreeing retries\<close>

definition reject_quantity_mismatch :: "i64 \<Rightarrow> i64 \<Rightarrow> api_error + unit" where
  "reject_quantity_mismatch prior requested =
     (if prior \<noteq> requested
      then Inl (Rejected (''client_event already recorded quantity '' @ show_int prior @
                 ''; this request has '' @ show_int requested))
      else Inr ())"

lemma reject_quantity_mismatch_Inr [result_simps]:
  "reject_quantity_mismatch a b = Inr u \<longleftrightarrow> a = b"
  by (simp add: reject_quantity_mismatch_def)

lemma reject_quantity_mismatch_same [simp]: "reject_quantity_mismatch a a = Inr ()"
  by (simp add: reject_quantity_mismatch_def)

record prior_allocation =
  pr_id :: uuid
  pr_stock :: "uuid option"
  pr_line :: "uuid option"
  pr_quantity :: i64
  pr_firm :: bool

definition prior_allocation :: "uuid \<Rightarrow> uuid \<Rightarrow> db \<Rightarrow> prior_allocation option" where
  "prior_allocation t aid s =
     map_option (\<lambda>a. \<lparr>pr_id = al_id a, pr_stock = al_stock a, pr_line = al_line a,
                      pr_quantity = al_quantity a, pr_firm = al_firm a\<rparr>)
       (allocation_by_id t aid s)"

text \<open>\<open>{:?}\<close> of an \<open>Option<Uuid>\<close>.\<close>

definition debug_uuid_option :: "uuid option \<Rightarrow> string" where
  "debug_uuid_option x = (case x of None \<Rightarrow> ''None'' | Some u \<Rightarrow> ''Some('' @ show_uuid u @ '')'')"

definition allocation_differences ::
  "prior_allocation \<Rightarrow> uuid \<Rightarrow> uuid \<Rightarrow> i64 \<Rightarrow> string list" where
  "allocation_differences prior stock_id line qty =
     (if pr_stock prior \<noteq> Some stock_id
      then [''stock_id '' @ debug_uuid_option (pr_stock prior) @
            '' (this request has '' @ show_uuid stock_id @ '')''] else []) @
     (if pr_line prior \<noteq> Some line
      then [''fulfilment_line_id '' @ debug_uuid_option (pr_line prior) @
            '' (this request has '' @ show_uuid line @ '')''] else []) @
     (if pr_quantity prior \<noteq> qty
      then [''quantity '' @ show_int (pr_quantity prior) @
            '' (this request has '' @ show_int qty @ '')''] else [])"

definition reject_allocation_mismatch ::
  "prior_allocation \<Rightarrow> uuid \<Rightarrow> uuid \<Rightarrow> i64 \<Rightarrow> api_error + unit" where
  "reject_allocation_mismatch prior stock_id line qty =
     (let differs = allocation_differences prior stock_id line qty in
      if differs = [] then Inr ()
      else Inl (Rejected (''allocation '' @ show_uuid (pr_id prior) @ '' already exists with '' @
                  join ''; '' differs)))"

lemma reject_allocation_mismatch_Inr [result_simps]:
  "reject_allocation_mismatch prior st fl q = Inr u \<longleftrightarrow>
   pr_stock prior = Some st \<and> pr_line prior = Some fl \<and> pr_quantity prior = q"
  by (auto simp: reject_allocation_mismatch_def allocation_differences_def)

section \<open>Delivery headers\<close>

record new_goods_receipt =
  ng_tenant :: uuid
  ng_id :: "uuid option"
  ng_site :: "uuid option"
  ng_purchase_order :: "uuid option"
  ng_received_at :: time
  ng_event :: uuid
  ng_recorded_by :: uuid

definition receipt_header :: "new_goods_receipt \<Rightarrow> uuid \<Rightarrow> goods_receipt_row" where
  "receipt_header gr i =
     \<lparr>gr_id = i, gr_tenant = ng_tenant gr, gr_site = ng_site gr,
      gr_purchase_order = ng_purchase_order gr, gr_received_at = ng_received_at gr,
      gr_event = ng_event gr, gr_recorded_by = ng_recorded_by gr\<rparr>"

definition insert_receipt :: "goods_receipt_row \<Rightarrow> db \<Rightarrow> db" where
  [row_simps]: "insert_receipt g s = s\<lparr>goods_receipts := goods_receipts s @ [g]\<rparr>"

text \<open>Both sides state a value and the two differ.\<close>

definition disagree :: "'a option \<Rightarrow> 'a option \<Rightarrow> bool" where
  "disagree a b \<longleftrightarrow> a \<noteq> None \<and> b \<noteq> None \<and> a \<noteq> b"

text \<open>
  \<open>ON CONFLICT (id)\<close> sees the unique index, which no policy filters: an id another tenant holds
  conflicts, and then reads back as absent.
\<close>

definition ensure_goods_receipt ::
  "pg \<Rightarrow> new_goods_receipt \<Rightarrow> db \<Rightarrow> api_error + ((uuid \<times> bool) \<times> db)" where
  "ensure_goods_receipt pg gr s =
     (case ng_id gr of
        None \<Rightarrow>
          and_then (write_to pg Goods_receipt s
                     (insert_receipt (receipt_header gr (minted pg Goods_receipt)) s))
            (\<lambda>s'. Inr ((minted pg Goods_receipt, True), s'))
      | Some i \<Rightarrow>
          if \<not> (\<exists>g \<in> set (goods_receipts s). gr_id g = i)
          then and_then (write_to pg Goods_receipt s (insert_receipt (receipt_header gr i) s))
                 (\<lambda>s'. Inr ((i, True), s'))
          else
            (case by_id gr_tenant gr_id (ng_tenant gr) i (goods_receipts s) of
               None \<Rightarrow> Inl (Rejected ''that goods_receipt id is already in use and is not this tenant's'')
             | Some r \<Rightarrow>
                 if disagree (gr_site r) (ng_site gr)
                 then Inl (Rejected ''goods_receipt belongs to a different site than this line'')
                 else if disagree (gr_purchase_order r) (ng_purchase_order gr)
                 then Inl (Rejected ''goods_receipt is already for a different purchase order; one delivery per demand document (D43)'')
                 else Inr ((i, False), s)))"

text \<open>
  Two lines of one delivery in either order end on one header: the second joins what the first
  opened, and it opens nothing.
\<close>

lemma by_id_snoc_new:
  assumes "\<not> (\<exists>r \<in> set rows. id_of r = i)"
  shows "by_id tn id_of t i (rows @ [r]) = (if tn r = t \<and> id_of r = i then Some r else None)"
proof -
  have "find (\<lambda>r. tn r = t \<and> id_of r = i) rows = None"
    using assms by (auto simp: find_None_iff)
  then show ?thesis by (simp add: by_id_def find_append)
qed

lemma ensure_goods_receipt_join:
  assumes first: "ensure_goods_receipt pg gr s = Inr ((h, c), s')"
    and same: "ng_tenant gr' = ng_tenant gr" "ng_id gr' = Some h"
    and agree: "\<not> disagree (ng_site gr) (ng_site gr')"
      "\<not> disagree (ng_purchase_order gr) (ng_purchase_order gr')"
    and fresh: "ng_id gr = Some h \<and> \<not> (\<exists>g \<in> set (goods_receipts s). gr_id g = h)"
  shows "ensure_goods_receipt pg' gr' s' = Inr ((h, False), s')"
proof -
  have s': "goods_receipts s' = goods_receipts s @ [receipt_header gr h]"
    using first fresh
    by (auto simp: ensure_goods_receipt_def result_simps row_simps split: if_splits)
  have "by_id gr_tenant gr_id (ng_tenant gr) h (goods_receipts s') = Some (receipt_header gr h)"
    using fresh by (simp add: s' by_id_snoc_new receipt_header_def)
  moreover have "\<exists>g \<in> set (goods_receipts s'). gr_id g = h"
    by (simp add: s' receipt_header_def)
  ultimately show ?thesis
    using same agree by (simp add: ensure_goods_receipt_def receipt_header_def)
qed

section \<open>The contract of a write path\<close>

text \<open>
  What one run under act \<open>act\<close> of tenant \<open>t\<close> may do to the facts: either it leaves the envelopes
  and the ledger as they are, or the act was unclaimed, and it claims it and appends at most one
  ledger row, which names the act.  No other tenant's view changes either way.
\<close>

definition act_effect :: "uuid \<Rightarrow> uuid \<Rightarrow> db \<Rightarrow> db \<Rightarrow> bool" where
  "act_effect t act s s' \<longleftrightarrow> isolated t s s' \<and>
     ((client_events s' = client_events s \<and> movements s' = movements s)
      \<or> (\<not> claimed t act s \<and>
          (\<exists>e ms. client_events s' = client_events s @ [e] \<and> ce_tenant e = t \<and> ce_id e = act
             \<and> movements s' = movements s @ ms \<and> length ms \<le> 1
             \<and> (\<forall>m \<in> set ms. mv_tenant m = t \<and> mv_event m = act))))"

text \<open>
  The state invariant behind a replay: envelopes are unique per tenant and act, every ledger row
  belongs to a claimed act, and an act owns at most one ledger row.
\<close>

definition facts_of :: "uuid \<Rightarrow> uuid \<Rightarrow> db \<Rightarrow> stock_movement list" where
  "facts_of t act s = filter (\<lambda>m. mv_tenant m = t \<and> mv_event m = act) (movements s)"

definition well_keyed :: "db \<Rightarrow> bool" where
  "well_keyed s \<longleftrightarrow>
     distinct (map (\<lambda>e. (ce_tenant e, ce_id e)) (client_events s))
     \<and> (\<forall>m \<in> set (movements s). claimed (mv_tenant m) (mv_event m) s)
     \<and> (\<forall>t act. length (facts_of t act s) \<le> 1)"

lemma claimed_append:
  "client_events s' = client_events s @ [e] \<Longrightarrow>
   claimed t act s' \<longleftrightarrow> claimed t act s \<or> (ce_tenant e = t \<and> ce_id e = act)"
  by (auto simp: claimed_def)

lemma facts_of_unclaimed:
  assumes "well_keyed s" and "\<not> claimed t act s"
  shows "facts_of t act s = []"
  using assms by (auto simp: well_keyed_def facts_of_def filter_eq_Nil_iff)

lemma well_keyed_cong:
  "client_events s' = client_events s \<Longrightarrow> movements s' = movements s \<Longrightarrow> well_keyed s' = well_keyed s"
  by (simp add: well_keyed_def claimed_def facts_of_def)

lemma act_effect_well_keyed:
  assumes eff: "act_effect t act s s'" and wk: "well_keyed s"
  shows "well_keyed s'"
proof (cases "client_events s' = client_events s \<and> movements s' = movements s")
  case True
  with wk show ?thesis using well_keyed_cong by blast
next
  case same: False
  obtain e ms where s':
      "client_events s' = client_events s @ [e]" "ce_tenant e = t" "ce_id e = act"
      "movements s' = movements s @ ms" "length ms \<le> 1"
      "\<forall>m \<in> set ms. mv_tenant m = t \<and> mv_event m = act"
    and False: "\<not> claimed t act s"
    using eff same unfolding act_effect_def by blast
  have "distinct (map (\<lambda>e. (ce_tenant e, ce_id e)) (client_events s'))"
    using wk False s' by (auto simp: well_keyed_def claimed_def)
  moreover have "\<forall>m \<in> set (movements s'). claimed (mv_tenant m) (mv_event m) s'"
    using wk s' by (auto simp: well_keyed_def claimed_append [OF s'(1)])
  moreover have "length (facts_of t' act' s') \<le> 1" for t' act'
  proof (cases "t' = t \<and> act' = act")
    case True
    then have "facts_of t' act' s' = filter (\<lambda>m. mv_tenant m = t \<and> mv_event m = act) ms"
      using facts_of_unclaimed [OF wk False] s' by (simp add: facts_of_def)
    then show ?thesis using s'(5) by (metis (no_types, lifting) length_filter_le order_trans)
  next
    case False
    then have "filter (\<lambda>m. mv_tenant m = t' \<and> mv_event m = act') ms = []"
      using s'(6) by (auto simp: filter_eq_Nil_iff)
    then show ?thesis using wk s' by (simp add: well_keyed_def facts_of_def)
  qed
  ultimately show ?thesis by (simp add: well_keyed_def)
qed

lemma act_movements_facts:
  "act_movements t act s = sort_by (\<lambda>a b. cmp (mv_id a) (mv_id b)) (facts_of t act s)"
  by (simp add: act_movements_def facts_of_def visible_def conj_commute)

lemma require_one_movement_facts:
  "facts_of t act s = [m] \<Longrightarrow> require_one_movement t act s = Inr (mv_id m, mv_quantity m)"
  by (simp add: require_one_movement_def act_movements_facts sort_by_def)

lemma facts_of_fresh:
  assumes "well_keyed s" and "\<not> claimed t act s"
    and "movements s' = movements s @ [m]" and "mv_tenant m = t" "mv_event m = act"
  shows "facts_of t act s' = [m]"
  using facts_of_unclaimed [OF assms(1,2)] assms(3-5) by (simp add: facts_of_def)

text \<open>The shape every fresh run that adds one ledger row has.\<close>

lemma fresh_effect:
  assumes "\<not> claimed t act s" and "ce_tenant e = t" "ce_id e = act" "mv_tenant m = t" "mv_event m = act"
  shows "act_effect t act s
     (mark_dirty pg t why (s\<lparr>client_events := client_events s @ [e], movements := movements s @ [m]\<rparr>))"
proof -
  have "isolated t s (s\<lparr>client_events := client_events s @ [e], movements := movements s @ [m]\<rparr>)"
    using assms by (auto simp: isolated_def tenant_view_def visible_def)
  then show ?thesis
    using assms unfolding act_effect_def by (auto intro: isolated_trans)
qed

lemma act_effect_append_only:
  assumes "act_effect t act s s'"
  shows "\<exists>ms. movements s' = movements s @ ms"
    and "claimed t' act' s \<Longrightarrow> claimed t' act' s'"
  using assms by (auto simp: act_effect_def claimed_def)

text \<open>Once an act is claimed, its facts are the ones it has.\<close>

lemma act_effect_facts_stable:
  assumes "act_effect t act s s'" and "claimed t' act' s"
  shows "facts_of t' act' s' = facts_of t' act' s"
proof (cases "movements s' = movements s")
  case True
  then show ?thesis by (simp add: facts_of_def)
next
  case False
  then obtain ms where ms: "movements s' = movements s @ ms" "\<not> claimed t act s"
      "\<forall>m \<in> set ms. mv_tenant m = t \<and> mv_event m = act"
    using assms by (auto simp: act_effect_def)
  have "\<not> (t' = t \<and> act' = act)" using ms(2) assms(2) by auto
  then have "filter (\<lambda>m. mv_tenant m = t' \<and> mv_event m = act') ms = []"
    using ms(3) by (auto simp: filter_eq_Nil_iff)
  then show ?thesis by (simp add: facts_of_def ms)
qed

text \<open>
  The contract of a handler body: each successful run has the effect above on the act its request
  names.  Everything below follows from that alone, for one handler after any sequence of others.
\<close>

locale act_writer =
  fixes run :: "pg \<Rightarrow> caller \<Rightarrow> 'req \<Rightarrow> db \<Rightarrow> api_error + ('resp \<times> db)"
    and act_of :: "'req \<Rightarrow> uuid"
  assumes effect: "run pg who req s = Inr (v, s') \<Longrightarrow> act_effect (ca_tenant who) (act_of req) s s'"
begin

definition attempt :: "pg \<Rightarrow> caller \<Rightarrow> 'req \<Rightarrow> db \<Rightarrow> db" where
  "attempt pg who req s = snd (tenant_run pg (run pg who req) s)"

lemma attempt_cases:
  "attempt pg who req s = s \<or> (\<exists>v. run pg who req s = Inr (v, attempt pg who req s))"
  by (auto simp: attempt_def tenant_run_def split: sum.splits)

lemma attempt_well_keyed: "well_keyed s \<Longrightarrow> well_keyed (attempt pg who req s)"
  using attempt_cases [of pg who req s] effect act_effect_well_keyed by metis

lemma attempt_isolated: "isolated (ca_tenant who) s (attempt pg who req s)"
  using attempt_cases [of pg who req s] effect by (metis act_effect_def isolated_refl)

lemma attempt_append_only: "\<exists>ms. movements (attempt pg who req s) = movements s @ ms"
  using attempt_cases [of pg who req s] effect act_effect_append_only(1) by (metis append_Nil2)

end

text \<open>
  The stronger contract of the handlers that claim their act before anything else: a run always
  leaves its act claimed, and one whose act was claimed already writes nothing at all.
\<close>

locale strict_writer = act_writer +
  assumes claims: "run pg who req s = Inr (v, s') \<Longrightarrow> claimed (ca_tenant who) (act_of req) s'"
    and replay: "run pg who req s = Inr (v, s') \<Longrightarrow> claimed (ca_tenant who) (act_of req) s \<Longrightarrow> s' = s"
begin

lemma retry_writes_nothing:
  assumes "run pg who req s = Inr (v, s')" and "run pg' who' req' s' = Inr (v', s'')"
    and "ca_tenant who' = ca_tenant who" and "act_of req' = act_of req"
  shows "s'' = s'"
  using claims [OF assms(1)] replay [OF assms(2)] assms(3,4) by simp

text \<open>Retries, in any number and from any session of the tenant, add nothing after the first success.\<close>

lemma retries_write_nothing:
  assumes "claimed t act s" and "\<forall>(pg, who, req) \<in> set tries. ca_tenant who = t \<and> act_of req = act"
  shows "fold (\<lambda>(pg, who, req). attempt pg who req) tries s = s"
  using assms
proof (induction tries)
  case (Cons x tries)
  obtain pg who req where x: "x = (pg, who, req)" by (cases x)
  have "attempt pg who req s = s"
    using attempt_cases [of pg who req s] replay Cons.prems x by fastforce
  with Cons x show ?case by simp
qed simp

end

end
