(* ===== verification/Ledger.thy ===== *)
theory Ledger
  imports Client_Events
begin

text \<open>
  The ledger read as quantities.  A \<open>stock_movement\<close> row carries a quantity, the side it leaves and
  the side it enters; what a cell holds is the sum of what entered less the sum of what left.  The
  write paths never touch \<open>stock\<close>: this fold is what they mean, and the properties of the handlers
  are stated over it.
\<close>

section \<open>The fold\<close>

definition entered :: "uuid \<Rightarrow> side \<Rightarrow> stock_movement \<Rightarrow> int" where
  "entered item sd m = (if mv_item m = item \<and> mv_to m = sd then mv_quantity m else 0)"

definition left_from :: "uuid \<Rightarrow> side \<Rightarrow> stock_movement \<Rightarrow> int" where
  "left_from item sd m = (if mv_item m = item \<and> mv_from m = sd then mv_quantity m else 0)"

definition net :: "uuid \<Rightarrow> side \<Rightarrow> stock_movement \<Rightarrow> int" where
  "net item sd m = entered item sd m - left_from item sd m"

definition on_hand :: "uuid \<Rightarrow> uuid \<Rightarrow> side \<Rightarrow> db \<Rightarrow> int" where
  "on_hand t item sd s = sum_list (map (net item sd) (visible mv_tenant t (movements s)))"

lemma on_hand_append:
  assumes "movements s' = movements s @ ms"
  shows "on_hand t item sd s' = on_hand t item sd s + sum_list (map (net item sd) (visible mv_tenant t ms))"
  by (simp add: on_hand_def assms)

lemma on_hand_snoc [simp]:
  assumes "movements s' = movements s @ [m]" and "mv_tenant m = t"
  shows "on_hand t item sd s' = on_hand t item sd s + net item sd m"
  by (simp add: on_hand_append [OF assms(1)] visible_def assms(2))

text \<open>A tenant's holding of an item over all cells: transfers do not change it.\<close>

definition crosses :: "stock_movement \<Rightarrow> int" where
  "crosses m = (if mv_to m \<noteq> no_side then mv_quantity m else 0)
             - (if mv_from m \<noteq> no_side then mv_quantity m else 0)"

definition total_held :: "uuid \<Rightarrow> uuid \<Rightarrow> db \<Rightarrow> int" where
  "total_held t item s =
     sum_list (map (\<lambda>m. if mv_item m = item then crosses m else 0) (visible mv_tenant t (movements s)))"

lemma total_held_snoc:
  assumes "movements s' = movements s @ [m]" and "mv_tenant m = t"
  shows "total_held t item s' = total_held t item s + (if mv_item m = item then crosses m else 0)"
  by (simp add: total_held_def visible_def assms)

lemma crosses_transfer: "mv_from m \<noteq> no_side \<Longrightarrow> mv_to m \<noteq> no_side \<Longrightarrow> crosses m = 0"
  by (simp add: crosses_def)

text \<open>The side a stock row names, \<open>SIDE_COLUMNS\<close> of the ledger.\<close>

definition side_of_stock :: "stock_row \<Rightarrow> side" where
  "side_of_stock k = \<lparr>sd_location = sk_location k, sd_package = sk_package k, sd_lot = sk_lot k,
     sd_status = Some (sk_status k), sd_owner = Some (sk_owner k)\<rparr>"

lemma side_of_stock_some [simp]: "side_of_stock k \<noteq> no_side"
  by (simp add: side_of_stock_def no_side_def)

section \<open>Correction chains\<close>

text \<open>
  A correction is a movement that reverses an earlier one, and may itself be reversed.  The
  recursive query unrolls the chain under a root with its depth; what a root is worth is its
  quantity less what its reversals are worth, and so on down, which the query says as a sign by
  parity.  The recursion runs on fuel: a row reverses an earlier row of the same table, so the
  number of rows bounds the depth (\<open>chain_fuel_enough\<close>).
\<close>

definition reversals :: "stock_movement list \<Rightarrow> stock_movement \<Rightarrow> stock_movement list" where
  "reversals ms m = filter (\<lambda>r. mv_reverses r = Some (mv_id m)) ms"

fun chain_rows :: "nat \<Rightarrow> stock_movement list \<Rightarrow> nat \<Rightarrow> stock_movement \<Rightarrow> (stock_movement \<times> nat) list" where
  "chain_rows 0 ms depth m = []"
| "chain_rows (Suc n) ms depth m =
     (m, depth) # concat (map (chain_rows n ms (depth + 1)) (reversals ms m))"

definition signed_quantity :: "stock_movement \<times> nat \<Rightarrow> int" where
  "signed_quantity r = (if even (snd r) then mv_quantity (fst r) else - mv_quantity (fst r))"

definition effective_quantity :: "stock_movement list \<Rightarrow> stock_movement \<Rightarrow> int" where
  "effective_quantity ms m = sum_list (map signed_quantity (chain_rows (length ms) ms 0 m))"

text \<open>The reference reading: a movement less its reversals.\<close>

fun net_of_reversals :: "nat \<Rightarrow> stock_movement list \<Rightarrow> stock_movement \<Rightarrow> int" where
  "net_of_reversals 0 ms m = 0"
| "net_of_reversals (Suc n) ms m =
     mv_quantity m - sum_list (map (net_of_reversals n ms) (reversals ms m))"

lemma sum_list_neg: "sum_list (map (\<lambda>x. - f x) xs) = - sum_list (map f xs)" for f :: "'a \<Rightarrow> int"
  by (induction xs) auto

lemma sum_list_concat_map:
  "sum_list (map f (concat (map g xs))) = sum_list (map (\<lambda>x. sum_list (map f (g x))) xs)"
  for f :: "'a \<Rightarrow> int"
  by (induction xs) auto

lemma chain_sum:
  "sum_list (map signed_quantity (chain_rows n ms d m)) =
   (if even d then net_of_reversals n ms m else - net_of_reversals n ms m)"
proof (induction n arbitrary: d m)
  case (Suc n)
  then show ?case
    by (cases "even d") (simp_all add: signed_quantity_def sum_list_concat_map sum_list_neg)
qed simp

lemma effective_quantity_net: "effective_quantity ms m = net_of_reversals (length ms) ms m"
  by (simp add: effective_quantity_def chain_sum)

text \<open>Every reversal stands after the row it reverses, as an append-only table with a foreign key has it.\<close>

definition reverses_backward :: "stock_movement list \<Rightarrow> bool" where
  "reverses_backward ms \<longleftrightarrow>
     (\<forall>j < length ms. \<forall>u. mv_reverses (ms ! j) = Some u \<longrightarrow>
        (\<forall>i < length ms. mv_id (ms ! i) = u \<longrightarrow> i < j))"

lemma chain_fuel_enough_at:
  assumes "reverses_backward ms" and "i < length ms" and "length ms - i \<le> n" and "length ms - i \<le> k"
  shows "net_of_reversals n ms (ms ! i) = net_of_reversals k ms (ms ! i)"
  using assms(2-)
proof (induction "length ms - i" arbitrary: i n k rule: less_induct)
  case less
  obtain n' k' where nk: "n = Suc n'" "k = Suc k'"
    using less.prems by (cases n; cases k) auto
  have "net_of_reversals n' ms r = net_of_reversals k' ms r" if "r \<in> set (reversals ms (ms ! i))" for r
  proof -
    from that obtain j where j: "j < length ms" "r = ms ! j" "mv_reverses (ms ! j) = Some (mv_id (ms ! i))"
      by (auto simp: reversals_def in_set_conv_nth)
    then have "i < j" using assms(1) less.prems(1) unfolding reverses_backward_def by blast
    then show ?thesis using less.hyps [of j n' k'] less.prems nk j by simp
  qed
  then have "map (net_of_reversals n' ms) (reversals ms (ms ! i)) =
      map (net_of_reversals k' ms) (reversals ms (ms ! i))"
    by (intro map_cong) auto
  then show ?case by (simp only: nk net_of_reversals.simps)
qed

lemma chain_fuel_enough:
  assumes "reverses_backward ms" and "m \<in> set ms" and "length ms \<le> n"
  shows "net_of_reversals n ms m = effective_quantity ms m"
proof -
  obtain i where i: "i < length ms" "m = ms ! i" using assms(2) by (metis in_set_conv_nth)
  show ?thesis
    unfolding effective_quantity_net i(2)
    by (rule chain_fuel_enough_at [OF assms(1) i(1)]) (use assms(3) in simp_all)
qed

section \<open>What a package holds, and its status\<close>

definition status_kinds :: "string list" where
  "status_kinds = [''sealed'', ''opened'', ''despatched'', ''voided'']"

text \<open>\<open>ORDER BY occurred_at DESC, recorded_at DESC, id DESC\<close>.\<close>

definition newest_event :: "package_event \<Rightarrow> package_event \<Rightarrow> ordering" where
  "newest_event a b =
     then_cmp (cmp (pe_occurred_at b) (pe_occurred_at a))
       (then_cmp (cmp (pe_recorded_at b) (pe_recorded_at a)) (cmp (pe_id b) (pe_id a)))"

definition package_status_now :: "uuid \<Rightarrow> uuid \<Rightarrow> db \<Rightarrow> string option" where
  "package_status_now t pkg s =
     (case sort_by newest_event
             (filter (\<lambda>e. pe_package e = pkg \<and> pe_kind e \<in> set status_kinds)
               (visible pe_tenant t (package_events s))) of
        [] \<Rightarrow> None
      | e # _ \<Rightarrow> Some (pe_kind e))"

interpretation newest_events: comparator newest_event
  by unfold_locales (auto simp: newest_event_def then_cmp_def cmp_def split: if_splits)

text \<open>The view \<open>package_line_content\<close>: (package, line, item, lot, signed effective quantity).\<close>

definition content_rows ::
  "stock_movement list \<Rightarrow> ((uuid \<times> uuid \<times> uuid \<times> uuid option) \<times> int) list" where
  "content_rows ms =
     concat (map (\<lambda>m.
       (case (mv_reverses m, mv_line m) of
          (None, Some line) \<Rightarrow>
            (case sd_package (mv_to m) of
               Some p \<Rightarrow> [((p, line, mv_item m, sd_lot (mv_to m)), effective_quantity ms m)]
             | None \<Rightarrow> []) @
            (case sd_package (mv_from m) of
               Some p \<Rightarrow>
                 if sd_package (mv_to m) \<noteq> None \<or> sd_location (mv_to m) \<noteq> None
                 then [((p, line, mv_item m, sd_lot (mv_from m)), - effective_quantity ms m)] else []
             | None \<Rightarrow> [])
        | _ \<Rightarrow> [])) ms)"

definition package_line_content ::
  "uuid \<Rightarrow> db \<Rightarrow> ((uuid \<times> uuid \<times> uuid \<times> uuid option) \<times> int) list" where
  "package_line_content t s =
     (let rows = content_rows (visible mv_tenant t (movements s)) in
      map (\<lambda>k. (k, max 0 (sum_list (map snd (filter (\<lambda>r. fst r = k) rows)))))
        (remdups (map fst rows)))"

lemma package_line_content_nonneg: "(k, q) \<in> set (package_line_content t s) \<Longrightarrow> 0 \<le> q"
  by (auto simp: package_line_content_def Let_def)

section \<open>Live progress of a line\<close>

record progress =
  pg_covered :: i64
  pg_picked :: i64
  pg_packed :: i64
  pg_despatched :: i64
  pg_uncovered :: i64

record projection_progress =
  pp_progress :: progress
  pp_as_at :: "time option"

definition covering_states :: "string list" where
  "covering_states = [''allocated'', ''picking'', ''picked'', ''packed'', ''fulfilled'']"

definition storage_kinds :: "string list" where
  "storage_kinds = [''pick_face'', ''bulk'', ''overflow'']"

definition location_kind :: "uuid \<Rightarrow> uuid option \<Rightarrow> db \<Rightarrow> string option" where
  "location_kind t l s = Option.bind l (\<lambda>i. map_option lo_kind (location_by_id t i s))"

text \<open>Roots of a line, each with what it is worth.  Integers: a sum the database could not cast is out of scope.\<close>

definition line_roots :: "uuid \<Rightarrow> uuid \<Rightarrow> db \<Rightarrow> (stock_movement \<times> int) list" where
  "line_roots t line s =
     (let ms = visible mv_tenant t (movements s) in
      map (\<lambda>m. (m, effective_quantity ms m))
        (filter (\<lambda>m. mv_line m = Some line \<and> mv_reverses m = None) ms))"

definition line_progress_ledger :: "uuid \<Rightarrow> uuid \<Rightarrow> i64 \<Rightarrow> db \<Rightarrow> progress" where
  "line_progress_ledger t line commitment s =
     (let roots = line_roots t line s;
          covered = sum_list (map al_quantity
            (filter (\<lambda>a. al_line a = Some line \<and> al_state a \<in> set covering_states)
              (visible al_tenant t (allocations s))));
          picked = sum_list (map snd (filter (\<lambda>(m, q).
            case location_kind t (sd_location (mv_from m)) s of
              None \<Rightarrow> False | Some k \<Rightarrow> k \<in> set storage_kinds) roots));
          packed = sum_list (map snd (filter (\<lambda>((p, l, i, lot), q). l = line \<and>
            (case package_by_id t p s of
               None \<Rightarrow> False
             | Some k \<Rightarrow> pk_status k = Some ''sealed'' \<or> pk_status k = Some ''despatched''))
            (package_line_content t s)));
          despatched = sum_list (map snd (filter (\<lambda>(m, q).
            sd_location (mv_to m) = None \<and> sd_package (mv_to m) = None) roots))
      in \<lparr>pg_covered = covered, pg_picked = picked, pg_packed = packed,
          pg_despatched = despatched, pg_uncovered = i64_sub commitment covered\<rparr>)"

definition line_progress_projection ::
  "uuid \<Rightarrow> i64 \<Rightarrow> i64 \<Rightarrow> i64 \<Rightarrow> i64 \<Rightarrow> i64 \<Rightarrow> db \<Rightarrow> projection_progress" where
  "line_progress_projection t covered picked packed despatched uncovered s =
     (let as_at = Option.bind
        (find (\<lambda>f. pf_function f = ''projection_fulfilment_rebuild'' \<and> pf_tenant f = t) (freshness s))
        pf_last_run_at
      in \<lparr>pp_progress = \<lparr>pg_covered = covered, pg_picked = picked, pg_packed = packed,
            pg_despatched = despatched, pg_uncovered = uncovered\<rparr>, pp_as_at = as_at\<rparr>)"

definition package_status_ledger :: "uuid \<Rightarrow> uuid \<Rightarrow> db \<Rightarrow> string option" where
  "package_status_ledger t pkg s = package_status_now t pkg s"

section \<open>How the live figures move with the ledger\<close>

text \<open>A row that reverses nothing changes no other row's worth.\<close>

lemma reversals_snoc: "mv_reverses m = None \<Longrightarrow> reversals (ms @ [m]) x = reversals ms x"
  by (simp add: reversals_def)

lemma net_of_reversals_snoc:
  "mv_reverses m = None \<Longrightarrow> net_of_reversals n (ms @ [m]) x = net_of_reversals n ms x"
  by (induction n arbitrary: x) (simp_all add: reversals_snoc cong: map_cong)

lemma effective_quantity_snoc:
  assumes "mv_reverses m = None" and "reverses_backward ms" and "x \<in> set ms"
  shows "effective_quantity (ms @ [m]) x = effective_quantity ms x"
proof -
  have "effective_quantity (ms @ [m]) x = net_of_reversals (length ms + 1) (ms @ [m]) x"
    by (simp only: effective_quantity_net length_append list.size add_0 One_nat_def)
  also have "\<dots> = net_of_reversals (length ms + 1) ms x"
    by (rule net_of_reversals_snoc [OF assms(1)])
  also have "\<dots> = effective_quantity ms x"
    by (rule chain_fuel_enough [OF assms(2,3)]) simp
  finally show ?thesis .
qed

lemma effective_quantity_new:
  assumes "reversals ms m = []" and "mv_reverses m = None"
  shows "effective_quantity (ms @ [m]) m = mv_quantity m"
proof -
  have "reversals (ms @ [m]) m = []" using assms by (simp add: reversals_snoc)
  then show ?thesis by (simp add: effective_quantity_net)
qed

definition from_storage :: "uuid \<Rightarrow> side \<Rightarrow> db \<Rightarrow> bool" where
  "from_storage t sd s =
     (case location_kind t (sd_location sd) s of None \<Rightarrow> False | Some k \<Rightarrow> k \<in> set storage_kinds)"

lemma line_roots_snoc:
  assumes "movements s' = movements s @ [m]" and "mv_tenant m = t" and "mv_reverses m = None"
    and "reverses_backward (visible mv_tenant t (movements s))"
    and "reversals (visible mv_tenant t (movements s)) m = []"
  shows "line_roots t line s' = line_roots t line s @ (if mv_line m = Some line then [(m, mv_quantity m)] else [])"
proof -
  have vis: "visible mv_tenant t (movements s') = visible mv_tenant t (movements s) @ [m]"
    by (simp add: assms visible_def)
  show ?thesis
    unfolding line_roots_def Let_def vis
    using assms by (auto simp: effective_quantity_snoc effective_quantity_new)
qed

text \<open>
  One more ledger row that names the line: picked grows by its quantity when it leaves storage,
  despatched when it leaves the building, and covered not at all.
\<close>

lemma progress_snoc:
  assumes "movements s' = movements s @ [m]" and "mv_tenant m = t" and "mv_reverses m = None"
    and "reverses_backward (visible mv_tenant t (movements s))"
    and "reversals (visible mv_tenant t (movements s)) m = []"
    and "mv_line m = Some line" and "locations s' = locations s" and "allocations s' = allocations s"
  shows "pg_picked (line_progress_ledger t line q s') = pg_picked (line_progress_ledger t line q s)
           + (if from_storage t (mv_from m) s then mv_quantity m else 0)"
    and "pg_despatched (line_progress_ledger t line q s') = pg_despatched (line_progress_ledger t line q s)
           + (if sd_location (mv_to m) = None \<and> sd_package (mv_to m) = None then mv_quantity m else 0)"
    and "pg_covered (line_progress_ledger t line q s') = pg_covered (line_progress_ledger t line q s)"
proof -
  have kind: "location_kind t l s' = location_kind t l s" for l
    by (simp add: location_kind_def row_simps assms)
  show "pg_picked (line_progress_ledger t line q s') = pg_picked (line_progress_ledger t line q s)
           + (if from_storage t (mv_from m) s then mv_quantity m else 0)"
    and "pg_despatched (line_progress_ledger t line q s') = pg_despatched (line_progress_ledger t line q s)
           + (if sd_location (mv_to m) = None \<and> sd_package (mv_to m) = None then mv_quantity m else 0)"
    and "pg_covered (line_progress_ledger t line q s') = pg_covered (line_progress_ledger t line q s)"
    using assms(6,8) line_roots_snoc [OF assms(1-5), of line]
    by (simp_all add: line_progress_ledger_def Let_def kind from_storage_def)
qed

text \<open>A row that reverses a root is worth that much less of the root, and nothing else changes.\<close>

lemma net_of_reversals_other:
  assumes "distinct (map mv_id ms)" and "m \<in> set ms" and "mv_reverses m = None"
    and "mv_reverses r = Some (mv_id m)" and "mv_id x \<noteq> mv_id m"
  shows "net_of_reversals n (ms @ [r]) x = net_of_reversals n ms x"
  using assms(5)
proof (induction n arbitrary: x)
  case (Suc n)
  have "reversals (ms @ [r]) x = reversals ms x"
    using Suc.prems assms(4) by (simp add: reversals_def)
  moreover have "net_of_reversals n (ms @ [r]) y = net_of_reversals n ms y" if "y \<in> set (reversals ms x)" for y
  proof (rule Suc.IH)
    have y: "y \<in> set ms" "y \<noteq> m" using that assms(3) by (auto simp: reversals_def)
    then show "mv_id y \<noteq> mv_id m" using assms(1,2) by (metis distinct_map inj_on_def)
  qed
  ultimately show ?case by (simp cong: map_cong)
qed simp

lemma effective_quantity_reversed:
  assumes "distinct (map mv_id ms)" and "m \<in> set ms" and "mv_reverses m = None"
    and "mv_reverses r = Some (mv_id m)" and "mv_id r \<notin> set (map mv_id ms)"
    and "reversals ms r = []" and "reverses_backward ms" and "x \<in> set ms"
  shows "effective_quantity (ms @ [r]) x = effective_quantity ms x - (if x = m then mv_quantity r else 0)"
proof -
  have fuel: "effective_quantity (ms @ [r]) x = net_of_reversals (Suc (length ms)) (ms @ [r]) x"
    by (simp only: effective_quantity_net length_append list.size add_0 add_Suc_right add_0_right)
  have enough: "net_of_reversals (Suc (length ms)) ms x = effective_quantity ms x"
    by (rule chain_fuel_enough [OF assms(7,8)]) simp
  show ?thesis
  proof (cases "x = m")
    case False
    then have "mv_id x \<noteq> mv_id m" using assms(1,2,8) by (metis distinct_map inj_on_def)
    from net_of_reversals_other [OF assms(1-4) this] show ?thesis
      using fuel enough False by simp
  next
    case True
    obtain k where k: "length ms = Suc k" using assms(2) by (cases ms) auto
    have id_r: "mv_id r \<noteq> mv_id m" using assms(2,5) by auto
    have leaf: "net_of_reversals (length ms) (ms @ [r]) r = mv_quantity r"
      using assms(4,6) id_r by (simp add: k reversals_def)
    have "map (net_of_reversals (length ms) (ms @ [r])) (reversals ms m) =
        map (net_of_reversals (length ms) ms) (reversals ms m)"
    proof (rule map_cong [OF refl])
      fix y assume "y \<in> set (reversals ms m)"
      then have "y \<in> set ms" "y \<noteq> m" using assms(3) by (auto simp: reversals_def)
      then have "mv_id y \<noteq> mv_id m" using assms(1,2) by (metis distinct_map inj_on_def)
      then show "net_of_reversals (length ms) (ms @ [r]) y = net_of_reversals (length ms) ms y"
        by (rule net_of_reversals_other [OF assms(1-4)])
    qed
    moreover have "reversals (ms @ [r]) m = reversals ms m @ [r]"
      using assms(4) by (simp add: reversals_def)
    ultimately have "net_of_reversals (Suc (length ms)) (ms @ [r]) m =
        net_of_reversals (Suc (length ms)) ms m - mv_quantity r"
      by (simp only: net_of_reversals.simps map_append sum_list_append list.map leaf sum_list.Cons
          sum_list.Nil)
    then show ?thesis using fuel enough True by simp
  qed
qed

lemma sum_list_less_one:
  assumes "distinct xs"
  shows "sum_list (map (\<lambda>x. e x - (if x = m then q else 0)) xs) =
     sum_list (map e xs) - (if m \<in> set xs then q else (0::int))"
  using assms by (induction xs) auto

lemma line_roots_picked:
  "sum_list (map snd (filter (\<lambda>(m, q). P m) (line_roots t line s))) =
   sum_list (map (effective_quantity (visible mv_tenant t (movements s)))
     (filter (\<lambda>m. P m \<and> mv_line m = Some line \<and> mv_reverses m = None) (visible mv_tenant t (movements s))))"
proof -
  have "sum_list (map snd (filter (\<lambda>(m, q). P m) (map (\<lambda>m. (m, f m)) (filter Q xs)))) =
      sum_list (map f (filter (\<lambda>m. P m \<and> Q m) xs))" for f :: "stock_movement \<Rightarrow> int" and Q xs
    by (induction xs) auto
  from this [of _ "\<lambda>m. mv_line m = Some line \<and> mv_reverses m = None"] show ?thesis
    by (simp add: line_roots_def Let_def)
qed

lemma progress_reversed:
  assumes vis: "visible mv_tenant t (movements s') = visible mv_tenant t (movements s) @ [r]"
    and ledger: "distinct (map mv_id (visible mv_tenant t (movements s)))"
      "reverses_backward (visible mv_tenant t (movements s))"
    and m: "m \<in> set (visible mv_tenant t (movements s))" "mv_reverses m = None" "mv_line m = Some line"
    and r: "mv_reverses r = Some (mv_id m)"
      "mv_id r \<notin> set (map mv_id (visible mv_tenant t (movements s)))"
      "reversals (visible mv_tenant t (movements s)) r = []"
    and loc: "locations s' = locations s"
  shows "pg_picked (line_progress_ledger t line q s') = pg_picked (line_progress_ledger t line q s)
           - (if from_storage t (mv_from m) s then mv_quantity r else 0)"
    and "pg_despatched (line_progress_ledger t line q s') = pg_despatched (line_progress_ledger t line q s)
           - (if sd_location (mv_to m) = None \<and> sd_package (mv_to m) = None then mv_quantity r else 0)"
proof -
  let ?ms = "visible mv_tenant t (movements s)"
  have kind: "location_kind t l s' = location_kind t l s" for l
    by (simp add: location_kind_def row_simps loc)
  have sums: "sum_list (map (effective_quantity (?ms @ [r]))
        (filter (\<lambda>m. P m \<and> mv_line m = Some line \<and> mv_reverses m = None) ?ms)) =
      sum_list (map (effective_quantity ?ms)
        (filter (\<lambda>m. P m \<and> mv_line m = Some line \<and> mv_reverses m = None) ?ms))
      - (if P m then mv_quantity r else 0)" for P
  proof -
    let ?xs = "filter (\<lambda>m. P m \<and> mv_line m = Some line \<and> mv_reverses m = None) ?ms"
    have worth: "map (effective_quantity (?ms @ [r])) ?xs =
        map (\<lambda>x. effective_quantity ?ms x - (if x = m then mv_quantity r else 0)) ?xs"
      by (rule map_cong [OF refl])
         (simp add: effective_quantity_reversed [OF ledger(1) m(1,2) r ledger(2)])
    have "distinct ?xs" using ledger(1) by (simp add: distinct_map)
    from sum_list_less_one [OF this, of "effective_quantity ?ms" m "mv_quantity r"] show ?thesis
      unfolding worth using m by simp
  qed
  show "pg_picked (line_progress_ledger t line q s') = pg_picked (line_progress_ledger t line q s)
           - (if from_storage t (mv_from m) s then mv_quantity r else 0)"
    using sums [of "\<lambda>m. from_storage t (mv_from m) s"] r(1)
    by (simp add: line_progress_ledger_def Let_def line_roots_picked vis kind from_storage_def)
  show "pg_despatched (line_progress_ledger t line q s') = pg_despatched (line_progress_ledger t line q s)
           - (if sd_location (mv_to m) = None \<and> sd_package (mv_to m) = None then mv_quantity r else 0)"
    using sums [of "\<lambda>m. sd_location (mv_to m) = None \<and> sd_package (mv_to m) = None"] r(1)
    by (simp add: line_progress_ledger_def Let_def line_roots_picked vis)
qed

end
