(* ===== verification/Moving.thy ===== *)
theory Moving
  imports Ledger
begin

text \<open>
  Bin-to-bin moves and putaways: the decision procedure of \<^verbatim>\<open>moving.rs\<close> and the handler
  \<open>record_move\<close> of \<^verbatim>\<open>routes.rs\<close>.  \<open>StockCell\<close> and \<open>Location\<close> are the rows themselves: the handler
  copies the columns one by one.
\<close>

section \<open>The decision\<close>

record proposed_move =
  mp_tenant :: uuid
  mp_quantity :: i64
  mp_from_stock :: uuid
  mp_to_location :: uuid
  mp_reason :: string

datatype move_problem =
    NothingToMove | CellNotFound | LocationNotFound | DifferentTenant | FromPackageHeld
  | CellHasNoHolder | SameLocation | BadReason
  | OverAvailable i64 i64 \<comment> \<open>available, proposed\<close>

fun show_move_problem :: "move_problem \<Rightarrow> string" where
  "show_move_problem NothingToMove = ''a move of no units is not a move''"
| "show_move_problem CellNotFound = ''the stock cell was not found''"
| "show_move_problem LocationNotFound = ''the destination location was not found''"
| "show_move_problem DifferentTenant = ''the cell or location belongs to another tenant''"
| "show_move_problem FromPackageHeld =
     ''the cell is held in a package; relocate the package rather than moving the cell''"
| "show_move_problem CellHasNoHolder = ''the stock cell has no holder''"
| "show_move_problem SameLocation = ''source and destination locations are the same''"
| "show_move_problem BadReason = ''reason must be move or putaway''"
| "show_move_problem (OverAvailable available proposed) =
     ''moving '' @ show_int proposed @ '' from a cell with '' @ show_int available @
     '' available; the write is still recorded (D5)''"

declare show_move_problem.simps [simp del]

fun move_is_hard :: "move_problem \<Rightarrow> bool" where
  "move_is_hard (OverAvailable a p) = False"
| "move_is_hard p = True"

definition move_check ::
  "proposed_move \<Rightarrow> stock_row option \<Rightarrow> location_row option \<Rightarrow> move_problem list" where
  "move_check p cell location =
     (let nothing = (if mp_quantity p \<le> 0 then [NothingToMove] else []);
          reason = (if mp_reason p \<noteq> ''move'' \<and> mp_reason p \<noteq> ''putaway'' then [BadReason] else []);
          problems = nothing @ reason in
      case cell of
        None \<Rightarrow> problems @ [CellNotFound]
      | Some c \<Rightarrow>
          (case location of
             None \<Rightarrow> problems @ [LocationNotFound]
           | Some l \<Rightarrow>
               problems
               @ (if sk_tenant c \<noteq> mp_tenant p \<or> lo_tenant l \<noteq> mp_tenant p
                  then [DifferentTenant] else [])
               @ (if sk_package c \<noteq> None then [FromPackageHeld]
                  else if sk_location c = None then [CellHasNoHolder]
                  else if sk_location c = Some (lo_id l) then [SameLocation] else [])
               @ (if mp_quantity p > sk_available c
                  then [OverAvailable (sk_available c) (mp_quantity p)] else [])))"

text \<open>When a move is recorded, and that the only warning is a shortage of available stock.\<close>

lemma move_check_no_hard:
  "filter move_is_hard (move_check p cell location) = [] \<longleftrightarrow>
   0 < mp_quantity p \<and> (mp_reason p = ''move'' \<or> mp_reason p = ''putaway'') \<and>
   (\<exists>c l. cell = Some c \<and> location = Some l \<and> sk_tenant c = mp_tenant p \<and> lo_tenant l = mp_tenant p
      \<and> sk_package c = None \<and> sk_location c \<noteq> None \<and> sk_location c \<noteq> Some (lo_id l))"
  by (cases cell; cases location) (auto simp: move_check_def Let_def split: if_splits)

lemma move_check_soft:
  assumes "filter move_is_hard (move_check p (Some c) location) = []"
  shows "move_check p (Some c) location =
    (if sk_available c < mp_quantity p then [OverAvailable (sk_available c) (mp_quantity p)] else [])"
  using assms by (cases location) (auto simp: move_check_def Let_def split: if_splits)

record move_sides =
  ms_item :: uuid
  ms_from_location :: uuid
  ms_from_lot :: "uuid option"
  ms_from_status :: uuid
  ms_from_owner :: uuid
  ms_to_location :: uuid
  ms_to_lot :: "uuid option"
  ms_to_status :: uuid
  ms_to_owner :: uuid

text \<open>\<open>sides\<close>; \<open>None\<close> is its \<open>expect\<close> failing.\<close>

definition move_sides :: "stock_row \<Rightarrow> uuid \<Rightarrow> move_sides option" where
  "move_sides c to_location =
     map_option (\<lambda>from_location.
       \<lparr>ms_item = sk_item c, ms_from_location = from_location, ms_from_lot = sk_lot c,
        ms_from_status = sk_status c, ms_from_owner = sk_owner c, ms_to_location = to_location,
        ms_to_lot = sk_lot c, ms_to_status = sk_status c, ms_to_owner = sk_owner c\<rparr>)
     (sk_location c)"

section \<open>The handler\<close>

record record_move_request =
  rm_from_stock :: uuid
  rm_to_location :: uuid
  rm_quantity :: i64
  rm_reason :: "string option"
  rm_event :: uuid
  rm_occurred_at :: time

record record_move_response =
  mr_movement :: uuid
  mr_warnings :: "string list"

definition rm_reason_text :: "record_move_request \<Rightarrow> string" where
  "rm_reason_text req = (case rm_reason req of None \<Rightarrow> ''move'' | Some r \<Rightarrow> r)"

definition move_movement ::
  "pg \<Rightarrow> caller \<Rightarrow> record_move_request \<Rightarrow> move_sides \<Rightarrow> stock_movement" where
  "move_movement pg who req sd =
     \<lparr>mv_id = minted pg Stock_movement, mv_tenant = ca_tenant who, mv_event = rm_event req,
      mv_item = ms_item sd, mv_quantity = rm_quantity req,
      mv_from = \<lparr>sd_location = Some (ms_from_location sd), sd_package = None,
                 sd_lot = ms_from_lot sd, sd_status = Some (ms_from_status sd),
                 sd_owner = Some (ms_from_owner sd)\<rparr>,
      mv_to = \<lparr>sd_location = Some (ms_to_location sd), sd_package = None,
               sd_lot = ms_to_lot sd, sd_status = Some (ms_to_status sd),
               sd_owner = Some (ms_to_owner sd)\<rparr>,
      mv_reason = rm_reason_text req, mv_occurred_at = rm_occurred_at req,
      mv_recorded_by = ca_person who, mv_reverses = None, mv_adjustment_reason = None,
      mv_line = None, mv_receipt_line = None, mv_external_pick = None\<rparr>"

definition record_move ::
  "pg \<Rightarrow> caller \<Rightarrow> record_move_request \<Rightarrow> db \<Rightarrow> api_error + (record_move_response \<times> db)" where
  "record_move pg who req s =
     (let t = ca_tenant who;
          cell = stock_by_id t (rm_from_stock req) s;
          location = location_by_id t (rm_to_location req) s;
          proposed = \<lparr>mp_tenant = t, mp_quantity = rm_quantity req,
                      mp_from_stock = rm_from_stock req, mp_to_location = rm_to_location req,
                      mp_reason = rm_reason_text req\<rparr> in
      and_then (hard_or_warnings move_is_hard (join ''; '') show_move_problem
                  (move_check proposed cell location)) (\<lambda>warnings.
      and_then (ok_or cell Panicked) (\<lambda>c.
      and_then (ok_or (move_sides c (rm_to_location req)) Panicked) (\<lambda>sd.
      and_then (claim_act pg
                  \<lparr>ne_tenant = t, ne_id = rm_event req, ne_site = ca_site who,
                   ne_recorded_by = ca_person who, ne_submitted_at = rm_occurred_at req\<rparr> s)
        (\<lambda>(act, s1).
           if is_replay act
           then and_then (require_one_movement t (rm_event req) s1) (\<lambda>(movement_id, qty).
                and_then (reject_quantity_mismatch qty (rm_quantity req)) (\<lambda>_.
                  Inr (\<lparr>mr_movement = movement_id, mr_warnings = warnings @ [REPLAY_WARNING]\<rparr>, s1)))
           else and_then (append_movement pg t (rm_reason_text req) (move_movement pg who req sd) s1)
                  (\<lambda>s2. Inr (\<lparr>mr_movement = minted pg Stock_movement, mr_warnings = warnings\<rparr>, s2)))))))"

text \<open>What a run that returned did, the first time and on a replay.\<close>

lemma record_move_fresh:
  assumes run: "record_move pg who req s = Inr (v, s')"
    and fresh: "\<not> claimed (ca_tenant who) (rm_event req) s"
  obtains c from_location where
    "stock_by_id (ca_tenant who) (rm_from_stock req) s = Some c"
    "sk_location c = Some from_location" "sk_package c = None" "0 < rm_quantity req"
    "location_by_id (ca_tenant who) (rm_to_location req) s \<noteq> None"
    "from_location \<noteq> rm_to_location req"
    "s' = mark_dirty pg (ca_tenant who) (rm_reason_text req)
       (s\<lparr>client_events := client_events s @ [envelope pg
            \<lparr>ne_tenant = ca_tenant who, ne_id = rm_event req, ne_site = ca_site who,
             ne_recorded_by = ca_person who, ne_submitted_at = rm_occurred_at req\<rparr>],
          movements := movements s @ [move_movement pg who req (the (move_sides c (rm_to_location req)))]\<rparr>)"
    "v = \<lparr>mr_movement = minted pg Stock_movement,
      mr_warnings = (if sk_available c < rm_quantity req
        then [show_move_problem (OverAvailable (sk_available c) (rm_quantity req))] else [])\<rparr>"
proof -
  let ?p = "\<lparr>mp_tenant = ca_tenant who, mp_quantity = rm_quantity req,
     mp_from_stock = rm_from_stock req, mp_to_location = rm_to_location req,
     mp_reason = rm_reason_text req\<rparr>"
  let ?cell = "stock_by_id (ca_tenant who) (rm_from_stock req) s"
  let ?loc = "location_by_id (ca_tenant who) (rm_to_location req) s"
  have ok: "filter move_is_hard (move_check ?p ?cell ?loc) = []"
    using run by (auto simp: record_move_def Let_def result_simps)
  then obtain c l where c: "?cell = Some c" "?loc = Some l"
      "0 < rm_quantity req" "sk_package c = None" "sk_location c \<noteq> None"
      "sk_location c \<noteq> Some (lo_id l)"
    unfolding move_check_no_hard by auto
  have l: "lo_id l = rm_to_location req"
    using c(2) by (auto simp: row_simps dest: by_id_SomeD)
  have soft: "move_check ?p ?cell ?loc = (if sk_available c < rm_quantity req
      then [OverAvailable (sk_available c) (rm_quantity req)] else [])"
    using move_check_soft [of ?p c ?loc] ok c(1) by simp
  obtain a s1 where claim: "claim_act pg
       \<lparr>ne_tenant = ca_tenant who, ne_id = rm_event req, ne_site = ca_site who,
        ne_recorded_by = ca_person who, ne_submitted_at = rm_occurred_at req\<rparr> s = Inr (a, s1)"
    using run by (auto simp: record_move_def Let_def result_simps)
  have a: "a = Fresh" using claim fresh by (cases a) (auto simp: claim_act_Replay)
  show thesis
    by (rule that [of c "the (sk_location c)"])
       (use run c l claim a soft in
        \<open>auto simp: record_move_def Let_def result_simps claim_act_Fresh row_simps\<close>)
qed

lemma record_move_replay:
  assumes run: "record_move pg who req s = Inr (v, s')"
    and old: "claimed (ca_tenant who) (rm_event req) s"
  shows "s' = s" and "\<exists>ws. v = \<lparr>mr_movement = mr_movement v, mr_warnings = ws @ [REPLAY_WARNING]\<rparr>"
    and "require_one_movement (ca_tenant who) (rm_event req) s = Inr (mr_movement v, rm_quantity req)"
  using assms
  by (auto simp: record_move_def Let_def result_simps claim_act_def is_replay_def split: if_splits)

interpretation move_writer: strict_writer record_move rm_event
proof
  fix pg who req s v s'
  assume run: "record_move pg who req s = Inr (v, s')"
  show "act_effect (ca_tenant who) (rm_event req) s s'"
  proof (cases "claimed (ca_tenant who) (rm_event req) s")
    case True
    then show ?thesis using record_move_replay(1) [OF run] by (simp add: act_effect_def)
  next
    case False
    show ?thesis
      by (rule record_move_fresh [OF run False])
         (auto intro!: fresh_effect simp: move_movement_def False)
  qed
  show "claimed (ca_tenant who) (rm_event req) s'"
  proof (cases "claimed (ca_tenant who) (rm_event req) s")
    case True
    then show ?thesis using record_move_replay(1) [OF run] by simp
  next
    case False
    show ?thesis by (rule record_move_fresh [OF run False]) (auto simp: claimed_def)
  qed
qed (rule record_move_replay)

section \<open>Properties\<close>

text \<open>
  C9: A fresh move takes its quantity out of the cell it names and puts it into the same lot,
  status and owner at the destination; every other cell of the ledger, the tenant's total of every
  item and the stock table itself are unchanged.
\<close>

theorem record_move_transfers:
  assumes "record_move pg who req s = Inr (v, s')"
    and "\<not> claimed (ca_tenant who) (rm_event req) s"
  shows "\<exists>c. stock_by_id (ca_tenant who) (rm_from_stock req) s = Some c
    \<and> (\<forall>item sd. on_hand (ca_tenant who) item sd s' = on_hand (ca_tenant who) item sd s
         + (if item = sk_item c \<and> sd = (side_of_stock c)\<lparr>sd_location := Some (rm_to_location req)\<rparr>
            then rm_quantity req else 0)
         - (if item = sk_item c \<and> sd = side_of_stock c then rm_quantity req else 0))
    \<and> (\<forall>item. total_held (ca_tenant who) item s' = total_held (ca_tenant who) item s)
    \<and> stock s' = stock s"
proof -
  obtain c x where c: "stock_by_id (ca_tenant who) (rm_from_stock req) s = Some c"
      "sk_location c = Some x" "sk_package c = None"
    and s': "s' = mark_dirty pg (ca_tenant who) (rm_reason_text req)
       (s\<lparr>client_events := client_events s @ [envelope pg
            \<lparr>ne_tenant = ca_tenant who, ne_id = rm_event req, ne_site = ca_site who,
             ne_recorded_by = ca_person who, ne_submitted_at = rm_occurred_at req\<rparr>],
          movements := movements s @ [move_movement pg who req (the (move_sides c (rm_to_location req)))]\<rparr>)"
    using record_move_fresh [OF assms] by metis
  let ?m = "move_movement pg who req (the (move_sides c (rm_to_location req)))"
  have m: "mv_tenant ?m = ca_tenant who" "mv_item ?m = sk_item c"
      "mv_quantity ?m = rm_quantity req" "mv_from ?m = side_of_stock c"
      "mv_to ?m = (side_of_stock c)\<lparr>sd_location := Some (rm_to_location req)\<rparr>"
    using c by (simp_all add: move_movement_def move_sides_def side_of_stock_def)
  have mvs: "movements s' = movements s @ [?m]" by (simp add: s')
  have "mv_from ?m \<noteq> no_side" and "mv_to ?m \<noteq> no_side"
    by (simp_all add: m) (simp add: side_of_stock_def no_side_def)
  then show ?thesis
    using c(1) on_hand_snoc [OF mvs m(1)] total_held_snoc [OF mvs m(1)]
    by (auto simp: net_def entered_def left_from_def m crosses_transfer s')
qed

definition sample_move :: record_move_request where
  "sample_move = \<lparr>rm_from_stock = 1, rm_to_location = 9, rm_quantity = 45, rm_reason = None,
     rm_event = 501, rm_occurred_at = 7\<rparr>"

lemma sample_move_runs:
  "\<exists>v s'. record_move sample_pg sample_caller sample_move sample_db = Inr (v, s')"
proof -
  have "\<not> isl (record_move sample_pg sample_caller sample_move sample_db)"
    by code_simp
  then show ?thesis by (cases "record_move sample_pg sample_caller sample_move sample_db") auto
qed

theorem record_move_transfers_witness:
  "\<exists>v s'. record_move sample_pg sample_caller sample_move sample_db = Inr (v, s')
    \<and> on_hand 10 100 (side_of_stock sample_cell) s' = 5"
proof -
  obtain v s' where run: "record_move sample_pg sample_caller sample_move sample_db = Inr (v, s')"
    using sample_move_runs by blast
  have "\<not> claimed (ca_tenant sample_caller) (rm_event sample_move) sample_db"
    and "stock_by_id (ca_tenant sample_caller) (rm_from_stock sample_move) sample_db = Some sample_cell"
    and "on_hand 10 100 (side_of_stock sample_cell) sample_db = 50"
    by code_simp+
  then have "on_hand (ca_tenant sample_caller) 100 (side_of_stock sample_cell) s' = 50 - 45"
    using record_move_transfers [OF run]
    by (auto simp: sample_move_def sample_caller_def sample_cell_def side_of_stock_def)
  with run show ?thesis by (auto simp: sample_caller_def)
qed

text \<open>
  A retried move is answered with the first attempt's movement and writes nothing, at any later
  state in which the act still has its facts, whatever quantity the cell shows by then: only the
  warnings may differ.
\<close>

theorem record_move_retry:
  assumes first: "record_move pg who req s = Inr (v, s')"
    and fresh: "well_keyed s" "\<not> claimed (ca_tenant who) (rm_event req) s"
    and later: "claimed (ca_tenant who) (rm_event req) s''"
      "facts_of (ca_tenant who) (rm_event req) s'' = facts_of (ca_tenant who) (rm_event req) s'"
    and cell: "stock_by_id (ca_tenant who) (rm_from_stock req) s'' = Some c"
      "sk_package c = None" "sk_location c = Some x" "x \<noteq> rm_to_location req"
    and place: "location_by_id (ca_tenant who) (rm_to_location req) s'' = Some l"
  shows "\<exists>ws. record_move pg' (who\<lparr>ca_person := p\<rparr>) req s'' =
     Inr (\<lparr>mr_movement = mr_movement v, mr_warnings = ws @ [REPLAY_WARNING]\<rparr>, s'')"
proof -
  have reason: "rm_reason_text req = ''move'' \<or> rm_reason_text req = ''putaway''"
    using first by (auto simp: record_move_def Let_def result_simps move_check_no_hard)
  obtain c' where s': "movements s' = movements s @
         [move_movement pg who req (the (move_sides c' (rm_to_location req)))]"
      "0 < rm_quantity req" "mr_movement v = minted pg Stock_movement"
    by (rule record_move_fresh [OF first fresh(2)]) (simp add: that)
  let ?m = "move_movement pg who req (the (move_sides c' (rm_to_location req)))"
  have one: "require_one_movement (ca_tenant who) (rm_event req) s'' = Inr (mv_id ?m, mv_quantity ?m)"
    by (rule require_one_movement_facts)
       (simp add: later(2) facts_of_fresh [OF fresh s'(1)] move_movement_def)
  have c: "sk_tenant c = ca_tenant who" "lo_tenant l = ca_tenant who" "lo_id l = rm_to_location req"
    using cell(1) place by (auto simp: row_simps dest: by_id_SomeD)
  let ?p = "\<lparr>mp_tenant = ca_tenant who, mp_quantity = rm_quantity req,
     mp_from_stock = rm_from_stock req, mp_to_location = rm_to_location req,
     mp_reason = rm_reason_text req\<rparr>"
  have "filter move_is_hard (move_check ?p (Some c) (Some l)) = []"
    unfolding move_check_no_hard using s'(2) reason c cell by auto
  then show ?thesis
    using one later(1) s'(3) c
    by (simp add: record_move_def Let_def cell place move_sides_def claim_act_def
        hard_or_warnings_def move_movement_def)
qed

theorem record_move_retry_witness:
  "\<exists>v s' ws. record_move sample_pg sample_caller sample_move sample_db = Inr (v, s')
    \<and> record_move sample_pg (sample_caller\<lparr>ca_person := 21\<rparr>) sample_move s'
        = Inr (\<lparr>mr_movement = mr_movement v, mr_warnings = ws @ [REPLAY_WARNING]\<rparr>, s')"
proof -
  obtain v s' where run: "record_move sample_pg sample_caller sample_move sample_db = Inr (v, s')"
    using sample_move_runs by blast
  have fresh: "\<not> claimed (ca_tenant sample_caller) (rm_event sample_move) sample_db"
    by code_simp
  have wk: "well_keyed sample_db"
    by (auto simp: well_keyed_def sample_defs claimed_def facts_of_def)
  have s': "claimed (ca_tenant sample_caller) (rm_event sample_move) s'"
    by (rule move_writer.claims [OF run])
  have tables: "stock s' = stock sample_db" "locations s' = locations sample_db"
    by (rule record_move_fresh [OF run fresh], simp)+
  have "\<exists>ws. record_move sample_pg (sample_caller\<lparr>ca_person := 21\<rparr>) sample_move s'
     = Inr (\<lparr>mr_movement = mr_movement v, mr_warnings = ws @ [REPLAY_WARNING]\<rparr>, s')"
    by (rule record_move_retry [OF run wk fresh s' refl, of sample_cell 2 "\<lparr>lo_id = 9, lo_tenant = 10, lo_kind = ''bin'', lo_site = None\<rparr>"])
       (simp_all add: tables row_simps by_id_def sample_defs sample_move_def)
  then show ?thesis using run by blast
qed

end
