(* ===== verification/Picking.thy ===== *)
theory Picking
  imports Ledger
begin

text \<open>
  Recording a pick: the decision procedure of \<^verbatim>\<open>picking/mod.rs\<close> and the handler of
  \<^verbatim>\<open>picking/record.rs\<close>.  A pick takes units of a stock cell for a fulfilment line and lands them
  in a package or at a location.  What is already wrong on the floor (a short cell, a sealed
  carton, a line already despatched) is recorded with a warning; only a request that could not
  become a ledger row is refused.
\<close>

section \<open>The decision\<close>

record pick_line =
  pl_id :: uuid
  pl_tenant :: uuid
  pl_item :: uuid
  pl_quantity :: i64
  pl_picked :: i64
  pl_despatched :: i64
  pl_cancelled :: bool

record pick_package =
  pp_id :: uuid
  pp_tenant :: uuid
  pp_status :: "string option"

datatype destination = To_package pick_package | To_location location_row

fun destination_tenant :: "destination \<Rightarrow> uuid" where
  "destination_tenant (To_package p) = pp_tenant p"
| "destination_tenant (To_location l) = lo_tenant l"

datatype landing = Land_package uuid | Land_location uuid

record proposed_pick =
  xp_tenant :: uuid
  xp_quantity :: i64
  xp_line :: uuid
  xp_from_stock :: uuid
  xp_to :: landing

datatype pick_problem =
    NothingToPick | LineNotFound | CellNotFound | PackageNotFound | LocationNotFound
  | NoDestination | TwoDestinations | DifferentTenant | FromPackageHeldStorage | CellHasNoHolder
  | LineCancelled
  | OverAvailable i64 i64 \<comment> \<open>available, proposed\<close>
  | LineAlreadyDespatched | IntoSealed

fun show_pick_problem :: "pick_problem \<Rightarrow> string" where
  "show_pick_problem NothingToPick = ''a pick of no units is not a pick''"
| "show_pick_problem LineNotFound = ''the fulfilment line was not found''"
| "show_pick_problem CellNotFound = ''the stock cell was not found''"
| "show_pick_problem PackageNotFound = ''the destination package was not found''"
| "show_pick_problem LocationNotFound = ''the destination location was not found''"
| "show_pick_problem NoDestination =
     ''a pick has to land somewhere: name a package to put it in or a location to put it down at''"
| "show_pick_problem TwoDestinations =
     ''a pick lands in one place: name a package or a location, not both''"
| "show_pick_problem DifferentTenant = ''the line, cell or package belongs to another tenant''"
| "show_pick_problem FromPackageHeldStorage =
     ''the cell is held in a package rather than a location; the pick is recordable but picked_quantity does not count it (J70)''"
| "show_pick_problem CellHasNoHolder = ''the stock cell has no holder''"
| "show_pick_problem LineCancelled = ''the fulfilment is cancelled; nothing is left to pick for it''"
| "show_pick_problem (OverAvailable available proposed) =
     ''picking '' @ show_int proposed @ '' from a cell with '' @ show_int available @
     '' available; the write is still recorded (D5) and the short is a finding rather than a refusal''"
| "show_pick_problem LineAlreadyDespatched =
     ''the line's despatched quantity already meets its commitment; the pick is still recorded if it happened on the floor''"
| "show_pick_problem IntoSealed = ''put into a sealed carton: open it first''"

declare show_pick_problem.simps [simp del]

text \<open>The two optional fields of the request read into the one thing they mean.\<close>

fun landing_of :: "uuid option \<Rightarrow> uuid option \<Rightarrow> pick_problem + landing" where
  "landing_of (Some p) None = Inr (Land_package p)"
| "landing_of None (Some l) = Inr (Land_location l)"
| "landing_of None None = Inl NoDestination"
| "landing_of (Some p) (Some l) = Inl TwoDestinations"

fun pick_is_hard :: "pick_problem \<Rightarrow> bool" where
  "pick_is_hard (OverAvailable a p) = False"
| "pick_is_hard LineAlreadyDespatched = False"
| "pick_is_hard FromPackageHeldStorage = False"
| "pick_is_hard IntoSealed = False"
| "pick_is_hard p = True"

definition pick_check ::
  "proposed_pick \<Rightarrow> pick_line option \<Rightarrow> stock_row option \<Rightarrow> destination option \<Rightarrow> pick_problem list" where
  "pick_check proposed line cell destination =
     (let problems = (if xp_quantity proposed \<le> 0 then [NothingToPick] else []) in
      case line of None \<Rightarrow> problems @ [LineNotFound] | Some l \<Rightarrow>
      (case cell of None \<Rightarrow> problems @ [CellNotFound] | Some c \<Rightarrow>
      (case destination of
         None \<Rightarrow> problems @ [case xp_to proposed of Land_package _ \<Rightarrow> PackageNotFound
                                                | Land_location _ \<Rightarrow> LocationNotFound]
       | Some d \<Rightarrow>
           problems
           @ (if pl_tenant l \<noteq> xp_tenant proposed \<or> sk_tenant c \<noteq> xp_tenant proposed
                 \<or> destination_tenant d \<noteq> xp_tenant proposed
              then [DifferentTenant] else [])
           @ (if pl_cancelled l then [LineCancelled] else [])
           @ (if sk_location c = None \<and> sk_package c = None then [CellHasNoHolder]
              else if sk_location c = None \<and> sk_package c \<noteq> None then [FromPackageHeldStorage] else [])
           @ (if xp_quantity proposed > sk_available c
              then [OverAvailable (sk_available c) (xp_quantity proposed)] else [])
           @ (if pl_despatched l \<ge> pl_quantity l then [LineAlreadyDespatched] else [])
           @ (case d of To_package p \<Rightarrow> if pp_status p = Some ''sealed'' then [IntoSealed] else []
                      | To_location _ \<Rightarrow> []))))"

lemma pick_check_no_hard:
  "filter pick_is_hard (pick_check p line cell dest) = [] \<longleftrightarrow>
   0 < xp_quantity p \<and>
   (\<exists>l c d. line = Some l \<and> cell = Some c \<and> dest = Some d
      \<and> pl_tenant l = xp_tenant p \<and> sk_tenant c = xp_tenant p \<and> destination_tenant d = xp_tenant p
      \<and> \<not> pl_cancelled l \<and> (sk_location c \<noteq> None \<or> sk_package c \<noteq> None))"
  by (cases line; cases cell; cases dest)
     (auto simp: pick_check_def Let_def split: if_splits landing.splits destination.splits)

record pick_sides =
  ps_item :: uuid
  ps_from_location :: "uuid option"
  ps_from_package :: "uuid option"
  ps_from_lot :: "uuid option"
  ps_from_status :: uuid
  ps_from_owner :: uuid
  ps_to_package :: "uuid option"
  ps_to_location :: "uuid option"
  ps_to_lot :: "uuid option"
  ps_to_status :: uuid
  ps_to_owner :: uuid

definition pick_sides :: "stock_row \<Rightarrow> destination \<Rightarrow> pick_sides" where
  "pick_sides cell destination =
     (let (to_package, to_location) =
        (case destination of To_package p \<Rightarrow> (Some (pp_id p), None)
                           | To_location l \<Rightarrow> (None, Some (lo_id l)))
      in \<lparr>ps_item = sk_item cell, ps_from_location = sk_location cell,
          ps_from_package = sk_package cell, ps_from_lot = sk_lot cell,
          ps_from_status = sk_status cell, ps_from_owner = sk_owner cell,
          ps_to_package = to_package, ps_to_location = to_location,
          ps_to_lot = sk_lot cell, ps_to_status = sk_status cell, ps_to_owner = sk_owner cell\<rparr>)"

section \<open>The handler\<close>

record record_pick_request =
  rp_line :: uuid
  rp_from_stock :: uuid
  rp_to_package :: "uuid option"
  rp_to_location :: "uuid option"
  rp_quantity :: i64
  rp_event :: uuid
  rp_occurred_at :: time

record record_pick_response =
  rpr_movement :: uuid
  rpr_warnings :: "string list"
  rpr_ledger :: progress
  rpr_projection :: projection_progress

definition load_pick_line :: "uuid \<Rightarrow> uuid \<Rightarrow> db \<Rightarrow> pick_line option" where
  "load_pick_line t i s = map_option (\<lambda>(l, item, cancelled).
     \<lparr>pl_id = fl_id l, pl_tenant = fl_tenant l, pl_item = item, pl_quantity = fl_quantity l,
      pl_picked = fl_picked l, pl_despatched = fl_despatched l, pl_cancelled = cancelled\<rparr>)
     (line_joined t i s)"

definition load_destination :: "uuid \<Rightarrow> landing \<Rightarrow> db \<Rightarrow> destination option" where
  "load_destination t to_side s =
     (case to_side of
        Land_package i \<Rightarrow> map_option (\<lambda>k. To_package
           \<lparr>pp_id = pk_id k, pp_tenant = pk_tenant k, pp_status = package_status_now t (pk_id k) s\<rparr>)
           (package_by_id t i s)
      | Land_location i \<Rightarrow> map_option To_location (location_by_id t i s))"

definition pick_movement ::
  "pg \<Rightarrow> caller \<Rightarrow> record_pick_request \<Rightarrow> pick_sides \<Rightarrow> stock_movement" where
  "pick_movement pg who req sd =
     \<lparr>mv_id = minted pg Stock_movement, mv_tenant = ca_tenant who, mv_event = rp_event req,
      mv_item = ps_item sd, mv_quantity = rp_quantity req,
      mv_from = \<lparr>sd_location = ps_from_location sd, sd_package = ps_from_package sd,
                 sd_lot = ps_from_lot sd, sd_status = Some (ps_from_status sd),
                 sd_owner = Some (ps_from_owner sd)\<rparr>,
      mv_to = \<lparr>sd_location = ps_to_location sd, sd_package = ps_to_package sd,
               sd_lot = ps_to_lot sd, sd_status = Some (ps_to_status sd),
               sd_owner = Some (ps_to_owner sd)\<rparr>,
      mv_reason = ''pick'', mv_occurred_at = rp_occurred_at req,
      mv_recorded_by = ca_person who, mv_reverses = None, mv_adjustment_reason = None,
      mv_line = Some (rp_line req), mv_receipt_line = None, mv_external_pick = None\<rparr>"

text \<open>The reads that follow the write: the line's live progress and its cached one.\<close>

definition pick_response ::
  "uuid \<Rightarrow> uuid \<Rightarrow> i64 \<Rightarrow> uuid \<Rightarrow> string list \<Rightarrow> db \<Rightarrow> api_error + record_pick_response" where
  "pick_response t line commitment movement_id warnings s =
     and_then (ok_or (line_by_id t line s) Database) (\<lambda>p.
       Inr \<lparr>rpr_movement = movement_id, rpr_warnings = warnings,
            rpr_ledger = line_progress_ledger t line commitment s,
            rpr_projection = line_progress_projection t (fl_covered p) (fl_picked p) (fl_packed p)
              (fl_despatched p) (fl_uncovered p) s\<rparr>)"

definition pick_tx ::
  "pg \<Rightarrow> caller \<Rightarrow> record_pick_request \<Rightarrow> landing \<Rightarrow> db \<Rightarrow> api_error + (record_pick_response \<times> db)" where
  "pick_tx pg who req to_side s =
     (let t = ca_tenant who;
          line = load_pick_line t (rp_line req) s;
          cell = stock_by_id t (rp_from_stock req) s;
          dest = load_destination t to_side s;
          proposed = \<lparr>xp_tenant = t, xp_quantity = rp_quantity req, xp_line = rp_line req,
                      xp_from_stock = rp_from_stock req, xp_to = to_side\<rparr> in
      and_then (hard_or_warnings pick_is_hard (join ''; '') show_pick_problem
                  (pick_check proposed line cell dest)) (\<lambda>warnings.
      and_then (ok_or cell Panicked) (\<lambda>c.
      and_then (ok_or dest Panicked) (\<lambda>d.
      and_then (ok_or line Panicked) (\<lambda>l.
      and_then (claim_act pg
                  \<lparr>ne_tenant = t, ne_id = rp_event req, ne_site = ca_site who,
                   ne_recorded_by = ca_person who, ne_submitted_at = rp_occurred_at req\<rparr> s)
        (\<lambda>(act, s1).
           and_then
             (case act of
                Replay \<Rightarrow>
                  and_then (require_one_movement t (rp_event req) s1) (\<lambda>(i, qty).
                  and_then (reject_quantity_mismatch qty (rp_quantity req)) (\<lambda>_.
                    Inr (i, warnings @ [REPLAY_WARNING], s1)))
              | Fresh \<Rightarrow>
                  and_then (append_movement pg t ''pick'' (pick_movement pg who req (pick_sides c d)) s1)
                    (\<lambda>s2. Inr (minted pg Stock_movement, warnings, s2)))
             (\<lambda>(movement_id, warnings', s2).
                and_then (pick_response t (rp_line req) (pl_quantity l) movement_id warnings' s2)
                  (\<lambda>resp. Inr (resp, s2)))))))))"

definition record_pick ::
  "pg \<Rightarrow> caller \<Rightarrow> record_pick_request \<Rightarrow> db \<Rightarrow> api_error + (record_pick_response \<times> db)" where
  "record_pick pg who req s =
     (case landing_of (rp_to_package req) (rp_to_location req) of
        Inl p \<Rightarrow> Inl (Rejected (show_pick_problem p))
      | Inr to_side \<Rightarrow> pick_tx pg who req to_side s)"

section \<open>What a run did\<close>

abbreviation pick_envelope :: "pg \<Rightarrow> caller \<Rightarrow> record_pick_request \<Rightarrow> client_event" where
  "pick_envelope pg who req \<equiv> envelope pg
     \<lparr>ne_tenant = ca_tenant who, ne_id = rp_event req, ne_site = ca_site who,
      ne_recorded_by = ca_person who, ne_submitted_at = rp_occurred_at req\<rparr>"

lemma record_pick_fresh:
  assumes run: "record_pick pg who req s = Inr (v, s')"
    and fresh: "\<not> claimed (ca_tenant who) (rp_event req) s"
  obtains c d l to_side where
    "landing_of (rp_to_package req) (rp_to_location req) = Inr to_side"
    "stock_by_id (ca_tenant who) (rp_from_stock req) s = Some c"
    "load_destination (ca_tenant who) to_side s = Some d"
    "load_pick_line (ca_tenant who) (rp_line req) s = Some l" "0 < rp_quantity req"
    "\<not> pl_cancelled l"
    "s' = mark_dirty pg (ca_tenant who) ''pick''
       (s\<lparr>client_events := client_events s @ [pick_envelope pg who req],
          movements := movements s @ [pick_movement pg who req (pick_sides c d)]\<rparr>)"
    "rpr_movement v = minted pg Stock_movement"
    "rpr_ledger v = line_progress_ledger (ca_tenant who) (rp_line req) (pl_quantity l) s'"
proof -
  from run obtain to_side where side: "landing_of (rp_to_package req) (rp_to_location req) = Inr to_side"
    and tx: "pick_tx pg who req to_side s = Inr (v, s')"
    by (auto simp: record_pick_def split: sum.splits)
  let ?p = "\<lparr>xp_tenant = ca_tenant who, xp_quantity = rp_quantity req, xp_line = rp_line req,
                      xp_from_stock = rp_from_stock req, xp_to = to_side\<rparr>"
  have ok: "filter pick_is_hard (pick_check ?p (load_pick_line (ca_tenant who) (rp_line req) s)
      (stock_by_id (ca_tenant who) (rp_from_stock req) s) (load_destination (ca_tenant who) to_side s)) = []"
    using tx by (auto simp: pick_tx_def Let_def result_simps)
  obtain act s1 where claim: "claim_act pg
       \<lparr>ne_tenant = ca_tenant who, ne_id = rp_event req, ne_site = ca_site who,
        ne_recorded_by = ca_person who, ne_submitted_at = rp_occurred_at req\<rparr> s = Inr (act, s1)"
    using tx by (auto simp: pick_tx_def Let_def result_simps)
  have act: "act = Fresh" using claim fresh by (cases act) (auto simp: claim_act_Replay)
  from ok obtain c d l where rows:
      "stock_by_id (ca_tenant who) (rp_from_stock req) s = Some c"
      "load_destination (ca_tenant who) to_side s = Some d"
      "load_pick_line (ca_tenant who) (rp_line req) s = Some l" "0 < rp_quantity req"
      "\<not> pl_cancelled l"
    unfolding pick_check_no_hard by auto
  show thesis
    by (rule that [OF side rows])
       (use rows tx claim act in \<open>auto simp: pick_tx_def Let_def result_simps claim_act_Fresh row_simps
          pick_response_def\<close>)
qed

lemma record_pick_replay:
  assumes run: "record_pick pg who req s = Inr (v, s')"
    and old: "claimed (ca_tenant who) (rp_event req) s"
  shows "s' = s"
    and "require_one_movement (ca_tenant who) (rp_event req) s = Inr (rpr_movement v, rp_quantity req)"
  using assms
  by (auto simp: record_pick_def pick_tx_def Let_def result_simps claim_act_def pick_response_def
      split: sum.splits)

interpretation pick_writer: strict_writer record_pick rp_event
proof
  fix pg who req s v s'
  assume run: "record_pick pg who req s = Inr (v, s')"
  show "act_effect (ca_tenant who) (rp_event req) s s'"
  proof (cases "claimed (ca_tenant who) (rp_event req) s")
    case True
    then show ?thesis using record_pick_replay(1) [OF run] by (simp add: act_effect_def)
  next
    case False
    show ?thesis
      by (rule record_pick_fresh [OF run False])
         (auto intro!: fresh_effect simp: pick_movement_def False)
  qed
  show "claimed (ca_tenant who) (rp_event req) s'"
  proof (cases "claimed (ca_tenant who) (rp_event req) s")
    case True
    then show ?thesis using record_pick_replay(1) [OF run] by simp
  next
    case False
    show ?thesis by (rule record_pick_fresh [OF run False]) (auto simp: claimed_def)
  qed
qed (rule record_pick_replay)

section \<open>Properties\<close>

definition sample_pick_db :: db where
  "sample_pick_db = sample_db\<lparr>
     locations := [\<lparr>lo_id = 2, lo_tenant = 10, lo_kind = ''pick_face'', lo_site = None\<rparr>, \<lparr>lo_id = 9, lo_tenant = 10, lo_kind = ''staging'', lo_site = None\<rparr>],
     packages := [\<lparr>pk_id = 30, pk_tenant = 10, pk_status = None, pk_location = Some 9, pk_parent = None,
       pk_fulfilment = Some 41, pk_sealed_at = None, pk_breaks_down = False,
       pk_barcode = None, pk_type = None, pk_sequence = None,
       pk_config = None, pk_own_item = None, pk_own_level = None, pk_carrier = None, pk_rules = None\<rparr>],
     fulfilments := [\<lparr>fu_id = 41, fu_tenant = 10, fu_state = ''open'', fu_site = None\<rparr>],
     order_lines := [\<lparr>ol_id = 43, ol_tenant = 10, ol_item = 100\<rparr>],
     fulfilment_lines := [\<lparr>fl_id = 42, fl_tenant = 10, fl_fulfilment = 41, fl_order_line = 43, fl_quantity = 6,
       fl_covered = 6, fl_picked = 0, fl_packed = 0, fl_despatched = 0, fl_uncovered = 0\<rparr>]\<rparr>"

definition sample_pick :: record_pick_request where
  "sample_pick = \<lparr>rp_line = 42, rp_from_stock = 1, rp_to_package = Some 30, rp_to_location = None,
     rp_quantity = 6, rp_event = 502, rp_occurred_at = 8\<rparr>"

lemma sample_pick_runs:
  "\<exists>v s'. record_pick sample_pg sample_caller sample_pick sample_pick_db = Inr (v, s')"
proof -
  have "\<not> isl (record_pick sample_pg sample_caller sample_pick sample_pick_db)"
    by code_simp
  then show ?thesis
    by (cases "record_pick sample_pg sample_caller sample_pick sample_pick_db") auto
qed

text \<open>
  C12: A fresh pick answers with the live progress of its line: what was picked grows by the
  quantity exactly when the cell it left is in storage (a leg from staging or a dock was counted
  when the goods left the shelf), and what was despatched or covered does not change.
\<close>

theorem record_pick_progress:
  assumes run: "record_pick pg who req s = Inr (v, s')"
    and fresh: "\<not> claimed (ca_tenant who) (rp_event req) s"
    and ledger: "reverses_backward (visible mv_tenant (ca_tenant who) (movements s))"
    and new_id: "\<forall>r \<in> set (movements s). mv_reverses r \<noteq> Some (minted pg Stock_movement)"
  shows "\<exists>c l. stock_by_id (ca_tenant who) (rp_from_stock req) s = Some c
    \<and> load_pick_line (ca_tenant who) (rp_line req) s = Some l
    \<and> (let before = line_progress_ledger (ca_tenant who) (rp_line req) (pl_quantity l) s;
           after = rpr_ledger v in
       pg_picked after = pg_picked before
         + (if from_storage (ca_tenant who) (side_of_stock c) s then rp_quantity req else 0)
       \<and> pg_despatched after = pg_despatched before
       \<and> pg_covered after = pg_covered before)"
proof (rule record_pick_fresh [OF run fresh])
  fix c d l to_side
  assume rows: "stock_by_id (ca_tenant who) (rp_from_stock req) s = Some c"
      "load_pick_line (ca_tenant who) (rp_line req) s = Some l"
    and s': "s' = mark_dirty pg (ca_tenant who) ''pick''
       (s\<lparr>client_events := client_events s @ [pick_envelope pg who req],
          movements := movements s @ [pick_movement pg who req (pick_sides c d)]\<rparr>)"
    and v: "rpr_ledger v = line_progress_ledger (ca_tenant who) (rp_line req) (pl_quantity l) s'"
  let ?m = "pick_movement pg who req (pick_sides c d)"
  have m: "mv_tenant ?m = ca_tenant who" "mv_reverses ?m = None" "mv_line ?m = Some (rp_line req)"
      "mv_quantity ?m = rp_quantity req" "mv_from ?m = side_of_stock c"
      "\<not> (sd_location (mv_to ?m) = None \<and> sd_package (mv_to ?m) = None)"
    by (auto simp: pick_movement_def pick_sides_def side_of_stock_def Let_def split: destination.splits)
  have none: "reversals (visible mv_tenant (ca_tenant who) (movements s)) ?m = []"
    using new_id by (auto simp: reversals_def visible_def filter_eq_Nil_iff pick_movement_def)
  have snoc: "movements s' = movements s @ [?m]" by (simp add: s')
  have "locations s' = locations s" and "allocations s' = allocations s" by (simp_all add: s')
  note step = progress_snoc [OF snoc m(1,2) ledger none m(3) this, of "pl_quantity l"]
  show ?thesis
    by (rule exI [of _ c], rule exI [of _ l])
       (simp only: rows v step m Let_def, simp)
qed

theorem record_pick_progress_witness:
  "\<exists>v s'. record_pick sample_pg sample_caller sample_pick sample_pick_db = Inr (v, s')
     \<and> pg_picked (rpr_ledger v) = 6"
proof -
  obtain v s' where run: "record_pick sample_pg sample_caller sample_pick sample_pick_db = Inr (v, s')"
    using sample_pick_runs by blast
  have fresh: "\<not> claimed (ca_tenant sample_caller) (rp_event sample_pick) sample_pick_db"
    by code_simp
  have ledger: "reverses_backward (visible mv_tenant (ca_tenant sample_caller) (movements sample_pick_db))"
    by (auto simp: reverses_backward_def visible_def sample_pick_db_def sample_defs)
  have new_id: "\<forall>r \<in> set (movements sample_pick_db). mv_reverses r \<noteq> Some (minted sample_pg Stock_movement)"
    by (simp add: sample_pick_db_def sample_defs)
  have rows: "stock_by_id (ca_tenant sample_caller) (rp_from_stock sample_pick) sample_pick_db = Some sample_cell"
      "from_storage (ca_tenant sample_caller) (side_of_stock sample_cell) sample_pick_db"
      "pg_picked (line_progress_ledger (ca_tenant sample_caller) (rp_line sample_pick) q sample_pick_db) = 0" for q
    subgoal by code_simp
    subgoal by code_simp
    by (simp add: line_progress_ledger_def line_roots_def visible_def sample_pick_db_def sample_defs
        Let_def)
  have "pg_picked (rpr_ledger v) = rp_quantity sample_pick"
    using record_pick_progress [OF run fresh ledger new_id] rows by (auto simp: Let_def)
  with run show ?thesis by (auto simp: sample_pick_def)
qed



end
