(* ===== verification/Counting.thy ===== *)
theory Counting
  imports Ledger
begin

text \<open>
  Stock counts: the decision of \<^verbatim>\<open>counting.rs\<close> and the handler \<open>record_count\<close> of
  \<^verbatim>\<open>routes.rs\<close>.  A count is an assertion: it is kept, it never writes the ledger, and one that
  disagrees with the system raises one open \<open>count_variance\<close> finding.
\<close>

section \<open>The decision\<close>

record proposed_count =
  xc_tenant :: uuid
  xc_stock :: uuid
  xc_counted :: i64
  xc_blind :: bool
  xc_challenged :: bool
  xc_challenge_context :: "string option"
  xc_confirmed :: "bool option"

datatype count_problem =
    CellNotFound | DifferentTenant | CellHasNoHolder | NegativeCount | ChallengeWithoutContext
  | ConfirmedWithoutChallenge

fun show_count_problem :: "count_problem \<Rightarrow> string" where
  "show_count_problem CellNotFound = ''the stock cell was not found''"
| "show_count_problem DifferentTenant = ''the stock cell belongs to another tenant''"
| "show_count_problem CellHasNoHolder = ''the stock cell has no holder''"
| "show_count_problem NegativeCount = ''a counted quantity cannot be negative''"
| "show_count_problem ChallengeWithoutContext =
     ''a challenged count must carry challenge_context (what we told the operator)''"
| "show_count_problem ConfirmedWithoutChallenge =
     ''confirmed only applies when the count was challenged''"

declare show_count_problem.simps [simp del]

record count_plan =
  cp_system :: i64
  cp_counted :: i64
  cp_variance :: i64
  cp_raise :: bool

definition count_check :: "proposed_count \<Rightarrow> stock_row option \<Rightarrow> count_problem list + count_plan" where
  "count_check proposed cell =
     (let problems =
        (if xc_counted proposed < 0 then [NegativeCount] else [])
        @ (if xc_challenged proposed \<and>
              (case xc_challenge_context proposed of None \<Rightarrow> True | Some c \<Rightarrow> c = [])
           then [ChallengeWithoutContext] else [])
        @ (if xc_confirmed proposed \<noteq> None \<and> \<not> xc_challenged proposed
           then [ConfirmedWithoutChallenge] else []) in
      case cell of
        None \<Rightarrow> Inl (problems @ [CellNotFound])
      | Some c \<Rightarrow>
          (let problems' = problems
             @ (if sk_tenant c \<noteq> xc_tenant proposed then [DifferentTenant] else [])
             @ (if sk_location c = None \<and> sk_package c = None then [CellHasNoHolder] else []) in
           if problems' \<noteq> [] then Inl problems'
           else (let variance = i64_sub (xc_counted proposed) (sk_quantity c) in
                 Inr \<lparr>cp_system = sk_quantity c, cp_counted = xc_counted proposed,
                      cp_variance = variance, cp_raise = variance \<noteq> 0\<rparr>)))"

lemma count_check_Inr:
  "count_check p cell = Inr plan \<longleftrightarrow>
   (\<exists>c. cell = Some c \<and> 0 \<le> xc_counted p
      \<and> (xc_challenged p \<longrightarrow> (\<exists>x. xc_challenge_context p = Some x \<and> x \<noteq> []))
      \<and> (xc_confirmed p \<noteq> None \<longrightarrow> xc_challenged p)
      \<and> sk_tenant c = xc_tenant p \<and> (sk_location c \<noteq> None \<or> sk_package c \<noteq> None)
      \<and> plan = \<lparr>cp_system = sk_quantity c, cp_counted = xc_counted p,
                cp_variance = i64_sub (xc_counted p) (sk_quantity c),
                cp_raise = i64_sub (xc_counted p) (sk_quantity c) \<noteq> 0\<rparr>)"
  by (cases cell) (auto simp: count_check_def Let_def split: option.splits if_splits)

section \<open>The handler\<close>

record record_count_request =
  rc_stock :: uuid
  rc_counted :: i64
  rc_event :: uuid
  rc_counted_at :: time
  rc_blind :: "bool option"
  rc_challenged :: "bool option"
  rc_challenge_context :: "string option"
  rc_confirmed :: "bool option"

record record_count_response =
  rcr_count :: uuid
  rcr_system :: i64
  rcr_counted :: i64
  rcr_variance :: i64
  rcr_discrepancy :: "uuid option"

definition or_false :: "bool option \<Rightarrow> bool" where
  "or_false b = (case b of None \<Rightarrow> False | Some x \<Rightarrow> x)"

definition count_row ::
  "pg \<Rightarrow> caller \<Rightarrow> record_count_request \<Rightarrow> stock_row \<Rightarrow> count_plan \<Rightarrow> stock_count_row" where
  "count_row pg who req c plan =
     \<lparr>sc_id = minted pg Stock_count, sc_tenant = ca_tenant who, sc_stock = rc_stock req,
      sc_item = sk_item c, sc_holder = side_of_stock c, sc_counted = cp_counted plan,
      sc_system = cp_system plan, sc_counted_at = rc_counted_at req, sc_event = rc_event req,
      sc_recorded_by = ca_person who, sc_blind = or_false (rc_blind req),
      sc_challenged = or_false (rc_challenged req),
      sc_challenge_context = rc_challenge_context req, sc_confirmed = rc_confirmed req\<rparr>"

definition variance_row ::
  "pg \<Rightarrow> caller \<Rightarrow> record_count_request \<Rightarrow> stock_row \<Rightarrow> count_plan \<Rightarrow> discrepancy_row" where
  "variance_row pg who req c plan =
     \<lparr>di_id = minted pg Discrepancy, di_tenant = ca_tenant who, di_kind = ''count_variance'',
      di_state = ''open'', di_item = Some (sk_item c), di_holder = side_of_stock c,
      di_expected = Some (cp_system plan), di_observed = Some (cp_counted plan),
      di_stock_count = Some (minted pg Stock_count),
      di_detail = Some (''count variance: system '' @ show_int (cp_system plan) @ '' counted '' @
        show_int (cp_counted plan) @ '' (delta '' @ show_int (cp_variance plan) @ '')''),
      di_detected_at = rc_counted_at req, di_detected_by = Some (ca_person who),
      di_resolved_at = None, di_resolved_by = None, di_resolving_movement = None,
      di_resolution_reason = None, di_receipt_line = None\<rparr>"

definition count_refusal :: "count_problem list \<Rightarrow> api_error" where
  "count_refusal problems =
     (if problems = [CellNotFound] then NotFound
      else Rejected (join ''; '' (map show_count_problem problems)))"

definition record_count ::
  "pg \<Rightarrow> caller \<Rightarrow> record_count_request \<Rightarrow> db \<Rightarrow> api_error + (record_count_response \<times> db)" where
  "record_count pg who req s =
     (let t = ca_tenant who;
          cell = stock_by_id t (rc_stock req) s;
          proposed = \<lparr>xc_tenant = t, xc_stock = rc_stock req, xc_counted = rc_counted req,
                      xc_blind = or_false (rc_blind req),
                      xc_challenged = or_false (rc_challenged req),
                      xc_challenge_context = rc_challenge_context req,
                      xc_confirmed = rc_confirmed req\<rparr> in
      case count_check proposed cell of
        Inl problems \<Rightarrow> Inl (count_refusal problems)
      | Inr plan \<Rightarrow>
      and_then (ok_or cell Panicked) (\<lambda>c.
      and_then (claim_act pg
                  \<lparr>ne_tenant = t, ne_id = rc_event req, ne_site = ca_site who,
                   ne_recorded_by = ca_person who, ne_submitted_at = rc_counted_at req\<rparr> s)
        (\<lambda>(act, s1).
           if is_replay act
           then and_then (require_count_facts t (rc_event req) s1) (\<lambda>(i, system, counted, d).
                and_then (reject_quantity_mismatch counted (rc_counted req)) (\<lambda>_.
                  Inr (\<lparr>rcr_count = i, rcr_system = system, rcr_counted = counted,
                        rcr_variance = i64_sub counted system, rcr_discrepancy = d\<rparr>, s1)))
           else
             and_then (write_to pg Stock_count s1 (insert_stock_count (count_row pg who req c plan) s1)) (\<lambda>s2.
             and_then
               (if cp_raise plan
                then and_then (write_to pg Discrepancy s2 (insert_discrepancy (variance_row pg who req c plan) s2))
                       (\<lambda>s3. Inr (Some (minted pg Discrepancy), s3))
                else Inr (None, s2))
               (\<lambda>(d, s3).
                  Inr (\<lparr>rcr_count = minted pg Stock_count, rcr_system = cp_system plan,
                        rcr_counted = cp_counted plan, rcr_variance = cp_variance plan,
                        rcr_discrepancy = d\<rparr>, s3))))))"

section \<open>What a run did\<close>

abbreviation count_envelope :: "pg \<Rightarrow> caller \<Rightarrow> record_count_request \<Rightarrow> client_event" where
  "count_envelope pg who req \<equiv> envelope pg
     \<lparr>ne_tenant = ca_tenant who, ne_id = rc_event req, ne_site = ca_site who,
      ne_recorded_by = ca_person who, ne_submitted_at = rc_counted_at req\<rparr>"

definition plan_of :: "record_count_request \<Rightarrow> stock_row \<Rightarrow> count_plan" where
  "plan_of req c = \<lparr>cp_system = sk_quantity c, cp_counted = rc_counted req,
     cp_variance = i64_sub (rc_counted req) (sk_quantity c),
     cp_raise = i64_sub (rc_counted req) (sk_quantity c) \<noteq> 0\<rparr>"

lemma record_count_fresh:
  assumes run: "record_count pg who req s = Inr (v, s')"
    and fresh: "\<not> claimed (ca_tenant who) (rc_event req) s"
  obtains c where
    "stock_by_id (ca_tenant who) (rc_stock req) s = Some c" "0 \<le> rc_counted req"
    "s' = s\<lparr>client_events := client_events s @ [count_envelope pg who req],
            stock_counts := stock_counts s @ [count_row pg who req c (plan_of req c)],
            discrepancies := discrepancies s @
              (if cp_raise (plan_of req c) then [variance_row pg who req c (plan_of req c)] else [])\<rparr>"
    "v = \<lparr>rcr_count = minted pg Stock_count, rcr_system = sk_quantity c, rcr_counted = rc_counted req,
          rcr_variance = i64_sub (rc_counted req) (sk_quantity c),
          rcr_discrepancy = (if cp_raise (plan_of req c) then Some (minted pg Discrepancy) else None)\<rparr>"
proof -
  let ?p = "\<lparr>xc_tenant = ca_tenant who, xc_stock = rc_stock req, xc_counted = rc_counted req,
                      xc_blind = or_false (rc_blind req),
                      xc_challenged = or_false (rc_challenged req),
                      xc_challenge_context = rc_challenge_context req,
                      xc_confirmed = rc_confirmed req\<rparr>"
  obtain plan where plan: "count_check ?p (stock_by_id (ca_tenant who) (rc_stock req) s) = Inr plan"
    using run by (auto simp: record_count_def Let_def split: sum.splits)
  then obtain c where c: "stock_by_id (ca_tenant who) (rc_stock req) s = Some c"
      "0 \<le> rc_counted req" "plan = plan_of req c"
    unfolding count_check_Inr by (auto simp: plan_of_def)
  obtain act s1 where claim: "claim_act pg
       \<lparr>ne_tenant = ca_tenant who, ne_id = rc_event req, ne_site = ca_site who,
        ne_recorded_by = ca_person who, ne_submitted_at = rc_counted_at req\<rparr> s = Inr (act, s1)"
    using run plan by (auto simp: record_count_def Let_def result_simps)
  have act: "act = Fresh" using claim fresh by (cases act) (auto simp: claim_act_Replay)
  have s1: "s1 = s\<lparr>client_events := client_events s @ [count_envelope pg who req]\<rparr>"
    using claim act by (simp add: claim_act_Fresh)
  note body = run [unfolded record_count_def Let_def plan, simplified, unfolded c(1) claim act, simplified]
  have s': "s' = s1\<lparr>stock_counts := stock_counts s1 @ [count_row pg who req c plan],
       discrepancies := discrepancies s1 @ (if cp_raise plan then [variance_row pg who req c plan] else [])\<rparr>"
    and v: "v = \<lparr>rcr_count = minted pg Stock_count, rcr_system = cp_system plan,
       rcr_counted = cp_counted plan, rcr_variance = cp_variance plan,
       rcr_discrepancy = (if cp_raise plan then Some (minted pg Discrepancy) else None)\<rparr>"
    using body by (cases "cp_raise plan"; auto simp: result_simps row_simps)+
  show thesis
    by (rule that [OF c(1,2)]) (simp_all add: s' s1 v c(3), simp_all add: plan_of_def)
qed

lemma record_count_replay:
  assumes run: "record_count pg who req s = Inr (v, s')"
    and old: "claimed (ca_tenant who) (rc_event req) s"
  shows "s' = s"
  using assms
  by (auto simp: record_count_def Let_def result_simps claim_act_def is_replay_def split: sum.splits if_splits)

interpretation count_writer: strict_writer record_count rc_event
proof
  fix pg who req s v s'
  assume run: "record_count pg who req s = Inr (v, s')"
  show "act_effect (ca_tenant who) (rc_event req) s s'"
  proof (cases "claimed (ca_tenant who) (rc_event req) s")
    case True
    then show ?thesis using record_count_replay [OF run] by (simp add: act_effect_def)
  next
    case False
    show ?thesis
      by (rule record_count_fresh [OF run False])
         (auto simp: act_effect_def isolated_def tenant_view_def visible_def count_row_def
            variance_row_def False)
  qed
  show "claimed (ca_tenant who) (rc_event req) s'"
  proof (cases "claimed (ca_tenant who) (rc_event req) s")
    case True
    then show ?thesis using record_count_replay [OF run] by simp
  next
    case False
    show ?thesis by (rule record_count_fresh [OF run False]) (auto simp: claimed_def)
  qed
qed (rule record_count_replay)

section \<open>Properties\<close>

definition sample_count :: record_count_request where
  "sample_count = \<lparr>rc_stock = 1, rc_counted = 47, rc_event = 503, rc_counted_at = 9, rc_blind = None,
     rc_challenged = Some True, rc_challenge_context = Some ''system says 50'', rc_confirmed = Some True\<rparr>"

lemma sample_count_runs:
  "\<exists>v s'. record_count sample_pg sample_caller sample_count sample_db = Inr (v, s')"
proof -
  have "\<not> isl (record_count sample_pg sample_caller sample_count sample_db)"
    by code_simp
  then show ?thesis by (cases "record_count sample_pg sample_caller sample_count sample_db") auto
qed

text \<open>
  C14: A fresh count keeps the assertion and moves nothing: the ledger and the stock table are
  unchanged, one stock_count row is added with the counted quantity beside the system's, and a
  finding is raised exactly when the two differ, open, for that count, expecting the system's
  quantity and observing the counted one.
\<close>

theorem record_count_raises_iff_variance:
  assumes run: "record_count pg who req s = Inr (v, s')"
    and fresh: "\<not> claimed (ca_tenant who) (rc_event req) s"
    and width: "in_i64 (rc_counted req)" "\<And>c. c \<in> set (stock s) \<Longrightarrow> in_i64 (sk_quantity c)"
  shows "movements s' = movements s \<and> stock s' = stock s
    \<and> (\<exists>c row. stock_by_id (ca_tenant who) (rc_stock req) s = Some c
         \<and> stock_counts s' = stock_counts s @ [row]
         \<and> sc_stock row = rc_stock req \<and> sc_counted row = rc_counted req
         \<and> sc_system row = sk_quantity c \<and> sc_holder row = side_of_stock c
         \<and> (if rc_counted req = sk_quantity c
             then discrepancies s' = discrepancies s \<and> rcr_discrepancy v = None
             else \<exists>d. discrepancies s' = discrepancies s @ [d] \<and> rcr_discrepancy v = Some (di_id d)
                \<and> di_kind d = ''count_variance'' \<and> di_state d = ''open''
                \<and> di_stock_count d = Some (sc_id row)
                \<and> di_expected d = Some (sk_quantity c) \<and> di_observed d = Some (rc_counted req)))"
proof (rule record_count_fresh [OF run fresh])
  fix c
  assume c: "stock_by_id (ca_tenant who) (rc_stock req) s = Some c"
    and s': "s' = s\<lparr>client_events := client_events s @ [count_envelope pg who req],
            stock_counts := stock_counts s @ [count_row pg who req c (plan_of req c)],
            discrepancies := discrepancies s @
              (if cp_raise (plan_of req c) then [variance_row pg who req c (plan_of req c)] else [])\<rparr>"
    and v: "v = \<lparr>rcr_count = minted pg Stock_count, rcr_system = sk_quantity c, rcr_counted = rc_counted req,
          rcr_variance = i64_sub (rc_counted req) (sk_quantity c),
          rcr_discrepancy = (if cp_raise (plan_of req c) then Some (minted pg Discrepancy) else None)\<rparr>"
  have "in_i64 (sk_quantity c)"
    using c width(2) by (auto simp: row_simps dest: by_id_SomeD)
  then have raised: "cp_raise (plan_of req c) \<longleftrightarrow> rc_counted req \<noteq> sk_quantity c"
    using width(1) by (simp add: plan_of_def)
  show ?thesis
    using c raised by (auto simp: s' v count_row_def variance_row_def plan_of_def)
qed

theorem record_count_raises_iff_variance_witness:
  "\<exists>v s' d. record_count sample_pg sample_caller sample_count sample_db = Inr (v, s')
     \<and> discrepancies s' = [d] \<and> di_observed d = Some 47 \<and> movements s' = movements sample_db"
proof -
  obtain v s' where run: "record_count sample_pg sample_caller sample_count sample_db = Inr (v, s')"
    using sample_count_runs by blast
  have fresh: "\<not> claimed (ca_tenant sample_caller) (rc_event sample_count) sample_db"
    and cell: "stock_by_id (ca_tenant sample_caller) (rc_stock sample_count) sample_db = Some sample_cell"
    by code_simp+
  have width: "in_i64 (rc_counted sample_count)" "\<And>c. c \<in> set (stock sample_db) \<Longrightarrow> in_i64 (sk_quantity c)"
    by (simp_all add: sample_count_def sample_defs in_i64_numeral)
  have none: "discrepancies sample_db = []" by (simp add: sample_defs)
  have "rc_counted sample_count \<noteq> sk_quantity sample_cell" "rc_counted sample_count = 47"
    by (simp_all add: sample_count_def sample_cell_def)
  with record_count_raises_iff_variance [OF run fresh width] cell run none show ?thesis
    by auto
qed

text \<open>
  The retry of a count is answered exactly as the first attempt was (same count, same system
  quantity, same variance, same finding) although the cell's projected quantity has been rebuilt to
  anything since, and it writes nothing.
\<close>

theorem record_count_retry:
  assumes run: "record_count pg who req s = Inr (v, s')"
    and fresh: "\<not> claimed (ca_tenant who) (rc_event req) s"
    and keyed: "\<forall>c \<in> set (stock_counts s). claimed (sc_tenant c) (sc_event c) s"
    and new_id: "\<forall>d \<in> set (discrepancies s). di_stock_count d \<noteq> Some (minted pg Stock_count)"
    and cell: "stock_by_id (ca_tenant who) (rc_stock req) (s'\<lparr>stock := now_held\<rparr>) = Some c'"
      "sk_location c' \<noteq> None \<or> sk_package c' \<noteq> None"
  shows "record_count pg' who req (s'\<lparr>stock := now_held\<rparr>) = Inr (v, s'\<lparr>stock := now_held\<rparr>)"
proof (rule record_count_fresh [OF run fresh])
  fix c
  assume s': "s' = s\<lparr>client_events := client_events s @ [count_envelope pg who req],
            stock_counts := stock_counts s @ [count_row pg who req c (plan_of req c)],
            discrepancies := discrepancies s @
              (if cp_raise (plan_of req c) then [variance_row pg who req c (plan_of req c)] else [])\<rparr>"
    and v: "v = \<lparr>rcr_count = minted pg Stock_count, rcr_system = sk_quantity c, rcr_counted = rc_counted req,
          rcr_variance = i64_sub (rc_counted req) (sk_quantity c),
          rcr_discrepancy = (if cp_raise (plan_of req c) then Some (minted pg Discrepancy) else None)\<rparr>"
  let ?t = "ca_tenant who" and ?s = "s'\<lparr>stock := now_held\<rparr>"
  let ?p = "\<lparr>xc_tenant = ?t, xc_stock = rc_stock req, xc_counted = rc_counted req,
                      xc_blind = or_false (rc_blind req),
                      xc_challenged = or_false (rc_challenged req),
                      xc_challenge_context = rc_challenge_context req,
                      xc_confirmed = rc_confirmed req\<rparr>"
  obtain plan0 c0 where "count_check ?p c0 = Inr plan0"
    using run by (auto simp: record_count_def Let_def split: sum.splits)
  moreover have "sk_tenant c' = ?t" using cell(1) by (auto simp: row_simps dest: by_id_SomeD)
  ultimately have ok: "count_check ?p (Some c') = Inr (plan_of req c')"
    using cell(2) unfolding count_check_Inr plan_of_def by auto
  have rows: "filter (\<lambda>c. sc_event c = rc_event req) (visible sc_tenant ?t (stock_counts ?s))
      = [count_row pg who req c (plan_of req c)]"
    using keyed fresh by (auto simp: s' visible_def count_row_def filter_eq_Nil_iff)
  have found: "filter (\<lambda>d. di_stock_count d = Some (minted pg Stock_count)) (visible di_tenant ?t (discrepancies ?s))
      = (if cp_raise (plan_of req c) then [variance_row pg who req c (plan_of req c)] else [])"
    using new_id by (auto simp: s' visible_def variance_row_def filter_eq_Nil_iff)
  have facts: "require_count_facts ?t (rc_event req) ?s
      = Inr (minted pg Stock_count, sk_quantity c, rc_counted req,
          if cp_raise (plan_of req c) then Some (minted pg Discrepancy) else None)"
    using found unfolding require_count_facts_def rows
    by (simp add: sort_by_def count_row_def plan_of_def variance_row_def)
  have "claimed ?t (rc_event req) ?s" by (auto simp: s' claimed_def)
  then show ?thesis
    using ok facts by (simp add: record_count_def Let_def cell(1) claim_act_def v)
qed

theorem record_count_retry_witness:
  "\<exists>v s'. record_count sample_pg sample_caller sample_count sample_db = Inr (v, s')
     \<and> record_count sample_pg sample_caller sample_count (s'\<lparr>stock := [sample_cell\<lparr>sk_quantity := 3\<rparr>]\<rparr>)
         = Inr (v, s'\<lparr>stock := [sample_cell\<lparr>sk_quantity := 3\<rparr>]\<rparr>)"
proof -
  obtain v s' where run: "record_count sample_pg sample_caller sample_count sample_db = Inr (v, s')"
    using sample_count_runs by blast
  have fresh: "\<not> claimed (ca_tenant sample_caller) (rc_event sample_count) sample_db"
    by code_simp
  have inv: "\<forall>c \<in> set (stock_counts sample_db). claimed (sc_tenant c) (sc_event c) sample_db"
      "\<forall>d \<in> set (discrepancies sample_db). di_stock_count d \<noteq> Some (minted sample_pg Stock_count)"
    by (simp_all add: sample_defs)
  have cell: "stock_by_id (ca_tenant sample_caller) (rc_stock sample_count)
      (s'\<lparr>stock := [sample_cell\<lparr>sk_quantity := 3\<rparr>]\<rparr>) = Some (sample_cell\<lparr>sk_quantity := 3\<rparr>)"
    by (simp add: row_simps by_id_def sample_defs sample_count_def)
  show ?thesis
    using run record_count_retry [OF run fresh inv cell] by (auto simp: sample_cell_def)
qed

end
