(* ===== verification/Adjusting.thy ===== *)
theory Adjusting
  imports Ledger
begin

text \<open>
  Inventory adjustments: the decision of \<^verbatim>\<open>adjusting.rs\<close>, \<open>is_netsuites\<close> of
  \<^verbatim>\<open>listed.rs\<close>, and the handler \<open>record_adjustment\<close> of \<^verbatim>\<open>routes.rs\<close>.  An
  adjustment states what was counted and moves the ledger by the difference, optionally closing the
  finding it answers.
\<close>

section \<open>The decision\<close>

definition KINDS :: "string list" where
  "KINDS = [''not_in_listed_bin'', ''found_in_unlisted_bin'']"

definition is_netsuites :: "string \<Rightarrow> bool" where
  "is_netsuites kind \<longleftrightarrow> kind \<in> set KINDS"

record adjustment_reason =
  xr_id :: uuid
  xr_class :: string
  xr_code :: string

record proposed_adjustment =
  xa_tenant :: uuid
  xa_stock :: uuid
  xa_counted :: i64
  xa_reason :: adjustment_reason
  xa_discrepancy :: "uuid option"

record finding =
  fd_id :: uuid
  fd_tenant :: uuid
  fd_kind :: string
  fd_state :: string
  fd_stock_count :: "uuid option"
  fd_count_stock :: "uuid option"

datatype adjust_problem =
    CellNotFound | DifferentTenant | CellHasNoHolder | NegativeCount
  | ZeroVariance i64 | RecordErrorReason string | UnknownReasonClass string | MissingReason
  | FindingNotFound | FindingWrongTenant | FindingAlreadyResolved | FindingUnexpectedKind string
  | FindingIsNetSuites string | FindingCellMismatch | NoFindingLinked

fun show_adjust_problem :: "adjust_problem \<Rightarrow> string" where
  "show_adjust_problem CellNotFound = ''the stock cell was not found''"
| "show_adjust_problem DifferentTenant = ''the stock cell belongs to another tenant''"
| "show_adjust_problem CellHasNoHolder = ''the stock cell has no holder''"
| "show_adjust_problem NegativeCount = ''a counted quantity cannot be negative''"
| "show_adjust_problem (ZeroVariance quantity) =
     ''counted quantity equals system quantity ('' @ show_int quantity @ ''); no adjustment movement''"
| "show_adjust_problem (RecordErrorReason code) =
     ''adjustment reason '' @ code @ '' is a record_error; reverse a prior movement via /corrections instead of posting an inventory adjust''"
| "show_adjust_problem (UnknownReasonClass cls) = ''unknown adjustment_reason class '' @ cls"
| "show_adjust_problem MissingReason = ''an adjustment requires an adjustment_reason''"
| "show_adjust_problem FindingNotFound = ''the discrepancy was not found''"
| "show_adjust_problem FindingWrongTenant = ''the discrepancy belongs to another tenant''"
| "show_adjust_problem FindingAlreadyResolved = ''the discrepancy is already resolved''"
| "show_adjust_problem (FindingUnexpectedKind kind) =
     ''resolving discrepancy kind '' @ kind @ ''; count_variance is the usual target''"
| "show_adjust_problem (FindingIsNetSuites kind) =
     ''a '' @ kind @ '' finding is about NetSuite's inventory balance, which Spork does not adjust: put it right in NetSuite, then accept the finding (D215)''"
| "show_adjust_problem FindingCellMismatch =
     ''the finding's stock_count is for a different cell than this adjustment''"
| "show_adjust_problem NoFindingLinked =
     ''no discrepancy_id: ledger will move without resolving a finding (D8 prefers /counts first)''"

declare show_adjust_problem.simps [simp del]

fun adjust_is_hard :: "adjust_problem \<Rightarrow> bool" where
  "adjust_is_hard (ZeroVariance q) = False"
| "adjust_is_hard (FindingUnexpectedKind k) = False"
| "adjust_is_hard NoFindingLinked = False"
| "adjust_is_hard p = True"

datatype direction = Increase i64 | Decrease i64

definition finding_problems :: "proposed_adjustment \<Rightarrow> finding option \<Rightarrow> adjust_problem list" where
  "finding_problems proposed finding =
     (if xa_discrepancy proposed \<noteq> None
      then (case finding of
              None \<Rightarrow> [FindingNotFound]
            | Some f \<Rightarrow>
                (if fd_tenant f \<noteq> xa_tenant proposed then [FindingWrongTenant] else [])
                @ (if fd_state f = ''resolved'' \<or> fd_state f = ''accepted''
                   then [FindingAlreadyResolved] else [])
                @ (if is_netsuites (fd_kind f) then [FindingIsNetSuites (fd_kind f)]
                   else if fd_kind f \<noteq> ''count_variance'' then [FindingUnexpectedKind (fd_kind f)]
                   else [])
                @ (case fd_count_stock f of
                     None \<Rightarrow> []
                   | Some c \<Rightarrow> if c \<noteq> xa_stock proposed then [FindingCellMismatch] else []))
      else [NoFindingLinked])"

definition adjust_check ::
  "proposed_adjustment \<Rightarrow> stock_row option \<Rightarrow> finding option \<Rightarrow> adjust_problem list \<times> direction option" where
  "adjust_check proposed cell finding =
     (let problems =
        (if xa_counted proposed < 0 then [NegativeCount] else [])
        @ (let cls = xr_class (xa_reason proposed) in
           if cls = ''world_event'' then []
           else if cls = ''record_error'' then [RecordErrorReason (xr_code (xa_reason proposed))]
           else [UnknownReasonClass cls])
        @ finding_problems proposed finding in
      case cell of
        None \<Rightarrow> (problems @ [CellNotFound], None)
      | Some c \<Rightarrow>
          (let problems' = problems
             @ (if sk_tenant c \<noteq> xa_tenant proposed then [DifferentTenant] else [])
             @ (if sk_location c = None \<and> sk_package c = None then [CellHasNoHolder] else []) in
           if list_ex adjust_is_hard problems' then (problems', None)
           else (let delta = i64_sub (xa_counted proposed) (sk_quantity c) in
                 if delta = 0 then (problems' @ [ZeroVariance (sk_quantity c)], None)
                 else if delta > 0 then (problems', Some (Increase delta))
                 else (problems', Some (Decrease (i64_neg delta))))))"

definition finding_ok :: "proposed_adjustment \<Rightarrow> finding option \<Rightarrow> bool" where
  "finding_ok p finding \<longleftrightarrow> xa_discrepancy p = None \<or>
     (\<exists>f. finding = Some f \<and> fd_tenant f = xa_tenant p
        \<and> fd_state f \<noteq> ''resolved'' \<and> fd_state f \<noteq> ''accepted'' \<and> \<not> is_netsuites (fd_kind f)
        \<and> (fd_count_stock f = None \<or> fd_count_stock f = Some (xa_stock p)))"

lemma finding_problems_no_hard:
  "filter adjust_is_hard (finding_problems p finding) = [] \<longleftrightarrow> finding_ok p finding"
  by (cases finding) (auto simp: finding_problems_def finding_ok_def split: option.splits if_splits)

definition cell_delta :: "proposed_adjustment \<Rightarrow> stock_row \<Rightarrow> i64" where
  "cell_delta p c = i64_sub (xa_counted p) (sk_quantity c)"

definition direction_of :: "i64 \<Rightarrow> direction option" where
  "direction_of delta = (if delta = 0 then None else if delta > 0 then Some (Increase delta)
     else Some (Decrease (i64_neg delta)))"

lemma adjust_check_no_hard:
  "filter adjust_is_hard (fst (adjust_check p cell finding)) = [] \<longleftrightarrow>
   0 \<le> xa_counted p \<and> xr_class (xa_reason p) = ''world_event'' \<and> finding_ok p finding
   \<and> (\<exists>c. cell = Some c \<and> sk_tenant c = xa_tenant p \<and> (sk_location c \<noteq> None \<or> sk_package c \<noteq> None))"
  by (cases cell)
     (auto simp: adjust_check_def Let_def list_ex_filter finding_problems_no_hard split: if_splits)

lemma adjust_check_direction:
  "filter adjust_is_hard (fst (adjust_check p (Some c) finding)) = [] \<Longrightarrow>
   snd (adjust_check p (Some c) finding) = direction_of (cell_delta p c)"
  by (auto simp: adjust_check_def Let_def list_ex_filter direction_of_def cell_delta_def
      split: if_splits)

section \<open>The handler\<close>

record record_adjustment_request =
  ra_stock :: uuid
  ra_counted :: i64
  ra_reason :: uuid
  ra_discrepancy :: "uuid option"
  ra_stock_count :: "uuid option"
  ra_event :: uuid
  ra_occurred_at :: time

record record_adjustment_response =
  aj_movement :: "uuid option"
  aj_system :: i64
  aj_counted :: i64
  aj_delta :: i64
  aj_resolved :: "uuid option"
  aj_warnings :: "string list"

text \<open>The finding of the request: named outright, or the open variance of the count it names.\<close>

definition finding_of_row :: "uuid \<Rightarrow> db \<Rightarrow> discrepancy_row \<Rightarrow> finding" where
  "finding_of_row t s d =
     \<lparr>fd_id = di_id d, fd_tenant = di_tenant d, fd_kind = di_kind d, fd_state = di_state d,
      fd_stock_count = di_stock_count d,
      fd_count_stock = Option.bind (di_stock_count d) (\<lambda>i. map_option sc_stock (count_by_id t i s))\<rparr>"

definition open_variances :: "uuid \<Rightarrow> uuid \<Rightarrow> db \<Rightarrow> discrepancy_row list" where
  "open_variances t scid s =
     (if count_by_id t scid s = None then []
      else sort_by (\<lambda>a b. cmp (di_detected_at b) (di_detected_at a))
             (filter (\<lambda>d. di_stock_count d = Some scid \<and> di_kind d = ''count_variance''
                        \<and> (di_state d = ''open'' \<or> di_state d = ''investigating''))
               (visible di_tenant t (discrepancies s))))"

definition load_finding :: "uuid \<Rightarrow> record_adjustment_request \<Rightarrow> db \<Rightarrow> finding option" where
  "load_finding t req s =
     (case ra_discrepancy req of
        Some did \<Rightarrow> map_option (finding_of_row t s) (discrepancy_by_id t did s)
      | None \<Rightarrow>
          (case ra_stock_count req of
             Some scid \<Rightarrow> (case open_variances t scid s of [] \<Rightarrow> None | d # _ \<Rightarrow> Some (finding_of_row t s d))
           | None \<Rightarrow> None))"

definition adjust_refusal :: "adjust_problem list \<Rightarrow> api_error" where
  "adjust_refusal problems =
     (let hard = filter adjust_is_hard problems in
      if length hard = 1 \<and> (CellNotFound \<in> set problems \<or> FindingNotFound \<in> set problems)
      then NotFound else Rejected (join ''; '' (map show_adjust_problem hard)))"

definition adjust_movement ::
  "pg \<Rightarrow> caller \<Rightarrow> record_adjustment_request \<Rightarrow> stock_row \<Rightarrow> direction \<Rightarrow> stock_movement" where
  "adjust_movement pg who req c dir =
     (let qty = (case dir of Increase q \<Rightarrow> q | Decrease q \<Rightarrow> q) in
      \<lparr>mv_id = minted pg Stock_movement, mv_tenant = ca_tenant who, mv_event = ra_event req,
       mv_item = sk_item c, mv_quantity = qty,
       mv_from = (case dir of Increase _ \<Rightarrow> no_side | Decrease _ \<Rightarrow> side_of_stock c),
       mv_to = (case dir of Increase _ \<Rightarrow> side_of_stock c | Decrease _ \<Rightarrow> no_side),
       mv_reason = ''adjustment'', mv_occurred_at = ra_occurred_at req,
       mv_recorded_by = ca_person who, mv_reverses = None,
       mv_adjustment_reason = Some (ra_reason req), mv_line = None, mv_receipt_line = None, mv_external_pick = None\<rparr>)"

text \<open>The guarded update that closes a finding.\<close>

definition finding_open :: "discrepancy_row \<Rightarrow> bool" where
  "finding_open d \<longleftrightarrow> di_state d = ''open'' \<or> di_state d = ''investigating''"

definition resolution_text :: "i64 \<Rightarrow> i64 \<Rightarrow> i64 \<Rightarrow> string" where
  "resolution_text delta counted system =
     ''inventory adjust delta '' @ show_int delta @ '' (counted '' @ show_int counted @
     '' vs system '' @ show_int system @ '')''"

definition resolved_row ::
  "caller \<Rightarrow> record_adjustment_request \<Rightarrow> uuid \<Rightarrow> string \<Rightarrow> discrepancy_row \<Rightarrow> discrepancy_row" where
  "resolved_row who req movement_id why d =
     d\<lparr>di_state := ''resolved'', di_resolved_at := Some (ra_occurred_at req),
       di_resolved_by := Some (ca_person who), di_resolving_movement := Some movement_id,
       di_resolution_reason := Some why\<rparr>"

lemma resolved_row_simps [simp]:
  "di_id (resolved_row who req m w d) = di_id d"
  "di_tenant (resolved_row who req m w d) = di_tenant d"
  "di_kind (resolved_row who req m w d) = di_kind d"
  "di_stock_count (resolved_row who req m w d) = di_stock_count d"
  "di_state (resolved_row who req m w d) = ''resolved''"
  "di_resolving_movement (resolved_row who req m w d) = Some m"
  "di_resolved_by (resolved_row who req m w d) = Some (ca_person who)"
  "di_resolved_at (resolved_row who req m w d) = Some (ra_occurred_at req)"
  by (simp_all add: resolved_row_def)

definition resolve_finding ::
  "pg \<Rightarrow> caller \<Rightarrow> record_adjustment_request \<Rightarrow> i64 \<Rightarrow> i64 \<Rightarrow> uuid \<Rightarrow> uuid \<Rightarrow> db \<Rightarrow> api_error + db" where
  "resolve_finding pg who req delta system movement_id fid s =
     write_to pg Discrepancy s
       (s\<lparr>discrepancies := update_rows di_tenant di_id (ca_tenant who) fid finding_open
           (resolved_row who req movement_id (resolution_text delta (ra_counted req) system))
           (discrepancies s)\<rparr>)"

definition adjust_answer ::
  "record_adjustment_request \<Rightarrow> stock_row \<Rightarrow> uuid option \<Rightarrow> uuid option \<Rightarrow> string list \<Rightarrow> record_adjustment_response" where
  "adjust_answer req c movement_id resolved ws =
     \<lparr>aj_movement = movement_id, aj_system = sk_quantity c, aj_counted = ra_counted req,
      aj_delta = i64_sub (ra_counted req) (sk_quantity c), aj_resolved = resolved, aj_warnings = ws\<rparr>"

text \<open>The end of the handler: close the finding when a movement was written, and answer.\<close>

definition close_and_answer ::
  "pg \<Rightarrow> caller \<Rightarrow> record_adjustment_request \<Rightarrow> stock_row \<Rightarrow> finding option \<Rightarrow> uuid option \<Rightarrow> string list
   \<Rightarrow> db \<Rightarrow> api_error + (record_adjustment_response \<times> db)" where
  "close_and_answer pg who req c finding movement_id ws s =
     (case (movement_id, finding) of
        (Some mid, Some f) \<Rightarrow>
          and_then (resolve_finding pg who req (i64_sub (ra_counted req) (sk_quantity c)) (sk_quantity c)
                      mid (fd_id f) s) (\<lambda>s'.
            Inr (adjust_answer req c movement_id (Some (fd_id f)) ws, s'))
      | _ \<Rightarrow> Inr (adjust_answer req c movement_id None ws, s))"

definition already_resolved :: "uuid \<Rightarrow> finding option \<Rightarrow> db \<Rightarrow> uuid option" where
  "already_resolved t finding s =
     Option.bind finding (\<lambda>f. Option.bind (discrepancy_by_id t (fd_id f) s) (\<lambda>row.
       if di_resolving_movement row \<noteq> None then Some (di_id row) else None))"

definition adjust_write ::
  "pg \<Rightarrow> caller \<Rightarrow> record_adjustment_request \<Rightarrow> stock_row \<Rightarrow> finding option \<Rightarrow> direction option
   \<Rightarrow> string list \<Rightarrow> db \<Rightarrow> api_error + (record_adjustment_response \<times> db)" where
  "adjust_write pg who req c finding dir warnings s =
     (case dir of
        Some d \<Rightarrow>
          and_then (claim_act pg
                \<lparr>ne_tenant = ca_tenant who, ne_id = ra_event req, ne_site = ca_site who,
                 ne_recorded_by = ca_person who, ne_submitted_at = ra_occurred_at req\<rparr> s)
            (\<lambda>(act, s1).
               if is_replay act
               then and_then (optional_one_movement (ca_tenant who) (ra_event req) s1) (\<lambda>prior.
                      Inr (adjust_answer req c (map_option fst prior)
                             (already_resolved (ca_tenant who) finding s1) (warnings @ [REPLAY_WARNING]), s1))
               else and_then (append_movement pg (ca_tenant who) ''adjustment''
                                (adjust_movement pg who req c d) s1)
                      (\<lambda>s2. close_and_answer pg who req c finding (Some (minted pg Stock_movement)) warnings s2))
      | None \<Rightarrow>
          and_then (optional_one_movement (ca_tenant who) (ra_event req) s) (\<lambda>prior.
            (case prior of
               Some (i, _) \<Rightarrow> close_and_answer pg who req c finding (Some i) (warnings @ [REPLAY_WARNING]) s
             | None \<Rightarrow> close_and_answer pg who req c finding None warnings s)))"

definition proposal :: "uuid \<Rightarrow> record_adjustment_request \<Rightarrow> adjustment_reason_row \<Rightarrow> finding option \<Rightarrow> proposed_adjustment" where
  "proposal t req r finding = \<lparr>xa_tenant = t, xa_stock = ra_stock req, xa_counted = ra_counted req,
     xa_reason = \<lparr>xr_id = ar_id r, xr_class = ar_class r, xr_code = ar_code r\<rparr>,
     xa_discrepancy = (case ra_discrepancy req of Some d \<Rightarrow> Some d | None \<Rightarrow> map_option fd_id finding)\<rparr>"

definition record_adjustment ::
  "pg \<Rightarrow> caller \<Rightarrow> record_adjustment_request \<Rightarrow> db \<Rightarrow> api_error + (record_adjustment_response \<times> db)" where
  "record_adjustment pg who req s =
     (let t = ca_tenant who;
          cell = stock_by_id t (ra_stock req) s;
          finding = load_finding t req s in
      case adjustment_reason_by_id t (ra_reason req) s of
        None \<Rightarrow> Inl (Rejected (show_adjust_problem MissingReason))
      | Some r \<Rightarrow>
      (let (problems, dir) = adjust_check (proposal t req r finding) cell finding;
           warnings = map show_adjust_problem (filter (\<lambda>p. \<not> adjust_is_hard p) problems) in
       if filter adjust_is_hard problems \<noteq> [] then Inl (adjust_refusal problems)
       else and_then (ok_or cell Panicked) (\<lambda>c. adjust_write pg who req c finding dir warnings s)))"

section \<open>What a run did\<close>

abbreviation adjust_envelope :: "pg \<Rightarrow> caller \<Rightarrow> record_adjustment_request \<Rightarrow> client_event" where
  "adjust_envelope pg who req \<equiv> envelope pg
     \<lparr>ne_tenant = ca_tenant who, ne_id = ra_event req, ne_site = ca_site who,
      ne_recorded_by = ca_person who, ne_submitted_at = ra_occurred_at req\<rparr>"

text \<open>Closing a finding leaves every table but \<open>discrepancies\<close> as it was.\<close>

lemma resolve_finding_frame:
  assumes "resolve_finding pg who req delta system mid fid s = Inr s'"
  shows "\<exists>ds. s' = s\<lparr>discrepancies := ds\<rparr>" and "isolated (ca_tenant who) s s'"
  using assms
  by (auto simp: resolve_finding_def result_simps isolated_def tenant_view_def
      intro!: update_rows_visible_other)

text \<open>Every run that returned passed the decision, and ended in \<open>adjust_write\<close>.\<close>

lemma record_adjustment_Inr:
  assumes run: "record_adjustment pg who req s = Inr (v, s')"
  obtains c r warnings where
    "stock_by_id (ca_tenant who) (ra_stock req) s = Some c"
    "adjustment_reason_by_id (ca_tenant who) (ra_reason req) s = Some r"
    "0 \<le> ra_counted req" "ar_class r = ''world_event''"
    "finding_ok (proposal (ca_tenant who) req r (load_finding (ca_tenant who) req s))
       (load_finding (ca_tenant who) req s)"
    "sk_location c \<noteq> None \<or> sk_package c \<noteq> None"
    "adjust_write pg who req c (load_finding (ca_tenant who) req s)
       (direction_of (i64_sub (ra_counted req) (sk_quantity c))) warnings s = Inr (v, s')"
proof -
  obtain r where r: "adjustment_reason_by_id (ca_tenant who) (ra_reason req) s = Some r"
    using run by (auto simp: record_adjustment_def Let_def split: option.splits)
  let ?f = "load_finding (ca_tenant who) req s"
  let ?p = "proposal (ca_tenant who) req r ?f"
  let ?cell = "stock_by_id (ca_tenant who) (ra_stock req) s"
  obtain ps dir where chk: "adjust_check ?p ?cell ?f = (ps, dir)" by fastforce
  have body: "(if filter adjust_is_hard ps \<noteq> [] then Inl (adjust_refusal ps)
       else and_then (ok_or ?cell Panicked) (\<lambda>c. adjust_write pg who req c ?f dir
         (map show_adjust_problem (filter (\<lambda>p. \<not> adjust_is_hard p) ps)) s)) = Inr (v, s')"
    using run by (simp only: record_adjustment_def Let_def r chk option.case prod.case)
  have ok: "filter adjust_is_hard (fst (adjust_check ?p ?cell ?f)) = []"
    using body chk by (auto split: if_splits)
  then obtain c where c: "?cell = Some c" "sk_location c \<noteq> None \<or> sk_package c \<noteq> None"
    unfolding adjust_check_no_hard by auto
  have dir: "dir = direction_of (i64_sub (ra_counted req) (sk_quantity c))"
    using adjust_check_direction [of ?p c ?f] ok c(1) chk by (simp add: cell_delta_def proposal_def)
  show thesis
    by (rule that [OF c(1) r _ _ _ c(2)])
       (use ok [unfolded adjust_check_no_hard] body ok chk c(1) dir in \<open>auto simp: proposal_def\<close>)
qed

text \<open>The state a fresh adjustment leaves before its finding is closed.\<close>

definition adjusted :: "pg \<Rightarrow> caller \<Rightarrow> record_adjustment_request \<Rightarrow> stock_row \<Rightarrow> direction \<Rightarrow> db \<Rightarrow> db" where
  "adjusted pg who req c d s = mark_dirty pg (ca_tenant who) ''adjustment''
     (s\<lparr>client_events := client_events s @ [adjust_envelope pg who req],
        movements := movements s @ [adjust_movement pg who req c d]\<rparr>)"

lemma adjust_write_fresh:
  assumes "adjust_write pg who req c f (Some d) ws s = Inr (v, s')"
    and "\<not> claimed (ca_tenant who) (ra_event req) s"
  shows "close_and_answer pg who req c f (Some (minted pg Stock_movement)) ws
    (adjusted pg who req c d s) = Inr (v, s')"
  using assms by (auto simp: adjust_write_def claim_act_def envelope_def adjusted_def result_simps row_simps)

lemma close_and_answer_frame:
  assumes "close_and_answer pg who req c f mid ws s = Inr (v, s')"
  shows "isolated (ca_tenant who) s s' \<and> (\<exists>ds. s' = s\<lparr>discrepancies := ds\<rparr>)"
proof (cases "mid = None \<or> f = None")
  case True
  then have "s' = s" using assms by (auto simp: close_and_answer_def split: option.splits)
  moreover have "\<exists>ds. s = s\<lparr>discrepancies := ds\<rparr>" by (rule exI [of _ "discrepancies s"]) simp
  ultimately show ?thesis by simp
next
  case False
  then obtain m fid where "resolve_finding pg who req (i64_sub (ra_counted req) (sk_quantity c))
      (sk_quantity c) m fid s = Inr s'"
    using assms by (auto simp: close_and_answer_def and_then_eq_Inr)
  from resolve_finding_frame [OF this] show ?thesis by blast
qed

text \<open>Where the act was claimed, or nothing differs, the ledger is untouched.\<close>

lemma adjust_write_no_move:
  assumes "adjust_write pg who req c f dir ws s = Inr (v, s')"
    and "claimed (ca_tenant who) (ra_event req) s \<or> dir = None"
  shows "isolated (ca_tenant who) s s' \<and> (\<exists>ds. s' = s\<lparr>discrepancies := ds\<rparr>)"
proof (cases dir)
  case None
  then obtain m ws' where "close_and_answer pg who req c f m ws' s = Inr (v, s')"
    using assms(1) by (auto simp: adjust_write_def and_then_eq_Inr split: option.splits)
  then show ?thesis by (rule close_and_answer_frame)
next
  case (Some d)
  then have "s' = s" using assms by (auto simp: adjust_write_def claim_act_def and_then_eq_Inr)
  moreover have "\<exists>ds. s = s\<lparr>discrepancies := ds\<rparr>" by (rule exI [of _ "discrepancies s"]) simp
  ultimately show ?thesis by simp
qed

lemma adjusted_effect:
  "\<not> claimed (ca_tenant who) (ra_event req) s \<Longrightarrow>
   act_effect (ca_tenant who) (ra_event req) s (adjusted pg who req c d s)"
  unfolding adjusted_def by (rule fresh_effect) (simp_all add: adjust_movement_def Let_def)

lemma act_effect_frame:
  assumes "act_effect t act s s'" and "\<exists>ds. s'' = s'\<lparr>discrepancies := ds\<rparr>" and "isolated t s' s''"
  shows "act_effect t act s s''"
  using assms isolated_trans [of t s s' s''] by (auto simp: act_effect_def)

interpretation adjust_writer: act_writer record_adjustment ra_event
proof
  fix pg who req s v s'
  assume run: "record_adjustment pg who req s = Inr (v, s')"
  obtain c ws where body: "adjust_write pg who req c (load_finding (ca_tenant who) req s)
      (direction_of (i64_sub (ra_counted req) (sk_quantity c))) ws s = Inr (v, s')"
    by (rule record_adjustment_Inr [OF run])
  show "act_effect (ca_tenant who) (ra_event req) s s'"
  proof (cases "claimed (ca_tenant who) (ra_event req) s \<or>
      direction_of (i64_sub (ra_counted req) (sk_quantity c)) = None")
    case True
    from adjust_write_no_move [OF body this] show ?thesis by (auto simp: act_effect_def)
  next
    case False
    then obtain d where d: "direction_of (i64_sub (ra_counted req) (sk_quantity c)) = Some d"
      and fresh: "\<not> claimed (ca_tenant who) (ra_event req) s" by auto
    from close_and_answer_frame [OF adjust_write_fresh [OF body [unfolded d] fresh]]
    show ?thesis
      using adjusted_effect [OF fresh] act_effect_frame by blast
  qed
qed

section \<open>Properties\<close>

text \<open>The signed effect of the movement on the cell it names is the difference counted.\<close>

lemma direction_of_nonzero: "delta \<noteq> 0 \<Longrightarrow> \<exists>d. direction_of delta = Some d"
  by (simp add: direction_of_def)

lemma adjust_movement_net:
  assumes "direction_of delta = Some d" and "in_i64 delta" and "in_i64 (- delta)"
  shows "net item sd (adjust_movement pg who req c d) =
           (if item = sk_item c \<and> sd = side_of_stock c then delta
            else if item = sk_item c \<and> sd = no_side then - delta else 0)"
    and "0 < mv_quantity (adjust_movement pg who req c d)"
  using assms
  by (auto simp: direction_of_def adjust_movement_def net_def entered_def left_from_def i64_neg_exact
      side_of_stock_some [symmetric] split: if_splits)

definition sample_adjust_db :: db where
  "sample_adjust_db = sample_db\<lparr>
     adjustment_reasons := [\<lparr>ar_id = 70, ar_tenant = None, ar_class = ''world_event'', ar_code = ''damaged''\<rparr>],
     stock_counts := [\<lparr>sc_id = 81, sc_tenant = 10, sc_stock = 1, sc_item = 100,
       sc_holder = side_of_stock sample_cell, sc_counted = 47, sc_system = 50, sc_counted_at = 9,
       sc_event = 503, sc_recorded_by = 20, sc_blind = False, sc_challenged = False,
       sc_challenge_context = None, sc_confirmed = None\<rparr>],
     discrepancies := [\<lparr>di_id = 82, di_tenant = 10, di_kind = ''count_variance'', di_state = ''open'',
       di_item = Some 100, di_holder = side_of_stock sample_cell, di_expected = Some 50,
       di_observed = Some 47, di_stock_count = Some 81, di_detail = None, di_detected_at = 9,
       di_detected_by = Some 20, di_resolved_at = None, di_resolved_by = None,
       di_resolving_movement = None, di_resolution_reason = None, di_receipt_line = None\<rparr>]\<rparr>"

definition sample_adjust :: record_adjustment_request where
  "sample_adjust = \<lparr>ra_stock = 1, ra_counted = 47, ra_reason = 70, ra_discrepancy = Some 82,
     ra_stock_count = None, ra_event = 504, ra_occurred_at = 10\<rparr>"

lemma sample_adjust_runs:
  "\<exists>v s'. record_adjustment sample_pg sample_caller sample_adjust sample_adjust_db = Inr (v, s')"
proof -
  have "\<not> isl (record_adjustment sample_pg sample_caller sample_adjust sample_adjust_db)"
    by code_simp
  then show ?thesis
    by (cases "record_adjustment sample_pg sample_caller sample_adjust sample_adjust_db") auto
qed



text \<open>The finding a request names, and the update that closes it.\<close>

lemma discrepancy_by_id_resolved:
  assumes "discrepancy_by_id t i s = Some d" and "p d"
  shows "by_id di_tenant di_id t i
    (update_rows di_tenant di_id t i p (resolved_row who req m w) (discrepancies s))
      = Some (resolved_row who req m w d)"
proof -
  have "find (\<lambda>r. di_tenant r = t \<and> di_id r = i) rows = Some d \<Longrightarrow>
      find (\<lambda>r. di_tenant r = t \<and> di_id r = i)
        (map (\<lambda>r. if di_tenant r = t \<and> di_id r = i \<and> p r then resolved_row who req m w r else r) rows)
      = Some (resolved_row who req m w d)" for rows
    by (induction rows) (use assms(2) in \<open>auto split: if_splits\<close>)
  then show ?thesis using assms(1) by (simp add: discrepancy_by_id_def by_id_def update_rows_def)
qed

lemma record_adjustment_after:
  assumes run: "record_adjustment pg who req s = Inr (v, s')"
    and fresh: "\<not> claimed (ca_tenant who) (ra_event req) s"
    and cell: "stock_by_id (ca_tenant who) (ra_stock req) s = Some c"
    and differs: "i64_sub (ra_counted req) (sk_quantity c) \<noteq> 0"
    and named: "ra_discrepancy req = Some did" "discrepancy_by_id (ca_tenant who) did s = Some d"
    and open_state: "di_state d = ''open'' \<or> di_state d = ''investigating''"
  obtains d' where "discrepancy_by_id (ca_tenant who) did s' = Some d'"
    "di_state d' = ''resolved''" "di_resolving_movement d' = aj_movement v"
    "di_resolved_by d' = Some (ca_person who)" "di_resolved_at d' = Some (ra_occurred_at req)"
    "di_kind d' = di_kind d" "di_stock_count d' = di_stock_count d" "di_tenant d' = ca_tenant who"
    "stock s' = stock s" "adjustment_reasons s' = adjustment_reasons s" "stock_counts s' = stock_counts s"
proof -
  obtain dir where dir: "direction_of (i64_sub (ra_counted req) (sk_quantity c)) = Some dir"
    using differs direction_of_nonzero by fastforce
  obtain ws where body: "adjust_write pg who req c (load_finding (ca_tenant who) req s) (Some dir) ws s = Inr (v, s')"
    by (rule record_adjustment_Inr [OF run]) (use cell dir in auto)
  have f: "load_finding (ca_tenant who) req s = Some (finding_of_row (ca_tenant who) s d)"
    by (simp add: load_finding_def named)
  have id: "di_id d = did" "di_tenant d = ca_tenant who"
    using named(2) by (auto simp: row_simps dest: by_id_SomeD)
  have same: "discrepancies (adjusted pg who req c dir s) = discrepancies s"
    by (simp add: adjusted_def)
  note closed = adjust_write_fresh [OF body fresh]
  have rest: "stock s' = stock s" "adjustment_reasons s' = adjustment_reasons s" "stock_counts s' = stock_counts s"
    using close_and_answer_frame [OF closed] by (auto simp: adjusted_def)
  have o: "finding_open d" using open_state by (simp add: finding_open_def)
  note new = discrepancy_by_id_resolved [OF named(2), of finding_open, OF o]
  show thesis
    by (rule that [of "resolved_row who req (minted pg Stock_movement)
          (resolution_text (i64_sub (ra_counted req) (sk_quantity c)) (ra_counted req) (sk_quantity c)) d",
          OF _ _ _ _ _ _ _ _ rest])
       (use closed id new in \<open>auto simp: close_and_answer_def f resolve_finding_def result_simps
          adjust_answer_def finding_of_row_def discrepancy_by_id_def same\<close>)
qed

text \<open>
  A fresh adjustment that names an open finding closes it: the finding is resolved by the
  movement just written, with the person and the moment of the request.
\<close>

theorem record_adjustment_closes_finding:
  assumes run: "record_adjustment pg who req s = Inr (v, s')"
    and fresh: "\<not> claimed (ca_tenant who) (ra_event req) s"
    and cell: "stock_by_id (ca_tenant who) (ra_stock req) s = Some c"
    and differs: "i64_sub (ra_counted req) (sk_quantity c) \<noteq> 0"
    and named: "ra_discrepancy req = Some did" "discrepancy_by_id (ca_tenant who) did s = Some d"
    and open_state: "di_state d = ''open'' \<or> di_state d = ''investigating''"
  shows "\<exists>d'. discrepancy_by_id (ca_tenant who) did s' = Some d'
    \<and> di_state d' = ''resolved'' \<and> di_resolving_movement d' = aj_movement v
    \<and> di_resolved_by d' = Some (ca_person who) \<and> di_resolved_at d' = Some (ra_occurred_at req)
    \<and> di_kind d' = di_kind d \<and> di_stock_count d' = di_stock_count d"
  by (rule record_adjustment_after [OF assms]) simp

theorem record_adjustment_closes_finding_witness:
  "\<exists>v s' d'. record_adjustment sample_pg sample_caller sample_adjust sample_adjust_db = Inr (v, s')
     \<and> discrepancy_by_id 10 82 s' = Some d' \<and> di_state d' = ''resolved''"
proof -
  obtain v s' where run: "record_adjustment sample_pg sample_caller sample_adjust sample_adjust_db = Inr (v, s')"
    using sample_adjust_runs by blast
  have fresh: "\<not> claimed (ca_tenant sample_caller) (ra_event sample_adjust) sample_adjust_db"
    and cell: "stock_by_id (ca_tenant sample_caller) (ra_stock sample_adjust) sample_adjust_db = Some sample_cell"
    and dq: "i64_sub (ra_counted sample_adjust) (sk_quantity sample_cell) \<noteq> 0"
    and dd: "ra_discrepancy sample_adjust = Some 82"
    by code_simp+
  have row: "discrepancy_by_id (ca_tenant sample_caller) 82 sample_adjust_db = Some (hd (discrepancies sample_adjust_db))"
    and st: "di_state (hd (discrepancies sample_adjust_db)) = ''open'' \<or>
      di_state (hd (discrepancies sample_adjust_db)) = ''investigating''"
    by (simp_all add: row_simps by_id_def sample_adjust_db_def sample_defs)
  show ?thesis
    using run record_adjustment_closes_finding [OF run fresh cell dq dd row st]
    by (auto simp: sample_caller_def)
qed

text \<open>
  C16: The retry of an adjustment that named its finding is refused, not answered as a replay:
  the first attempt resolved the finding, and a resolved finding is a hard problem that is checked
  before the act is looked up.
\<close>

theorem record_adjustment_retry_named_refused:
  assumes run: "record_adjustment pg who req s = Inr (v, s')"
    and fresh: "\<not> claimed (ca_tenant who) (ra_event req) s"
    and cell: "stock_by_id (ca_tenant who) (ra_stock req) s = Some c"
    and differs: "i64_sub (ra_counted req) (sk_quantity c) \<noteq> 0"
    and named: "ra_discrepancy req = Some did" "discrepancy_by_id (ca_tenant who) did s = Some d"
    and open_state: "di_state d = ''open'' \<or> di_state d = ''investigating''"
  shows "record_adjustment pg' who req s' = Inl (Rejected (show_adjust_problem FindingAlreadyResolved))"
proof (rule record_adjustment_after [OF assms])
  fix d'
  let ?t = "ca_tenant who"
  assume d': "discrepancy_by_id ?t did s' = Some d'" "di_state d' = ''resolved''"
      "di_kind d' = di_kind d" "di_stock_count d' = di_stock_count d" "di_tenant d' = ?t"
    and same: "stock s' = stock s" "adjustment_reasons s' = adjustment_reasons s" "stock_counts s' = stock_counts s"
  obtain r where r: "adjustment_reason_by_id ?t (ra_reason req) s = Some r" "ar_class r = ''world_event''"
    and ok: "0 \<le> ra_counted req" "sk_location c \<noteq> None \<or> sk_package c \<noteq> None"
    and fok: "finding_ok (proposal ?t req r (load_finding ?t req s)) (load_finding ?t req s)"
    by (rule record_adjustment_Inr [OF run]) (use cell in auto)
  have f: "load_finding ?t req s = Some (finding_of_row ?t s d)"
    "load_finding ?t req s' = Some (finding_of_row ?t s' d')"
    by (simp_all add: load_finding_def named d')
  have count: "fd_count_stock (finding_of_row ?t s' d') = fd_count_stock (finding_of_row ?t s d)"
    by (simp add: finding_of_row_def d' row_simps same)
  have hard: "filter adjust_is_hard (finding_problems (proposal ?t req r (load_finding ?t req s'))
      (load_finding ?t req s')) = [FindingAlreadyResolved]"
    using fok d' count unfolding f
    by (auto simp: finding_problems_def finding_ok_def proposal_def named finding_of_row_def
        split: option.splits)
  have rows: "stock_by_id ?t (ra_stock req) s' = Some c" "sk_tenant c = ?t"
    "adjustment_reason_by_id ?t (ra_reason req) s' = Some r"
    using cell r by (auto simp: row_simps same adjustment_reason_by_id_def dest: by_id_SomeD)
  let ?p = "proposal ?t req r (load_finding ?t req s')"
  have "adjust_check ?p (Some c) (load_finding ?t req s') = (finding_problems ?p (load_finding ?t req s'), None)"
    using rows(2) r ok hard
    by (auto simp: adjust_check_def Let_def list_ex_filter) (auto simp: proposal_def)
  moreover have "CellNotFound \<notin> set (finding_problems ?p (load_finding ?t req s'))"
    "FindingNotFound \<notin> set (finding_problems ?p (load_finding ?t req s'))"
    by (auto simp: finding_problems_def f proposal_def split: option.splits)
  ultimately show ?thesis
    using rows hard by (simp add: record_adjustment_def Let_def adjust_refusal_def)
qed

theorem record_adjustment_retry_named_refused_witness:
  "\<exists>v s'. record_adjustment sample_pg sample_caller sample_adjust sample_adjust_db = Inr (v, s')
     \<and> record_adjustment sample_pg sample_caller sample_adjust s'
         = Inl (Rejected (show_adjust_problem FindingAlreadyResolved))"
proof -
  obtain v s' where run: "record_adjustment sample_pg sample_caller sample_adjust sample_adjust_db = Inr (v, s')"
    using sample_adjust_runs by blast
  have fresh: "\<not> claimed (ca_tenant sample_caller) (ra_event sample_adjust) sample_adjust_db"
    and cell: "stock_by_id (ca_tenant sample_caller) (ra_stock sample_adjust) sample_adjust_db = Some sample_cell"
    and dq: "i64_sub (ra_counted sample_adjust) (sk_quantity sample_cell) \<noteq> 0"
    and dd: "ra_discrepancy sample_adjust = Some 82"
    by code_simp+
  have row: "discrepancy_by_id (ca_tenant sample_caller) 82 sample_adjust_db = Some (hd (discrepancies sample_adjust_db))"
    and st: "di_state (hd (discrepancies sample_adjust_db)) = ''open'' \<or>
      di_state (hd (discrepancies sample_adjust_db)) = ''investigating''"
    by (simp_all add: row_simps by_id_def sample_adjust_db_def sample_defs)
  show ?thesis
    using run record_adjustment_retry_named_refused [OF run fresh cell dq dd row st] by blast
qed

end
