(* ===== verification/Correction.thy ===== *)
theory Correction
  imports Ledger
begin

text \<open>
  Corrections: the rules of \<^verbatim>\<open>correction.rs\<close> and the handler \<open>record_correction\<close> of
  \<^verbatim>\<open>routes.rs\<close>.  A correction is one more ledger row, the mirror of the row it reverses,
  stamped with the moment of that row; nothing is ever updated.  \<open>Side\<close> is \<open>Database.side\<close>.

  Printing an instant is \<open>chrono\<close>'s: \<open>show_time\<close> is an argument of the texts that do.
\<close>

section \<open>The rules\<close>

datatype revision_class = RecordError | WorldEvent

record movement =
  mo_id :: uuid
  mo_tenant :: uuid
  mo_item :: uuid
  mo_quantity :: i64
  mo_occurred_at :: time
  mo_from :: side
  mo_to :: side

record proposed_correction =
  pc_tenant :: uuid
  pc_item :: uuid
  pc_quantity :: i64
  pc_occurred_at :: time
  pc_from :: side
  pc_to :: side
  pc_reverses :: "uuid option"
  pc_reason_class :: "revision_class option"

datatype correction_problem =
    WrongOccurredAt time time \<comment> \<open>stamped, target\<close>
  | DoesNotMirror
  | Overreaches i64 i64 \<comment> \<open>proposed, target\<close>
  | DifferentItem | DifferentTenant | ReasonWithoutTarget | WorldEventOnACorrection | MissingReason

fun show_correction_problem :: "(time \<Rightarrow> string) \<Rightarrow> correction_problem \<Rightarrow> string" where
  "show_correction_problem show_time (WrongOccurredAt stamped target) =
     ''the correction is stamped '' @ show_time stamped @ '' but corrects a fact about '' @
     show_time target @ ''; a correction carries its target's occurred_at, and its own recorded_at is what says when the error was found''"
| "show_correction_problem show_time DoesNotMirror =
     ''the correction does not run the other way to the movement it reverses; reverse the target exactly, then post a separate movement for what should have been recorded''"
| "show_correction_problem show_time (Overreaches proposed target) =
     ''reversing '' @ show_int proposed @ '' units of a movement of '' @ show_int target"
| "show_correction_problem show_time DifferentItem = ''the correction names a different item''"
| "show_correction_problem show_time DifferentTenant =
     ''the correction names another tenant's movement''"
| "show_correction_problem show_time ReasonWithoutTarget =
     ''a record_error reason names no movement to correct; a record error is a claim about a specific earlier row''"
| "show_correction_problem show_time WorldEventOnACorrection =
     ''a world_event reason cannot reverse anything; if something physically happened it is a movement in its own right''"
| "show_correction_problem show_time MissingReason =
     ''a correction has to say why the record was wrong''"

declare show_correction_problem.simps [simp del]

definition correction_check :: "proposed_correction \<Rightarrow> movement option \<Rightarrow> correction_problem list" where
  "correction_check p target =
     (case target of
        None \<Rightarrow> if pc_reason_class p = Some RecordError then [ReasonWithoutTarget] else []
      | Some m \<Rightarrow>
          (case pc_reason_class p of
             None \<Rightarrow> [MissingReason]
           | Some WorldEvent \<Rightarrow> [WorldEventOnACorrection]
           | Some RecordError \<Rightarrow> [])
          @ (if pc_tenant p \<noteq> mo_tenant m then [DifferentTenant] else [])
          @ (if pc_item p \<noteq> mo_item m then [DifferentItem] else [])
          @ (if pc_occurred_at p \<noteq> mo_occurred_at m
             then [WrongOccurredAt (pc_occurred_at p) (mo_occurred_at m)] else [])
          @ (if pc_from p \<noteq> mo_to m \<or> pc_to p \<noteq> mo_from m then [DoesNotMirror] else [])
          @ (if pc_quantity p > mo_quantity m
             then [Overreaches (pc_quantity p) (mo_quantity m)] else []))"

lemma correction_check_ok:
  "correction_check p (Some m) = [] \<longleftrightarrow>
   pc_reason_class p = Some RecordError \<and> pc_tenant p = mo_tenant m \<and> pc_item p = mo_item m
   \<and> pc_occurred_at p = mo_occurred_at m \<and> pc_from p = mo_to m \<and> pc_to p = mo_from m
   \<and> pc_quantity p \<le> mo_quantity m"
  by (auto simp: correction_check_def split: option.splits revision_class.splits if_splits)

section \<open>The handler\<close>

record record_correction_request =
  rx_reverses :: uuid
  rx_quantity :: i64
  rx_reason :: uuid
  rx_event :: uuid

record record_correction_response =
  rxr_movement :: uuid
  rxr_warnings :: "string list"

definition movement_of_row :: "stock_movement \<Rightarrow> movement" where
  "movement_of_row r =
     \<lparr>mo_id = mv_id r, mo_tenant = mv_tenant r, mo_item = mv_item r, mo_quantity = mv_quantity r,
      mo_occurred_at = mv_occurred_at r, mo_from = mv_from r, mo_to = mv_to r\<rparr>"

definition class_of_reason :: "adjustment_reason_row \<Rightarrow> revision_class option" where
  "class_of_reason r =
     (if ar_class r = ''record_error'' then Some RecordError
      else if ar_class r = ''world_event'' then Some WorldEvent else None)"

definition mirror ::
  "uuid \<Rightarrow> record_correction_request \<Rightarrow> revision_class option \<Rightarrow> movement \<Rightarrow> proposed_correction" where
  "mirror t req cls m =
     \<lparr>pc_tenant = t, pc_item = mo_item m, pc_quantity = rx_quantity req,
      pc_occurred_at = mo_occurred_at m, pc_from = mo_to m, pc_to = mo_from m,
      pc_reverses = Some (rx_reverses req), pc_reason_class = cls\<rparr>"

definition correction_movement ::
  "pg \<Rightarrow> caller \<Rightarrow> record_correction_request \<Rightarrow> movement \<Rightarrow> stock_movement" where
  "correction_movement pg who req m =
     \<lparr>mv_id = minted pg Stock_movement, mv_tenant = ca_tenant who, mv_event = rx_event req,
      mv_item = mo_item m, mv_quantity = rx_quantity req, mv_from = mo_to m, mv_to = mo_from m,
      mv_reason = ''adjustment'', mv_occurred_at = mo_occurred_at m,
      mv_recorded_by = ca_person who, mv_reverses = Some (rx_reverses req),
      mv_adjustment_reason = Some (rx_reason req), mv_line = None, mv_receipt_line = None, mv_external_pick = None\<rparr>"

text \<open>\<open>clock\<close> is \<open>Utc::now()\<close>.\<close>

definition record_correction ::
  "(time \<Rightarrow> string) \<Rightarrow> time \<Rightarrow> pg \<Rightarrow> caller \<Rightarrow> record_correction_request \<Rightarrow> db
   \<Rightarrow> api_error + (record_correction_response \<times> db)" where
  "record_correction show_time clock pg who req s =
     (let t = ca_tenant who;
          target = map_option movement_of_row (movement_by_id t (rx_reverses req) s);
          reason_class = Option.bind (adjustment_reason_by_id t (rx_reason req) s) class_of_reason in
      and_then (ok_or target NotFound) (\<lambda>m.
      let problems = correction_check (mirror t req reason_class m) (Some m) in
      if problems \<noteq> []
      then Inl (Rejected (join ''; '' (map (show_correction_problem show_time) problems)))
      else and_then (claim_act pg
             \<lparr>ne_tenant = t, ne_id = rx_event req, ne_site = ca_site who,
              ne_recorded_by = ca_person who, ne_submitted_at = clock\<rparr> s)
        (\<lambda>(act, s1).
           if is_replay act
           then and_then (require_one_movement t (rx_event req) s1) (\<lambda>(i, qty).
                and_then (reject_quantity_mismatch qty (rx_quantity req)) (\<lambda>_.
                  Inr (\<lparr>rxr_movement = i, rxr_warnings = [REPLAY_WARNING]\<rparr>, s1)))
           else and_then (append_movement pg t ''correction'' (correction_movement pg who req m) s1)
                  (\<lambda>s2. Inr (\<lparr>rxr_movement = minted pg Stock_movement, rxr_warnings = []\<rparr>, s2)))))"

section \<open>What a run did\<close>

abbreviation correction_envelope ::
  "time \<Rightarrow> pg \<Rightarrow> caller \<Rightarrow> record_correction_request \<Rightarrow> client_event" where
  "correction_envelope clock pg who req \<equiv> envelope pg
     \<lparr>ne_tenant = ca_tenant who, ne_id = rx_event req, ne_site = ca_site who,
      ne_recorded_by = ca_person who, ne_submitted_at = clock\<rparr>"

lemma record_correction_fresh:
  assumes run: "record_correction sh clock pg who req s = Inr (v, s')"
    and fresh: "\<not> claimed (ca_tenant who) (rx_event req) s"
  obtains m where
    "movement_by_id (ca_tenant who) (rx_reverses req) s = Some m" "rx_quantity req \<le> mv_quantity m"
    "s' = mark_dirty pg (ca_tenant who) ''correction''
       (s\<lparr>client_events := client_events s @ [correction_envelope clock pg who req],
          movements := movements s @ [correction_movement pg who req (movement_of_row m)]\<rparr>)"
    "v = \<lparr>rxr_movement = minted pg Stock_movement, rxr_warnings = []\<rparr>"
proof -
  obtain m where m: "movement_by_id (ca_tenant who) (rx_reverses req) s = Some m"
    using run by (auto simp: record_correction_def Let_def result_simps)
  have q: "rx_quantity req \<le> mv_quantity m"
    using run m by (auto simp: record_correction_def Let_def correction_check_ok mirror_def
        movement_of_row_def split: if_splits)
  show thesis
    by (rule that [OF m q])
       (use run m fresh in \<open>auto simp: record_correction_def Let_def result_simps claim_act_def
          envelope_def row_simps split: if_splits\<close>)
qed

lemma record_correction_replay:
  assumes run: "record_correction sh clock pg who req s = Inr (v, s')"
    and old: "claimed (ca_tenant who) (rx_event req) s"
  shows "s' = s"
    and "require_one_movement (ca_tenant who) (rx_event req) s = Inr (rxr_movement v, rx_quantity req)"
  using assms
  by (auto simp: record_correction_def Let_def result_simps claim_act_def is_replay_def split: if_splits)

interpretation correction_writer: strict_writer "record_correction sh clock" rx_event for sh clock
proof
  fix pg who req s v s'
  assume run: "record_correction sh clock pg who req s = Inr (v, s')"
  show "act_effect (ca_tenant who) (rx_event req) s s'"
  proof (cases "claimed (ca_tenant who) (rx_event req) s")
    case True
    then show ?thesis using record_correction_replay(1) [OF run] by (simp add: act_effect_def)
  next
    case False
    show ?thesis
      by (rule record_correction_fresh [OF run False])
         (auto intro!: fresh_effect simp: correction_movement_def False)
  qed
  show "claimed (ca_tenant who) (rx_event req) s'"
  proof (cases "claimed (ca_tenant who) (rx_event req) s")
    case True
    then show ?thesis using record_correction_replay(1) [OF run] by simp
  next
    case False
    show ?thesis by (rule record_correction_fresh [OF run False]) (auto simp: claimed_def)
  qed
qed (rule record_correction_replay)

section \<open>Properties\<close>

lemma correction_movement_simps [simp]:
  "mv_tenant (correction_movement pg who req m) = ca_tenant who"
  "mv_quantity (correction_movement pg who req m) = rx_quantity req"
  "mv_item (correction_movement pg who req m) = mo_item m"
  "mv_from (correction_movement pg who req m) = mo_to m"
  "mv_to (correction_movement pg who req m) = mo_from m"
  "mv_reverses (correction_movement pg who req m) = Some (rx_reverses req)"
  "mv_id (correction_movement pg who req m) = minted pg Stock_movement"
  "mv_occurred_at (correction_movement pg who req m) = mo_occurred_at m"
  by (simp_all add: correction_movement_def)

definition sample_correction_db :: db where
  "sample_correction_db = sample_db\<lparr>
     adjustment_reasons := [\<lparr>ar_id = 71, ar_tenant = None, ar_class = ''record_error'', ar_code = ''miskeyed''\<rparr>]\<rparr>"

definition sample_correction :: record_correction_request where
  "sample_correction = \<lparr>rx_reverses = 60, rx_quantity = 50, rx_reason = 71, rx_event = 505\<rparr>"

lemma sample_correction_runs:
  "\<exists>v s'. record_correction show_int 11 sample_pg sample_caller sample_correction sample_correction_db = Inr (v, s')"
proof -
  have "\<not> isl (record_correction show_int 11 sample_pg sample_caller sample_correction sample_correction_db)"
    by code_simp
  then show ?thesis
    by (cases "record_correction show_int 11 sample_pg sample_caller sample_correction sample_correction_db") auto
qed

text \<open>
  C11: A fresh correction for the whole quantity of a movement leaves every cell of the ledger as
  if the movement had never been recorded; the movement itself stays in the ledger, and the
  correction is stamped with its moment.
\<close>

theorem record_correction_undoes:
  assumes run: "record_correction sh clock pg who req s = Inr (v, s')"
    and fresh: "\<not> claimed (ca_tenant who) (rx_event req) s"
    and target: "movement_by_id (ca_tenant who) (rx_reverses req) s = Some m"
    and whole: "rx_quantity req = mv_quantity m"
  shows "on_hand (ca_tenant who) item sd s' =
           sum_list (map (net item sd) (remove1 m (visible mv_tenant (ca_tenant who) (movements s))))
    \<and> (\<exists>r. movements s' = movements s @ [r] \<and> mv_reverses r = Some (mv_id m)
           \<and> mv_occurred_at r = mv_occurred_at m)"
proof -
  have id: "mv_id m = rx_reverses req" and mem: "m \<in> set (visible mv_tenant (ca_tenant who) (movements s))"
    using target by (auto simp: row_simps visible_def dest: by_id_SomeD)
  let ?r = "correction_movement pg who req (movement_of_row m)"
  have mvs: "movements s' = movements s @ [?r]"
    by (rule record_correction_fresh [OF run fresh]) (use target in simp)
  have "on_hand (ca_tenant who) item sd s' = on_hand (ca_tenant who) item sd s - net item sd m"
    using whole by (simp add: on_hand_snoc [OF mvs] net_def entered_def left_from_def movement_of_row_def)
  also have "on_hand (ca_tenant who) item sd s =
      net item sd m + sum_list (map (net item sd) (remove1 m (visible mv_tenant (ca_tenant who) (movements s))))"
    unfolding on_hand_def by (rule sum_list_map_remove1 [OF mem])
  finally have undone: "on_hand (ca_tenant who) item sd s' =
      sum_list (map (net item sd) (remove1 m (visible mv_tenant (ca_tenant who) (movements s))))"
    by simp
  have "\<exists>r. movements s' = movements s @ [r] \<and> mv_reverses r = Some (mv_id m)
           \<and> mv_occurred_at r = mv_occurred_at m"
    by (rule exI [of _ ?r]) (simp add: mvs id movement_of_row_def)
  with undone show ?thesis by blast
qed

theorem record_correction_undoes_witness:
  "\<exists>v s'. record_correction show_int 11 sample_pg sample_caller sample_correction sample_correction_db = Inr (v, s')
     \<and> on_hand 10 100 (side_of_stock sample_cell) s' = 0"
proof -
  obtain v s' where run: "record_correction show_int 11 sample_pg sample_caller sample_correction sample_correction_db = Inr (v, s')"
    using sample_correction_runs by blast
  have fresh: "\<not> claimed (ca_tenant sample_caller) (rx_event sample_correction) sample_correction_db"
    by code_simp
  have target: "movement_by_id (ca_tenant sample_caller) (rx_reverses sample_correction) sample_correction_db
      = Some sample_receipt"
    and whole: "rx_quantity sample_correction = mv_quantity sample_receipt"
    and only: "visible mv_tenant (ca_tenant sample_caller) (movements sample_correction_db) = [sample_receipt]"
    by (simp_all add: row_simps by_id_def visible_def sample_correction_db_def sample_defs sample_correction_def)
  show ?thesis
    using run record_correction_undoes [OF run fresh target whole, of 100 "side_of_stock sample_cell"] only
    by (auto simp: sample_caller_def)
qed

text \<open>
  A correction of a pick takes its units back out of the live progress of the line the pick
  served, although the correcting row itself names no line.
\<close>

theorem record_correction_progress:
  assumes run: "record_correction sh clock pg who req s = Inr (v, s')"
    and fresh: "\<not> claimed (ca_tenant who) (rx_event req) s"
    and target: "movement_by_id (ca_tenant who) (rx_reverses req) s = Some m"
      "mv_reverses m = None" "mv_line m = Some line"
    and ledger: "distinct (map mv_id (visible mv_tenant (ca_tenant who) (movements s)))"
      "reverses_backward (visible mv_tenant (ca_tenant who) (movements s))"
    and new_id: "\<forall>r \<in> set (movements s). mv_id r \<noteq> minted pg Stock_movement
       \<and> mv_reverses r \<noteq> Some (minted pg Stock_movement)"
  shows "pg_picked (line_progress_ledger (ca_tenant who) line q s') =
           pg_picked (line_progress_ledger (ca_tenant who) line q s)
           - (if from_storage (ca_tenant who) (mv_from m) s then rx_quantity req else 0)"
proof -
  have id: "mv_id m = rx_reverses req" and mem: "m \<in> set (visible mv_tenant (ca_tenant who) (movements s))"
    using target(1) by (auto simp: row_simps visible_def dest: by_id_SomeD)
  let ?r = "correction_movement pg who req (movement_of_row m)"
  have s': "movements s' = movements s @ [?r]" "locations s' = locations s"
    by (rule record_correction_fresh [OF run fresh], use target(1) in simp)+
  have vis: "visible mv_tenant (ca_tenant who) (movements s') =
      visible mv_tenant (ca_tenant who) (movements s) @ [?r]"
    by (simp add: s' visible_def)
  have "mv_reverses ?r = Some (mv_id m)"
    "mv_id ?r \<notin> set (map mv_id (visible mv_tenant (ca_tenant who) (movements s)))"
    "reversals (visible mv_tenant (ca_tenant who) (movements s)) ?r = []"
    using new_id by (auto simp: id reversals_def visible_def filter_eq_Nil_iff)
  from progress_reversed(1) [OF vis ledger mem target(2,3) this s'(2)] show ?thesis
    by simp
qed

definition sample_picked :: stock_movement where
  "sample_picked = sample_receipt\<lparr>mv_id := 61, mv_event := 507, mv_quantity := 6, mv_from := mv_to sample_receipt,
     mv_to := \<lparr>sd_location = None, sd_package = Some 30, sd_lot = Some 3, sd_status = Some 4, sd_owner = Some 5\<rparr>,
     mv_line := Some 42\<rparr>"

definition sample_picked_db :: db where
  "sample_picked_db = sample_correction_db\<lparr>
     movements := [sample_receipt, sample_picked],
     locations := [\<lparr>lo_id = 2, lo_tenant = 10, lo_kind = ''pick_face'', lo_site = None\<rparr>]\<rparr>"

theorem record_correction_progress_witness:
  "\<exists>v s'. record_correction show_int 11 sample_pg sample_caller
        (sample_correction\<lparr>rx_reverses := 61, rx_quantity := 2\<rparr>) sample_picked_db = Inr (v, s')
     \<and> pg_picked (line_progress_ledger 10 42 6 s') = 4"
proof -
  let ?req = "sample_correction\<lparr>rx_reverses := 61, rx_quantity := 2\<rparr>"
  have "\<not> isl (record_correction show_int 11 sample_pg sample_caller ?req sample_picked_db)"
    by code_simp
  then obtain v s' where run: "record_correction show_int 11 sample_pg sample_caller ?req sample_picked_db = Inr (v, s')"
    by (cases "record_correction show_int 11 sample_pg sample_caller ?req sample_picked_db") auto
  have fresh: "\<not> claimed (ca_tenant sample_caller) (rx_event ?req) sample_picked_db"
    by code_simp
  have facts: "movement_by_id (ca_tenant sample_caller) (rx_reverses ?req) sample_picked_db = Some sample_picked"
    "mv_reverses sample_picked = None" "mv_line sample_picked = Some 42"
    "distinct (map mv_id (visible mv_tenant (ca_tenant sample_caller) (movements sample_picked_db)))"
    "reverses_backward (visible mv_tenant (ca_tenant sample_caller) (movements sample_picked_db))"
    "\<forall>r \<in> set (movements sample_picked_db). mv_id r \<noteq> minted sample_pg Stock_movement
       \<and> mv_reverses r \<noteq> Some (minted sample_pg Stock_movement)"
    by (simp_all add: row_simps by_id_def visible_def reverses_backward_def less_Suc_eq
        sample_picked_db_def sample_picked_def sample_correction_db_def sample_defs sample_correction_def)
  have before: "pg_picked (line_progress_ledger (ca_tenant sample_caller) 42 6 sample_picked_db) = 6"
    "from_storage (ca_tenant sample_caller) (mv_from sample_picked) sample_picked_db"
    by code_simp+
  show ?thesis
    using run record_correction_progress [OF run fresh facts, of 6] before
    by (auto simp: sample_caller_def sample_correction_def)
qed

text \<open>
  Each correction is held to the quantity of the movement it names, and to nothing else: a
  correction that was accepted once is accepted again under another act, so that a movement can be
  reversed for more than it ever moved and its cells end up short by the excess.
\<close>

theorem record_correction_repeats:
  assumes run: "record_correction sh clock pg who req s = Inr (v, s')"
    and fresh: "\<not> claimed (ca_tenant who) (rx_event req) s"
    and target: "movement_by_id (ca_tenant who) (rx_reverses req) s = Some m"
    and second: "\<not> claimed (ca_tenant who) act s" "act \<noteq> rx_event req"
    and willing: "\<And>tbl a b. accepts pg' tbl a b"
  shows "\<exists>v2 s2. record_correction sh clock pg' who (req\<lparr>rx_event := act\<rparr>) s' = Inr (v2, s2)
     \<and> (\<forall>item sd. on_hand (ca_tenant who) item sd s2 = on_hand (ca_tenant who) item sd s
          - 2 * (if mv_item m = item \<and> mv_to m = sd then rx_quantity req else 0)
          + 2 * (if mv_item m = item \<and> mv_from m = sd then rx_quantity req else 0))"
proof -
  let ?req = "req\<lparr>rx_event := act\<rparr>" and ?t = "ca_tenant who"
  let ?r = "correction_movement pg who req (movement_of_row m)"
  have s': "movements s' = movements s @ [?r]" "adjustment_reasons s' = adjustment_reasons s"
    "client_events s' = client_events s @ [correction_envelope clock pg who req]"
    by (rule record_correction_fresh [OF run fresh], use target in simp)+
  have found: "movement_by_id ?t (rx_reverses req) s' = Some m"
    using target by (simp add: row_simps by_id_def s' find_append)
  have reasons: "adjustment_reason_by_id ?t i s' = adjustment_reason_by_id ?t i s" for i
    by (simp add: adjustment_reason_by_id_def s')
  have ok: "correction_check (mirror ?t req (Option.bind (adjustment_reason_by_id ?t (rx_reason req) s)
      class_of_reason) (movement_of_row m)) (Some (movement_of_row m)) = []"
    using run target by (auto simp: record_correction_def Let_def split: if_splits)
  have free: "\<not> claimed ?t act s'"
    using second by (auto simp: claimed_append [OF s'(3)])
  have mirror: "mirror ?t ?req cls x = mirror ?t req cls x" for cls x
    by (simp add: mirror_def)
  obtain v2 s2 where run2: "record_correction sh clock pg' who ?req s' = Inr (v2, s2)"
    using free willing ok
    by (auto simp: record_correction_def Let_def found reasons mirror claim_act_def append_movement_def
        write_to_def)
  have fresh2: "\<not> claimed ?t (rx_event ?req) s'" using free by simp
  have "movements s2 = movements s' @ [correction_movement pg' who ?req (movement_of_row m)]"
    by (rule record_correction_fresh [OF run2 fresh2]) (use found in simp)
  from on_hand_snoc [OF this] on_hand_snoc [OF s'(1)]
  have "\<forall>item sd. on_hand ?t item sd s2 = on_hand ?t item sd s
          - 2 * (if mv_item m = item \<and> mv_to m = sd then rx_quantity req else 0)
          + 2 * (if mv_item m = item \<and> mv_from m = sd then rx_quantity req else 0)"
    by (auto simp: net_def entered_def left_from_def movement_of_row_def)
  with run2 show ?thesis by blast
qed

theorem record_correction_repeats_witness:
  "\<exists>v2 s2 s'. record_correction show_int 11 sample_pg sample_caller (sample_correction\<lparr>rx_event := 506\<rparr>) s'
       = Inr (v2, s2) \<and> on_hand 10 100 (side_of_stock sample_cell) s2 = -50"
proof -
  obtain v s' where run: "record_correction show_int 11 sample_pg sample_caller sample_correction sample_correction_db = Inr (v, s')"
    using sample_correction_runs by blast
  have fresh: "\<not> claimed (ca_tenant sample_caller) (rx_event sample_correction) sample_correction_db"
    "\<not> claimed (ca_tenant sample_caller) 506 sample_correction_db"
    "506 \<noteq> rx_event sample_correction"
    "on_hand 10 100 (side_of_stock sample_cell) sample_correction_db = 50"
    by code_simp+
  have target: "movement_by_id (ca_tenant sample_caller) (rx_reverses sample_correction) sample_correction_db
      = Some sample_receipt"
    by (simp add: row_simps by_id_def sample_correction_db_def sample_defs sample_correction_def)
  have willing: "accepts sample_pg tbl a b" for tbl a b by (simp add: sample_pg_def)
  from record_correction_repeats [OF run fresh(1) target fresh(2,3) willing]
  obtain v2 s2 where "record_correction show_int 11 sample_pg sample_caller (sample_correction\<lparr>rx_event := 506\<rparr>) s'
       = Inr (v2, s2)" "\<forall>item sd. on_hand (ca_tenant sample_caller) item sd s2 =
          on_hand (ca_tenant sample_caller) item sd sample_correction_db
          - 2 * (if mv_item sample_receipt = item \<and> mv_to sample_receipt = sd then rx_quantity sample_correction else 0)
          + 2 * (if mv_item sample_receipt = item \<and> mv_from sample_receipt = sd then rx_quantity sample_correction else 0)"
    by blast
  moreover from this(2) have "on_hand 10 100 (side_of_stock sample_cell) s2 = -50"
    using fresh(4)
    by (simp add: sample_caller_def sample_receipt_def sample_correction_def side_of_stock_def
        sample_cell_def no_side_def)
  ultimately show ?thesis by blast
qed

end
