(* ===== verification/Findings.thy ===== *)
theory Findings
  imports Ledger
begin

text \<open>
  The lifecycle of a finding: \<^verbatim>\<open>findings.rs\<close> and the handlers
  \<open>investigate_discrepancy\<close> and \<open>accept_discrepancy\<close> of \<^verbatim>\<open>routes.rs\<close>.  Open findings may be
  taken up, and open or taken-up ones signed off; a closed one is never reopened here.
\<close>

section \<open>The decisions\<close>

datatype finding_state = Open | Investigating | Resolved | Accepted

definition parse_state :: "string \<Rightarrow> finding_state option" where
  "parse_state s =
     (if s = ''open'' then Some Open
      else if s = ''investigating'' then Some Investigating
      else if s = ''resolved'' then Some Resolved
      else if s = ''accepted'' then Some Accepted
      else None)"

fun state_str :: "finding_state \<Rightarrow> string" where
  "state_str Open = ''open''"
| "state_str Investigating = ''investigating''"
| "state_str Resolved = ''resolved''"
| "state_str Accepted = ''accepted''"

lemma parse_state_str [simp]: "parse_state (state_str x) = Some x"
  by (cases x) (simp_all add: parse_state_def)

lemma parse_state_eq_Some: "parse_state s = Some x \<longleftrightarrow> s = state_str x"
  by (cases x) (auto simp: parse_state_def)

datatype investigate_problem = NotFound | AlreadyInvestigating | Terminal string

fun show_investigate_problem :: "investigate_problem \<Rightarrow> string" where
  "show_investigate_problem NotFound = ''the finding was not found''"
| "show_investigate_problem AlreadyInvestigating =
     ''the finding is already under investigation; the write is idempotent''"
| "show_investigate_problem (Terminal state) =
     ''a finding in state '' @ state @ '' cannot move to investigating on this path''"

declare show_investigate_problem.simps [simp del]

definition investigate_is_hard :: "investigate_problem \<Rightarrow> bool" where
  "investigate_is_hard p \<longleftrightarrow> p \<noteq> AlreadyInvestigating"

definition check_investigate :: "string option \<Rightarrow> investigate_problem + unit" where
  "check_investigate current =
     (case current of
        None \<Rightarrow> Inl NotFound
      | Some s \<Rightarrow>
          (case parse_state s of
             Some Open \<Rightarrow> Inr ()
           | Some Investigating \<Rightarrow> Inl AlreadyInvestigating
           | Some Resolved \<Rightarrow> Inl (Terminal s)
           | Some Accepted \<Rightarrow> Inl (Terminal s)
           | None \<Rightarrow> Inl (Terminal s)))"

datatype accept_problem =
    AcceptNotFound | AlreadyAccepted | AcceptTerminal string | MissingActor | MissingReason

fun show_accept_problem :: "accept_problem \<Rightarrow> string" where
  "show_accept_problem AcceptNotFound = ''the finding was not found''"
| "show_accept_problem AlreadyAccepted = ''the finding is already accepted; the write is idempotent''"
| "show_accept_problem (AcceptTerminal state) =
     ''a finding in state '' @ state @ '' cannot move to accepted on this path''"
| "show_accept_problem MissingActor = ''recorded_by_id is required to accept a finding''"
| "show_accept_problem MissingReason =
     ''reason is required to accept a finding without a ledger write''"

declare show_accept_problem.simps [simp del]

definition accept_is_hard :: "accept_problem \<Rightarrow> bool" where
  "accept_is_hard p \<longleftrightarrow> p \<noteq> AlreadyAccepted"

definition check_accept :: "string option \<Rightarrow> bool \<Rightarrow> string option \<Rightarrow> accept_problem + unit" where
  "check_accept current has_actor reason =
     (if \<not> has_actor then Inl MissingActor
      else if (case reason of None \<Rightarrow> True | Some r \<Rightarrow> trim r = []) then Inl MissingReason
      else
        (case current of
           None \<Rightarrow> Inl AcceptNotFound
         | Some s \<Rightarrow>
             (case parse_state s of
                Some Open \<Rightarrow> Inr ()
              | Some Investigating \<Rightarrow> Inr ()
              | Some Accepted \<Rightarrow> Inl AlreadyAccepted
              | Some Resolved \<Rightarrow> Inl (AcceptTerminal s)
              | None \<Rightarrow> Inl (AcceptTerminal s))))"

section \<open>The handlers\<close>

record investigate_response =
  ir_finding :: discrepancy_row
  ir_warnings :: "string list"

record accept_request =
  aq_reason :: string
  aq_note :: "string option"
  aq_accepted_at :: "time option"

text \<open>The note appended to the detail under its tag.\<close>

definition noted :: "string \<Rightarrow> string option \<Rightarrow> string option \<Rightarrow> string option" where
  "noted tag note detail =
     (case (note, detail) of
        (Some n, Some d) \<Rightarrow> if n \<noteq> [] then Some (d @ [char_of (10::nat)] @ tag @ '' '' @ n) else Some d
      | (Some n, None) \<Rightarrow> if n \<noteq> [] then Some (tag @ '' '' @ n) else None
      | (None, d) \<Rightarrow> d)"

definition coalesce :: "'a option \<Rightarrow> 'a option \<Rightarrow> 'a option" where
  "coalesce a b = (case a of None \<Rightarrow> b | Some x \<Rightarrow> Some x)"

definition still_open :: "discrepancy_row \<Rightarrow> bool" where
  "still_open d \<longleftrightarrow> di_state d = ''open'' \<or> di_state d = ''investigating''"

definition investigated :: "string option \<Rightarrow> discrepancy_row \<Rightarrow> discrepancy_row" where
  "investigated new_detail d =
     d\<lparr>di_state := ''investigating'', di_detail := coalesce new_detail (di_detail d)\<rparr>"

definition investigate_discrepancy ::
  "pg \<Rightarrow> caller \<Rightarrow> uuid \<Rightarrow> string option \<Rightarrow> db \<Rightarrow> api_error + (investigate_response \<times> db)" where
  "investigate_discrepancy pg who i note s =
     (let t = ca_tenant who;
          row = discrepancy_by_id t i s;
          new_detail = noted ''[investigating]'' note (Option.bind row di_detail) in
      and_then
        (case check_investigate (map_option di_state row) of
           Inr _ \<Rightarrow> Inr []
         | Inl e \<Rightarrow> if e = NotFound then Inl api_error.NotFound
                    else if investigate_is_hard e then Inl (Rejected (show_investigate_problem e))
                    else Inr [show_investigate_problem e])
        (\<lambda>warnings.
           and_then (write_to pg Discrepancy s
               (s\<lparr>discrepancies := update_rows di_tenant di_id t i still_open (investigated new_detail)
                  (discrepancies s)\<rparr>))
             (\<lambda>s'.
                if rows_hit di_tenant di_id t i still_open (discrepancies s) = 0 \<and> warnings = []
                then Inl (Rejected ''the finding could not be moved to investigating'')
                else and_then (ok_or (discrepancy_by_id t i s') api_error.NotFound)
                       (\<lambda>d. Inr (\<lparr>ir_finding = d, ir_warnings = warnings\<rparr>, s')))))"

definition may_accept :: "discrepancy_row \<Rightarrow> bool" where
  "may_accept d \<longleftrightarrow> di_state d = ''open'' \<or> di_state d = ''investigating'' \<or> di_state d = ''accepted''"

definition accepted ::
  "time \<Rightarrow> uuid \<Rightarrow> string \<Rightarrow> string option \<Rightarrow> discrepancy_row \<Rightarrow> discrepancy_row" where
  "accepted w person reason new_detail d =
     d\<lparr>di_state := ''accepted'', di_resolved_at := coalesce (di_resolved_at d) (Some w),
       di_resolved_by := coalesce (di_resolved_by d) (Some person),
       di_resolution_reason := coalesce (di_resolution_reason d) (Some reason),
       di_detail := coalesce new_detail (di_detail d)\<rparr>"

text \<open>\<open>clock\<close> is \<open>Utc::now()\<close>.\<close>

definition accept_discrepancy ::
  "time \<Rightarrow> pg \<Rightarrow> caller \<Rightarrow> uuid \<Rightarrow> accept_request \<Rightarrow> db \<Rightarrow> api_error + (investigate_response \<times> db)" where
  "accept_discrepancy clock pg who i req s =
     (let t = ca_tenant who;
          row = discrepancy_by_id t i s;
          accepted_at = (case aq_accepted_at req of None \<Rightarrow> clock | Some w \<Rightarrow> w);
          new_detail = noted ''[accepted]'' (aq_note req) (Option.bind row di_detail) in
      and_then
        (case check_accept (map_option di_state row) True (Some (aq_reason req)) of
           Inr _ \<Rightarrow> Inr []
         | Inl e \<Rightarrow> if e = AcceptNotFound then Inl api_error.NotFound
                    else if accept_is_hard e then Inl (Rejected (show_accept_problem e))
                    else Inr [show_accept_problem e])
        (\<lambda>warnings.
           if ca_person who \<notin> set (persons s)
           then Inl (Rejected ''recorded_by_id does not name a person'')
           else
             and_then (write_to pg Discrepancy s
                 (s\<lparr>discrepancies := update_rows di_tenant di_id t i may_accept
                     (accepted accepted_at (ca_person who) (trim (aq_reason req)) new_detail)
                     (discrepancies s)\<rparr>))
               (\<lambda>s'.
                  if rows_hit di_tenant di_id t i may_accept (discrepancies s) = 0 \<and> warnings = []
                  then Inl (Rejected ''the finding could not be moved to accepted'')
                  else and_then (ok_or (discrepancy_by_id t i s') api_error.NotFound)
                         (\<lambda>d. Inr (\<lparr>ir_finding = d, ir_warnings = warnings\<rparr>, s')))))"

section \<open>Frames\<close>

lemma investigated_simps [simp]:
  "di_tenant (investigated n d) = di_tenant d" "di_id (investigated n d) = di_id d"
  "di_kind (investigated n d) = di_kind d"
  by (simp_all add: investigated_def)

lemma accepted_simps [simp]:
  "di_tenant (accepted w p r n d) = di_tenant d" "di_id (accepted w p r n d) = di_id d"
  "di_kind (accepted w p r n d) = di_kind d"
  by (simp_all add: accepted_def)

lemma investigate_frame:
  assumes "investigate_discrepancy pg who i note s = Inr (v, s')"
  obtains n where "s' = s\<lparr>discrepancies := update_rows di_tenant di_id (ca_tenant who) i still_open
      (investigated n) (discrepancies s)\<rparr>"
  using assms by (auto simp: investigate_discrepancy_def Let_def and_then_eq_Inr write_to_eq_Inr
      split: sum.splits if_splits)

lemma accept_frame:
  assumes "accept_discrepancy clock pg who i req s = Inr (v, s')"
  obtains w r n where "s' = s\<lparr>discrepancies := update_rows di_tenant di_id (ca_tenant who) i may_accept
      (accepted w (ca_person who) r n) (discrepancies s)\<rparr>"
  using assms by (auto simp: accept_discrepancy_def Let_def and_then_eq_Inr write_to_eq_Inr
      split: sum.splits if_splits)

lemma isolated_discrepancies:
  assumes "\<And>d. di_tenant (f d) = di_tenant d"
  shows "isolated t s (s\<lparr>discrepancies := update_rows di_tenant di_id t i p f (discrepancies s)\<rparr>)"
  using assms by (auto simp: isolated_def tenant_view_def intro!: update_rows_visible_other)

end
