(* ===== verification/Allocating.thy ===== *)
theory Allocating
  imports Ledger
begin

text \<open>
  Claims on stock: the decisions of \<^verbatim>\<open>allocating.rs\<close> and the handlers
  \<open>record_allocation\<close> and \<open>release_allocation\<close> of \<^verbatim>\<open>routes.rs\<close>.  A claim is an intention:
  it carries no act envelope, its client-minted id is what makes a retry safe, and one that would
  cover a line beyond its commitment is refused.
\<close>

section \<open>The decisions\<close>

definition COVERING :: "string list" where
  "COVERING = [''allocated'', ''picking'', ''picked'', ''packed'', ''fulfilled'']"

definition CELL_CLAIMING :: "string list" where
  "CELL_CLAIMING = [''allocated'', ''picking'', ''picked'', ''packed'']"

lemma cell_claiming_covers: "set CELL_CLAIMING \<subseteq> set COVERING" and covering_states_eq: "covering_states = COVERING"
  by (auto simp: CELL_CLAIMING_def COVERING_def covering_states_def)

record allocation_line =
  an_id :: uuid
  an_tenant :: uuid
  an_item :: uuid
  an_quantity :: i64
  an_covered :: i64
  an_cancelled :: bool

record proposed_allocation =
  xl_tenant :: uuid
  xl_line :: uuid
  xl_stock :: uuid
  xl_quantity :: i64
  xl_firm :: bool
  xl_bound_at :: time

datatype allocate_problem =
    NothingToAllocate | LineNotFound | CellNotFound | DifferentTenant | LineCancelled
  | ItemMismatch uuid uuid \<comment> \<open>line, cell\<close>
  | OverAvailable i64 i64 \<comment> \<open>available, proposed\<close>
  | OverCovers i64 i64 i64 \<comment> \<open>line quantity, already covered, proposed\<close>
  | PackageHeldCell | CellHasNoHolder

fun show_allocate_problem :: "allocate_problem \<Rightarrow> string" where
  "show_allocate_problem NothingToAllocate = ''an allocation of no units is not an allocation''"
| "show_allocate_problem LineNotFound = ''the fulfilment line was not found''"
| "show_allocate_problem CellNotFound = ''the stock cell was not found''"
| "show_allocate_problem DifferentTenant = ''the line or cell belongs to another tenant''"
| "show_allocate_problem LineCancelled =
     ''the fulfilment is cancelled; nothing can be allocated for it''"
| "show_allocate_problem (ItemMismatch line cell) =
     ''the line commits item '' @ show_uuid line @ '' but the cell holds '' @ show_uuid cell @
     ''; an allocation is an intention and must name matching item sides''"
| "show_allocate_problem (OverAvailable available proposed) =
     ''claiming '' @ show_int proposed @ '' from a cell with '' @ show_int available @
     '' available; the claim is still recorded and the short is a finding after rebuild''"
| "show_allocate_problem (OverCovers line_quantity already_covered proposed) =
     ''claiming '' @ show_int proposed @ '' when the line is already covered for '' @
     show_int already_covered @ '' of '' @ show_int line_quantity @ ''; over-cover is refused (J56)''"
| "show_allocate_problem PackageHeldCell =
     ''the cell is held in a package; this path only claims location-held stock''"
| "show_allocate_problem CellHasNoHolder = ''the stock cell has no holder''"

declare show_allocate_problem.simps [simp del]

fun allocate_is_hard :: "allocate_problem \<Rightarrow> bool" where
  "allocate_is_hard (OverAvailable a p) = False"
| "allocate_is_hard p = True"

definition allocate_check ::
  "proposed_allocation \<Rightarrow> allocation_line option \<Rightarrow> stock_row option \<Rightarrow> allocate_problem list" where
  "allocate_check p line cell =
     (let problems = (if xl_quantity p \<le> 0 then [NothingToAllocate] else []) in
      case line of None \<Rightarrow> problems @ [LineNotFound] | Some l \<Rightarrow>
      (case cell of None \<Rightarrow> problems @ [CellNotFound] | Some c \<Rightarrow>
         problems
         @ (if an_tenant l \<noteq> xl_tenant p \<or> sk_tenant c \<noteq> xl_tenant p then [DifferentTenant] else [])
         @ (if an_cancelled l then [LineCancelled] else [])
         @ (if an_item l \<noteq> sk_item c then [ItemMismatch (an_item l) (sk_item c)] else [])
         @ (if sk_package c \<noteq> None then [PackageHeldCell]
            else if sk_location c = None then [CellHasNoHolder] else [])
         @ (if xl_quantity p > sk_available c
            then [OverAvailable (sk_available c) (xl_quantity p)] else [])
         @ (let remaining = i64_sub (an_quantity l) (an_covered l) in
            if xl_quantity p > remaining
            then [OverCovers (an_quantity l) (an_covered l) (xl_quantity p)] else [])))"

lemma allocate_check_no_hard:
  "filter allocate_is_hard (allocate_check p line cell) = [] \<longleftrightarrow>
   0 < xl_quantity p \<and>
   (\<exists>l c. line = Some l \<and> cell = Some c \<and> an_tenant l = xl_tenant p \<and> sk_tenant c = xl_tenant p
      \<and> \<not> an_cancelled l \<and> an_item l = sk_item c \<and> sk_package c = None \<and> sk_location c \<noteq> None
      \<and> xl_quantity p \<le> i64_sub (an_quantity l) (an_covered l))"
  by (cases line; cases cell) (auto simp: allocate_check_def Let_def split: if_splits)

record allocation =
  lc_id :: uuid
  lc_tenant :: uuid
  lc_state :: string
  lc_firm :: bool
  lc_line :: "uuid option"
  lc_quantity :: i64

record proposed_release =
  xs_tenant :: uuid
  xs_allocation :: uuid
  xs_force :: bool

datatype release_problem =
    ReleaseNotFound | ReleaseDifferentTenant | AlreadyReleased | NotReleasable string | FirmWithoutForce

fun show_release_problem :: "release_problem \<Rightarrow> string" where
  "show_release_problem ReleaseNotFound = ''the allocation was not found''"
| "show_release_problem ReleaseDifferentTenant = ''the allocation belongs to another tenant''"
| "show_release_problem AlreadyReleased = ''the allocation is already released''"
| "show_release_problem (NotReleasable state) =
     ''an allocation in state '' @ state @ '' cannot be released on this path; only allocated claims may be withdrawn here''"
| "show_release_problem FirmWithoutForce =
     ''the claim is firm; pass force=true to release it deliberately (D24)''"

declare show_release_problem.simps [simp del]

datatype release_warning = FirmForced

fun show_release_warning :: "release_warning \<Rightarrow> string" where
  "show_release_warning FirmForced =
     ''released a firm claim with force=true; the re-allocator would not have stolen it''"

declare show_release_warning.simps [simp del]

definition check_release ::
  "proposed_release \<Rightarrow> allocation option \<Rightarrow> release_problem list \<times> release_warning list" where
  "check_release p a =
     (case a of
        None \<Rightarrow> ([ReleaseNotFound], [])
      | Some a \<Rightarrow>
          if lc_tenant a \<noteq> xs_tenant p then ([ReleaseDifferentTenant], [])
          else if lc_state a = ''released'' then ([AlreadyReleased], [])
          else if lc_state a \<noteq> ''allocated'' then ([NotReleasable (lc_state a)], [])
          else if lc_firm a \<and> \<not> xs_force p then ([FirmWithoutForce], [])
          else ([], if lc_firm a \<and> xs_force p then [FirmForced] else []))"

lemma check_release_ok:
  "fst (check_release p a) = [] \<longleftrightarrow>
   (\<exists>x. a = Some x \<and> lc_tenant x = xs_tenant p \<and> lc_state x = ''allocated''
      \<and> (lc_firm x \<longrightarrow> xs_force p))"
  by (cases a) (auto simp: check_release_def)

section \<open>Claiming\<close>

record record_allocation_request =
  rl_id :: "uuid option"
  rl_line :: uuid
  rl_stock :: uuid
  rl_quantity :: i64
  rl_firm :: "bool option"
  rl_bound_at :: "time option"

record record_allocation_response =
  lr_allocation :: uuid
  lr_replayed :: bool
  lr_warnings :: "string list"
  lr_ledger :: progress
  lr_projection :: projection_progress

definition covered_of :: "uuid \<Rightarrow> uuid \<Rightarrow> db \<Rightarrow> i64" where
  "covered_of t line s = sum_list (map al_quantity
     (filter (\<lambda>a. al_line a = Some line \<and> al_state a \<in> set COVERING) (visible al_tenant t (allocations s))))"

lemma pg_covered_eq: "pg_covered (line_progress_ledger t line q s) = covered_of t line s"
  by (simp add: line_progress_ledger_def Let_def covered_of_def covering_states_eq)

definition load_allocation_line :: "uuid \<Rightarrow> uuid \<Rightarrow> db \<Rightarrow> allocation_line option" where
  "load_allocation_line t i s = map_option (\<lambda>(l, item, cancelled).
     \<lparr>an_id = fl_id l, an_tenant = fl_tenant l, an_item = item, an_quantity = fl_quantity l,
      an_covered = covered_of t (fl_id l) s, an_cancelled = cancelled\<rparr>) (line_joined t i s)"

text \<open>Both progress reads of a line, which end every path of these handlers.\<close>

definition line_figures :: "uuid \<Rightarrow> uuid \<Rightarrow> i64 \<Rightarrow> db \<Rightarrow> api_error + (progress \<times> projection_progress)" where
  "line_figures t line commitment s =
     and_then (ok_or (line_by_id t line s) Database) (\<lambda>p.
       Inr (line_progress_ledger t line commitment s,
            line_progress_projection t (fl_covered p) (fl_picked p) (fl_packed p) (fl_despatched p)
              (fl_uncovered p) s))"

definition claim_row :: "uuid \<Rightarrow> caller \<Rightarrow> time \<Rightarrow> record_allocation_request \<Rightarrow> stock_allocation_row" where
  "claim_row i who clock req =
     \<lparr>al_id = i, al_tenant = ca_tenant who, al_stock = Some (rl_stock req), al_line = Some (rl_line req),
      al_quantity = rl_quantity req, al_state = ''allocated'',
      al_firm = (case rl_firm req of None \<Rightarrow> False | Some b \<Rightarrow> b),
      al_bound_at = (case rl_bound_at req of None \<Rightarrow> clock | Some w \<Rightarrow> w),
      al_supply = None, al_origin = None\<rparr>"

definition replay_answer ::
  "caller \<Rightarrow> record_allocation_request \<Rightarrow> allocation_line option \<Rightarrow> prior_allocation \<Rightarrow> db
   \<Rightarrow> api_error + (record_allocation_response \<times> db)" where
  "replay_answer who req line prior s =
     and_then (reject_allocation_mismatch prior (rl_stock req) (rl_line req) (rl_quantity req)) (\<lambda>_.
     and_then (ok_or line NotFound) (\<lambda>l.
     and_then (line_figures (ca_tenant who) (rl_line req) (an_quantity l) s) (\<lambda>(ledger, projection).
       Inr (\<lparr>lr_allocation = pr_id prior, lr_replayed = True,
             lr_warnings = [''replay of an existing allocation id; no second claim was written''],
             lr_ledger = ledger, lr_projection = projection\<rparr>, s))))"

text \<open>
  Inserting the claim: under the id the client minted, or a fresh one.  The unique index is over
  all tenants; with the replay settled first, a conflict is another tenant's id or a race.
\<close>

definition insert_claim ::
  "pg \<Rightarrow> caller \<Rightarrow> time \<Rightarrow> record_allocation_request \<Rightarrow> db
   \<Rightarrow> api_error + ((uuid \<times> bool \<times> string list) \<times> db)" where
  "insert_claim pg who clock req s =
     (case rl_id req of
        Some i \<Rightarrow>
          if \<not> (\<exists>a \<in> set (allocations s). al_id a = i)
          then and_then (write_to pg Stock_allocation s (insert_allocation (claim_row i who clock req) s))
                 (\<lambda>s'. Inr ((i, False, []), s'))
          else
            and_then (ok_or (prior_allocation (ca_tenant who) i s)
              (Rejected ''that allocation id is already in use and is not this                                      tenant's'')) (\<lambda>prior.
            and_then (reject_allocation_mismatch prior (rl_stock req) (rl_line req) (rl_quantity req)) (\<lambda>_.
              Inr ((pr_id prior, True,
                [''replay of an existing allocation id; no second claim was                                  written'']), s)))
      | None \<Rightarrow>
          (let i = minted pg Stock_allocation in
           and_then (write_to pg Stock_allocation s (insert_allocation (claim_row i who clock req) s))
             (\<lambda>s'. Inr ((i, False, []), s'))))"

definition record_allocation ::
  "time \<Rightarrow> pg \<Rightarrow> caller \<Rightarrow> record_allocation_request \<Rightarrow> db
   \<Rightarrow> api_error + (record_allocation_response \<times> db)" where
  "record_allocation clock pg who req s =
     (let t = ca_tenant who;
          line = load_allocation_line t (rl_line req) s;
          cell = stock_by_id t (rl_stock req) s in
      case Option.bind (rl_id req) (\<lambda>i. prior_allocation t i s) of
        Some prior \<Rightarrow> replay_answer who req line prior s
      | None \<Rightarrow>
      (let proposed = \<lparr>xl_tenant = t, xl_line = rl_line req, xl_stock = rl_stock req,
             xl_quantity = rl_quantity req,
             xl_firm = (case rl_firm req of None \<Rightarrow> False | Some b \<Rightarrow> b),
             xl_bound_at = (case rl_bound_at req of None \<Rightarrow> clock | Some w \<Rightarrow> w)\<rparr> in
      and_then (hard_or_warnings allocate_is_hard (join ''; '') show_allocate_problem
                  (allocate_check proposed line cell)) (\<lambda>warnings.
      and_then (ok_or line Panicked) (\<lambda>l.
      and_then (insert_claim pg who clock req s) (\<lambda>((allocation_id, replayed, more), s1).
      and_then (line_figures t (rl_line req) (an_quantity l) s1) (\<lambda>(ledger, projection).
      and_then (write_to pg Projection_dirty s1 (mark_dirty pg t ''allocation'' s1)) (\<lambda>s2.
        Inr (\<lparr>lr_allocation = allocation_id, lr_replayed = replayed, lr_warnings = warnings @ more,
              lr_ledger = ledger, lr_projection = projection\<rparr>, s2))))))))"

section \<open>Releasing\<close>

record release_allocation_response =
  rr_allocation :: uuid
  rr_previous_state :: string
  rr_warnings :: "string list"
  rr_ledger :: "progress option"
  rr_projection :: "projection_progress option"

definition allocation_of_row :: "stock_allocation_row \<Rightarrow> allocation" where
  "allocation_of_row a = \<lparr>lc_id = al_id a, lc_tenant = al_tenant a, lc_state = al_state a,
     lc_firm = al_firm a, lc_line = al_line a, lc_quantity = al_quantity a\<rparr>"

definition release_allocation ::
  "pg \<Rightarrow> caller \<Rightarrow> uuid \<Rightarrow> bool option \<Rightarrow> db \<Rightarrow> api_error + (release_allocation_response \<times> db)" where
  "release_allocation pg who i force s =
     (let t = ca_tenant who;
          a = map_option allocation_of_row (allocation_by_id t i s);
          (problems, soft) = check_release
            \<lparr>xs_tenant = t, xs_allocation = i, xs_force = (case force of None \<Rightarrow> False | Some b \<Rightarrow> b)\<rparr> a in
      if problems \<noteq> []
      then Inl (if problems = [ReleaseNotFound] then NotFound
                else Rejected (join ''; '' (map show_release_problem problems)))
      else
      and_then (ok_or a Panicked) (\<lambda>a.
      and_then (write_to pg Stock_allocation s
                 (s\<lparr>allocations := update_rows al_tenant al_id t i (\<lambda>_. True)
                      (\<lambda>r. r\<lparr>al_state := ''released''\<rparr>) (allocations s)\<rparr>)) (\<lambda>s1.
      if rows_hit al_tenant al_id t i (\<lambda>_. True) (allocations s) \<noteq> 1 then Inl NotFound
      else
      and_then
        (case lc_line a of
           None \<Rightarrow> Inr (None, None)
         | Some line \<Rightarrow>
             and_then (ok_or (line_by_id t line s1) Database) (\<lambda>l.
             and_then (line_figures t line (fl_quantity l) s1) (\<lambda>(ledger, projection).
               Inr (Some ledger, Some projection))))
        (\<lambda>(ledger, projection).
      and_then (write_to pg Projection_dirty s1 (mark_dirty pg t ''allocation_release'' s1)) (\<lambda>s2.
        Inr (\<lparr>rr_allocation = i, rr_previous_state = lc_state a,
              rr_warnings = map show_release_warning soft,
              rr_ledger = ledger, rr_projection = projection\<rparr>, s2))))))"

section \<open>What a run did\<close>

lemma claim_row_simps [simp]:
  "al_id (claim_row i who clock req) = i" "al_tenant (claim_row i who clock req) = ca_tenant who"
  "al_line (claim_row i who clock req) = Some (rl_line req)"
  "al_stock (claim_row i who clock req) = Some (rl_stock req)"
  "al_quantity (claim_row i who clock req) = rl_quantity req"
  "al_state (claim_row i who clock req) = ''allocated''"
  by (simp_all add: claim_row_def)

lemma covered_of_insert:
  assumes "allocations s' = allocations s @ [claim_row i who clock req]"
  shows "covered_of t line s' = covered_of t line s
    + (if ca_tenant who = t \<and> rl_line req = line then rl_quantity req else 0)"
  by (simp add: covered_of_def assms visible_def COVERING_def)

lemma record_allocation_replay:
  assumes "record_allocation clock pg who req s = Inr (v, s')"
    and "rl_id req = Some i" "prior_allocation (ca_tenant who) i s = Some prior"
  shows "s' = s" and "lr_replayed v" and "lr_allocation v = pr_id prior"
  using assms by (auto simp: record_allocation_def replay_answer_def Let_def result_simps)

lemma record_allocation_claims:
  assumes run: "record_allocation clock pg who req s = Inr (v, s')"
    and no_prior: "Option.bind (rl_id req) (\<lambda>i. prior_allocation (ca_tenant who) i s) = None"
  obtains l c where
    "load_allocation_line (ca_tenant who) (rl_line req) s = Some l"
    "stock_by_id (ca_tenant who) (rl_stock req) s = Some c"
    "0 < rl_quantity req" "rl_quantity req \<le> i64_sub (an_quantity l) (an_covered l)"
    "\<not> an_cancelled l" "an_item l = sk_item c"
    "s' = mark_dirty pg (ca_tenant who) ''allocation''
       (s\<lparr>allocations := allocations s @ [claim_row (lr_allocation v) who clock req]\<rparr>)"
    "\<not> lr_replayed v" "\<forall>i. rl_id req = Some i \<longrightarrow> lr_allocation v = i"
    "lr_ledger v = line_progress_ledger (ca_tenant who) (rl_line req) (an_quantity l)
       (s\<lparr>allocations := allocations s @ [claim_row (lr_allocation v) who clock req]\<rparr>)"
proof -
  let ?p = "\<lparr>xl_tenant = ca_tenant who, xl_line = rl_line req, xl_stock = rl_stock req,
       xl_quantity = rl_quantity req,
       xl_firm = (case rl_firm req of None \<Rightarrow> False | Some b \<Rightarrow> b),
       xl_bound_at = (case rl_bound_at req of None \<Rightarrow> clock | Some w \<Rightarrow> w)\<rparr>"
  let ?line = "load_allocation_line (ca_tenant who) (rl_line req) s"
  let ?cell = "stock_by_id (ca_tenant who) (rl_stock req) s"
  have ok: "filter allocate_is_hard (allocate_check ?p ?line ?cell) = []"
    using run no_prior by (auto simp: record_allocation_def Let_def result_simps)
  then obtain l c where lc: "?line = Some l" "?cell = Some c" "0 < rl_quantity req"
      "rl_quantity req \<le> i64_sub (an_quantity l) (an_covered l)" "\<not> an_cancelled l" "an_item l = sk_item c"
    unfolding allocate_check_no_hard by auto
  obtain x s1 where ins: "insert_claim pg who clock req s = Inr (x, s1)"
    using run no_prior by (auto simp: record_allocation_def Let_def result_simps)
  have x: "x = (fst x, False, []) \<and> (\<forall>i. rl_id req = Some i \<longrightarrow> fst x = i)
      \<and> s1 = s\<lparr>allocations := allocations s @ [claim_row (fst x) who clock req]\<rparr>"
    using ins no_prior
    by (cases "rl_id req") (auto simp: insert_claim_def result_simps row_simps Let_def split: if_splits)
  then obtain i where i: "x = (i, False, [])" by metis
  have tail: "lr_allocation v = i \<and> \<not> lr_replayed v \<and> s' = mark_dirty pg (ca_tenant who) ''allocation'' s1
      \<and> lr_ledger v = line_progress_ledger (ca_tenant who) (rl_line req) (an_quantity l) s1"
    using run no_prior ins i lc(1)
    by (auto simp: record_allocation_def Let_def result_simps line_figures_def)
  show thesis
    by (rule that [OF lc]) (use tail x i in auto)
qed

lemma release_allocation_effect:
  assumes "release_allocation pg who i force s = Inr (v, s')"
  obtains a where "allocation_by_id (ca_tenant who) i s = Some a" "al_state a = ''allocated''"
    "al_firm a \<longrightarrow> force = Some True"
    "rows_hit al_tenant al_id (ca_tenant who) i (\<lambda>_. True) (allocations s) = 1"
    "s' = mark_dirty pg (ca_tenant who) ''allocation_release''
       (s\<lparr>allocations := update_rows al_tenant al_id (ca_tenant who) i (\<lambda>_. True)
           (\<lambda>r. r\<lparr>al_state := ''released''\<rparr>) (allocations s)\<rparr>)"
proof -
  let ?p = "\<lparr>xs_tenant = ca_tenant who, xs_allocation = i,
    xs_force = (case force of None \<Rightarrow> False | Some b \<Rightarrow> b)\<rparr>"
  let ?a = "map_option allocation_of_row (allocation_by_id (ca_tenant who) i s)"
  obtain ps soft where chk: "check_release ?p ?a = (ps, soft)" by fastforce
  have none: "ps = []"
    using assms by (auto simp: release_allocation_def Let_def chk split: if_splits)
  then have "fst (check_release ?p ?a) = []" using chk by simp
  then obtain a where a: "allocation_by_id (ca_tenant who) i s = Some a" "al_state a = ''allocated''"
      "al_firm a \<longrightarrow> force = Some True"
    unfolding check_release_ok by (auto simp: allocation_of_row_def split: option.splits)
  show thesis
    by (rule that [OF a])
       (use assms a none chk in \<open>auto simp: release_allocation_def Let_def result_simps split: if_splits\<close>)
qed

text \<open>Dropping one row from a sum: the released claim covers nothing afterwards.\<close>

lemma sum_list_released:
  assumes "length (filter h xs) = 1" and "find h xs = Some a" and "P a" and "\<And>x. h x \<Longrightarrow> \<not> P (g x)"
  shows "sum_list (map q (filter P (map (\<lambda>x. if h x then g x else x) xs))) =
    sum_list (map q (filter P xs)) - (q a :: int)"
  using assms(1,2)
proof (induction xs)
  case (Cons x xs)
  show ?case
  proof (cases "h x")
    case True
    then have "filter h xs = []" using Cons.prems by simp
    then have "map (\<lambda>x. if h x then g x else x) xs = xs" by (induction xs) (auto split: if_splits)
    then show ?thesis using True Cons.prems assms(3,4) by simp
  next
    case False
    then show ?thesis using Cons by simp
  qed
qed simp

lemma filter_released_other:
  assumes "length (filter h xs) = 1" and "find h xs = Some a" and "\<not> P a" and "\<And>x. h x \<Longrightarrow> \<not> P (g x)"
  shows "filter P (map (\<lambda>x. if h x then g x else x) xs) = filter P xs"
  using assms(1,2)
proof (induction xs)
  case (Cons x xs)
  show ?case
  proof (cases "h x")
    case True
    then have "filter h xs = []" using Cons.prems by simp
    then have "map (\<lambda>x. if h x then g x else x) xs = xs" by (induction xs) (auto split: if_splits)
    then show ?thesis using True Cons.prems assms(3,4) by simp
  next
    case False
    then show ?thesis using Cons by simp
  qed
qed simp

lemma covered_of_release:
  assumes "allocation_by_id t i s = Some a" "al_state a = ''allocated''"
    and "rows_hit al_tenant al_id t i (\<lambda>_. True) (allocations s) = 1"
    and "allocations s' = update_rows al_tenant al_id t i (\<lambda>_. True)
           (\<lambda>r. r\<lparr>al_state := ''released''\<rparr>) (allocations s)"
  shows "covered_of t line s' = covered_of t line s - (if al_line a = Some line then al_quantity a else 0)"
proof -
  let ?h = "\<lambda>r. al_tenant r = t \<and> al_id r = i"
  let ?P = "\<lambda>a. al_tenant a = t \<and> al_line a = Some line \<and> al_state a \<in> set COVERING"
  let ?g = "\<lambda>r. r\<lparr>al_state := ''released''\<rparr>"
  have cov: "covered_of t line x = sum_list (map al_quantity (filter ?P (allocations x)))" for x
    by (simp add: covered_of_def visible_def conj_commute conj_left_commute)
  have a: "find ?h (allocations s) = Some a" "al_tenant a = t"
    using assms(1) by (auto simp: row_simps by_id_def dest: find_SomeD)
  have hit: "length (filter ?h (allocations s)) = 1" using assms(3) by (simp add: rows_hit_def)
  have upd: "allocations s' = map (\<lambda>r. if ?h r then ?g r else r) (allocations s)"
    by (simp add: assms(4) update_rows_def)
  show ?thesis
  proof (cases "al_line a = Some line")
    case True
    then have "?P a" using a assms(2) by (simp add: COVERING_def)
    from sum_list_released [OF hit a(1), of ?P ?g al_quantity, OF this] True show ?thesis
      by (simp add: cov upd COVERING_def)
  next
    case False
    have "\<not> ?P a" using False by simp
    from filter_released_other [OF hit a(1), of ?P ?g, OF this] False show ?thesis
      by (simp add: cov upd COVERING_def)
  qed
qed

section \<open>Properties\<close>

text \<open>
  The state a planner relies on: claims are of positive quantities, and no line of the tenant is
  covered beyond its commitment.
\<close>

definition cover_bounded :: "uuid \<Rightarrow> db \<Rightarrow> bool" where
  "cover_bounded t s \<longleftrightarrow>
     (\<forall>a \<in> set (allocations s). 0 \<le> al_quantity a)
     \<and> (\<forall>l \<in> set (fulfilment_lines s). fl_tenant l = t \<longrightarrow>
          in_i64 (fl_quantity l) \<and> covered_of t (fl_id l) s \<le> fl_quantity l)"

text \<open>One request of a planner, and the state after it whatever it answered.\<close>

datatype planner_act = Claim record_allocation_request | Withdraw uuid "bool option"

definition planner_step :: "time \<Rightarrow> pg \<Rightarrow> caller \<Rightarrow> planner_act \<Rightarrow> db \<Rightarrow> db" where
  "planner_step clock pg who a s =
     (case a of
        Claim req \<Rightarrow> snd (tenant_run pg (record_allocation clock pg who req) s)
      | Withdraw i force \<Rightarrow> snd (tenant_run pg (release_allocation pg who i force) s))"

lemma covered_of_nonneg: "\<forall>a \<in> set (allocations s). 0 \<le> al_quantity a \<Longrightarrow> 0 \<le> covered_of t line s"
  unfolding covered_of_def by (rule sum_list_nonneg) (auto simp: visible_def)

lemma covered_of_other_line [simp]: "covered_of t line (mark_dirty pg t' why s) = covered_of t line s"
  by (simp add: covered_of_def)

lemma claim_keeps_bound:
  assumes run: "record_allocation clock pg who req s = Inr (v, s')"
    and ids: "distinct (map fl_id (fulfilment_lines s))"
    and bound: "cover_bounded (ca_tenant who) s"
  shows "cover_bounded (ca_tenant who) s' \<and> fulfilment_lines s' = fulfilment_lines s"
proof (cases "Option.bind (rl_id req) (\<lambda>i. prior_allocation (ca_tenant who) i s)")
  case (Some prior)
  then have "s' = s" using record_allocation_replay(1) [OF run] by (auto simp: bind_eq_Some_conv)
  with bound show ?thesis by simp
next
  case None
  show ?thesis
  proof (rule record_allocation_claims [OF run None])
    fix l c
    assume l: "load_allocation_line (ca_tenant who) (rl_line req) s = Some l"
      and q: "0 < rl_quantity req" "rl_quantity req \<le> i64_sub (an_quantity l) (an_covered l)"
      and s': "s' = mark_dirty pg (ca_tenant who) ''allocation''
         (s\<lparr>allocations := allocations s @ [claim_row (lr_allocation v) who clock req]\<rparr>)"
    obtain fl item x where fl: "line_joined (ca_tenant who) (rl_line req) s = Some (fl, item, x)"
      using l by (auto simp: load_allocation_line_def)
    then have row: "fl \<in> set (fulfilment_lines s)" "fl_tenant fl = ca_tenant who" "fl_id fl = rl_line req"
      by (auto simp: row_simps dest!: line_joined_SomeD by_id_SomeD)
    have vals: "an_quantity l = fl_quantity fl" "an_covered l = covered_of (ca_tenant who) (rl_line req) s"
      using l fl row by (auto simp: load_allocation_line_def)
    have pos: "0 \<le> covered_of (ca_tenant who) (rl_line req) s"
      using bound by (intro covered_of_nonneg) (simp add: cover_bounded_def)
    have "in_i64 (fl_quantity fl - covered_of (ca_tenant who) (rl_line req) s)"
      using bound row pos by (auto simp: cover_bounded_def in_i64_def)
    then have fits: "covered_of (ca_tenant who) (rl_line req) s + rl_quantity req \<le> fl_quantity fl"
      using q(2) by (simp add: vals i64_sub_exact)
    have cov: "covered_of (ca_tenant who) line s' = covered_of (ca_tenant who) line s
        + (if rl_line req = line then rl_quantity req else 0)" for line
      using covered_of_insert [of s' s "lr_allocation v" who clock req "ca_tenant who" line]
      by (simp add: s')
    have "covered_of (ca_tenant who) (fl_id k) s' \<le> fl_quantity k"
      if "k \<in> set (fulfilment_lines s)" "fl_tenant k = ca_tenant who" for k
    proof (cases "fl_id k = rl_line req")
      case True
      then have "k = fl" using ids that(1) row by (metis distinct_map inj_on_def)
      then show ?thesis using fits by (simp add: cov row)
    next
      case False
      then show ?thesis using bound that by (auto simp: cov cover_bounded_def)
    qed
    then show ?thesis
      using bound q(1) by (auto simp: cover_bounded_def s')
  qed
qed

lemma withdraw_keeps_bound:
  assumes run: "release_allocation pg who i force s = Inr (v, s')"
    and bound: "cover_bounded (ca_tenant who) s"
  shows "cover_bounded (ca_tenant who) s' \<and> fulfilment_lines s' = fulfilment_lines s"
proof (rule release_allocation_effect [OF run])
  fix a
  assume a: "allocation_by_id (ca_tenant who) i s = Some a" "al_state a = ''allocated''"
      "rows_hit al_tenant al_id (ca_tenant who) i (\<lambda>_. True) (allocations s) = 1"
    and s': "s' = mark_dirty pg (ca_tenant who) ''allocation_release''
       (s\<lparr>allocations := update_rows al_tenant al_id (ca_tenant who) i (\<lambda>_. True)
           (\<lambda>r. r\<lparr>al_state := ''released''\<rparr>) (allocations s)\<rparr>)"
  have "a \<in> set (allocations s)" using a(1) by (auto simp: row_simps dest: by_id_SomeD)
  then have "0 \<le> al_quantity a" using bound by (simp add: cover_bounded_def)
  moreover have "covered_of (ca_tenant who) line s' = covered_of (ca_tenant who) line s
      - (if al_line a = Some line then al_quantity a else 0)" for line
    by (rule covered_of_release [OF a]) (simp add: s')
  ultimately show ?thesis
    using bound by (fastforce simp: cover_bounded_def s' update_rows_def)
qed

definition sample_alloc_db :: db where
  "sample_alloc_db = sample_db\<lparr>
     fulfilments := [\<lparr>fu_id = 41, fu_tenant = 10, fu_state = ''open'', fu_site = None\<rparr>],
     order_lines := [\<lparr>ol_id = 43, ol_tenant = 10, ol_item = 100\<rparr>],
     fulfilment_lines := [\<lparr>fl_id = 42, fl_tenant = 10, fl_fulfilment = 41, fl_order_line = 43, fl_quantity = 6,
       fl_covered = 0, fl_picked = 0, fl_packed = 0, fl_despatched = 0, fl_uncovered = 6\<rparr>]\<rparr>"

definition sample_claim :: record_allocation_request where
  "sample_claim = \<lparr>rl_id = Some 90, rl_line = 42, rl_stock = 1, rl_quantity = 4, rl_firm = Some True,
     rl_bound_at = None\<rparr>"

text \<open>
  C8: However a tenant's planners claim and withdraw, in any order, from any session and with any
  answers from the server, no line is ever covered beyond its commitment.
\<close>

theorem claims_never_over_cover:
  assumes "cover_bounded t s" and "distinct (map fl_id (fulfilment_lines s))"
    and "\<forall>(clock, pg, who, a) \<in> set acts. ca_tenant who = t"
  shows "cover_bounded t (fold (\<lambda>(clock, pg, who, a). planner_step clock pg who a) acts s)"
proof -
  have step: "cover_bounded t (planner_step clock pg who a s)
      \<and> fulfilment_lines (planner_step clock pg who a s) = fulfilment_lines s"
    if "cover_bounded t s" "distinct (map fl_id (fulfilment_lines s))" "ca_tenant who = t"
    for clock pg who a s
    using that claim_keeps_bound withdraw_keeps_bound
    by (cases a) (fastforce simp: planner_step_def tenant_run_def split: sum.splits)+
  show ?thesis
    using assms
  proof (induction acts arbitrary: s)
    case (Cons x acts)
    obtain clock pg who a where x: "x = (clock, pg, who, a)" by (cases x)
    with Cons.prems have "ca_tenant who = t" by auto
    from step [OF Cons.prems(1,2) this] Cons x show ?case by auto
  qed simp
qed

theorem claims_never_over_cover_witness:
  "covered_of 10 42 (fold (\<lambda>(clock, pg, who, a). planner_step clock pg who a)
     [(0, sample_pg, sample_caller, Claim sample_claim),
      (0, sample_pg, sample_caller, Claim (sample_claim\<lparr>rl_id := Some 91\<rparr>)),
      (0, sample_pg, sample_caller, Withdraw 90 None)] sample_alloc_db) \<le> 6"
  (is "covered_of 10 42 (fold _ ?acts _) \<le> 6")
proof -
  have b: "cover_bounded 10 sample_alloc_db"
    by (simp add: cover_bounded_def covered_of_def visible_def sample_alloc_db_def sample_defs in_i64_numeral)
  have d: "distinct (map fl_id (fulfilment_lines sample_alloc_db))"
    and w: "\<forall>(clock, pg, who, a) \<in> set ?acts. ca_tenant who = 10"
    by (simp_all add: sample_alloc_db_def sample_caller_def)
  have "map (\<lambda>l. (fl_id l, fl_tenant l, fl_quantity l)) (fulfilment_lines
      (fold (\<lambda>(clock, pg, who, a). planner_step clock pg who a) ?acts sample_alloc_db)) = [(42, 10, 6)]"
    by code_simp
  with claims_never_over_cover [OF b d w] show ?thesis
    by (auto simp: cover_bounded_def)
qed

text \<open>
  A claim under a client-minted id is written once: the same request sent again, by anyone of
  the tenant and after any changes to stock and ledger, is answered as a replay with the same claim
  and changes nothing at all.
\<close>

theorem record_allocation_retry:
  assumes run: "record_allocation clock pg who req s = Inr (v, s')"
    and minted: "rl_id req = Some i" "\<not> (\<exists>a \<in> set (allocations s). al_id a = i)"
  shows "\<exists>v'. record_allocation clock' pg' (who\<lparr>ca_person := p\<rparr>) req (s'\<lparr>stock := st, movements := ms\<rparr>)
      = Inr (v', s'\<lparr>stock := st, movements := ms\<rparr>)
    \<and> lr_replayed v' \<and> lr_allocation v' = lr_allocation v \<and> \<not> lr_replayed v"
proof -
  have none: "Option.bind (rl_id req) (\<lambda>i. prior_allocation (ca_tenant who) i s) = None"
    using minted by (auto simp: prior_allocation_def row_simps by_id_def find_None_iff)
  show ?thesis
  proof (rule record_allocation_claims [OF run none])
    fix l c
    assume l: "load_allocation_line (ca_tenant who) (rl_line req) s = Some l"
      and s': "s' = mark_dirty pg (ca_tenant who) ''allocation''
         (s\<lparr>allocations := allocations s @ [claim_row (lr_allocation v) who clock req]\<rparr>)"
      and v: "\<not> lr_replayed v" "\<forall>i. rl_id req = Some i \<longrightarrow> lr_allocation v = i"
    let ?s = "s'\<lparr>stock := st, movements := ms\<rparr>" and ?t = "ca_tenant who"
    have i: "lr_allocation v = i" using v(2) minted(1) by simp
    have prior: "prior_allocation ?t i ?s = Some \<lparr>pr_id = i, pr_stock = Some (rl_stock req),
        pr_line = Some (rl_line req), pr_quantity = rl_quantity req,
        pr_firm = al_firm (claim_row i who clock req)\<rparr>"
      using minted(2) by (simp add: prior_allocation_def row_simps s' i by_id_snoc_new)
    have joined: "line_joined ?t (rl_line req) ?s = line_joined ?t (rl_line req) s"
      by (simp add: line_joined_def row_simps s')
    then have line: "load_allocation_line ?t (rl_line req) ?s \<noteq> None" "line_by_id ?t (rl_line req) ?s \<noteq> None"
      using l by (auto simp: load_allocation_line_def line_joined_def bind_eq_Some_conv)
    show ?thesis
      using line v(1) i minted(1)
      by (auto simp: record_allocation_def Let_def prior replay_answer_def line_figures_def
          reject_allocation_mismatch_def allocation_differences_def)
  qed
qed

lemma sample_claim_runs:
  "\<exists>v s'. record_allocation 0 sample_pg sample_caller sample_claim sample_alloc_db = Inr (v, s')"
proof -
  have "\<not> isl (record_allocation 0 sample_pg sample_caller sample_claim sample_alloc_db)"
    by code_simp
  then show ?thesis
    by (cases "record_allocation 0 sample_pg sample_caller sample_claim sample_alloc_db") auto
qed

theorem record_allocation_retry_witness:
  "\<exists>v s' v'. record_allocation 0 sample_pg sample_caller sample_claim sample_alloc_db = Inr (v, s')
     \<and> record_allocation 5 sample_pg (sample_caller\<lparr>ca_person := 21\<rparr>) sample_claim
          (s'\<lparr>stock := [], movements := []\<rparr>) = Inr (v', s'\<lparr>stock := [], movements := []\<rparr>)
     \<and> lr_replayed v' \<and> lr_allocation v' = 90"
proof -
  obtain v s' where run: "record_allocation 0 sample_pg sample_caller sample_claim sample_alloc_db = Inr (v, s')"
    using sample_claim_runs by blast
  have m: "rl_id sample_claim = Some 90" "\<not> (\<exists>a \<in> set (allocations sample_alloc_db). al_id a = 90)"
    by (simp_all add: sample_claim_def sample_alloc_db_def sample_defs)
  have none: "Option.bind (rl_id sample_claim) (\<lambda>i. prior_allocation (ca_tenant sample_caller) i sample_alloc_db) = None"
    by code_simp
  have "lr_allocation v = 90"
    by (rule record_allocation_claims [OF run none]) (simp add: m)
  with run record_allocation_retry [OF run m, of 5 sample_pg 21 "[]" "[]"] show ?thesis by auto
qed

text \<open>
  Withdrawing a claim gives back exactly what it covered, and only an allocated claim is ever
  withdrawn; a firm one only when the request forces it.
\<close>

theorem release_gives_back_cover:
  assumes run: "release_allocation pg who i force s = Inr (v, s')"
  shows "\<exists>a. allocation_by_id (ca_tenant who) i s = Some a \<and> al_state a = ''allocated''
    \<and> (al_firm a \<longrightarrow> force = Some True)
    \<and> (\<forall>line. covered_of (ca_tenant who) line s' = covered_of (ca_tenant who) line s
          - (if al_line a = Some line then al_quantity a else 0))
    \<and> release_allocation pg' who i force' s' = Inl (Rejected (show_release_problem AlreadyReleased))"
proof (rule release_allocation_effect [OF run])
  fix a
  assume a: "allocation_by_id (ca_tenant who) i s = Some a" "al_state a = ''allocated''"
      "al_firm a \<longrightarrow> force = Some True"
      "rows_hit al_tenant al_id (ca_tenant who) i (\<lambda>_. True) (allocations s) = 1"
    and s': "s' = mark_dirty pg (ca_tenant who) ''allocation_release''
       (s\<lparr>allocations := update_rows al_tenant al_id (ca_tenant who) i (\<lambda>_. True)
           (\<lambda>r. r\<lparr>al_state := ''released''\<rparr>) (allocations s)\<rparr>)"
  have "find (\<lambda>r. al_tenant r = t \<and> al_id r = i) rows = Some a \<Longrightarrow>
      find (\<lambda>r. al_tenant r = t \<and> al_id r = i)
        (map (\<lambda>r. if al_tenant r = t \<and> al_id r = i \<and> True then r\<lparr>al_state := ''released''\<rparr> else r) rows)
      = Some (a\<lparr>al_state := ''released''\<rparr>)" for t rows
    by (induction rows) (auto split: if_splits)
  with a(1) have after: "allocation_by_id (ca_tenant who) i s' = Some (a\<lparr>al_state := ''released''\<rparr>)"
    by (simp add: row_simps by_id_def s' update_rows_def)
  have own: "al_tenant a = ca_tenant who" using a(1) by (auto simp: row_simps dest: by_id_SomeD)
  have "covered_of (ca_tenant who) line s' = covered_of (ca_tenant who) line s
      - (if al_line a = Some line then al_quantity a else 0)" for line
    by (rule covered_of_release [OF a(1,2,4)]) (simp add: s')
  moreover have "release_allocation pg' who i force' s' = Inl (Rejected (show_release_problem AlreadyReleased))"
    by (simp add: release_allocation_def Let_def after check_release_def allocation_of_row_def own)
  ultimately show ?thesis using a by blast
qed

theorem release_gives_back_cover_witness:
  "\<exists>v s'. release_allocation sample_pg sample_caller 90 (Some True)
       (sample_alloc_db\<lparr>allocations := [claim_row 90 sample_caller 0 sample_claim]\<rparr>) = Inr (v, s')
     \<and> covered_of 10 42 s' = 0"
proof -
  let ?s = "sample_alloc_db\<lparr>allocations := [claim_row 90 sample_caller 0 sample_claim]\<rparr>"
  have "\<not> isl (release_allocation sample_pg sample_caller 90 (Some True) ?s)"
    by code_simp
  then obtain v s' where run: "release_allocation sample_pg sample_caller 90 (Some True) ?s = Inr (v, s')"
    by (cases "release_allocation sample_pg sample_caller 90 (Some True) ?s") auto
  have before: "covered_of (ca_tenant sample_caller) 42 ?s = 4"
    "allocation_by_id (ca_tenant sample_caller) 90 ?s = Some (claim_row 90 sample_caller 0 sample_claim)"
    by (simp_all add: covered_of_def visible_def COVERING_def row_simps by_id_def sample_caller_def sample_claim_def)
  show ?thesis
    using run release_gives_back_cover [OF run, of sample_pg None] before
    by (auto simp: sample_caller_def sample_claim_def)
qed

end
