(* ===== verification/Packages.thy ===== *)
theory Packages
  imports Ledger
begin

text \<open>
  Placing and containing packages: the decisions of \<^verbatim>\<open>packages.rs\<close>, its \<open>nesting\<close> query, and
  the handlers \<open>place_package\<close> and \<open>contain_package\<close> of \<^verbatim>\<open>routes.rs\<close>.  A package's holder is
  what its newest placement event names, by the device's clock; nothing is updated.  The main
  result is that whatever order events arrive in, containment stays a forest of at most three
  levels.
\<close>

section \<open>Creating: the decision\<close>

record proposed_package =
  xk_tenant :: uuid
  xk_package :: uuid
  xk_fulfilment :: "uuid option"
  xk_sequence :: "int option"
  xk_type :: "uuid option"
  xk_location :: uuid
  xk_barcode :: "string option"
  xk_sscc :: "string option"
  xk_source :: string

record fulfilment_ref =
  fr_id :: uuid
  fr_tenant :: uuid
  fr_cancelled :: bool

record location_ref =
  lf_id :: uuid
  lf_tenant :: uuid

datatype package_problem =
    FulfilmentNotFound | PkLocationNotFound | PkDifferentTenant | FulfilmentCancelled
  | PkInvalidSource | InvalidSscc | EmptyBarcode

fun show_package_problem :: "package_problem \<Rightarrow> string" where
  "show_package_problem FulfilmentNotFound = ''the fulfilment was not found''"
| "show_package_problem PkLocationNotFound = ''the location was not found''"
| "show_package_problem PkDifferentTenant = ''the fulfilment or location belongs to another tenant''"
| "show_package_problem FulfilmentCancelled =
     ''the fulfilment is cancelled; no shipping carton for it''"
| "show_package_problem PkInvalidSource =
     ''source must be one of operator_scan, label, asn, derived, correction, keyed''"
| "show_package_problem InvalidSscc = ''sscc must be exactly 18 characters when provided''"
| "show_package_problem EmptyBarcode = ''barcode, if provided, must not be empty''"

declare show_package_problem.simps [simp del]

definition SOURCES :: "string list" where
  "SOURCES = [''operator_scan'', ''label'', ''asn'', ''derived'', ''correction'', ''keyed'']"

text \<open>\<open>check\<close>.  \<open>sscc.len()\<close> counts UTF-8 bytes, as the length of a string does here.\<close>

definition package_check ::
  "proposed_package \<Rightarrow> fulfilment_ref option \<Rightarrow> location_ref option \<Rightarrow> package_problem list" where
  "package_check p fulfilment location =
     (let problems =
        (if xk_source p \<notin> set SOURCES then [PkInvalidSource] else [])
        @ (case xk_sscc p of None \<Rightarrow> [] | Some x \<Rightarrow> if length x \<noteq> 18 then [InvalidSscc] else [])
        @ (case xk_barcode p of None \<Rightarrow> [] | Some b \<Rightarrow> if b = [] then [EmptyBarcode] else []) in
      case location of None \<Rightarrow> problems @ [PkLocationNotFound] | Some l \<Rightarrow>
      (let problems' = problems @ (if lf_tenant l \<noteq> xk_tenant p then [PkDifferentTenant] else []) in
       if xk_fulfilment p = None then problems'
       else (case fulfilment of
               None \<Rightarrow> problems' @ [FulfilmentNotFound]
             | Some f \<Rightarrow>
                 problems'
                 @ (if fr_tenant f \<noteq> xk_tenant p then [PkDifferentTenant] else [])
                 @ (if fr_cancelled f then [FulfilmentCancelled] else []))))"

section \<open>Placing: the decision\<close>

record proposed_place =
  xe_tenant :: uuid
  xe_package :: uuid
  xe_location :: uuid
  xe_source :: string

record package_ref =
  kr_id :: uuid
  kr_tenant :: uuid
  kr_status :: "string option"
  kr_resolved_location :: "uuid option"
  kr_parent :: "uuid option"

datatype place_problem =
    PlacePackageNotFound | PlaceLocationNotFound | PlaceDifferentTenant | PlaceInvalidSource
  | AlreadyThere | PlaceAlreadyTerminal string

fun show_place_problem :: "place_problem \<Rightarrow> string" where
  "show_place_problem PlacePackageNotFound = ''the package was not found''"
| "show_place_problem PlaceLocationNotFound = ''the location was not found''"
| "show_place_problem PlaceDifferentTenant = ''the package or location belongs to another tenant''"
| "show_place_problem PlaceInvalidSource =
     ''source must be one of operator_scan, label, asn, derived, correction, keyed''"
| "show_place_problem AlreadyThere =
     ''the package is already projected at that location; the place event is still recorded and the fold is compare-and-set (J6)''"
| "show_place_problem (PlaceAlreadyTerminal status) =
     ''a package in status '' @ status @ '' cannot be placed; despatched and voided packages leave this path''"

declare show_place_problem.simps [simp del]

definition place_is_hard :: "place_problem \<Rightarrow> bool" where
  "place_is_hard p \<longleftrightarrow> p \<noteq> AlreadyThere"

definition terminal :: "string option \<Rightarrow> bool" where
  "terminal st \<longleftrightarrow> st = Some ''despatched'' \<or> st = Some ''voided''"

definition check_place ::
  "proposed_place \<Rightarrow> package_ref option \<Rightarrow> location_ref option \<Rightarrow> place_problem list \<times> place_problem list" where
  "check_place p package location =
     (let hard = (if xe_source p \<notin> set SOURCES then [PlaceInvalidSource] else []) in
      case package of None \<Rightarrow> (hard @ [PlacePackageNotFound], []) | Some k \<Rightarrow>
      (case location of None \<Rightarrow> (hard @ [PlaceLocationNotFound], []) | Some l \<Rightarrow>
         (hard
          @ (if kr_tenant k \<noteq> xe_tenant p \<or> lf_tenant l \<noteq> xe_tenant p then [PlaceDifferentTenant] else [])
          @ (if terminal (kr_status k) then [PlaceAlreadyTerminal (the (kr_status k))] else []),
          if kr_resolved_location k = Some (xe_location p) then [AlreadyThere] else [])))"

section \<open>Containing: the decision\<close>

record proposed_contain =
  xn_tenant :: uuid
  xn_package :: uuid
  xn_parent :: uuid
  xn_source :: string

datatype contain_problem =
    ContainPackageNotFound | ParentNotFound | ContainDifferentTenant | ContainInvalidSource
  | SelfParent
  | ContainAlreadyTerminal string string \<comment> \<open>which, status\<close>
  | AlreadyContained | Loop | TooDeep nat | ContainIntoSealed | OtherOrder | OpenOnBreakdown

record nesting =
  ng_loops :: bool
  ng_levels :: nat
  ng_parent_sealed :: bool
  ng_child_sealed :: bool
  ng_parent_breaks_down :: bool
  ng_other_order :: bool

definition MOST_LEVELS :: nat where
  "MOST_LEVELS = 3"

fun show_contain_problem :: "contain_problem \<Rightarrow> string" where
  "show_contain_problem ContainPackageNotFound = ''the package was not found''"
| "show_contain_problem ParentNotFound = ''the parent package was not found''"
| "show_contain_problem ContainDifferentTenant = ''the package or parent belongs to another tenant''"
| "show_contain_problem ContainInvalidSource =
     ''source must be one of operator_scan, label, asn, derived, correction, keyed''"
| "show_contain_problem SelfParent = ''a package cannot be contained in itself''"
| "show_contain_problem (ContainAlreadyTerminal which status) =
     ''the '' @ which @ '' is in status '' @ status @ ''; despatched and voided packages cannot change containment on this path''"
| "show_contain_problem AlreadyContained =
     ''the package is already projected under that parent; the contain event is still recorded and the fold is compare-and-set (J6)''"
| "show_contain_problem Loop = ''it would be inside itself: the parent is in or on it''"
| "show_contain_problem (TooDeep levels) =
     show_nat levels @ '' deep: a wrap, a pallet and a carton is the most (D24)''"
| "show_contain_problem ContainIntoSealed = ''onto a sealed pallet: open it first''"
| "show_contain_problem OtherOrder = ''the pallet is another order's''"
| "show_contain_problem OpenOnBreakdown =
     ''an open carton on a breakdown pallet: seal and label it first''"

declare show_contain_problem.simps [simp del]

fun contain_is_hard :: "contain_problem \<Rightarrow> bool" where
  "contain_is_hard AlreadyContained = False"
| "contain_is_hard ContainIntoSealed = False"
| "contain_is_hard OtherOrder = False"
| "contain_is_hard OpenOnBreakdown = False"
| "contain_is_hard p = True"

definition check_contain ::
  "proposed_contain \<Rightarrow> package_ref option \<Rightarrow> package_ref option \<Rightarrow> nesting
   \<Rightarrow> contain_problem list \<times> contain_problem list" where
  "check_contain p package parent n =
     (let hard = (if xn_source p \<notin> set SOURCES then [ContainInvalidSource] else [])
               @ (if xn_package p = xn_parent p then [SelfParent] else []) in
      case package of None \<Rightarrow> (hard @ [ContainPackageNotFound], []) | Some k \<Rightarrow>
      (case parent of None \<Rightarrow> (hard @ [ParentNotFound], []) | Some q \<Rightarrow>
         (hard
          @ (if kr_tenant k \<noteq> xn_tenant p \<or> kr_tenant q \<noteq> xn_tenant p then [ContainDifferentTenant] else [])
          @ (if terminal (kr_status k) then [ContainAlreadyTerminal ''package'' (the (kr_status k))] else [])
          @ (if terminal (kr_status q) then [ContainAlreadyTerminal ''parent'' (the (kr_status q))] else [])
          @ (if ng_loops n \<and> xn_package p \<noteq> xn_parent p then [Loop] else [])
          @ (if ng_levels n > MOST_LEVELS then [TooDeep (ng_levels n)] else []),
          (if kr_parent k = Some (xn_parent p) then [AlreadyContained] else [])
          @ (if ng_parent_sealed n then [ContainIntoSealed] else [])
          @ (if ng_other_order n \<and> \<not> ng_parent_breaks_down n then [OtherOrder] else [])
          @ (if ng_parent_breaks_down n \<and> \<not> ng_child_sealed n then [OpenOnBreakdown] else []))))"

lemma check_contain_ok:
  assumes "fst (check_contain p k q n) = []"
  shows "xn_package p \<noteq> xn_parent p \<and> \<not> ng_loops n \<and> ng_levels n \<le> 3 \<and> k \<noteq> None \<and> q \<noteq> None"
proof (cases k)
  case None
  with assms show ?thesis by (simp add: check_contain_def Let_def)
next
  case (Some k')
  show ?thesis
  proof (cases q)
    case None
    with assms Some show ?thesis by (simp add: check_contain_def Let_def)
  next
    case (Some q')
    with assms \<open>k = Some k'\<close> show ?thesis
      by (auto simp: check_contain_def Let_def MOST_LEVELS_def check_defs)
  qed
qed

section \<open>Where a package is now\<close>

text \<open>\<open>asserts_placement\<close> is generated: \<open>kind IN ('created','placed','contained')\<close>.\<close>

definition asserts_placement :: "package_event \<Rightarrow> bool" where
  "asserts_placement e \<longleftrightarrow> pe_kind e \<in> {''created'', ''placed'', ''contained''}"

definition placements :: "uuid \<Rightarrow> uuid \<Rightarrow> db \<Rightarrow> package_event list" where
  "placements t pkg s =
     filter (\<lambda>e. pe_package e = pkg \<and> asserts_placement e) (visible pe_tenant t (package_events s))"

definition package_parent_now :: "uuid \<Rightarrow> uuid \<Rightarrow> db \<Rightarrow> uuid option" where
  "package_parent_now t pkg s =
     (case sort_by newest_event (placements t pkg s) of [] \<Rightarrow> None | e # _ \<Rightarrow> pe_parent e)"

text \<open>
  The recursive queries of \<open>nesting\<close>, which stop at 16 rows of depth: upwards the chain of
  parents, downwards the packages whose parent now is the one above.
\<close>

fun up_chain :: "nat \<Rightarrow> (uuid \<Rightarrow> uuid option) \<Rightarrow> uuid \<Rightarrow> uuid list" where
  "up_chain 0 pn x = [x]"
| "up_chain (Suc n) pn x = x # (case pn x of None \<Rightarrow> [] | Some y \<Rightarrow> up_chain n pn y)"

definition children_now :: "uuid \<Rightarrow> db \<Rightarrow> uuid \<Rightarrow> uuid list" where
  "children_now t s d = remdups (map pe_package
     (filter (\<lambda>e. pe_parent e = Some d \<and> asserts_placement e
                \<and> package_parent_now t (pe_package e) s = Some d)
       (visible pe_tenant t (package_events s))))"

fun depth_below :: "nat \<Rightarrow> (uuid \<Rightarrow> uuid list) \<Rightarrow> uuid \<Rightarrow> nat" where
  "depth_below 0 kids x = 1"
| "depth_below (Suc n) kids x = 1 + fold max (map (depth_below n kids) (kids x)) 0"

definition nesting_of :: "uuid \<Rightarrow> uuid \<Rightarrow> uuid \<Rightarrow> db \<Rightarrow> nesting" where
  "nesting_of t child parent s =
     (let up = up_chain 15 (\<lambda>x. package_parent_now t x s) parent;
          down = depth_below 15 (children_now t s) child;
          sides = (case (package_by_id t parent s, package_by_id t child s) of
             (Some p, Some c) \<Rightarrow>
               (package_status_now t (pk_id p) s = Some ''sealed'',
                package_status_now t (pk_id c) s = Some ''sealed'',
                pk_breaks_down p,
                pk_fulfilment p \<noteq> None \<and> pk_fulfilment c \<noteq> pk_fulfilment p)
           | _ \<Rightarrow> (False, False, False, False));
          (parent_sealed, child_sealed, breaks_down, other_order) = sides
      in \<lparr>ng_loops = child \<in> set up, ng_levels = length up + down,
          ng_parent_sealed = parent_sealed, ng_child_sealed = child_sealed,
          ng_parent_breaks_down = breaks_down, ng_other_order = other_order\<rparr>)"

section \<open>A package act\<close>

text \<open>
  What place, contain, seal and open share once their checks pass: claim the act; on a replay
  answer with the event it owns, refusing one of another kind or package; otherwise insert the
  event, update the package row where the act says so, and mark the tenant dirty.
\<close>

definition package_act ::
  "pg \<Rightarrow> caller \<Rightarrow> uuid \<Rightarrow> time \<Rightarrow> package_event \<Rightarrow> (package_row list \<Rightarrow> package_row list) option
   \<Rightarrow> string \<Rightarrow> string list \<Rightarrow> db \<Rightarrow> api_error + ((uuid \<times> string list) \<times> db)" where
  "package_act pg who act occurred_at e update why warnings s =
     (let t = ca_tenant who in
      and_then (claim_act pg
             \<lparr>ne_tenant = t, ne_id = act, ne_site = ca_site who, ne_recorded_by = ca_person who,
              ne_submitted_at = occurred_at\<rparr> s)
        (\<lambda>(a, s1).
           case a of
             Replay \<Rightarrow>
               and_then (require_one_package_event t act s1) (\<lambda>(i, prior_pkg, kind).
                 if kind \<noteq> pe_kind e \<or> prior_pkg \<noteq> pe_package e
                 then Inl (Rejected ''client_event already recorded a different package act'')
                 else Inr ((i, warnings @ [REPLAY_WARNING]), s1))
           | Fresh \<Rightarrow>
               and_then (write_to pg Package_event s1 (insert_package_event e s1)) (\<lambda>s2.
               and_then (case update of
                           None \<Rightarrow> Inr s2
                         | Some f \<Rightarrow> write_to pg Package s2 (s2\<lparr>packages := f (packages s2)\<rparr>)) (\<lambda>s3.
               and_then (write_to pg Projection_dirty s3 (mark_dirty pg t why s3)) (\<lambda>s4.
                 Inr ((pe_id e, warnings), s4))))))"

definition package_event_of ::
  "pg \<Rightarrow> caller \<Rightarrow> uuid \<Rightarrow> time \<Rightarrow> uuid \<Rightarrow> string \<Rightarrow> string \<Rightarrow> package_event" where
  "package_event_of pg who act occurred_at pkg kind source =
     \<lparr>pe_id = minted pg Package_event, pe_tenant = ca_tenant who, pe_event = act, pe_package = pkg,
      pe_kind = kind, pe_source = source, pe_occurred_at = occurred_at, pe_recorded_at = now pg,
      pe_recorded_by = ca_person who, pe_location = None, pe_parent = None, pe_hollow = None,
      pe_spot = None, pe_barcode = None, pe_sscc = None\<rparr>"

lemma package_event_of_simps [simp]:
  "pe_id (package_event_of pg who act w pkg kind src) = minted pg Package_event"
  "pe_tenant (package_event_of pg who act w pkg kind src) = ca_tenant who"
  "pe_event (package_event_of pg who act w pkg kind src) = act"
  "pe_package (package_event_of pg who act w pkg kind src) = pkg"
  "pe_kind (package_event_of pg who act w pkg kind src) = kind"
  "pe_parent (package_event_of pg who act w pkg kind src) = None"
  "pe_location (package_event_of pg who act w pkg kind src) = None"
  by (simp_all add: package_event_of_def)

definition or_scan :: "string option \<Rightarrow> string" where
  "or_scan x = (case x of None \<Rightarrow> ''operator_scan'' | Some y \<Rightarrow> y)"

section \<open>The handlers\<close>

record package_response =
  kp_event :: uuid
  kp_warnings :: "string list"
  kp_status :: "string option"

definition package_ref_of :: "package_row \<Rightarrow> package_ref" where
  "package_ref_of k = \<lparr>kr_id = pk_id k, kr_tenant = pk_tenant k, kr_status = pk_status k,
     kr_resolved_location = pk_location k, kr_parent = pk_parent k\<rparr>"

definition location_ref_of :: "location_row \<Rightarrow> location_ref" where
  "location_ref_of l = \<lparr>lf_id = lo_id l, lf_tenant = lo_tenant l\<rparr>"

definition answered ::
  "uuid \<Rightarrow> uuid \<Rightarrow> api_error + ((uuid \<times> string list) \<times> db) \<Rightarrow> api_error + (package_response \<times> db)" where
  "answered t pkg r = and_then r (\<lambda>((i, ws), s').
     Inr (\<lparr>kp_event = i, kp_warnings = ws, kp_status = package_status_ledger t pkg s'\<rparr>, s'))"

record place_request =
  rq_location :: uuid
  rq_event :: uuid
  rq_occurred_at :: time
  rq_source :: "string option"

definition place_package ::
  "pg \<Rightarrow> caller \<Rightarrow> uuid \<times> place_request \<Rightarrow> db \<Rightarrow> api_error + (package_response \<times> db)" where
  "place_package pg who pr s =
     (let (pkg, req) = pr; t = ca_tenant who; source = or_scan (rq_source req);
          (hard, soft) = check_place
            \<lparr>xe_tenant = t, xe_package = pkg, xe_location = rq_location req, xe_source = source\<rparr>
            (map_option package_ref_of (package_by_id t pkg s))
            (map_option location_ref_of (location_by_id t (rq_location req) s)) in
      if hard \<noteq> []
      then Inl (if hard = [PlacePackageNotFound] \<or> hard = [PlaceLocationNotFound] then NotFound
                else Rejected (join ''; '' (map show_place_problem hard)))
      else answered t pkg (package_act pg who (rq_event req) (rq_occurred_at req)
             ((package_event_of pg who (rq_event req) (rq_occurred_at req) pkg ''placed'' source)
                \<lparr>pe_location := Some (rq_location req)\<rparr>)
             None ''package_place'' (map show_place_problem soft) s))"

record contain_request =
  rn_parent :: uuid
  rn_event :: uuid
  rn_occurred_at :: time
  rn_source :: "string option"
  rn_at :: "(int \<times> int \<times> int \<times> bool) option"

definition contain_package ::
  "pg \<Rightarrow> caller \<Rightarrow> uuid \<times> contain_request \<Rightarrow> db \<Rightarrow> api_error + (package_response \<times> db)" where
  "contain_package pg who pr s =
     (let (pkg, req) = pr; t = ca_tenant who; source = or_scan (rn_source req);
          (hard, soft) = check_contain
            \<lparr>xn_tenant = t, xn_package = pkg, xn_parent = rn_parent req, xn_source = source\<rparr>
            (map_option package_ref_of (package_by_id t pkg s))
            (map_option package_ref_of (package_by_id t (rn_parent req) s))
            (nesting_of t pkg (rn_parent req) s) in
      if hard \<noteq> []
      then Inl (if hard = [ContainPackageNotFound] \<or> hard = [ParentNotFound] then NotFound
                else Rejected (join ''; '' (map show_contain_problem hard)))
      else answered t pkg (package_act pg who (rn_event req) (rn_occurred_at req)
             ((package_event_of pg who (rn_event req) (rn_occurred_at req) pkg ''contained'' source)
                \<lparr>pe_parent := Some (rn_parent req), pe_spot := rn_at req\<rparr>)
             None ''package_contain'' (map show_contain_problem soft) s))"

section \<open>Voiding a package\<close>

record package_act_request =
  rv_event :: uuid
  rv_occurred_at :: time
  rv_source :: "string option"

text \<open>
  What a package holds by the ledger: the effective quantity of the movements into it less that of
  those out of it, over the movements \<open>p\<close> picks.
\<close>

definition package_balance ::
  "(stock_movement \<Rightarrow> bool) \<Rightarrow> uuid \<Rightarrow> uuid \<Rightarrow> db \<Rightarrow> int" where
  "package_balance p t pkg s =
     (let ms = visible mv_tenant t (movements s) in
      sum_list (map (\<lambda>m. if sd_package (mv_to m) = Some pkg
                         then effective_quantity ms m else - effective_quantity ms m)
        (filter (\<lambda>m. mv_reverses m = None \<and> p m
            \<and> (sd_package (mv_to m) = Some pkg \<or> sd_package (mv_from m) = Some pkg)) ms)))"

definition void_refused :: "string option \<Rightarrow> int \<Rightarrow> nat \<Rightarrow> string option" where
  "void_refused status held children =
     (if status = Some ''despatched'' then Some ''that carton has already left''
      else if status = Some ''voided'' then Some ''that carton is already void''
      else if status = Some ''sealed'' then Some ''that carton is sealed; open it before voiding it''
      else if held \<noteq> 0
      then Some (''that carton still holds '' @ show_int held @
                 ''; take the contents out before voiding it, or the stock belongs to something no screen lists'')
      else if children \<noteq> 0
      then Some (''that carton still has '' @ show_nat children @ '' package(s) nested under it'')
      else None)"

definition void_package ::
  "pg \<Rightarrow> caller \<Rightarrow> uuid \<times> package_act_request \<Rightarrow> db \<Rightarrow> api_error + (package_response \<times> db)" where
  "void_package pg who pr s =
     (let (pkg, req) = pr; t = ca_tenant who; source = or_scan (rv_source req) in
      case package_by_id t pkg s of None \<Rightarrow> Inl NotFound | Some k \<Rightarrow>
      and_then (bigint (package_balance (\<lambda>_. True) t pkg s)) (\<lambda>held.
      (case void_refused (pk_status k) held
              (length (filter (\<lambda>c. pk_parent c = Some pkg) (visible pk_tenant t (packages s)))) of
         Some why \<Rightarrow> Inl (Rejected why)
       | None \<Rightarrow> answered t pkg (package_act pg who (rv_event req) (rv_occurred_at req)
             (package_event_of pg who (rv_event req) (rv_occurred_at req) pkg ''voided'' source)
             None ''package_void'' [] s))))"

section \<open>Forests\<close>

text \<open>
  An abstract view of containment: a parent function, climbed a number of steps.  Three levels at
  most and no loop is one statement: nothing has a third ancestor.
\<close>

fun climb :: "nat \<Rightarrow> (uuid \<Rightarrow> uuid option) \<Rightarrow> uuid \<Rightarrow> uuid option" where
  "climb 0 pn x = Some x"
| "climb (Suc n) pn x = (case pn x of None \<Rightarrow> None | Some y \<Rightarrow> climb n pn y)"

definition three_levels :: "(uuid \<Rightarrow> uuid option) \<Rightarrow> bool" where
  "three_levels pn \<longleftrightarrow> (\<forall>x. climb 3 pn x = None)"

lemma climb_add: "climb (m + n) pn x = Option.bind (climb m pn x) (climb n pn)"
  by (induction m arbitrary: x) (auto split: option.splits)

lemma climb_le: "climb n pn x \<noteq> None \<Longrightarrow> m \<le> n \<Longrightarrow> climb m pn x \<noteq> None"
  by (metis bind_eq_None_conv climb_add le_Suc_ex)

text \<open>A forest of three levels has no loop.\<close>

lemma three_levels_acyclic:
  assumes "three_levels pn" and "0 < n"
  shows "climb n pn x \<noteq> Some x"
proof
  assume loop: "climb n pn x = Some x"
  have "climb (n * k) pn x = Some x" for k
    by (induction k) (simp_all add: climb_add loop)
  then have "climb (n * 3) pn x \<noteq> None" by simp
  then have "climb 3 pn x \<noteq> None"
    by (rule climb_le) (use assms(2) in simp)
  with assms(1) show False by (simp add: three_levels_def)
qed

lemma up_chain_climb: "k \<le> n \<Longrightarrow> climb k pn x = Some y \<Longrightarrow> y \<in> set (up_chain n pn x)"
proof (induction n arbitrary: k x)
  case (Suc n)
  show ?case
  proof (cases k)
    case (Suc j)
    then obtain z where "pn x = Some z" "climb j pn z = Some y"
      using Suc.prems(2) by (auto split: option.splits)
    with Suc Suc.IH [of j z] Suc.prems(1) show ?thesis by simp
  qed (use Suc.prems in simp)
qed simp

lemma up_chain_length: "k \<le> n \<Longrightarrow> climb k pn x \<noteq> None \<Longrightarrow> Suc k \<le> length (up_chain n pn x)"
proof (induction n arbitrary: k x)
  case (Suc n)
  show ?case
  proof (cases k)
    case (Suc j)
    then obtain y where "pn x = Some y" "climb j pn y \<noteq> None"
      using Suc.prems(2) by (auto split: option.splits)
    with Suc Suc.IH [of j y] Suc.prems(1) show ?thesis by simp
  qed simp
qed simp

lemma fold_max_ge: "(x::nat) \<in> set xs \<Longrightarrow> x \<le> fold max xs a"
proof (induction xs arbitrary: a)
  case (Cons b xs)
  have "c \<le> fold max xs c" for c :: nat
    by (induction xs arbitrary: c) (auto intro: order_trans [OF max.cobounded2])
  then show ?case using Cons by (auto intro: order_trans [OF max.cobounded1])
qed simp

lemma depth_below_climb:
  assumes kids: "\<And>y d. pn y = Some d \<Longrightarrow> y \<in> set (kids d)"
  shows "k \<le> n \<Longrightarrow> climb k pn x = Some c \<Longrightarrow> Suc k \<le> depth_below n kids c"
proof (induction n arbitrary: k c)
  case (Suc n)
  show ?case
  proof (cases k)
    case (Suc j)
    have "climb (j + 1) pn x = Some c" using Suc Suc.prems by simp
    then obtain y where y: "climb j pn x = Some y" "pn y = Some c"
      unfolding climb_add by (auto simp: bind_eq_Some_conv split: option.splits)
    then have "Suc j \<le> depth_below n kids y" using Suc Suc.prems(1) by (intro Suc.IH) simp_all
    also have "\<dots> \<le> fold max (map (depth_below n kids) (kids c)) 0"
      by (rule fold_max_ge) (use kids [OF y(2)] in simp)
    finally show ?thesis using Suc by simp
  qed simp
qed simp

text \<open>Hanging \<open>c\<close> under \<open>p\<close> keeps the forest when the two queries say it fits.\<close>

lemma climb_other:
  assumes "\<And>j. j < k \<Longrightarrow> climb j pn x \<noteq> Some c"
    and same: "\<And>y. y \<noteq> c \<Longrightarrow> pn' y = pn y"
  shows "climb k pn' x = climb k pn x"
  using assms(1)
proof (induction k arbitrary: x)
  case (Suc k)
  have "x \<noteq> c" using Suc.prems [of 0] by auto
  have "climb k pn' y = climb k pn y" if y: "pn x = Some y" for y
  proof (rule Suc.IH)
    fix j assume "j < k"
    then show "climb j pn y \<noteq> Some c" using Suc.prems [of "Suc j"] y by simp
  qed
  with same [OF \<open>x \<noteq> c\<close>] show ?case by (cases "pn x") simp_all
qed simp

lemma three_levels_contain:
  assumes three: "three_levels pn"
    and kids: "\<And>y d. pn y = Some d \<Longrightarrow> y \<in> set (kids d)"
    and no_loop: "c \<notin> set (up_chain 15 pn p)"
    and fits: "length (up_chain 15 pn p) + depth_below 15 kids c \<le> 3"
    and same: "\<And>y. y \<noteq> c \<Longrightarrow> pn' y = pn y" and new: "pn' c = Some p"
  shows "three_levels pn'"
  unfolding three_levels_def
proof
  fix x
  show "climb 3 pn' x = None"
  proof (cases "\<exists>j < 3. climb j pn x = Some c")
    case False
    then have "climb 3 pn' x = climb 3 pn x" using same by (intro climb_other) blast+
    then show ?thesis using three by (simp add: three_levels_def)
  next
    case True
    define i where "i = (LEAST j. climb j pn x = Some c)"
    have i: "climb i pn x = Some c" "i < 3" and least: "\<And>j. j < i \<Longrightarrow> climb j pn x \<noteq> Some c"
      using True unfolding i_def
      by (auto intro: LeastI dest: not_less_Least) (meson LeastI Least_le le_less_trans)
    have reach: "climb i pn' x = Some c"
      using climb_other [of i pn x c pn'] least same i(1) by simp
    show ?thesis
    proof (rule ccontr)
      assume "climb 3 pn' x \<noteq> None"
      moreover have "climb (i + Suc (2 - i)) pn' x = climb (2 - i) pn' p"
        unfolding climb_add by (simp add: reach new)
      moreover have "i + Suc (2 - i) = 3" using i(2) by simp
      ultimately have above: "climb (2 - i) pn' p \<noteq> None" by metis
      have "climb j pn p \<noteq> Some c" if "j < 2 - i" for j
        using up_chain_climb [of j 15 pn p c] no_loop that by fastforce
      then have "climb (2 - i) pn' p = climb (2 - i) pn p" using same by (rule climb_other)
      with above have "Suc (2 - i) \<le> length (up_chain 15 pn p)"
        by (intro up_chain_length) simp_all
      moreover have "i \<le> 15" using i(2) by simp
      then have "Suc i \<le> depth_below 15 kids c"
        by (rule depth_below_climb [of pn kids i 15 x c, rotated, OF _ i(1)]) (rule kids)
      ultimately show False using fits i(2) by simp
    qed
  qed
qed

lemma climb_detach:
  assumes "\<And>y. pn' y = None \<or> pn' y = pn y"
  shows "climb k pn' x \<noteq> None \<Longrightarrow> climb k pn x \<noteq> None"
proof (induction k arbitrary: x)
  case (Suc k)
  obtain y where y: "pn' x = Some y" "climb k pn' y \<noteq> None"
    using Suc.prems by (cases "pn' x") auto
  then have "pn x = Some y" using assms [of x] by simp
  with Suc.IH [OF y(2)] show ?case by simp
qed simp

lemma three_levels_detach:
  "three_levels pn \<Longrightarrow> (\<And>y. pn' y = None \<or> pn' y = pn y) \<Longrightarrow> three_levels pn'"
  unfolding three_levels_def using climb_detach by blast


section \<open>The forest of a tenant\<close>

definition forest :: "uuid \<Rightarrow> db \<Rightarrow> bool" where
  "forest t s \<longleftrightarrow> three_levels (\<lambda>x. package_parent_now t x s)"

text \<open>What the two queries of \<open>nesting\<close> answer when a containment passes its check.\<close>

definition fits_under :: "uuid \<Rightarrow> uuid \<Rightarrow> uuid \<Rightarrow> db \<Rightarrow> bool" where
  "fits_under t child parent s \<longleftrightarrow>
     \<not> ng_loops (nesting_of t child parent s) \<and> ng_levels (nesting_of t child parent s) \<le> 3"

lemma placements_cong:
  "visible pe_tenant t (package_events s') = visible pe_tenant t (package_events s) \<Longrightarrow>
   placements t x s' = placements t x s"
  by (simp add: placements_def)

lemma forest_cong:
  "visible pe_tenant t (package_events s') = visible pe_tenant t (package_events s) \<Longrightarrow>
   forest t s' = forest t s"
  by (simp add: forest_def package_parent_now_def placements_cong [of t s' s])

lemma children_now_complete:
  assumes "package_parent_now t y s = Some d"
  shows "y \<in> set (children_now t s d)"
proof -
  obtain e es where e: "sort_by newest_event (placements t y s) = e # es" "pe_parent e = Some d"
    using assms by (auto simp: package_parent_now_def split: list.splits)
  have "e \<in> set (placements t y s)" using e(1) by (metis list.set_intros(1) set_sort_by)
  with e(2) assms show ?thesis
    by (auto simp: children_now_def placements_def intro!: rev_image_eqI [where x = e])
qed

text \<open>One more event moves its own package only, and only to what it says.\<close>

lemma package_parent_now_snoc:
  assumes "package_events s' = package_events s @ [e]"
  shows "package_parent_now t x s' = package_parent_now t x s
     \<or> (pe_tenant e = t \<and> x = pe_package e \<and> asserts_placement e
        \<and> package_parent_now t x s' = pe_parent e)"
proof (cases "pe_tenant e = t \<and> x = pe_package e \<and> asserts_placement e")
  case True
  then have p: "placements t x s' = placements t x s @ [e]"
    by (simp add: placements_def visible_def assms)
  show ?thesis
  proof (cases "placements t x s = []")
    case True
    then have "sort_by newest_event (placements t x s') = [e]" by (simp add: p sort_by_def)
    then have "package_parent_now t x s' = pe_parent e" by (simp add: package_parent_now_def)
    with \<open>pe_tenant e = t \<and> x = pe_package e \<and> asserts_placement e\<close> show ?thesis by blast
  next
    case False
    have now: "package_parent_now t x s0 = pe_parent (hd (sort_by newest_event (placements t x s0)))"
      if "placements t x s0 \<noteq> []" for s0
      using that by (cases "sort_by newest_event (placements t x s0)")
        (auto simp: package_parent_now_def)
    show ?thesis
      using newest_events.hd_sort_by_snoc [OF False, of e] True now [OF False] now [of s'] p
      by auto
  qed
next
  case False
  then have "placements t x s' = placements t x s"
    by (auto simp: placements_def visible_def assms)
  then show ?thesis by (simp add: package_parent_now_def)
qed

lemma forest_snoc:
  assumes f: "forest t s" and s': "package_events s' = package_events s @ [e]"
    and fits: "asserts_placement e \<Longrightarrow> pe_parent e = Some p \<Longrightarrow> fits_under (pe_tenant e) (pe_package e) p s"
    and parent: "asserts_placement e \<Longrightarrow> pe_parent e = None \<or> pe_parent e = Some p"
  shows "forest t s'"
proof -
  let ?old = "\<lambda>x. package_parent_now t x s" and ?new = "\<lambda>x. package_parent_now t x s'"
  note one = package_parent_now_snoc [OF s', of t]
  show ?thesis
  proof (cases "?new (pe_package e) = ?old (pe_package e)")
    case True
    then have "?new = ?old" using one by blast
    then show ?thesis using f by (simp add: forest_def)
  next
    case False
    then have e: "pe_tenant e = t" "asserts_placement e" "?new (pe_package e) = pe_parent e"
      using one [of "pe_package e"] by auto
    show ?thesis
    proof (cases "pe_parent e")
      case None
      have "?new y = None \<or> ?new y = ?old y" for y
        using one [of y] e None by (cases "y = pe_package e") auto
      then show ?thesis using f unfolding forest_def by (rule three_levels_detach [rotated])
    next
      case (Some p')
      then have p: "?new (pe_package e) = Some p" and ok: "fits_under t (pe_package e) p s"
        using parent [OF e(2)] fits [OF e(2)] e by auto
      show ?thesis unfolding forest_def
      proof (rule three_levels_contain [where kids = "children_now t s" and c = "pe_package e" and p = p])
        show "three_levels ?old" using f by (simp add: forest_def)
        show "y \<in> set (children_now t s d)" if "?old y = Some d" for y d
          using that by (rule children_now_complete)
        show "pe_package e \<notin> set (up_chain 15 ?old p)"
          and "length (up_chain 15 ?old p) + depth_below 15 (children_now t s) (pe_package e) \<le> 3"
          using ok by (simp_all add: fits_under_def nesting_of_def Let_def split: prod.splits)
        show "?new y = ?old y" if "y \<noteq> pe_package e" for y using one [of y] that by auto
        show "?new (pe_package e) = Some p" by (rule p)
      qed
    qed
  qed
qed

lemma package_events_empty_forest: "package_events s = [] \<Longrightarrow> forest t s"
  by (simp add: forest_def three_levels_def package_parent_now_def placements_def visible_def
      numeral_3_eq_3)

section \<open>What a package act does\<close>

text \<open>The shape of a run: nothing on a replay; the event, the row update and the mark otherwise.\<close>

definition act_new_client_event :: "caller \<Rightarrow> uuid \<Rightarrow> time \<Rightarrow> new_client_event" where
  "act_new_client_event who act w =
     \<lparr>ne_tenant = ca_tenant who, ne_id = act, ne_site = ca_site who,
      ne_recorded_by = ca_person who, ne_submitted_at = w\<rparr>"

lemma package_act_replay:
  assumes "package_act pg who act w e upd why ws s = Inr ((i, ws'), s')"
    and "claimed (ca_tenant who) act s"
  shows "s' = s" and "ws' = ws @ [REPLAY_WARNING]"
    and "require_one_package_event (ca_tenant who) act s = Inr (i, pe_package e, pe_kind e)"
  using assms
  by (auto simp: package_act_def Let_def result_simps claim_act_def split: if_splits)

lemma package_act_fresh:
  assumes run: "package_act pg who act w e upd why ws s = Inr ((i, ws'), s')"
    and fresh: "\<not> claimed (ca_tenant who) act s"
  shows "i = pe_id e \<and> ws' = ws \<and> s' = mark_dirty pg (ca_tenant who) why
     (s\<lparr>client_events := client_events s @ [envelope pg (act_new_client_event who act w)],
        package_events := package_events s @ [e],
        packages := (case upd of None \<Rightarrow> id | Some f \<Rightarrow> f) (packages s)\<rparr>)"
proof -
  obtain a s1 where claim: "claim_act pg (act_new_client_event who act w) s = Inr (a, s1)"
    using run by (auto simp: package_act_def act_new_client_event_def Let_def result_simps)
  have a: "a = Fresh"
    using claim fresh by (cases a) (auto simp: claim_act_Replay act_new_client_event_def)
  have s1: "s1 = s\<lparr>client_events := client_events s @ [envelope pg (act_new_client_event who act w)]\<rparr>"
    using claim a by (simp add: claim_act_Fresh)
  have "and_then (write_to pg Package_event s1 (insert_package_event e s1)) (\<lambda>s2.
      and_then (case upd of None \<Rightarrow> Inr s2
                | Some f \<Rightarrow> write_to pg Package s2 (s2\<lparr>packages := f (packages s2)\<rparr>)) (\<lambda>s3.
      and_then (write_to pg Projection_dirty s3 (mark_dirty pg (ca_tenant who) why s3)) (\<lambda>s4.
        Inr ((pe_id e, ws), s4)))) = Inr ((i, ws'), s')"
    using run claim a by (simp add: package_act_def act_new_client_event_def Let_def)
  then show ?thesis
    unfolding s1 by (cases upd) (auto simp: result_simps row_simps)
qed

text \<open>An update of package rows that leaves every other tenant's rows alone.\<close>

definition own_rows :: "uuid \<Rightarrow> (package_row list \<Rightarrow> package_row list) option \<Rightarrow> bool" where
  "own_rows t upd \<longleftrightarrow> (\<forall>f rows t'. upd = Some f \<longrightarrow> t' \<noteq> t \<longrightarrow>
     visible pk_tenant t' (f rows) = visible pk_tenant t' rows)"

lemma own_rows_simps [simp]:
  "own_rows t None"
  "(\<And>r. pk_tenant (f r) = pk_tenant r) \<Longrightarrow> own_rows t (Some (update_rows pk_tenant pk_id t i p f))"
  by (simp_all add: own_rows_def update_rows_visible_other)

lemma package_act_effect:
  assumes run: "package_act pg who act w e upd why ws s = Inr (v, s')"
    and own: "own_rows (ca_tenant who) upd" "pe_tenant e = ca_tenant who"
  shows "act_effect (ca_tenant who) act s s'" and "claimed (ca_tenant who) act s'"
    and "claimed (ca_tenant who) act s \<Longrightarrow> s' = s"
proof -
  obtain i ws' where v: "v = (i, ws')" by (cases v)
  show same: "s' = s" if "claimed (ca_tenant who) act s"
    using package_act_replay [OF run [unfolded v] that] by simp
  show "act_effect (ca_tenant who) act s s'"
  proof (cases "claimed (ca_tenant who) act s")
    case True
    then show ?thesis using same by (simp add: act_effect_def)
  next
    case False
    let ?s1 = "s\<lparr>client_events := client_events s @ [envelope pg (act_new_client_event who act w)],
        package_events := package_events s @ [e],
        packages := (case upd of None \<Rightarrow> id | Some f \<Rightarrow> f) (packages s)\<rparr>"
    have s': "s' = mark_dirty pg (ca_tenant who) why ?s1"
      using package_act_fresh [OF run [unfolded v] False] by simp
    have "isolated (ca_tenant who) s ?s1"
      using own by (auto simp: isolated_def tenant_view_def visible_def [of ce_tenant]
          visible_def [of pe_tenant] act_new_client_event_def own_rows_def split: option.splits)
    then have "isolated (ca_tenant who) s s'" unfolding s' by (rule isolated_trans) simp
    with False show ?thesis
      by (auto simp: act_effect_def s' act_new_client_event_def intro!: exI [of _ "[]"])
  qed
  show "claimed (ca_tenant who) act s'"
  proof (cases "claimed (ca_tenant who) act s")
    case False
    then show ?thesis
      using package_act_fresh [OF run [unfolded v] False]
      by (simp add: claimed_def act_new_client_event_def)
  qed (use same in simp)
qed

lemma answered_Inr [result_simps]:
  "answered t pkg r = Inr (v, s') \<longleftrightarrow>
   (\<exists>i ws. r = Inr ((i, ws), s')
      \<and> v = \<lparr>kp_event = i, kp_warnings = ws, kp_status = package_status_ledger t pkg s'\<rparr>)"
  by (auto simp: answered_def result_simps)

text \<open>
  The contract of a package handler: it is a strict writer, and any event it adds either places the
  package outside every other or passed the nesting check.
\<close>

definition plants :: "uuid \<Rightarrow> db \<Rightarrow> db \<Rightarrow> bool" where
  "plants t s s' \<longleftrightarrow>
     package_events s' = package_events s
     \<or> (\<exists>e. package_events s' = package_events s @ [e] \<and> pe_tenant e = t
          \<and> (asserts_placement e \<longrightarrow> pe_parent e \<noteq> None \<longrightarrow> fits_under t (pe_package e) (the (pe_parent e)) s))"

lemma plants_forest:
  assumes "plants t s s'" and "forest t' s"
  shows "forest t' s'"
proof (cases "package_events s' = package_events s")
  case True
  then show ?thesis using assms(2) forest_cong by metis
next
  case False
  then obtain e where e: "package_events s' = package_events s @ [e]" "pe_tenant e = t"
      "asserts_placement e \<longrightarrow> pe_parent e \<noteq> None \<longrightarrow> fits_under t (pe_package e) (the (pe_parent e)) s"
    using assms(1) by (auto simp: plants_def)
  show ?thesis
    by (rule forest_snoc [OF assms(2) e(1), where p = "the (pe_parent e)"])
       (use e in \<open>cases "pe_parent e"; simp\<close>)+
qed

locale package_writer = strict_writer +
  assumes plants: "run pg who req s = Inr (v, s') \<Longrightarrow> plants (ca_tenant who) s s'"
begin

lemma attempt_forest: "forest t s \<Longrightarrow> forest t (attempt pg who req s)"
  using attempt_cases [of pg who req s] plants plants_forest by metis

end

lemma package_act_plants:
  assumes run: "package_act pg who act w e upd why ws s = Inr (v, s')"
    and "pe_tenant e = ca_tenant who"
    and "asserts_placement e \<Longrightarrow> pe_parent e \<noteq> None \<Longrightarrow>
      fits_under (ca_tenant who) (pe_package e) (the (pe_parent e)) s"
  shows "plants (ca_tenant who) s s'"
proof -
  obtain i ws' where v: "v = (i, ws')" by (cases v)
  show ?thesis
  proof (cases "claimed (ca_tenant who) act s")
    case True
    then show ?thesis using package_act_replay [OF run [unfolded v] True] by (simp add: plants_def)
  next
    case False
    then show ?thesis
      using package_act_fresh [OF run [unfolded v] False] assms(2,3) by (auto simp: plants_def)
  qed
qed

section \<open>The handlers meet the contract\<close>

lemma place_package_act:
  assumes "place_package pg who (pkg, req) s = Inr (v, s')"
  obtains i ws' ws e where
    "package_act pg who (rq_event req) (rq_occurred_at req) e None ''package_place'' ws s = Inr ((i, ws'), s')"
    "pe_tenant e = ca_tenant who" "pe_package e = pkg" "pe_parent e = None"
    "pe_kind e = ''placed''" "pe_occurred_at e = rq_occurred_at req" "pe_location e = Some (rq_location req)"
  using assms
  by (auto simp: place_package_def Let_def answered_Inr package_event_of_def split: prod.splits if_splits)

lemma contain_package_act:
  assumes "contain_package pg who (pkg, req) s = Inr (v, s')"
  obtains i ws' ws e where
    "package_act pg who (rn_event req) (rn_occurred_at req) e None ''package_contain'' ws s = Inr ((i, ws'), s')"
    "pe_tenant e = ca_tenant who" "pe_package e = pkg" "pe_parent e = Some (rn_parent req)"
    "pe_kind e = ''contained''" "pe_occurred_at e = rn_occurred_at req"
    "fits_under (ca_tenant who) pkg (rn_parent req) s"
proof -
  let ?p = "\<lparr>xn_tenant = ca_tenant who, xn_package = pkg, xn_parent = rn_parent req,
     xn_source = or_scan (rn_source req)\<rparr>"
  let ?c = "check_contain ?p (map_option package_ref_of (package_by_id (ca_tenant who) pkg s))
     (map_option package_ref_of (package_by_id (ca_tenant who) (rn_parent req) s))
     (nesting_of (ca_tenant who) pkg (rn_parent req) s)"
  have "fst ?c = []"
    using assms by (auto simp: contain_package_def Let_def split: prod.splits if_splits)
  then have "fits_under (ca_tenant who) pkg (rn_parent req) s"
    using check_contain_ok [of ?p] by (simp add: fits_under_def)
  then show thesis
    using that assms
    by (auto simp: contain_package_def Let_def answered_Inr package_event_of_def split: prod.splits if_splits)
qed

lemma void_package_act:
  assumes "void_package pg who (pkg, req) s = Inr (v, s')"
  obtains i ws' e where
    "package_act pg who (rv_event req) (rv_occurred_at req) e None ''package_void'' [] s = Inr ((i, ws'), s')"
    "pe_tenant e = ca_tenant who" "pe_package e = pkg" "pe_kind e = ''voided''"
    "package_balance (\<lambda>_. True) (ca_tenant who) pkg s = 0"
    "\<forall>c \<in> set (packages s). pk_tenant c = ca_tenant who \<longrightarrow> pk_parent c \<noteq> Some pkg"
  using assms
  by (auto simp: void_package_def void_refused_def Let_def answered_Inr package_event_of_def
      filter_eq_Nil_iff visible_def bigint_def and_then_def split: option.splits if_splits)

text \<open>A handler whose writing is one package act meets the contract.\<close>

definition runs_package_act :: "pg \<Rightarrow> caller \<Rightarrow> uuid \<Rightarrow> db \<Rightarrow> db \<Rightarrow> bool" where
  "runs_package_act pg who act s s' \<longleftrightarrow>
     (\<exists>w e upd why ws r. package_act pg who act w e upd why ws s = Inr (r, s')
        \<and> own_rows (ca_tenant who) upd \<and> pe_tenant e = ca_tenant who
        \<and> (asserts_placement e \<longrightarrow> pe_parent e \<noteq> None \<longrightarrow>
             fits_under (ca_tenant who) (pe_package e) (the (pe_parent e)) s))"

lemma runs_package_actI:
  "package_act pg who act w e upd why ws s = Inr (r, s') \<Longrightarrow> own_rows (ca_tenant who) upd \<Longrightarrow>
   pe_tenant e = ca_tenant who \<Longrightarrow>
   (asserts_placement e \<Longrightarrow> pe_parent e \<noteq> None \<Longrightarrow>
     fits_under (ca_tenant who) (pe_package e) (the (pe_parent e)) s) \<Longrightarrow>
   runs_package_act pg who act s s'"
  unfolding runs_package_act_def by blast

lemma package_writer_if_act:
  assumes "\<And>pg who req s v s'. run pg who req s = Inr (v, s') \<Longrightarrow> runs_package_act pg who (act_of req) s s'"
  shows "package_writer run act_of"
proof
  fix pg who req s v s'
  assume "run pg who req s = Inr (v, s')"
  then obtain w e upd why ws r where
      run: "package_act pg who (act_of req) w e upd why ws s = Inr (r, s')"
      and own: "own_rows (ca_tenant who) upd" "pe_tenant e = ca_tenant who"
      and fits: "asserts_placement e \<Longrightarrow> pe_parent e \<noteq> None \<Longrightarrow>
        fits_under (ca_tenant who) (pe_package e) (the (pe_parent e)) s"
    using assms unfolding runs_package_act_def by blast
  show "act_effect (ca_tenant who) (act_of req) s s'" by (rule package_act_effect(1) [OF run own])
  show "claimed (ca_tenant who) (act_of req) s'" by (rule package_act_effect(2) [OF run own])
  show "s' = s" if "claimed (ca_tenant who) (act_of req) s"
    by (rule package_act_effect(3) [OF run own that])
  show "plants (ca_tenant who) s s'" by (rule package_act_plants [OF run own(2) fits])
qed

abbreviation act_in :: "('r \<Rightarrow> uuid) \<Rightarrow> uuid \<times> 'r \<Rightarrow> uuid" where
  "act_in f pr \<equiv> f (snd pr)"

lemma place_runs_act:
  assumes "place_package pg who pr s = Inr (v, s')"
  shows "runs_package_act pg who (act_in rq_event pr) s s'"
proof -
  have run: "place_package pg who (fst pr, snd pr) s = Inr (v, s')" using assms by simp
  show ?thesis
    by (rule place_package_act [OF run]) (erule runs_package_actI, auto)
qed

lemma contain_runs_act:
  assumes "contain_package pg who pr s = Inr (v, s')"
  shows "runs_package_act pg who (act_in rn_event pr) s s'"
proof -
  have run: "contain_package pg who (fst pr, snd pr) s = Inr (v, s')" using assms by simp
  show ?thesis
    by (rule contain_package_act [OF run]) (erule runs_package_actI, auto)
qed

lemma void_runs_act:
  assumes "void_package pg who pr s = Inr (v, s')"
  shows "runs_package_act pg who (act_in rv_event pr) s s'"
proof -
  have run: "void_package pg who (fst pr, snd pr) s = Inr (v, s')" using assms by simp
  show ?thesis
    by (rule void_package_act [OF run]) (erule runs_package_actI, auto simp: asserts_placement_def)
qed

interpretation place_writer: package_writer place_package "act_in rq_event"
  by (rule package_writer_if_act) (rule place_runs_act)

interpretation contain_writer: package_writer contain_package "act_in rn_event"
  by (rule package_writer_if_act) (rule contain_runs_act)

interpretation void_writer: package_writer void_package "act_in rv_event"
  by (rule package_writer_if_act) (rule void_runs_act)

section \<open>Properties\<close>

lemma newest_head:
  shows "(\<forall>o' \<in> set xs. pe_occurred_at o' < pe_occurred_at e) \<Longrightarrow>
      hd (sort_by newest_event (xs @ [e])) = e"
    and "(\<exists>o' \<in> set xs. pe_occurred_at e < pe_occurred_at o') \<Longrightarrow>
      hd (sort_by newest_event (xs @ [e])) = hd (sort_by newest_event xs)"
proof -
  let ?h = "hd (sort_by newest_event (xs @ [e]))"
  have mem: "?h \<in> set (xs @ [e])"
    by (metis append_is_Nil_conv hd_in_set list.discI set_sort_by sort_by_eq_Nil)
  have least: "newest_event ?h y \<noteq> Greater" if "y \<in> set (xs @ [e])" for y
    using that by (rule newest_events.hd_sort_by_least [rotated]) simp
  show "?h = e" if "\<forall>o' \<in> set xs. pe_occurred_at o' < pe_occurred_at e"
  proof (rule ccontr)
    assume "?h \<noteq> e"
    then have "pe_occurred_at ?h < pe_occurred_at e" using mem that by auto
    then show False using least [of e] by (simp add: newest_event_def cmp_def then_cmp_def)
  qed
  show "?h = hd (sort_by newest_event xs)" if new: "\<exists>o' \<in> set xs. pe_occurred_at e < pe_occurred_at o'"
  proof -
    obtain y where y: "y \<in> set xs" "pe_occurred_at e < pe_occurred_at y" using new by blast
    have "?h \<noteq> e" using least [of y] y by (auto simp: newest_event_def cmp_def then_cmp_def)
    moreover have "xs \<noteq> []" using y by auto
    ultimately show ?thesis using newest_events.hd_sort_by_snoc [of xs e] by metis
  qed
qed

lemma package_parent_now_hd:
  "placements t x s \<noteq> [] \<Longrightarrow>
   package_parent_now t x s = pe_parent (hd (sort_by newest_event (placements t x s)))"
  by (cases "sort_by newest_event (placements t x s)") (auto simp: package_parent_now_def)

lemma newest_wins:
  assumes "package_events s' = package_events s @ [e]"
    and "pe_tenant e = t" "pe_package e = x" "asserts_placement e"
  shows "(\<forall>o' \<in> set (placements t x s). pe_occurred_at o' < pe_occurred_at e) \<Longrightarrow>
      package_parent_now t x s' = pe_parent e"
    and "(\<exists>o' \<in> set (placements t x s). pe_occurred_at e < pe_occurred_at o') \<Longrightarrow>
      package_parent_now t x s' = package_parent_now t x s"
proof -
  have p: "placements t x s' = placements t x s @ [e]"
    using assms by (simp add: placements_def visible_def)
  then have ne: "placements t x s' \<noteq> []" by simp
  show "package_parent_now t x s' = pe_parent e"
    if "\<forall>o' \<in> set (placements t x s). pe_occurred_at o' < pe_occurred_at e"
    using newest_head(1) [OF that] package_parent_now_hd [OF ne] p by simp
  show "package_parent_now t x s' = package_parent_now t x s"
    if old: "\<exists>o' \<in> set (placements t x s). pe_occurred_at e < pe_occurred_at o'"
  proof -
    have "placements t x s \<noteq> []" using old by auto
    then show ?thesis
      using newest_head(2) [OF old] package_parent_now_hd [OF ne] package_parent_now_hd [of t x s] p
      by simp
  qed
qed

text \<open>The same for the status, over the events that carry one.\<close>

definition status_events :: "uuid \<Rightarrow> uuid \<Rightarrow> db \<Rightarrow> package_event list" where
  "status_events t pkg s =
     filter (\<lambda>e. pe_package e = pkg \<and> pe_kind e \<in> set status_kinds) (visible pe_tenant t (package_events s))"

lemma newest_status:
  assumes ev: "package_events s' = package_events s @ [e]"
    and e: "pe_tenant e = t" "pe_package e = x" "pe_kind e \<in> set status_kinds"
  shows "(\<forall>o' \<in> set (status_events t x s). pe_occurred_at o' < pe_occurred_at e) \<Longrightarrow>
      package_status_now t x s' = Some (pe_kind e)"
    and "(\<exists>o' \<in> set (status_events t x s). pe_occurred_at e < pe_occurred_at o') \<Longrightarrow>
      package_status_now t x s' = package_status_now t x s"
proof -
  have p: "status_events t x s' = status_events t x s @ [e]"
    using e by (simp add: status_events_def visible_def ev)
  have now: "package_status_now t x s0 = Some (pe_kind (hd (sort_by newest_event (status_events t x s0))))"
    if "status_events t x s0 \<noteq> []" for s0
    using that unfolding package_status_now_def status_events_def [symmetric]
    by (cases "sort_by newest_event (status_events t x s0)") auto
  have ne: "status_events t x s' \<noteq> []" using p by simp
  show "package_status_now t x s' = Some (pe_kind e)"
    if "\<forall>o' \<in> set (status_events t x s). pe_occurred_at o' < pe_occurred_at e"
    using newest_head(1) [OF that] now [OF ne] p by simp
  show "package_status_now t x s' = package_status_now t x s"
    if old: "\<exists>o' \<in> set (status_events t x s). pe_occurred_at e < pe_occurred_at o'"
  proof -
    have "status_events t x s \<noteq> []" using old by auto
    then show ?thesis using newest_head(2) [OF old] now [OF ne] now [of s] p by simp
  qed
qed

text \<open>
  A recorded containment compares and sets on the device's clock.  It moves the package under the
  new parent when every placement so far is older by that clock, changes nothing when one of them is
  newer, and in both cases leaves every other package where it is, the package rows as they are, and
  the ledger untouched.
\<close>

theorem contain_package_compare_and_set:
  assumes run: "contain_package pg who (pkg, req) s = Inr (v, s')"
    and fresh: "\<not> claimed (ca_tenant who) (rn_event req) s"
  shows "((\<forall>e \<in> set (placements (ca_tenant who) pkg s). pe_occurred_at e < rn_occurred_at req) \<longrightarrow>
            package_parent_now (ca_tenant who) pkg s' = Some (rn_parent req))
    \<and> ((\<exists>e \<in> set (placements (ca_tenant who) pkg s). rn_occurred_at req < pe_occurred_at e) \<longrightarrow>
            package_parent_now (ca_tenant who) pkg s' = package_parent_now (ca_tenant who) pkg s)
    \<and> (\<forall>t x. t \<noteq> ca_tenant who \<or> x \<noteq> pkg \<longrightarrow> package_parent_now t x s' = package_parent_now t x s)
    \<and> packages s' = packages s \<and> movements s' = movements s"
proof (rule contain_package_act [OF run])
  fix i ws' ws e
  assume act: "package_act pg who (rn_event req) (rn_occurred_at req) e None ''package_contain'' ws s
      = Inr ((i, ws'), s')"
    and e: "pe_tenant e = ca_tenant who" "pe_package e = pkg" "pe_parent e = Some (rn_parent req)"
      "pe_kind e = ''contained''" "pe_occurred_at e = rn_occurred_at req"
  note s' = package_act_fresh [OF act fresh]
  have ev: "package_events s' = package_events s @ [e]" using s' by simp
  have "asserts_placement e" using e by (simp add: asserts_placement_def)
  note wins = newest_wins [OF ev e(1,2) this]
  show ?thesis
    using wins package_parent_now_snoc [OF ev] e s' by auto
qed

definition sample_package :: "uuid \<Rightarrow> package_row" where
  "sample_package i = \<lparr>pk_id = i, pk_tenant = 10, pk_status = None, pk_location = Some 2,
     pk_parent = None, pk_fulfilment = None, pk_sealed_at = None, pk_breaks_down = False, pk_barcode = None, pk_type = None, pk_sequence = None,
       pk_config = None, pk_own_item = None, pk_own_level = None, pk_carrier = None, pk_rules = None\<rparr>"

definition packed_db :: db where
  "packed_db = sample_db\<lparr>packages := [sample_package 5, sample_package 6]\<rparr>"

definition sample_contain :: contain_request where
  "sample_contain = \<lparr>rn_parent = 6, rn_event = 601, rn_occurred_at = 8, rn_source = None, rn_at = None\<rparr>"

definition sample_void :: package_act_request where
  "sample_void = \<lparr>rv_event = 602, rv_occurred_at = 9, rv_source = None\<rparr>"

theorem contain_package_compare_and_set_witness:
  "\<exists>v s'. contain_package sample_pg sample_caller (5, sample_contain) packed_db = Inr (v, s')
     \<and> package_parent_now 10 5 s' = Some 6"
proof -
  have "\<not> isl (contain_package sample_pg sample_caller (5, sample_contain) packed_db)" by code_simp
  then obtain v s' where run:
      "contain_package sample_pg sample_caller (5, sample_contain) packed_db = Inr (v, s')"
    by (cases "contain_package sample_pg sample_caller (5, sample_contain) packed_db") auto
  have "\<not> claimed (ca_tenant sample_caller) (rn_event sample_contain) packed_db" by code_simp
  moreover have "placements (ca_tenant sample_caller) 5 packed_db = []" by code_simp
  ultimately have "package_parent_now 10 5 s' = Some 6"
    using contain_package_compare_and_set [OF run]
    by (simp add: sample_contain_def sample_caller_def)
  with run show ?thesis by blast
qed



text \<open>
  The nested-package guard of a void reads the folded parent column, so a package contained a
  moment earlier, before the fold has run, does not stop it: the parent is voided by the log while
  the child is inside it by the log.
\<close>

theorem void_package_misses_unfolded_child:
  "case contain_package sample_pg sample_caller (5, sample_contain) packed_db of
     Inl _ \<Rightarrow> False
   | Inr (_, s1) \<Rightarrow>
       (case void_package (willing_pg (\<lambda>_. 78)) sample_caller (6, sample_void) s1 of
          Inl _ \<Rightarrow> False
        | Inr (_, s2) \<Rightarrow> package_parent_now 10 5 s2 = Some 6
            \<and> package_status_now 10 6 s2 = Some ''voided'')"
  by code_simp

end
