(* ===== verification/Despatching.thy ===== *)
theory Despatching
  imports Packages
begin

text \<open>
  Sealing, opening and despatching packages: \<^verbatim>\<open>despatching.rs\<close>, the query \<open>unchecked_in\<close> of
  \<^verbatim>\<open>checking.rs\<close>, and the handlers \<open>seal_package\<close>, \<open>open_package\<close>, \<open>despatch_itself\<close> and
  \<open>despatch_package\<close> of \<^verbatim>\<open>routes.rs\<close>.  A seal, an open and a despatch are events; a despatch is
  also one ledger row with no destination, and that row is what the line's progress counts.
\<close>

section \<open>Sealing: the decision\<close>

record package_state =
  kt_id :: uuid
  kt_tenant :: uuid
  kt_status :: "string option"

record proposed_seal =
  xz_tenant :: uuid
  xz_package :: uuid
  xz_source :: string

datatype seal_problem =
    SealPackageNotFound | SealDifferentTenant | SealInvalidSource | AlreadySealed
  | Unchecked "string list"

fun show_seal_problem :: "seal_problem \<Rightarrow> string" where
  "show_seal_problem SealPackageNotFound = ''the package was not found''"
| "show_seal_problem SealDifferentTenant = ''the package belongs to another tenant''"
| "show_seal_problem SealInvalidSource =
     ''source must be one of operator_scan, label, asn, derived, correction, keyed''"
| "show_seal_problem AlreadySealed =
     ''the package is already sealed or despatched; a second seal event is still recorded if you insist, but the fold will not move''"
| "show_seal_problem (Unchecked codes) =
     ''sealed with '' @ join '', '' codes @ '' not checked at the bench''"

declare show_seal_problem.simps [simp del]

fun seal_is_hard :: "seal_problem \<Rightarrow> bool" where
  "seal_is_hard AlreadySealed = False"
| "seal_is_hard (Unchecked codes) = False"
| "seal_is_hard p = True"

definition check_seal :: "proposed_seal \<Rightarrow> package_state option \<Rightarrow> string list \<Rightarrow> seal_problem list" where
  "check_seal p package unchecked =
     (if unchecked \<noteq> [] then [Unchecked unchecked] else [])
     @ (if xz_source p \<notin> set SOURCES then [SealInvalidSource] else [])
     @ (case package of None \<Rightarrow> [SealPackageNotFound] | Some k \<Rightarrow>
          (if kt_tenant k \<noteq> xz_tenant p then [SealDifferentTenant] else [])
          @ (if kt_status k = Some ''sealed'' \<or> kt_status k = Some ''despatched''
             then [AlreadySealed] else []))"

section \<open>Opening: the decision\<close>

record proposed_open =
  xo_tenant :: uuid
  xo_package :: uuid
  xo_source :: string

datatype open_problem =
    OpenPackageNotFound | OpenDifferentTenant | OpenInvalidSource | Terminal string
  | NotSealed | AlreadyOpen

fun show_open_problem :: "open_problem \<Rightarrow> string" where
  "show_open_problem OpenPackageNotFound = ''the package was not found''"
| "show_open_problem OpenDifferentTenant = ''the package belongs to another tenant''"
| "show_open_problem OpenInvalidSource =
     ''source must be one of operator_scan, label, asn, derived, correction, keyed''"
| "show_open_problem (Terminal status) =
     ''a package in status '' @ status @ '' cannot be opened; despatched and voided packages leave this path''"
| "show_open_problem NotSealed =
     ''the package is not projected as sealed; the open event is still recorded for rework if the floor says so (D5)''"
| "show_open_problem AlreadyOpen =
     ''the package is already projected as opened; a second open event is still recorded and the fold is compare-and-set (J6)''"

declare show_open_problem.simps [simp del]

definition open_is_hard :: "open_problem \<Rightarrow> bool" where
  "open_is_hard p \<longleftrightarrow> p \<noteq> NotSealed \<and> p \<noteq> AlreadyOpen"

definition check_open :: "proposed_open \<Rightarrow> package_state option \<Rightarrow> open_problem list" where
  "check_open p package =
     (if xo_source p \<notin> set SOURCES then [OpenInvalidSource] else [])
     @ (case package of None \<Rightarrow> [OpenPackageNotFound] | Some k \<Rightarrow>
          (if kt_tenant k \<noteq> xo_tenant p then [OpenDifferentTenant] else [])
          @ (if terminal (kt_status k) then [Terminal (the (kt_status k))]
             else if kt_status k = Some ''opened'' then [AlreadyOpen]
             else if kt_status k = Some ''sealed'' then []
             else [NotSealed]))"

section \<open>Despatching: the decision\<close>

record proposed_despatch =
  xd_tenant :: uuid
  xd_package :: uuid
  xd_line :: uuid
  xd_quantity :: i64
  xd_source :: string

record despatch_line =
  dl_id :: uuid
  dl_tenant :: uuid
  dl_item :: uuid
  dl_quantity :: i64
  dl_despatched :: i64
  dl_cancelled :: bool

datatype despatch_problem =
    NothingToDespatch | DespatchPackageNotFound | DespatchLineNotFound | DespatchStockNotFound
  | DespatchDifferentTenant | DespatchLineCancelled | WrongPackage
  | DespatchOver i64 i64 \<comment> \<open>available, proposed\<close>
  | LineAlreadyDespatched | DespatchInvalidSource

fun show_despatch_problem :: "despatch_problem \<Rightarrow> string" where
  "show_despatch_problem NothingToDespatch = ''a despatch of no units is not a despatch''"
| "show_despatch_problem DespatchPackageNotFound = ''the package was not found''"
| "show_despatch_problem DespatchLineNotFound = ''the fulfilment line was not found''"
| "show_despatch_problem DespatchStockNotFound =
     ''no stock cell in the package matches the line's item''"
| "show_despatch_problem DespatchDifferentTenant =
     ''the package, line or cell belongs to another tenant''"
| "show_despatch_problem DespatchLineCancelled =
     ''the fulfilment is cancelled; nothing is left to despatch''"
| "show_despatch_problem WrongPackage = ''the stock cell is not held in this package''"
| "show_despatch_problem (DespatchOver available proposed) =
     ''despatching '' @ show_int proposed @ '' from a cell of '' @ show_int available @
     ''; the write is still recorded (D5) and the short is a finding rather than a refusal''"
| "show_despatch_problem LineAlreadyDespatched =
     ''the line's despatched quantity already meets its commitment; the movement is still recorded if it happened on the floor''"
| "show_despatch_problem DespatchInvalidSource =
     ''source must be one of operator_scan, label, asn, derived, correction, keyed''"

declare show_despatch_problem.simps [simp del]

fun despatch_is_hard :: "despatch_problem \<Rightarrow> bool" where
  "despatch_is_hard (DespatchOver available proposed) = False"
| "despatch_is_hard LineAlreadyDespatched = False"
| "despatch_is_hard p = True"

definition check_despatch ::
  "proposed_despatch \<Rightarrow> package_state option \<Rightarrow> despatch_line option \<Rightarrow> stock_row option
   \<Rightarrow> despatch_problem list" where
  "check_despatch p package line cell =
     (if xd_quantity p \<le> 0 then [NothingToDespatch] else [])
     @ (if xd_source p \<notin> set SOURCES then [DespatchInvalidSource] else [])
     @ (case package of None \<Rightarrow> [DespatchPackageNotFound] | Some k \<Rightarrow>
       (case line of None \<Rightarrow> [DespatchLineNotFound] | Some l \<Rightarrow>
       (case cell of None \<Rightarrow> [DespatchStockNotFound] | Some c \<Rightarrow>
          (if kt_tenant k \<noteq> xd_tenant p \<or> dl_tenant l \<noteq> xd_tenant p \<or> sk_tenant c \<noteq> xd_tenant p
           then [DespatchDifferentTenant] else [])
          @ (if dl_cancelled l then [DespatchLineCancelled] else [])
          @ (if sk_package c \<noteq> Some (kt_id k) then [WrongPackage] else [])
          @ (if xd_quantity p > sk_quantity c then [DespatchOver (sk_quantity c) (xd_quantity p)] else [])
          @ (if dl_despatched l \<ge> dl_quantity l then [LineAlreadyDespatched] else []))))"

lemma check_despatch_no_hard:
  "filter despatch_is_hard (check_despatch p package line cell) = [] \<longleftrightarrow>
   0 < xd_quantity p \<and> xd_source p \<in> set SOURCES \<and>
   (\<exists>k l c. package = Some k \<and> line = Some l \<and> cell = Some c
      \<and> kt_tenant k = xd_tenant p \<and> dl_tenant l = xd_tenant p \<and> sk_tenant c = xd_tenant p
      \<and> \<not> dl_cancelled l \<and> sk_package c = Some (kt_id k))"
  by (auto simp: check_despatch_def check_defs split: option.splits)

section \<open>Seal and open: the handlers\<close>

text \<open>
  \<open>unchecked_in\<close>: the content of the package grouped by line and code, the groups with units and no
  check on the line, in the order of their codes.
\<close>

definition unchecked_groups :: "uuid \<Rightarrow> uuid \<Rightarrow> db \<Rightarrow> ((uuid \<times> string) \<times> int) list" where
  "unchecked_groups t pkg s = concat (map (\<lambda>((p, line, item, lot), q).
     if p \<noteq> pkg \<or> (\<exists>k \<in> set (visible kc_tenant t (pack_checks s)). kc_line k = line) then []
     else map (\<lambda>i. ((line, it_code i), q))
            (filter (\<lambda>i. it_id i = item) (visible it_tenant t (items s))))
     (package_line_content t s))"

definition unchecked_in :: "pg \<Rightarrow> uuid \<Rightarrow> uuid \<Rightarrow> db \<Rightarrow> string list" where
  "unchecked_in pg t pkg s =
     (let rows = unchecked_groups t pkg s;
          groups = filter (\<lambda>g. sum_list (map snd (filter (\<lambda>r. fst r = g) rows)) > 0)
                     (remdups (map fst rows))
      in map snd (sort_by (\<lambda>a b. collates pg (snd a) (snd b)) groups))"

definition package_state_of :: "package_row \<Rightarrow> package_state" where
  "package_state_of k = \<lparr>kt_id = pk_id k, kt_tenant = pk_tenant k, kt_status = pk_status k\<rparr>"

record seal_request =
  rz_event :: uuid
  rz_occurred_at :: time
  rz_source :: "string option"
  rz_hollow :: "bool option"

definition seal_package ::
  "pg \<Rightarrow> caller \<Rightarrow> uuid \<times> seal_request \<Rightarrow> db \<Rightarrow> api_error + (package_response \<times> db)" where
  "seal_package pg who pr s =
     (let (pkg, req) = pr; t = ca_tenant who; source = or_scan (rz_source req) in
      and_then (hard_or_warnings seal_is_hard (join ''; '') show_seal_problem
                 (check_seal \<lparr>xz_tenant = t, xz_package = pkg, xz_source = source\<rparr>
                   (map_option package_state_of (package_by_id t pkg s)) (unchecked_in pg t pkg s)))
        (\<lambda>warnings. answered t pkg (package_act pg who (rz_event req) (rz_occurred_at req)
           ((package_event_of pg who (rz_event req) (rz_occurred_at req) pkg ''sealed'' source)
              \<lparr>pe_hollow := rz_hollow req\<rparr>)
           (Some (update_rows pk_tenant pk_id t pkg (\<lambda>k. pk_sealed_at k = None)
              (\<lambda>k. k\<lparr>pk_sealed_at := Some (rz_occurred_at req)\<rparr>)))
           ''seal'' warnings s)))"

definition open_package ::
  "pg \<Rightarrow> caller \<Rightarrow> uuid \<times> package_act_request \<Rightarrow> db \<Rightarrow> api_error + (package_response \<times> db)" where
  "open_package pg who pr s =
     (let (pkg, req) = pr; t = ca_tenant who; source = or_scan (rv_source req);
          problems = check_open \<lparr>xo_tenant = t, xo_package = pkg, xo_source = source\<rparr>
             (map_option package_state_of (package_by_id t pkg s));
          hard = filter open_is_hard problems in
      if hard \<noteq> []
      then Inl (if hard = [OpenPackageNotFound] then NotFound
                else Rejected (join ''; '' (map show_open_problem hard)))
      else answered t pkg (package_act pg who (rv_event req) (rv_occurred_at req)
           (package_event_of pg who (rv_event req) (rv_occurred_at req) pkg ''opened'' source)
           (Some (update_rows pk_tenant pk_id t pkg (\<lambda>_. True) (\<lambda>k. k\<lparr>pk_sealed_at := None\<rparr>)))
           ''package_open'' (map show_open_problem (filter (\<lambda>p. \<not> open_is_hard p) problems)) s))"

section \<open>Despatch: the handlers\<close>

record despatch_request =
  rd_line :: "uuid option"
  rd_quantity :: i64
  rd_from_stock :: "uuid option"
  rd_event :: uuid
  rd_occurred_at :: time
  rd_source :: "string option"

definition despatch_itself ::
  "pg \<Rightarrow> caller \<Rightarrow> uuid \<times> despatch_request \<Rightarrow> db \<Rightarrow> api_error + (package_response \<times> db)" where
  "despatch_itself pg who pr s =
     (let (pkg, req) = pr; t = ca_tenant who; source = or_scan (rd_source req) in
      case package_by_id t pkg s of None \<Rightarrow> Inl NotFound | Some k \<Rightarrow>
      (let status = package_status_now t pkg s in
       if status = Some ''voided'' then Inl (Rejected ''the package is voided'') else
       and_then (bigint (package_balance (\<lambda>m. mv_line m \<noteq> None) t pkg s)) (\<lambda>own.
         answered t pkg (package_act pg who (rd_event req) (rd_occurred_at req)
           (package_event_of pg who (rd_event req) (rd_occurred_at req) pkg ''despatched'' source)
           None ''despatch''
           ((if status = Some ''despatched'' then [''the package is despatched already''] else [])
            @ (if own > 0 then [''it still holds '' @ show_int own @
                 '' units of its own: despatch their lines too''] else [])) s))))"

record despatch_response =
  dr_event :: uuid
  dr_movement :: uuid
  dr_warnings :: "string list"
  dr_ledger :: progress
  dr_projection :: projection_progress
  dr_status :: "string option"

definition load_despatch_line :: "uuid \<Rightarrow> uuid \<Rightarrow> db \<Rightarrow> despatch_line option" where
  "load_despatch_line t i s = map_option (\<lambda>(l, item, cancelled).
     \<lparr>dl_id = fl_id l, dl_tenant = fl_tenant l, dl_item = item, dl_quantity = fl_quantity l,
      dl_despatched = fl_despatched l, dl_cancelled = cancelled\<rparr>) (line_joined t i s)"

text \<open>The cell the units leave: the one named, or the lowest id the package holds of the line's item.\<close>

definition despatch_cell ::
  "uuid \<Rightarrow> uuid \<Rightarrow> uuid option \<Rightarrow> despatch_line option \<Rightarrow> db \<Rightarrow> stock_row option" where
  "despatch_cell t pkg from_stock line s =
     (case from_stock of
        Some i \<Rightarrow> stock_by_id t i s
      | None \<Rightarrow>
          (case line of None \<Rightarrow> None
           | Some l \<Rightarrow>
               (case sort_by (\<lambda>a b. cmp (sk_id a) (sk_id b))
                       (filter (\<lambda>k. sk_package k = Some pkg \<and> sk_item k = dl_item l \<and> sk_quantity k > 0)
                         (visible sk_tenant t (stock s))) of
                  [] \<Rightarrow> None | k # _ \<Rightarrow> Some k)))"

definition despatch_movement ::
  "pg \<Rightarrow> caller \<Rightarrow> uuid \<Rightarrow> uuid \<Rightarrow> despatch_request \<Rightarrow> stock_row \<Rightarrow> stock_movement" where
  "despatch_movement pg who pkg line req c =
     \<lparr>mv_id = minted pg Stock_movement, mv_tenant = ca_tenant who, mv_event = rd_event req,
      mv_item = sk_item c, mv_quantity = rd_quantity req,
      mv_from = \<lparr>sd_location = None, sd_package = Some pkg, sd_lot = sk_lot c,
                 sd_status = Some (sk_status c), sd_owner = Some (sk_owner c)\<rparr>,
      mv_to = no_side, mv_reason = ''despatch'', mv_occurred_at = rd_occurred_at req,
      mv_recorded_by = ca_person who, mv_reverses = None, mv_adjustment_reason = None,
      mv_line = Some line, mv_receipt_line = None, mv_external_pick = None\<rparr>"

definition despatch_response_of ::
  "uuid \<Rightarrow> uuid \<Rightarrow> uuid \<Rightarrow> i64 \<Rightarrow> uuid \<Rightarrow> uuid \<Rightarrow> string list \<Rightarrow> db \<Rightarrow> api_error + despatch_response" where
  "despatch_response_of t pkg line commitment e m warnings s =
     and_then (ok_or (line_by_id t line s) Database) (\<lambda>p.
       Inr \<lparr>dr_event = e, dr_movement = m, dr_warnings = warnings,
            dr_ledger = line_progress_ledger t line commitment s,
            dr_projection = line_progress_projection t (fl_covered p) (fl_picked p) (fl_packed p)
              (fl_despatched p) (fl_uncovered p) s,
            dr_status = package_status_ledger t pkg s\<rparr>)"

definition despatch_line_tx ::
  "pg \<Rightarrow> caller \<Rightarrow> uuid \<Rightarrow> uuid \<Rightarrow> despatch_request \<Rightarrow> db \<Rightarrow> api_error + (despatch_response \<times> db)" where
  "despatch_line_tx pg who pkg line_id req s =
     (let t = ca_tenant who; source = or_scan (rd_source req);
          line = load_despatch_line t line_id s;
          cell = despatch_cell t pkg (rd_from_stock req) line s in
      and_then (hard_or_warnings despatch_is_hard (join ''; '') show_despatch_problem
                  (check_despatch \<lparr>xd_tenant = t, xd_package = pkg, xd_line = line_id,
                      xd_quantity = rd_quantity req, xd_source = source\<rparr>
                    (map_option package_state_of (package_by_id t pkg s)) line cell)) (\<lambda>warnings.
      and_then (ok_or cell Panicked) (\<lambda>c.
      and_then (ok_or line Panicked) (\<lambda>l.
      and_then (claim_act pg
                  \<lparr>ne_tenant = t, ne_id = rd_event req, ne_site = ca_site who,
                   ne_recorded_by = ca_person who, ne_submitted_at = rd_occurred_at req\<rparr> s)
        (\<lambda>(act, s1).
           and_then
             (case act of
                Replay \<Rightarrow>
                  and_then (require_despatch_facts t (rd_event req) s1) (\<lambda>(e, m).
                  and_then (require_one_movement t (rd_event req) s1) (\<lambda>(_, qty).
                  and_then (reject_quantity_mismatch qty (rd_quantity req)) (\<lambda>_.
                    Inr (e, m, warnings @ [REPLAY_WARNING], s1))))
              | Fresh \<Rightarrow>
                  (let ev = package_event_of pg who (rd_event req) (rd_occurred_at req) pkg ''despatched'' source in
                   and_then (write_to pg Package_event s1 (insert_package_event ev s1)) (\<lambda>s2.
                   and_then (append_movement pg t ''despatch''
                               (despatch_movement pg who pkg line_id req c) s2) (\<lambda>s3.
                     Inr (minted pg Package_event, minted pg Stock_movement, warnings, s3)))))
             (\<lambda>(e, m, ws, s2).
                and_then (despatch_response_of t pkg line_id (dl_quantity l) e m ws s2)
                  (\<lambda>resp. Inr (resp, s2))))))))"

definition despatch_package ::
  "pg \<Rightarrow> caller \<Rightarrow> uuid \<times> despatch_request \<Rightarrow> db
   \<Rightarrow> api_error + ((package_response + despatch_response) \<times> db)" where
  "despatch_package pg who pr s =
     (case rd_line (snd pr) of
        None \<Rightarrow> and_then (despatch_itself pg who pr s) (\<lambda>(r, s'). Inr (Inl r, s'))
      | Some line \<Rightarrow>
          and_then (despatch_line_tx pg who (fst pr) line (snd pr) s) (\<lambda>(r, s'). Inr (Inr r, s')))"

section \<open>What a run did\<close>

lemma despatch_line_fresh:
  assumes run: "despatch_line_tx pg who pkg line req s = Inr (v, s')"
    and fresh: "\<not> claimed (ca_tenant who) (rd_event req) s"
  obtains c l e where
    "despatch_cell (ca_tenant who) pkg (rd_from_stock req) (Some l) s = Some c"
    "load_despatch_line (ca_tenant who) line s = Some l" "0 < rd_quantity req"
    "\<not> dl_cancelled l" "sk_package c = Some pkg"
    "pe_tenant e = ca_tenant who" "pe_package e = pkg" "pe_kind e = ''despatched''"
    "s' = mark_dirty pg (ca_tenant who) ''despatch''
       (s\<lparr>client_events := client_events s
            @ [envelope pg (act_new_client_event who (rd_event req) (rd_occurred_at req))],
          package_events := package_events s @ [e],
          movements := movements s @ [despatch_movement pg who pkg line req c]\<rparr>)"
    "dr_movement v = minted pg Stock_movement"
    "dr_ledger v = line_progress_ledger (ca_tenant who) line (dl_quantity l) s'"
proof -
  let ?line = "load_despatch_line (ca_tenant who) line s"
  let ?cell = "despatch_cell (ca_tenant who) pkg (rd_from_stock req) ?line s"
  let ?pk = "map_option package_state_of (package_by_id (ca_tenant who) pkg s)"
  let ?p = "\<lparr>xd_tenant = ca_tenant who, xd_package = pkg, xd_line = line,
      xd_quantity = rd_quantity req, xd_source = or_scan (rd_source req)\<rparr>"
  have ok: "filter despatch_is_hard (check_despatch ?p ?pk ?line ?cell) = []"
    using run by (auto simp: despatch_line_tx_def Let_def result_simps)
  then obtain k l c where rows: "?pk = Some k" "?line = Some l" "?cell = Some c"
      "0 < rd_quantity req" "\<not> dl_cancelled l" "sk_package c = Some (kt_id k)"
    unfolding check_despatch_no_hard by auto
  have k: "kt_id k = pkg"
    using rows(1) by (auto simp: package_state_of_def row_simps dest: by_id_SomeD)
  obtain a s1 where claim: "claim_act pg (act_new_client_event who (rd_event req) (rd_occurred_at req)) s
      = Inr (a, s1)"
    using run by (auto simp: despatch_line_tx_def act_new_client_event_def Let_def result_simps)
  have a: "a = Fresh"
    using claim fresh by (cases a) (auto simp: claim_act_Replay act_new_client_event_def)
  have s1: "s1 = s\<lparr>client_events := client_events s
      @ [envelope pg (act_new_client_event who (rd_event req) (rd_occurred_at req))]\<rparr>"
    using claim a by (simp add: claim_act_Fresh)
  note claim' = claim [unfolded act_new_client_event_def a]
  show thesis
    by (rule that [of l c "package_event_of pg who (rd_event req) (rd_occurred_at req) pkg
          ''despatched'' (or_scan (rd_source req))"])
      (use rows k run claim' s1 in
        \<open>auto simp: despatch_line_tx_def Let_def result_simps row_simps despatch_response_of_def\<close>)
qed

lemma despatch_line_replay:
  assumes "despatch_line_tx pg who pkg line req s = Inr (v, s')"
    and "claimed (ca_tenant who) (rd_event req) s"
  shows "s' = s"
  using assms
  by (auto simp: despatch_line_tx_def Let_def result_simps claim_act_def despatch_response_of_def)

section \<open>The handlers meet the contract\<close>

lemma seal_package_act:
  assumes "seal_package pg who (pkg, req) s = Inr (v, s')"
  obtains i ws' ws e where
    "package_act pg who (rz_event req) (rz_occurred_at req) e
       (Some (update_rows pk_tenant pk_id (ca_tenant who) pkg (\<lambda>k. pk_sealed_at k = None)
          (\<lambda>k. k\<lparr>pk_sealed_at := Some (rz_occurred_at req)\<rparr>))) ''seal'' ws s = Inr ((i, ws'), s')"
    "pe_tenant e = ca_tenant who" "pe_package e = pkg" "pe_kind e = ''sealed''"
    "pe_occurred_at e = rz_occurred_at req"
    "v = \<lparr>kp_event = i, kp_warnings = ws', kp_status = package_status_ledger (ca_tenant who) pkg s'\<rparr>"
    "unchecked_in pg (ca_tenant who) pkg s \<noteq> [] \<Longrightarrow>
       show_seal_problem (Unchecked (unchecked_in pg (ca_tenant who) pkg s)) \<in> set ws"
  using assms
  by (auto simp: seal_package_def Let_def result_simps package_event_of_def hard_or_warnings_def
      check_seal_def split: if_splits)

lemma open_package_act:
  assumes "open_package pg who (pkg, req) s = Inr (v, s')"
  obtains i ws' ws e where
    "package_act pg who (rv_event req) (rv_occurred_at req) e
       (Some (update_rows pk_tenant pk_id (ca_tenant who) pkg (\<lambda>_. True) (\<lambda>k. k\<lparr>pk_sealed_at := None\<rparr>)))
       ''package_open'' ws s = Inr ((i, ws'), s')"
    "pe_tenant e = ca_tenant who" "pe_package e = pkg" "pe_kind e = ''opened''"
    "pe_occurred_at e = rv_occurred_at req"
    "v = \<lparr>kp_event = i, kp_warnings = ws', kp_status = package_status_ledger (ca_tenant who) pkg s'\<rparr>"
    "\<forall>k. package_by_id (ca_tenant who) pkg s = Some k \<longrightarrow> \<not> terminal (pk_status k)"
  using assms
  by (auto simp: open_package_def Let_def result_simps package_event_of_def check_open_def
      package_state_of_def open_is_hard_def filter_eq_Nil_iff split: if_splits option.splits)

lemma despatch_itself_act:
  assumes "despatch_itself pg who (pkg, req) s = Inr (v, s')"
  obtains i ws' ws e where
    "package_act pg who (rd_event req) (rd_occurred_at req) e None ''despatch'' ws s = Inr ((i, ws'), s')"
    "pe_tenant e = ca_tenant who" "pe_package e = pkg" "pe_kind e = ''despatched''"
  using assms
  by (auto simp: despatch_itself_def Let_def result_simps package_event_of_def split: if_splits option.splits)

lemma seal_runs_act:
  assumes "seal_package pg who pr s = Inr (v, s')"
  shows "runs_package_act pg who (act_in rz_event pr) s s'"
proof -
  have run: "seal_package pg who (fst pr, snd pr) s = Inr (v, s')" using assms by simp
  show ?thesis
    by (rule seal_package_act [OF run]) (erule runs_package_actI, auto simp: asserts_placement_def)
qed

lemma open_runs_act:
  assumes "open_package pg who pr s = Inr (v, s')"
  shows "runs_package_act pg who (act_in rv_event pr) s s'"
proof -
  have run: "open_package pg who (fst pr, snd pr) s = Inr (v, s')" using assms by simp
  show ?thesis
    by (rule open_package_act [OF run]) (erule runs_package_actI, auto simp: asserts_placement_def)
qed

lemma despatch_itself_runs_act:
  assumes "despatch_itself pg who pr s = Inr (v, s')"
  shows "runs_package_act pg who (act_in rd_event pr) s s'"
proof -
  have run: "despatch_itself pg who (fst pr, snd pr) s = Inr (v, s')" using assms by simp
  show ?thesis
    by (rule despatch_itself_act [OF run]) (erule runs_package_actI, auto simp: asserts_placement_def)
qed

interpretation seal_writer: package_writer seal_package "act_in rz_event"
  by (rule package_writer_if_act) (rule seal_runs_act)

interpretation open_writer: package_writer open_package "act_in rv_event"
  by (rule package_writer_if_act) (rule open_runs_act)

interpretation itself_writer: package_writer despatch_itself "act_in rd_event"
  by (rule package_writer_if_act) (rule despatch_itself_runs_act)

lemma fresh_effect_event:
  assumes "\<not> claimed t act s" and "ce_tenant e = t" "ce_id e = act" "mv_tenant m = t" "mv_event m = act"
    and "pe_tenant p = t"
  shows "act_effect t act s
     (mark_dirty pg t why (s\<lparr>client_events := client_events s @ [e],
        package_events := package_events s @ [p], movements := movements s @ [m]\<rparr>))"
proof -
  have "isolated t s (s\<lparr>client_events := client_events s @ [e],
        package_events := package_events s @ [p], movements := movements s @ [m]\<rparr>)"
    using assms by (auto simp: isolated_def tenant_view_def visible_def)
  then show ?thesis
    using assms unfolding act_effect_def by (auto intro: isolated_trans)
qed

lemma despatch_line_contract:
  assumes run: "despatch_line_tx pg who pkg line req s = Inr (v, s')"
  shows "act_effect (ca_tenant who) (rd_event req) s s'" and "claimed (ca_tenant who) (rd_event req) s'"
    and "plants (ca_tenant who) s s'"
proof -
  show "act_effect (ca_tenant who) (rd_event req) s s'"
  proof (cases "claimed (ca_tenant who) (rd_event req) s")
    case True
    then show ?thesis using despatch_line_replay [OF run] by (simp add: act_effect_def)
  next
    case False
    show ?thesis
      by (rule despatch_line_fresh [OF run False])
        (auto intro!: fresh_effect_event simp: despatch_movement_def act_new_client_event_def False)
  qed
  show "claimed (ca_tenant who) (rd_event req) s'"
  proof (cases "claimed (ca_tenant who) (rd_event req) s")
    case True
    then show ?thesis using despatch_line_replay [OF run] by simp
  next
    case False
    show ?thesis
      by (rule despatch_line_fresh [OF run False]) (auto simp: claimed_def act_new_client_event_def)
  qed
  show "plants (ca_tenant who) s s'"
  proof (cases "claimed (ca_tenant who) (rd_event req) s")
    case True
    then show ?thesis using despatch_line_replay [OF run] by (simp add: plants_def)
  next
    case False
    show ?thesis
      by (rule despatch_line_fresh [OF run False]) (auto simp: plants_def asserts_placement_def)
  qed
qed

lemma despatch_package_cases:
  assumes "despatch_package pg who pr s = Inr (v, s')"
  obtains r where "despatch_itself pg who pr s = Inr (r, s')"
  | line r where "rd_line (snd pr) = Some line"
      "despatch_line_tx pg who (fst pr) line (snd pr) s = Inr (r, s')" "v = Inr r"
  using assms by (auto simp: despatch_package_def result_simps split: option.splits)

interpretation despatch_writer: package_writer despatch_package "act_in rd_event"
proof
  fix pg who pr s v s'
  assume run: "despatch_package pg who pr s = Inr (v, s')"
  show "act_effect (ca_tenant who) (act_in rd_event pr) s s'"
    using run by (rule despatch_package_cases) (erule itself_writer.effect, erule despatch_line_contract)
  show "claimed (ca_tenant who) (act_in rd_event pr) s'"
    using run by (rule despatch_package_cases) (erule itself_writer.claims, erule despatch_line_contract)
  show "plants (ca_tenant who) s s'"
    using run by (rule despatch_package_cases) (erule itself_writer.plants, erule despatch_line_contract)
  show "s' = s" if "claimed (ca_tenant who) (act_in rd_event pr) s"
    using run by (rule despatch_package_cases)
      (erule itself_writer.replay [OF _ that], erule despatch_line_replay [OF _ that])
qed

section \<open>Properties\<close>

text \<open>Any mix of the package handlers' attempts, failed ones and retries included.\<close>

datatype package_call =
    Place pg caller "uuid \<times> place_request"
  | Contain pg caller "uuid \<times> contain_request"
  | Void pg caller "uuid \<times> package_act_request"
  | Seal pg caller "uuid \<times> seal_request"
  | Unseal pg caller "uuid \<times> package_act_request"
  | Despatch pg caller "uuid \<times> despatch_request"

fun package_call_run :: "package_call \<Rightarrow> db \<Rightarrow> db" where
  "package_call_run (Place pg who r) s = snd (tenant_run pg (place_package pg who r) s)"
| "package_call_run (Contain pg who r) s = snd (tenant_run pg (contain_package pg who r) s)"
| "package_call_run (Void pg who r) s = snd (tenant_run pg (void_package pg who r) s)"
| "package_call_run (Seal pg who r) s = snd (tenant_run pg (seal_package pg who r) s)"
| "package_call_run (Unseal pg who r) s = snd (tenant_run pg (open_package pg who r) s)"
| "package_call_run (Despatch pg who r) s = snd (tenant_run pg (despatch_package pg who r) s)"

lemmas package_attempts =
  place_writer.attempt_def contain_writer.attempt_def void_writer.attempt_def
  seal_writer.attempt_def open_writer.attempt_def despatch_writer.attempt_def

lemma package_call_forest: "forest t s \<Longrightarrow> forest t (package_call_run c s)"
  using place_writer.attempt_forest contain_writer.attempt_forest void_writer.attempt_forest
    seal_writer.attempt_forest open_writer.attempt_forest despatch_writer.attempt_forest
  by (cases c) (simp_all add: package_attempts)

lemma package_calls_forest: "forest t s \<Longrightarrow> forest t (fold package_call_run calls s)"
  by (induction calls arbitrary: s) (simp_all add: package_call_forest)

text \<open>
  C6: Containment stays a forest of at most three levels.  From any state in which no package has a
  third ancestor, every sequence of place, contain, void, seal, open and despatch requests, by any
  tenants, with device clocks in any order, retried or refused, ends in a state in which no package
  has a third ancestor and none is inside itself.
\<close>

theorem package_acts_keep_forest:
  assumes "\<forall>x. climb 3 (\<lambda>y. package_parent_now t y s) x = None"
  shows "let s' = fold package_call_run calls s; pn = \<lambda>y. package_parent_now t y s' in
    (\<forall>x. climb 3 pn x = None) \<and> (\<forall>x n. 0 < n \<longrightarrow> climb n pn x \<noteq> Some x)"
proof -
  have "forest t s" using assms by (simp add: forest_def three_levels_def)
  then have "three_levels (\<lambda>y. package_parent_now t y (fold package_call_run calls s))"
    using package_calls_forest by (simp add: forest_def)
  then show ?thesis using three_levels_acyclic by (simp add: Let_def three_levels_def)
qed

definition sample_contain_back :: contain_request where
  "sample_contain_back = sample_contain\<lparr>rn_parent := 5, rn_event := 603, rn_occurred_at := 9\<rparr>"

theorem package_acts_keep_forest_witness:
  "package_parent_now 10 5 (fold package_call_run
      [Contain sample_pg sample_caller (5, sample_contain),
       Contain sample_pg sample_caller (6, sample_contain_back)] packed_db) = Some 6
   \<and> (climb 2 (\<lambda>y. package_parent_now 10 y (fold package_call_run
      [Contain sample_pg sample_caller (5, sample_contain),
       Contain sample_pg sample_caller (6, sample_contain_back)] packed_db)) 5 \<noteq> Some 5)"
proof -
  have none: "package_parent_now 10 y packed_db = None" for y
    by (simp add: package_parent_now_def placements_def visible_def packed_db_def sample_defs)
  then have "\<forall>x. climb 3 (\<lambda>y. package_parent_now 10 y packed_db) x = None"
    by (simp add: numeral_3_eq_3)
  note safe = package_acts_keep_forest [OF this]
  have "package_parent_now 10 5 (fold package_call_run
      [Contain sample_pg sample_caller (5, sample_contain),
       Contain sample_pg sample_caller (6, sample_contain_back)] packed_db) = Some 6"
    by code_simp
  moreover have "(0::nat) < 2" by simp
  ultimately show ?thesis using safe unfolding Let_def by blast
qed


definition sample_despatch :: despatch_request where
  "sample_despatch = \<lparr>rd_line = Some 42, rd_quantity = 6, rd_from_stock = None, rd_event = 610,
     rd_occurred_at = 12, rd_source = None\<rparr>"

definition picked_db :: db where
  "picked_db = packed_db\<lparr>
     stock := [sample_cell\<lparr>sk_location := None, sk_package := Some 5, sk_quantity := 6\<rparr>],
     fulfilments := [\<lparr>fu_id = 41, fu_tenant = 10, fu_state = ''open'', fu_site = None\<rparr>],
     order_lines := [\<lparr>ol_id = 43, ol_tenant = 10, ol_item = 100\<rparr>],
     fulfilment_lines := [\<lparr>fl_id = 42, fl_tenant = 10, fl_fulfilment = 41, fl_order_line = 43,
       fl_quantity = 6, fl_covered = 6, fl_picked = 6, fl_packed = 6, fl_despatched = 0,
       fl_uncovered = 0\<rparr>]\<rparr>"


text \<open>
  Seal and open compare and set on the device's clock.  A fresh seal makes the package sealed
  when it is newer than every status event so far, and leaves the status as it was when one of them
  is newer; either way the answer carries the status the log now gives, the ledger is untouched, and
  a seal over lines nobody checked at the bench says so in a warning.
\<close>

theorem seal_package_compare_and_set:
  assumes run: "seal_package pg who (pkg, req) s = Inr (v, s')"
    and fresh: "\<not> claimed (ca_tenant who) (rz_event req) s"
  shows "((\<forall>e \<in> set (status_events (ca_tenant who) pkg s). pe_occurred_at e < rz_occurred_at req) \<longrightarrow>
            kp_status v = Some ''sealed'')
    \<and> ((\<exists>e \<in> set (status_events (ca_tenant who) pkg s). rz_occurred_at req < pe_occurred_at e) \<longrightarrow>
            kp_status v = package_status_now (ca_tenant who) pkg s)
    \<and> movements s' = movements s
    \<and> (unchecked_in pg (ca_tenant who) pkg s \<noteq> [] \<longrightarrow>
         show_seal_problem (Unchecked (unchecked_in pg (ca_tenant who) pkg s)) \<in> set (kp_warnings v))"
proof (rule seal_package_act [OF run])
  fix i ws' ws e
  assume act: "package_act pg who (rz_event req) (rz_occurred_at req) e
       (Some (update_rows pk_tenant pk_id (ca_tenant who) pkg (\<lambda>k. pk_sealed_at k = None)
          (\<lambda>k. k\<lparr>pk_sealed_at := Some (rz_occurred_at req)\<rparr>))) ''seal'' ws s = Inr ((i, ws'), s')"
    and e: "pe_tenant e = ca_tenant who" "pe_package e = pkg" "pe_kind e = ''sealed''"
      "pe_occurred_at e = rz_occurred_at req"
    and v: "v = \<lparr>kp_event = i, kp_warnings = ws', kp_status = package_status_ledger (ca_tenant who) pkg s'\<rparr>"
    and bench: "unchecked_in pg (ca_tenant who) pkg s \<noteq> [] \<Longrightarrow>
       show_seal_problem (Unchecked (unchecked_in pg (ca_tenant who) pkg s)) \<in> set ws"
  note s' = package_act_fresh [OF act fresh]
  have ev: "package_events s' = package_events s @ [e]" using s' by simp
  have "pe_kind e \<in> set status_kinds" using e by (simp add: status_kinds_def)
  note wins = newest_status [OF ev e(1,2) this]
  show ?thesis
    using wins e s' v bench by (auto simp: package_status_ledger_def)
qed

definition sample_seal :: seal_request where
  "sample_seal = \<lparr>rz_event = 620, rz_occurred_at = 15, rz_source = None, rz_hollow = None\<rparr>"

theorem seal_package_compare_and_set_witness:
  "\<exists>v s'. seal_package sample_pg sample_caller (5, sample_seal) packed_db = Inr (v, s')
     \<and> kp_status v = Some ''sealed''"
proof -
  have "\<not> isl (seal_package sample_pg sample_caller (5, sample_seal) packed_db)" by code_simp
  then obtain v s' where
      run: "seal_package sample_pg sample_caller (5, sample_seal) packed_db = Inr (v, s')"
    by (cases "seal_package sample_pg sample_caller (5, sample_seal) packed_db") auto
  have fresh: "\<not> claimed (ca_tenant sample_caller) (rz_event sample_seal) packed_db" by code_simp
  have "status_events (ca_tenant sample_caller) 5 packed_db = []" by code_simp
  then have "kp_status v = Some ''sealed''"
    using seal_package_compare_and_set [OF run fresh] by simp
  with run show ?thesis by blast
qed

text \<open>
  A despatch that named no cell cannot be retried once the fold has emptied the cell: the same
  request, with the same client event, is refused because no cell of the item is left in the package,
  where the replay of the recorded act was due.
\<close>

theorem despatch_retry_after_fold_refused:
  "case despatch_package sample_pg sample_caller (5, sample_despatch) picked_db of
     Inl _ \<Rightarrow> False
   | Inr (_, s1) \<Rightarrow>
       despatch_package sample_pg sample_caller (5, sample_despatch)
           (s1\<lparr>stock := map (\<lambda>k. k\<lparr>sk_quantity := 0\<rparr>) (stock s1)\<rparr>)
         = Inl (Rejected (show_despatch_problem DespatchStockNotFound))
       \<and> \<not> isl (despatch_package sample_pg sample_caller (5, sample_despatch) s1)"
  by code_simp

end
