(* ===== verification/Floats.thy ===== *)
theory Floats
  imports Prelude "HOL-Library.Log_Nat"
begin

text \<open>
  Arithmetic on \<open>f64\<close>: binary64 with rounding to nearest, ties to even, computed on rationals.  The
  sign of a zero is not carried, which no comparison or product of the modelled code can see.
\<close>

section \<open>Rounding\<close>

text \<open>The nearest integer, the even one where two are as near.\<close>

definition nearest_even :: "rat \<Rightarrow> int" where
  "nearest_even x =
     (let f = \<lfloor>x\<rfloor>; d = x - of_int f in
      if d < 1 / 2 \<or> (d = 1 / 2 \<and> even f) then f else f + 1)"

text \<open>The binary exponent of a positive rational: \<open>2 ^ e \<le> x < 2 ^ (e + 1)\<close>.\<close>

definition exponent :: "rat \<Rightarrow> int" where
  "exponent x =
     (let (n, d) = quotient_of x; e = bitlen n - bitlen d in
      if x < 2 powi e then e - 1 else e)"

text \<open>The spacing of the doubles at \<open>x\<close>; the subnormals have the one of the smallest normals.\<close>

definition spacing :: "rat \<Rightarrow> rat" where
  "spacing x = 2 powi (max (exponent x) (- 1022) - 52)"

definition round_f64 :: "rat \<Rightarrow> f64" where
  "round_f64 x =
     (if x = 0 then Fin 0
      else let q = spacing \<bar>x\<bar>; y = of_int (nearest_even (x / q)) * q in
        if y \<ge> 2 ^ 1024 then PosInf else if y \<le> - (2 ^ 1024) then NegInf else Fin y)"

text \<open>\<open>i as f64\<close>, \<open>*\<close> and \<open>/\<close>.\<close>

definition f64_of_int :: "int \<Rightarrow> f64" where
  "f64_of_int i = round_f64 (of_int i)"

definition f64_sgn :: "f64 \<Rightarrow> int" where
  "f64_sgn x = (case x of NaN \<Rightarrow> 0 | NegInf \<Rightarrow> - 1 | PosInf \<Rightarrow> 1 | Fin r \<Rightarrow> sgn \<lfloor>sgn r\<rfloor>)"

definition signed_inf :: "int \<Rightarrow> f64" where
  "signed_inf i = (if i > 0 then PosInf else if i < 0 then NegInf else NaN)"

fun f64_mul :: "f64 \<Rightarrow> f64 \<Rightarrow> f64" where
  "f64_mul (Fin a) (Fin b) = round_f64 (a * b)"
| "f64_mul NaN y = NaN"
| "f64_mul x NaN = NaN"
| "f64_mul x y = signed_inf (f64_sgn x * f64_sgn y)"

text \<open>Division by a finite number other than zero, the only one the code does.\<close>

fun f64_div :: "f64 \<Rightarrow> rat \<Rightarrow> f64" where
  "f64_div (Fin a) b = round_f64 (a / b)"
| "f64_div NaN b = NaN"
| "f64_div x b = signed_inf (f64_sgn x * f64_sgn (Fin b))"

section \<open>How far rounding moves a number\<close>

lemma nearest_even_int [simp]: "nearest_even (of_int n) = n"
  by (simp add: nearest_even_def)

lemma nearest_even_near: "\<bar>of_int (nearest_even x) - x\<bar> \<le> 1 / 2"
proof -
  obtain f d where f: "f = \<lfloor>x\<rfloor>" "d = x - of_int f" by simp
  have d: "0 \<le> d" "d < 1" unfolding f by linarith+
  have x: "x = of_int f + d" by (simp add: f)
  have "nearest_even x = (if d < 1 / 2 \<or> (d = 1 / 2 \<and> even f) then f else f + 1)"
    by (simp add: nearest_even_def Let_def f)
  then show ?thesis using d unfolding x by (auto simp: abs_if)
qed

lemma bitlen_bounds_rat:
  assumes "0 < n"
  shows "2 powi (bitlen n - 1) \<le> (of_int n :: rat)" and "of_int n < (2 powi bitlen n :: rat)"
proof -
  have b: "0 < bitlen n" using assms bitlen_eq_zero_iff [of n] bitlen_nonneg [of n] by linarith
  have "(of_int (2 ^ nat (bitlen n - 1)) :: rat) \<le> of_int n" "(of_int n :: rat) < of_int (2 ^ nat (bitlen n))"
    using bitlen_bounds [OF assms] by (simp_all only: of_int_le_iff of_int_less_iff)
  then show "2 powi (bitlen n - 1) \<le> (of_int n :: rat)" and "of_int n < (2 powi bitlen n :: rat)"
    using b by (simp_all add: power_int_def)
qed

lemma exponent_bounds:
  assumes "0 < x"
  shows "2 powi exponent x \<le> x" and "x < 2 powi (exponent x + 1)"
proof -
  obtain n d where nd: "quotient_of x = (n, d)" by (cases "quotient_of x")
  have d: "0 < d" by (rule quotient_of_denom_pos [OF nd])
  have x: "x = of_int n / of_int d" by (rule quotient_of_div [OF nd])
  have n: "0 < n" using assms d by (simp add: x zero_less_divide_iff)
  let ?e = "bitlen n - bitlen d"
  note bn = bitlen_bounds_rat [OF n] and bd = bitlen_bounds_rat [OF d]
  have "2 powi (?e - 1) * of_int d \<le> (2 powi (?e - 1) * 2 powi bitlen d :: rat)"
    using bd(2) by (intro mult_left_mono) simp_all
  also have "\<dots> = 2 powi (bitlen n - 1)" by (simp flip: power_int_add)
  also have "\<dots> \<le> of_int n" by (rule bn(1))
  finally have low: "2 powi (?e - 1) \<le> x" using d by (simp add: x pos_le_divide_eq)
  have "of_int n < (2 powi bitlen n :: rat)" by (rule bn(2))
  also have "\<dots> = 2 powi (?e + 1) * 2 powi (bitlen d - 1)" by (simp flip: power_int_add)
  also have "\<dots> \<le> 2 powi (?e + 1) * of_int d" using bd(1) by (intro mult_left_mono) simp_all
  finally have high: "x < 2 powi (?e + 1)" using d by (simp add: x pos_divide_less_eq)
  show "2 powi exponent x \<le> x" and "x < 2 powi (exponent x + 1)"
    using low high by (auto simp: exponent_def nd Let_def)
qed

lemma spacing_pos [simp]: "0 < spacing x"
  by (simp add: spacing_def)

lemma spacing_neq [simp]: "spacing x \<noteq> 0"
  using spacing_pos [of x] by linarith

lemma powi_less_D: "(2 powi a :: rat) < 2 powi b \<Longrightarrow> a < b"
  by (rule ccontr) (use power_int_increasing [of b a "2::rat"] in simp)

lemma spacing_le:
  assumes "0 < x" and "x < 2 powi k" and "- 1021 \<le> k"
  shows "spacing x \<le> 2 powi (k - 53)"
proof -
  have "(2 powi exponent x :: rat) < 2 powi k" using exponent_bounds(1) [OF assms(1)] assms(2) by linarith
  then have "exponent x < k" by (rule powi_less_D)
  then show ?thesis unfolding spacing_def by (intro power_int_increasing) (use assms(3) in auto)
qed

definition rounded :: "rat \<Rightarrow> rat" where
  "rounded x = (if x = 0 then 0 else of_int (nearest_even (x / spacing \<bar>x\<bar>)) * spacing \<bar>x\<bar>)"

lemma rounded_near: "\<bar>rounded x - x\<bar> \<le> spacing \<bar>x\<bar> / 2"
proof (cases "x = 0")
  case False
  let ?q = "spacing \<bar>x\<bar>"
  have "rounded x - x = (of_int (nearest_even (x / ?q)) - x / ?q) * ?q"
    using False spacing_pos [of "\<bar>x\<bar>"] by (simp add: rounded_def algebra_simps)
  also have "\<bar>\<dots>\<bar> \<le> 1 / 2 * ?q"
    unfolding abs_mult using nearest_even_near [of "x / ?q"] by (intro mult_mono) (simp_all add: less_imp_le)
  finally show ?thesis by simp
qed (simp add: rounded_def less_imp_le)

lemma round_f64_Fin:
  assumes "\<bar>x\<bar> < 2 ^ 1000"
  shows "round_f64 x = Fin (rounded x)"
proof (cases "x = 0")
  case False
  have "spacing \<bar>x\<bar> \<le> 2 powi (1000 - 53)" using assms False by (intro spacing_le) simp_all
  also have "\<dots> \<le> (2 powi 1000 :: rat)" by (rule power_int_increasing) simp_all
  finally have "\<bar>rounded x - x\<bar> \<le> 2 ^ 1000 / 2" using rounded_near [of x] by simp
  then have "\<bar>rounded x\<bar> < 2 ^ 1024" using assms by (simp add: abs_if split: if_splits)
  then show ?thesis using False by (simp add: round_f64_def rounded_def Let_def abs_if split: if_splits)
qed (simp add: round_f64_def rounded_def)

lemma rounded_int:
  assumes "\<bar>n\<bar> < 2 ^ 53"
  shows "rounded (of_int n) = of_int n"
proof (cases "n = 0")
  case False
  let ?x = "of_int \<bar>n\<bar> :: rat"
  have x: "0 < ?x" "?x < 2 powi 53" "1 \<le> ?x" using assms False by simp_all
  note e = exponent_bounds [OF x(1)]
  have "(2 powi exponent ?x :: rat) < 2 powi 53" using e(1) x(2) by linarith
  then have hi: "exponent ?x < 53" by (rule powi_less_D)
  have "(2 powi 0 :: rat) < 2 powi (exponent ?x + 1)" using e(2) x(3) by simp
  then have "0 < exponent ?x + 1" by (rule powi_less_D)
  then have lo: "0 \<le> exponent ?x" by simp
  define k where "k = nat (52 - exponent ?x)"
  have k: "exponent ?x + int k = 52" using hi by (simp add: k_def)
  have "exponent ?x - 52 = - int k" using k by simp
  then have "spacing ?x = 2 powi (- int k)" using lo by (simp add: spacing_def)
  then have sp: "spacing \<bar>of_int n\<bar> = (1 / 2 ^ k :: rat)" by (simp add: power_int_minus divide_inverse)
  have "of_int n / spacing \<bar>of_int n\<bar> = (of_int (n * 2 ^ k) :: rat)" by (simp add: sp)
  then show ?thesis using False by (simp only: rounded_def nearest_even_int) (simp add: sp)
qed (simp add: rounded_def)

lemma f64_of_int_exact: "\<bar>n\<bar> < 2 ^ 53 \<Longrightarrow> f64_of_int n = Fin (of_int n)"
  unfolding f64_of_int_def
  by (subst round_f64_Fin) (simp_all add: rounded_int flip: of_int_abs)

section \<open>Addition\<close>

text \<open>\<open>+\<close> and \<open>-\<close> of doubles; opposite infinities have no sum.\<close>

fun f64_add :: "f64 \<Rightarrow> f64 \<Rightarrow> f64" where
  "f64_add (Fin a) (Fin b) = round_f64 (a + b)"
| "f64_add NaN y = NaN"
| "f64_add x NaN = NaN"
| "f64_add PosInf NegInf = NaN"
| "f64_add NegInf PosInf = NaN"
| "f64_add PosInf y = PosInf"
| "f64_add NegInf y = NegInf"
| "f64_add x PosInf = PosInf"
| "f64_add x NegInf = NegInf"

fun f64_neg :: "f64 \<Rightarrow> f64" where
  "f64_neg NaN = NaN"
| "f64_neg PosInf = NegInf"
| "f64_neg NegInf = PosInf"
| "f64_neg (Fin a) = Fin (- a)"

definition f64_sub :: "f64 \<Rightarrow> f64 \<Rightarrow> f64" where
  "f64_sub x y = f64_add x (f64_neg y)"

section \<open>Rounding keeps the order\<close>

lemma nearest_even_mono:
  assumes "x \<le> y"
  shows "nearest_even x \<le> nearest_even y"
proof (cases "\<lfloor>x\<rfloor> = \<lfloor>y\<rfloor>")
  case True
  then show ?thesis using assms by (auto simp: nearest_even_def Let_def)
next
  case False
  then have "\<lfloor>x\<rfloor> + 1 \<le> \<lfloor>y\<rfloor>" using floor_mono [OF assms] by linarith
  then show ?thesis by (auto simp: nearest_even_def Let_def)
qed

lemma nearest_even_minus: "nearest_even (- x) = - nearest_even x"
proof (cases "x = of_int \<lfloor>x\<rfloor>")
  case True
  then show ?thesis using nearest_even_int [of "\<lfloor>x\<rfloor>"] nearest_even_int [of "- \<lfloor>x\<rfloor>"] by simp
next
  case False
  then have f: "\<lfloor>- x\<rfloor> = - \<lfloor>x\<rfloor> - 1" by (simp add: floor_minus ceiling_altdef)
  show ?thesis unfolding nearest_even_def f Let_def by auto
qed

lemma rounded_minus: "rounded (- x) = - rounded x"
  by (simp add: rounded_def nearest_even_minus)

text \<open>The exponent the spacing is taken at, and the two ends of its binade.\<close>

definition binade :: "rat \<Rightarrow> int" where
  "binade x = max (exponent x) (- 1022)"

lemma spacing_binade: "spacing x = 2 powi (binade x - 52)"
  by (simp add: spacing_def binade_def)

lemma exponent_mono:
  assumes "0 < x" "x \<le> y"
  shows "exponent x \<le> exponent y"
proof -
  have "(2 powi exponent x :: rat) < 2 powi (exponent y + 1)"
    using exponent_bounds [of x] exponent_bounds [of y] assms by linarith
  then show ?thesis using powi_less_D by fastforce
qed

lemma binade_ends: "2 powi (binade x + 1) = 2 ^ 53 * spacing x" "2 powi (binade x) = 2 ^ 52 * spacing x"
proof -
  have "(2 powi (53 + (binade x - 52)) :: rat) = 2 powi 53 * 2 powi (binade x - 52)" by (rule power_int_add) simp
  then show "2 powi (binade x + 1) = 2 ^ 53 * spacing x" by (simp add: spacing_binade add.commute)
  have "(2 powi (52 + (binade x - 52)) :: rat) = 2 powi 52 * 2 powi (binade x - 52)" by (rule power_int_add) simp
  then show "2 powi (binade x) = 2 ^ 52 * spacing x" by (simp add: spacing_binade)
qed

lemma rounded_binade:
  assumes "0 < x"
  shows "rounded x \<le> 2 powi (binade x + 1)" and "- 1022 < binade x \<Longrightarrow> 2 powi (binade x) \<le> rounded x"
proof -
  let ?q = "spacing x"
  have r: "rounded x = of_int (nearest_even (x / ?q)) * ?q" using assms by (simp add: rounded_def)
  note powers = binade_ends [of x]
  have "x < 2 powi (exponent x + 1)" by (rule exponent_bounds(2) [OF assms])
  also have "\<dots> \<le> 2 powi (binade x + 1)" by (rule power_int_increasing) (simp_all add: binade_def)
  finally have "x / ?q \<le> of_int (2 ^ 53)" by (simp add: powers pos_divide_le_eq)
  then have "nearest_even (x / ?q) \<le> 2 ^ 53" using nearest_even_mono nearest_even_int by metis
  then have "of_int (nearest_even (x / ?q)) \<le> (2 ^ 53 :: rat)" by (metis of_int_le_iff of_int_numeral of_int_power)
  then show "rounded x \<le> 2 powi (binade x + 1)" unfolding r powers by (intro mult_right_mono) (simp_all add: less_imp_le)
  assume "- 1022 < binade x"
  then have "binade x = exponent x" by (simp add: binade_def max_def split: if_splits)
  then have "2 ^ 52 * ?q \<le> x" using exponent_bounds(1) [OF assms] powers(2) by simp
  then have "of_int (2 ^ 52) \<le> x / ?q" by (simp add: pos_le_divide_eq)
  then have "2 ^ 52 \<le> nearest_even (x / ?q)" using nearest_even_mono nearest_even_int by metis
  then have "(2 ^ 52 :: rat) \<le> of_int (nearest_even (x / ?q))" by (metis of_int_le_iff of_int_numeral of_int_power)
  then show "2 powi (binade x) \<le> rounded x" unfolding r powers by (intro mult_right_mono) (simp_all add: less_imp_le)
qed

lemma rounded_nonneg: "0 \<le> x \<Longrightarrow> 0 \<le> rounded x"
  using nearest_even_mono [of 0 "x / spacing \<bar>x\<bar>"] nearest_even_int [of 0]
  by (auto simp: rounded_def less_imp_le intro!: mult_nonneg_nonneg)

lemma rounded_mono_pos:
  assumes "0 < x" "x \<le> y"
  shows "rounded x \<le> rounded y"
proof -
  have le: "binade x \<le> binade y" using exponent_mono [OF assms] by (auto simp: binade_def)
  show ?thesis
  proof (cases "binade x = binade y")
    case True
    then have q: "spacing y = spacing x" by (simp add: spacing_binade)
    have "nearest_even (x / spacing x) \<le> nearest_even (y / spacing x)"
      using assms by (intro nearest_even_mono divide_right_mono) (simp_all add: less_imp_le)
    then show ?thesis using assms q by (auto simp: rounded_def intro!: mult_right_mono less_imp_le)
  next
    case False
    then have lt: "binade x + 1 \<le> binade y" using le by simp
    have "rounded x \<le> 2 powi (binade x + 1)" by (rule rounded_binade(1) [OF assms(1)])
    also have "\<dots> \<le> 2 powi (binade y)" using lt by (intro power_int_increasing) simp_all
    also have "\<dots> \<le> rounded y" using assms lt by (intro rounded_binade(2)) (auto simp: binade_def)
    finally show ?thesis .
  qed
qed

lemma rounded_mono:
  assumes "x \<le> y"
  shows "rounded x \<le> rounded y"
proof -
  consider "0 < x" | "x \<le> 0" "0 \<le> y" | "y < 0" by linarith
  then show ?thesis
  proof cases
    case 1
    then show ?thesis using rounded_mono_pos assms by simp
  next
    case 2
    then show ?thesis using rounded_nonneg [of "- x"] rounded_nonneg [of y] by (simp add: rounded_minus)
  next
    case 3
    then show ?thesis using rounded_mono_pos [of "- y" "- x"] assms by (simp add: rounded_minus)
  qed
qed

lemma round_f64_rounded:
  "round_f64 x = (if rounded x \<ge> 2 ^ 1024 then PosInf else if rounded x \<le> - (2 ^ 1024) then NegInf else Fin (rounded x))"
  by (simp add: round_f64_def rounded_def Let_def)

lemma round_f64_mono: "x \<le> y \<Longrightarrow> f64_le (round_f64 x) (round_f64 y)"
  using rounded_mono [of x y] by (auto simp: round_f64_rounded f64_le_def f64_eq_def)

lemma round_f64_number [simp]: "round_f64 x \<noteq> NaN"
  by (simp add: round_f64_rounded)

lemma f64_le_ends: "x \<noteq> NaN \<Longrightarrow> f64_le NegInf x" "x \<noteq> NaN \<Longrightarrow> f64_le x PosInf"
  by (cases x; simp add: f64_le_def f64_eq_def)+

text \<open>A sum grows with what is added to.\<close>

lemma f64_add_mono: "f64_le x y \<Longrightarrow> f64_le (f64_add x (Fin c)) (f64_add y (Fin c))"
proof -
  assume le: "f64_le x y"
  show ?thesis
  proof (cases "\<exists>a b. x = Fin a \<and> y = Fin b")
    case True
    then obtain a b where ab: "x = Fin a" "y = Fin b" by blast
    then have "a + c \<le> b + c" using le by (auto simp: f64_le_def f64_eq_def)
    then show ?thesis unfolding ab f64_add.simps by (rule round_f64_mono)
  next
    case False
    then show ?thesis using le by (cases x; cases y) (simp_all add: f64_le_ends, simp_all add: f64_le_def f64_eq_def)
  qed
qed

section \<open>Doubles\<close>

definition is_double :: "f64 \<Rightarrow> bool" where
  "is_double x \<longleftrightarrow> (case x of Fin r \<Rightarrow> rounded r = r \<and> \<bar>r\<bar> < 2 ^ 1024 | _ \<Rightarrow> True)"

lemma rounded_multiple:
  assumes "x = of_int k * spacing \<bar>x\<bar>"
  shows "rounded x = x"
proof (cases "x = 0")
  case False
  have "x / spacing \<bar>x\<bar> = of_int k" using assms by (metis nonzero_mult_div_cancel_right spacing_neq)
  then show ?thesis using False assms by (simp add: rounded_def)
qed (simp add: rounded_def)

lemma rounded_idem_pos:
  assumes "0 < x"
  shows "rounded (rounded x) = rounded x"
proof (cases "rounded x = 0")
  case True
  then show ?thesis by (simp only:) (simp add: rounded_def)
next
  case False
  let ?r = "rounded x" and ?E = "binade x"
  obtain N where N: "?r = of_int N * 2 powi (?E - 52)" using assms by (auto simp: rounded_def spacing_binade)
  have pos: "0 < ?r" using rounded_nonneg [of x] assms False by simp
  have top: "?r \<le> 2 powi (?E + 1)" by (rule rounded_binade(1) [OF assms])
  show ?thesis
  proof (cases "?r < 2 powi (?E + 1)")
    case True
    have "(2 powi exponent ?r :: rat) < 2 powi (?E + 1)" using exponent_bounds(1) [OF pos] True by linarith
    then have "exponent ?r \<le> ?E" using powi_less_D by fastforce
    then have le: "binade ?r \<le> ?E" by (simp add: binade_def)
    define d where "d = nat (?E - binade ?r)"
    have d: "?E - 52 = int d + (binade ?r - 52)" using le by (simp add: d_def)
    have "?r = of_int (N * 2 ^ d) * spacing \<bar>?r\<bar>"
      using N pos by (simp add: spacing_binade d power_int_add)
    then show ?thesis by (rule rounded_multiple)
  next
    case False
    then have r: "?r = 2 powi (?E + 1)" using top by simp
    have "(2 powi exponent ?r :: rat) < 2 powi (?E + 2)" "(2 powi (?E + 1) :: rat) < 2 powi (exponent ?r + 1)"
      using exponent_bounds [OF pos] r power_int_strict_increasing [of "?E + 1" "?E + 2" "2 :: rat"] by simp_all
    then have "exponent ?r < ?E + 2" "?E + 1 < exponent ?r + 1" by (auto dest: powi_less_D)
    then have "binade ?r = ?E + 1" by (auto simp: binade_def)
    then have "?r = of_int (2 ^ 52) * spacing \<bar>?r\<bar>" using pos binade_ends(2) [of ?r] r by simp
    then show ?thesis by (rule rounded_multiple)
  qed
qed

lemma rounded_idem: "rounded (rounded x) = rounded x"
proof -
  consider "0 < x" | "x = 0" | "0 < - x" by linarith
  then show ?thesis
  proof cases
    case 3
    then show ?thesis using rounded_idem_pos [of "- x"] by (simp add: rounded_minus)
  qed (rule rounded_idem_pos, simp_all add: rounded_def [of 0])
qed

lemma is_double_round [simp]: "is_double (round_f64 x)"
  by (auto simp: is_double_def round_f64_rounded rounded_idem)

lemma is_double_add: "is_double x \<Longrightarrow> is_double y \<Longrightarrow> is_double (f64_add x y)"
  by (cases x; cases y) (simp_all, simp_all add: is_double_def)

lemma f64_add_0: "is_double x \<Longrightarrow> f64_add (Fin 0) x = x" "is_double x \<Longrightarrow> f64_add x (Fin 0) = x"
  by (cases x; auto simp: is_double_def round_f64_rounded)+

text \<open>Adding what is not negative does not take away.\<close>

lemma f64_add_ge:
  assumes "is_double x" "x \<noteq> NaN" "0 \<le> c"
  shows "f64_le x (f64_add x (Fin c))"
proof (cases x)
  case (Fin a)
  have "f64_le (round_f64 a) (round_f64 (a + c))" using assms(3) by (intro round_f64_mono) simp
  moreover have "round_f64 a = Fin a" using assms(1) Fin by (auto simp: is_double_def round_f64_rounded)
  ultimately show ?thesis by (simp add: Fin)
qed (use assms in \<open>simp_all add: f64_le_def f64_eq_def\<close>)

end
