(* ===== verification/Receiving.thy ===== *)
theory Receiving
  imports Floats Policy
begin

text \<open>
  Receiving, \<^verbatim>\<open>receiving.rs\<close>: which claims on a promise the goods that arrived hand over to stock,
  what the resolved policy decides about a counted line, how a count in cartons becomes base units,
  and how the policy itself is read.
\<close>

section \<open>The handover\<close>

definition ACTIVE :: "string list" where
  "ACTIVE = [''allocated'', ''picking'', ''picked'', ''packed'']"

record claim =
  cm_id :: uuid
  cm_tenant :: uuid
  cm_supply :: "uuid option"
  cm_quantity :: i64
  cm_state :: string
  cm_bound_at :: time

record arrival =
  av_tenant :: uuid
  av_supply :: uuid
  av_stock :: uuid
  av_received :: i64
  av_occurred_at :: time
  av_closed :: bool

record repoint =
  rt_allocation :: uuid
  rt_stock :: uuid
  rt_bound_at :: time
  rt_origin :: uuid

datatype receipt_problem =
    ClaimOfAnotherTenant uuid
  | ClaimOfAnotherPromise uuid
  | Uncovered uuid i64
  | ClaimsOutliveThePromise i64 i64 \<comment> \<open>total, received\<close>
  | NothingArrived

fun show_receipt_problem :: "receipt_problem \<Rightarrow> string" where
  "show_receipt_problem (ClaimOfAnotherTenant c) =
     ''allocation '' @ show_uuid c @ '' belongs to another tenant and cannot be moved by this receipt''"
| "show_receipt_problem (ClaimOfAnotherPromise c) =
     ''allocation '' @ show_uuid c @ '' claims a different promise and is not part of this handover''"
| "show_receipt_problem (Uncovered c q) =
     ''allocation '' @ show_uuid c @ '' claims '' @ show_int q @
     '' and what arrived does not cover it, so it stays against the promise; splitting it is the allocator's decision, not the receiver's''"
| "show_receipt_problem (ClaimsOutliveThePromise claimed received) =
     show_int claimed @ '' is still claimed against a promise that closed having delivered '' @
     show_int received @ ''; the difference is committed to somebody and is not coming''"
| "show_receipt_problem NothingArrived = ''a receipt of no units is not a receipt''"

declare show_receipt_problem.simps [simp del]

text \<open>The first loop: the claims that are not this arrival's are named, the inactive ones passed over.\<close>

definition misplaced :: "arrival \<Rightarrow> claim \<Rightarrow> receipt_problem list" where
  "misplaced a c =
     (if cm_tenant c \<noteq> av_tenant a then [ClaimOfAnotherTenant (cm_id c)]
      else if cm_supply c \<noteq> Some (av_supply a) then [ClaimOfAnotherPromise (cm_id c)] else [])"

definition is_eligible :: "arrival \<Rightarrow> claim \<Rightarrow> bool" where
  "is_eligible a c \<longleftrightarrow> misplaced a c = [] \<and> cm_state c \<in> set ACTIVE"

definition first_bound :: "claim \<Rightarrow> claim \<Rightarrow> ordering" where
  "first_bound a b = then_cmp (cmp (cm_bound_at a) (cm_bound_at b)) (cmp (cm_id a) (cm_id b))"

definition repoint_of :: "arrival \<Rightarrow> claim \<Rightarrow> repoint" where
  "repoint_of a c = \<lparr>rt_allocation = cm_id c, rt_stock = av_stock a, rt_bound_at = av_occurred_at a,
     rt_origin = av_supply a\<rparr>"

text \<open>The second loop, over the eligible claims in order, with what remains of the arrival.\<close>

fun hand_over :: "arrival \<Rightarrow> i64 \<Rightarrow> claim list \<Rightarrow> repoint list \<times> receipt_problem list" where
  "hand_over a remaining [] = ([], [])"
| "hand_over a remaining (c # cs) =
     (if cm_quantity c \<le> remaining
      then (let (r, p) = hand_over a (i64_sub remaining (cm_quantity c)) cs in (repoint_of a c # r, p))
      else (let (r, p) = hand_over a remaining cs in (r, Uncovered (cm_id c) (cm_quantity c) # p)))"

definition plan :: "arrival \<Rightarrow> claim list \<Rightarrow> repoint list \<times> receipt_problem list" where
  "plan a claims =
     (if av_received a \<le> 0 then ([], [NothingArrived])
      else
        let named = concat (map (misplaced a) claims);
            eligible = sort_by first_bound (filter (is_eligible a) claims);
            (repoints, uncovered) = hand_over a (av_received a) eligible;
            stranded = foldl i64_add 0 (map cm_quantity
              (filter (\<lambda>c. \<not> (\<exists>r \<in> set repoints. rt_allocation r = cm_id c)) eligible)) in
        (repoints, named @ uncovered
          @ (if av_closed a \<and> stranded > 0 then [ClaimsOutliveThePromise stranded (av_received a)] else [])))"

section \<open>The disposition\<close>

record receiving_policy =
  vp_version :: uuid
  vp_tolerance_over_pct :: "f64 option"
  vp_require_lot :: bool

record counted_line =
  ct_expected :: i64
  ct_quantity :: i64
  ct_has_lot :: bool

record disposition =
  ds_policy :: uuid
  ds_accept :: bool
  ds_raise :: "string option"

definition within_tolerance :: "f64 option \<Rightarrow> i64 \<Rightarrow> i64 \<Rightarrow> bool" where
  "within_tolerance pct expected counted =
     (case pct of None \<Rightarrow> False | Some p \<Rightarrow>
        f64_le (f64_of_int (i64_sub counted expected)) (f64_div (f64_mul (f64_of_int expected) p) 100))"

definition disposition :: "receiving_policy \<Rightarrow> counted_line \<Rightarrow> disposition" where
  "disposition policy line =
     (let stamp = \<lparr>ds_policy = vp_version policy, ds_accept = True, ds_raise = None\<rparr> in
      if vp_require_lot policy \<and> \<not> ct_has_lot line
      then stamp\<lparr>ds_accept := False, ds_raise := Some ''lot_missing''\<rparr>
      else if ct_quantity line > ct_expected line
           \<and> \<not> within_tolerance (vp_tolerance_over_pct policy) (ct_expected line) (ct_quantity line)
      then stamp\<lparr>ds_raise := Some ''over_receipt''\<rparr>
      else stamp)"

section \<open>Entered packaging to base units\<close>

datatype packaging_level = Each | Inner | Carton | Layer | Pallet

definition level_of_string :: "string \<Rightarrow> packaging_level option" where
  "level_of_string s =
     (if s = ''each'' then Some Each else if s = ''inner'' then Some Inner
      else if s = ''carton'' then Some Carton else if s = ''layer'' then Some Layer
      else if s = ''pallet'' then Some Pallet else None)"

fun level_str :: "packaging_level \<Rightarrow> string" where
  "level_str Each = ''each''"
| "level_str Inner = ''inner''"
| "level_str Carton = ''carton''"
| "level_str Layer = ''layer''"
| "level_str Pallet = ''pallet''"

definition needs_config :: "packaging_level \<Rightarrow> bool" where
  "needs_config l \<longleftrightarrow> l \<noteq> Each"

record packing_config =
  pf_id :: uuid
  pf_item :: uuid
  pf_units_per_inner :: "int option"
  pf_inners_per_carton :: "int option"
  pf_cartons_per_layer :: "int option"
  pf_layers_per_pallet :: "int option"

record entered_count =
  en_quantity :: i64
  en_level :: packaging_level
  en_config :: "uuid option"

datatype entered_problem =
    NothingEntered | AmbiguousInput | UnknownPackaging string | ConfigRequired packaging_level
  | ConfigWrongItem | IncompleteCascade packaging_level | BaseMismatch i64 i64 i64 | NonPositive

text \<open>The sign between entered and factor is U+00D7, two bytes.\<close>

definition i64_mul :: "i64 \<Rightarrow> i64 \<Rightarrow> i64" where
  "i64_mul a b = wrap64 (a * b)"

definition saturating_mul :: "i64 \<Rightarrow> i64 \<Rightarrow> i64" where
  "saturating_mul a b = max (- (2 ^ 63)) (min (2 ^ 63 - 1) (a * b))"

fun show_entered_problem :: "entered_problem \<Rightarrow> string" where
  "show_entered_problem NothingEntered = ''a receipt needs quantity or an entered packaging count''"
| "show_entered_problem AmbiguousInput =
     ''provide either base quantity alone (eaches) or entered_quantity with entered_packaging_level''"
| "show_entered_problem (UnknownPackaging l) = ''unknown packaging level '' @ l"
| "show_entered_problem (ConfigRequired l) =
     ''packaging level '' @ level_str l @ '' requires item_packing_config_id''"
| "show_entered_problem ConfigWrongItem =
     ''item_packing_config is for a different item than this receipt line''"
| "show_entered_problem (IncompleteCascade l) =
     ''item_packing_config is incomplete for packaging level '' @ level_str l"
| "show_entered_problem (BaseMismatch e f stated) =
     ''quantity '' @ show_int stated @ '' does not match entered '' @ show_int e @ '' '' @
     [CHR 0xC3, CHR 0x97] @ '' factor '' @ show_int f @ '' (expected '' @ show_int (i64_mul e f) @ '')''"
| "show_entered_problem NonPositive = ''entered quantity must be positive''"

declare show_entered_problem.simps [simp del]

definition packing_factor :: "packing_config option \<Rightarrow> packaging_level \<Rightarrow> i64 option" where
  "packing_factor config level =
     (case level of
        Each \<Rightarrow> Some 1
      | Inner \<Rightarrow> Option.bind config pf_units_per_inner
      | Carton \<Rightarrow> Option.bind config (\<lambda>c.
          Option.bind (pf_units_per_inner c) (\<lambda>u. Option.bind (pf_inners_per_carton c) (\<lambda>i.
            Some (i64_mul u i))))
      | Layer \<Rightarrow> Option.bind config (\<lambda>c.
          Option.bind (pf_units_per_inner c) (\<lambda>u. Option.bind (pf_inners_per_carton c) (\<lambda>i.
          Option.bind (pf_cartons_per_layer c) (\<lambda>k. Some (i64_mul (i64_mul u i) k)))))
      | Pallet \<Rightarrow> Option.bind config (\<lambda>c.
          Option.bind (pf_units_per_inner c) (\<lambda>u. Option.bind (pf_inners_per_carton c) (\<lambda>i.
          Option.bind (pf_cartons_per_layer c) (\<lambda>k. Option.bind (pf_layers_per_pallet c) (\<lambda>l.
            Some (i64_mul (i64_mul (i64_mul u i) k) l)))))))"

fun resolve_count ::
  "i64 option \<Rightarrow> i64 option \<Rightarrow> string option \<Rightarrow> packing_config option \<Rightarrow> uuid
   \<Rightarrow> entered_problem + (i64 \<times> entered_count)" where
  "resolve_count (Some q) None None config item =
     (if q \<le> 0 then Inl NonPositive
      else Inr (q, \<lparr>en_quantity = q, en_level = Each, en_config = None\<rparr>))"
| "resolve_count base (Some entered) (Some level_s) config item =
     (if entered \<le> 0 then Inl NonPositive
      else and_then (ok_or (level_of_string level_s) (UnknownPackaging level_s)) (\<lambda>level.
        if needs_config level \<and> config = None then Inl (ConfigRequired level)
        else if (case config of None \<Rightarrow> False | Some c \<Rightarrow> pf_item c \<noteq> item) then Inl ConfigWrongItem
        else and_then (ok_or (packing_factor config level) (IncompleteCascade level)) (\<lambda>factor.
          let expected_base = saturating_mul entered factor in
          if expected_base \<le> 0 then Inl NonPositive
          else if (case base of None \<Rightarrow> False | Some q \<Rightarrow> q \<noteq> expected_base)
          then Inl (BaseMismatch entered factor (the base))
          else Inr (expected_base, \<lparr>en_quantity = entered, en_level = level,
                                    en_config = map_option pf_id config\<rparr>))))"
| "resolve_count None None None config item = Inl NothingEntered"
| "resolve_count _ _ _ config item = Inl AmbiguousInput"

section \<open>Resolving the policy\<close>

record resolved_receiving =
  rg_policy :: receiving_policy
  rg_ambiguity :: "string option"

text \<open>
  The two SQL functions \<open>policy_candidate\<close> and \<open>policy_value\<close> and the version query are arguments:
  the candidate bindings, the values of the fields each states, and the version of a binding in
  force, each of which may fail as a statement.
\<close>

definition resolve_receiving_policy ::
  "api_error + candidate list \<Rightarrow> (128 word list \<Rightarrow> api_error + policy_value list)
   \<Rightarrow> (128 word \<Rightarrow> api_error + uuid option) \<Rightarrow> api_error + resolved_receiving" where
  "resolve_receiving_policy candidate_rows value_rows version_row =
     and_then candidate_rows (\<lambda>candidates.
     if candidates = []
     then Inl (Rejected ''no receiving policy binding matches, not even the platform default; the schema is missing migration 65'')
     else and_then (ok_or (resolve Receiving candidates)
                     (Rejected ''receiving policy resolve returned no winner'')) (\<lambda>r.
     and_then (value_rows (map binding candidates)) (\<lambda>values.
     let win = binding (winner r); raw = (\<lambda>field. winner_value win field values) in
     and_then (ok_or (raw ''require_lot'') (Rejected (''receiving binding '' @ show_uuid win @
        '' won but states no require_lot; its value row and its version row disagree''))) (\<lambda>lot.
     let (require_lot, tolerance) =
           foldl (\<lambda>(l, t) moved.
               if cl_field moved = ''tolerance_over_pct'' then (l, Some (applied moved))
               else if cl_field moved = ''require_lot'' then (\<not> f64_eq (applied moved) (Fin 0), t)
               else (l, t))
             (\<not> f64_eq lot (Fin 0), raw ''tolerance_over_pct'')
             (apply_clamps Receiving win values) in
     and_then (version_row win) (\<lambda>v.
     and_then (ok_or v (Rejected (''receiving binding '' @ show_uuid win @
        '' won but has no version in force at the act time''))) (\<lambda>version.
       Inr \<lparr>rg_policy = \<lparr>vp_version = version, vp_tolerance_over_pct = tolerance,
                          vp_require_lot = require_lot\<rparr>,
            rg_ambiguity = (if ambiguous_with r \<noteq> [] then Some (explain Receiving r) else None)\<rparr>))))))"

section \<open>What the handover does\<close>

interpretation first_bound: comparator first_bound
  by unfold_locales (auto simp: first_bound_def then_cmp_def cmp_def split: if_splits)

lemma first_bound_strict:
  "first_bound a b \<noteq> Greater \<Longrightarrow> first_bound b a \<noteq> Greater \<Longrightarrow> cm_id a = cm_id b"
  by (auto simp: first_bound_def then_cmp_def cmp_def split: if_splits)

definition eligible :: "arrival \<Rightarrow> claim list \<Rightarrow> claim list" where
  "eligible a claims = sort_by first_bound (filter (is_eligible a) claims)"

text \<open>The abstract rule: in order, take what still fits.\<close>

fun greedy :: "int \<Rightarrow> claim list \<Rightarrow> claim list" where
  "greedy n [] = []"
| "greedy n (c # cs) = (if cm_quantity c \<le> n then c # greedy (n - cm_quantity c) cs else greedy n cs)"

definition claimed_total :: "claim list \<Rightarrow> int" where
  "claimed_total cs = sum_list (map cm_quantity cs)"

lemma claimed_total_simps [simp]:
  "claimed_total [] = 0" "claimed_total (c # cs) = cm_quantity c + claimed_total cs"
  by (simp_all add: claimed_total_def)

lemma greedy_subset: "set (greedy n cs) \<subseteq> set cs"
  by (induction n cs rule: greedy.induct) auto

lemma greedy_append: "greedy n (xs @ ys) = greedy n xs @ greedy (n - claimed_total (greedy n xs)) ys"
  by (induction n xs rule: greedy.induct) (simp_all add: algebra_simps)

lemma greedy_total: "0 \<le> n \<Longrightarrow> claimed_total (greedy n cs) \<le> n"
proof (induction n cs rule: greedy.induct)
  case (2 n c cs)
  then show ?case by (cases "cm_quantity c \<le> n") simp_all
qed simp

lemma greedy_filter: "distinct cs \<Longrightarrow> filter (\<lambda>c. c \<in> set (greedy n cs)) cs = greedy n cs"
proof (induction n cs rule: greedy.induct)
  case (2 n c cs)
  have rest: "filter (\<lambda>x. x = c \<or> x \<in> set (greedy m cs)) cs = filter (\<lambda>x. x \<in> set (greedy m cs)) cs" for m
    using 2(3) by (intro filter_cong) auto
  have "c \<notin> set (greedy n cs)" using greedy_subset 2(3) by fastforce
  with 2 rest show ?case by (cases "cm_quantity c \<le> n") simp_all
qed simp

lemma greedy_member:
  assumes "distinct (pre @ c # post)"
  shows "c \<in> set (greedy n (pre @ c # post)) \<longleftrightarrow> cm_quantity c \<le> n - claimed_total (greedy n pre)"
proof -
  have "c \<notin> set (greedy n pre)" "c \<notin> set (greedy m post)" for m
    using assms greedy_subset by fastforce+
  then show ?thesis by (auto simp: greedy_append)
qed

text \<open>The code's loop is the rule: nothing wraps while the quantities are positive.\<close>

lemma hand_over_greedy:
  assumes "in_i64 n" and "\<forall>c \<in> set cs. 0 < cm_quantity c" and "distinct (map cm_id cs)"
  shows "hand_over a n cs = (map (repoint_of a) (greedy n cs),
    map (\<lambda>c. Uncovered (cm_id c) (cm_quantity c)) (filter (\<lambda>c. c \<notin> set (greedy n cs)) cs))"
  using assms
proof (induction a n cs rule: hand_over.induct)
  case (2 a n c cs)
  have c: "c \<notin> set cs" using 2(5) by auto
  then have rest: "filter (\<lambda>x. x \<noteq> c \<and> x \<notin> set (greedy m cs)) cs = filter (\<lambda>x. x \<notin> set (greedy m cs)) cs" for m
    by (intro filter_cong) auto
  have no: "c \<notin> set (greedy n cs)" using c greedy_subset by fastforce
  show ?case
  proof (cases "cm_quantity c \<le> n")
    case True
    have "i64_sub n (cm_quantity c) = n - cm_quantity c" "in_i64 (n - cm_quantity c)"
      using True 2(3,4) by (auto simp: i64_sub_def in_i64_def)
    with True 2 show ?thesis by (simp add: rest)
  next
    case False
    with 2 no show ?thesis by simp
  qed
qed simp

definition served :: "repoint list \<Rightarrow> claim \<Rightarrow> bool" where
  "served rs c \<longleftrightarrow> (\<exists>r \<in> set rs. rt_allocation r = cm_id c)"

lemma served_repoints:
  assumes "distinct (map cm_id cs)" and "set xs \<subseteq> set cs" "c \<in> set cs"
  shows "served (map (repoint_of a) xs) c \<longleftrightarrow> c \<in> set xs"
  using assms by (auto simp: served_def repoint_of_def distinct_map inj_on_def)

lemma eligible_props:
  assumes "distinct (map cm_id claims)"
  shows "distinct (map cm_id (eligible a claims))" "set (eligible a claims) = {c \<in> set claims. is_eligible a c}"
proof -
  have "distinct (map cm_id (filter (is_eligible a) claims))" using assms by (rule distinct_map_filter)
  moreover have "mset (map cm_id (eligible a claims)) = mset (map cm_id (filter (is_eligible a) claims))"
    by (simp add: eligible_def)
  ultimately show "distinct (map cm_id (eligible a claims))" by (metis mset_eq_imp_distinct_iff)
  show "set (eligible a claims) = {c \<in> set claims. is_eligible a c}" by (simp add: eligible_def)
qed

lemma plan_repoints:
  assumes "0 < av_received a" "in_i64 (av_received a)"
    and "\<forall>c \<in> set claims. 0 < cm_quantity c" "distinct (map cm_id claims)"
  shows "fst (plan a claims) = map (repoint_of a) (greedy (av_received a) (eligible a claims))"
    and "set (snd (plan a claims)) \<supseteq> (\<lambda>c. Uncovered (cm_id c) (cm_quantity c))
           ` {c \<in> set (eligible a claims). c \<notin> set (greedy (av_received a) (eligible a claims))}"
proof -
  note e = eligible_props [OF assms(4), of a]
  have "\<forall>c \<in> set (eligible a claims). 0 < cm_quantity c" using assms(3) e(2) by simp
  note h = hand_over_greedy [OF assms(2) this e(1), of a]
  show "fst (plan a claims) = map (repoint_of a) (greedy (av_received a) (eligible a claims))"
    using assms(1) h by (simp add: plan_def Let_def eligible_def [symmetric])
  show "set (snd (plan a claims)) \<supseteq> (\<lambda>c. Uncovered (cm_id c) (cm_quantity c))
           ` {c \<in> set (eligible a claims). c \<notin> set (greedy (av_received a) (eligible a claims))}"
    using assms(1) h by (auto simp: plan_def Let_def eligible_def [symmetric])
qed


definition sample_arrival :: arrival where
  "sample_arrival = \<lparr>av_tenant = 10, av_supply = 11, av_stock = 12, av_received = 50, av_occurred_at = 9,
     av_closed = False\<rparr>"

definition sample_claim :: "uuid \<Rightarrow> i64 \<Rightarrow> time \<Rightarrow> claim" where
  "sample_claim i q w = \<lparr>cm_id = i, cm_tenant = 10, cm_supply = Some 11, cm_quantity = q,
     cm_state = ''allocated'', cm_bound_at = w\<rparr>"


section \<open>The tolerance, in binary\<close>

lemma rounded_hundredths:
  assumes "0 \<le> k" and "k < 2 ^ 51"
  shows "of_int n \<le> rounded (of_int k / 100) \<longleftrightarrow> 100 * n \<le> k"
proof -
  let ?x = "of_int k / 100 :: rat"
  have k: "(of_int k :: rat) < 2 ^ 51" using assms(2) by (metis of_int_less_iff of_int_numeral of_int_power)
  have near: "\<bar>rounded ?x - ?x\<bar> < 1 / 100"
  proof (cases "k = 0")
    case False
    then have pos: "0 < ?x" using assms(1) by simp
    have "spacing ?x \<le> 2 powi (45 - 53)" using pos k by (intro spacing_le) simp_all
    moreover have "(2 powi (45 - 53) :: rat) = 1 / 256" by (simp add: power_int_def power_divide)
    ultimately have "spacing \<bar>?x\<bar> / 2 \<le> 1 / 512" using pos by simp
    then show ?thesis using rounded_near [of ?x] by simp
  qed (simp add: rounded_def)
  consider "100 * n = k" | "100 * n + 1 \<le> k" | "k + 1 \<le> 100 * n" by linarith
  then show ?thesis
  proof cases
    case 1
    then have x: "?x = of_int n" and n: "\<bar>n\<bar> < 2 ^ 53" using assms by auto
    have "rounded ?x = of_int n" unfolding x by (rule rounded_int [OF n])
    then show ?thesis using 1 by (simp only: order_refl)
  next
    case 2
    then have "(of_int (100 * n + 1) :: rat) \<le> of_int k" by (simp only: of_int_le_iff)
    then show ?thesis using near 2 by (simp add: abs_if split: if_splits)
  next
    case 3
    then have "(of_int (k + 1) :: rat) \<le> of_int (100 * n)" by (simp only: of_int_le_iff)
    then show ?thesis using near 3 by (simp add: abs_if split: if_splits)
  qed
qed

lemma within_tolerance_exact:
  assumes "0 \<le> expected" "expected < counted" "counted < 2 ^ 53" "0 \<le> pct" "expected * pct < 2 ^ 51"
  shows "within_tolerance (Some (Fin (of_int pct))) expected counted
    \<longleftrightarrow> 100 * (counted - expected) \<le> expected * pct"
proof -
  have sub: "i64_sub counted expected = counted - expected"
    using assms(1-3) by (simp add: i64_sub_def in_i64_def)
  have prod: "0 \<le> expected * pct" using assms(1,4) by simp
  have "round_f64 (of_int (expected * pct)) = Fin (of_int (expected * pct))"
    using f64_of_int_exact [of "expected * pct"] prod assms(5) by (simp only: f64_of_int_def) simp
  moreover have "round_f64 (of_int (expected * pct) / 100) = Fin (rounded (of_int (expected * pct) / 100))"
  proof (rule round_f64_Fin)
    have "(of_int (expected * pct) :: rat) < 2 ^ 51" using assms(5) by (metis of_int_less_iff of_int_numeral of_int_power)
    moreover have "(0 :: rat) \<le> of_int (expected * pct)" using prod by (simp only: of_int_0_le_iff)
    ultimately show "\<bar>of_int (expected * pct) / 100 :: rat\<bar> < 2 ^ 1000" by simp
  qed
  moreover have "f64_of_int expected = Fin (of_int expected)" "f64_of_int (counted - expected) = Fin (of_int (counted - expected))"
    using assms(1-3) by (simp_all add: f64_of_int_exact)
  ultimately show ?thesis
    using rounded_hundredths [OF prod assms(5), of "counted - expected"]
    by (simp add: within_tolerance_def sub f64_le_def f64_eq_def le_less)
qed



section \<open>Cartons to base units\<close>

lemma level_round_trip [simp]: "level_of_string (level_str l) = Some l"
  by (cases l) (simp_all add: level_of_string_def)

lemma level_of_string_iff: "level_of_string s = Some l \<longleftrightarrow> s = level_str l"
  by (cases l) (auto simp: level_of_string_def)

text \<open>The factor as a product of integers, with no width.\<close>

definition true_factor :: "packing_config option \<Rightarrow> packaging_level \<Rightarrow> int option" where
  "true_factor config level =
     (if level = Each then Some 1
      else Option.bind config (\<lambda>c.
        let fields = take (case level of Inner \<Rightarrow> 1 | Carton \<Rightarrow> 2 | Layer \<Rightarrow> 3 | _ \<Rightarrow> 4)
              [pf_units_per_inner c, pf_inners_per_carton c, pf_cartons_per_layer c, pf_layers_per_pallet c] in
        if None \<in> set fields then None else Some (prod_list (map the fields))))"

lemma i64_mul_exact: "0 \<le> a * b \<Longrightarrow> a * b < 2 ^ 63 \<Longrightarrow> i64_mul a b = a * b"
  by (simp add: i64_mul_def in_i64_def)

lemma prefix_product:
  assumes "0 < (b::int)" and "0 < a" and "a * b < n"
  shows "a < n"
proof -
  have "a * 1 \<le> a * b" using assms by (intro mult_left_mono) simp_all
  then show ?thesis using assms(3) by simp
qed

lemma packing_factor_exact:
  assumes F: "true_factor config level = Some F" and small: "F < 2 ^ 63"
    and pos: "\<And>c n. config = Some c \<Longrightarrow> Some n \<in> {pf_units_per_inner c, pf_inners_per_carton c,
        pf_cartons_per_layer c, pf_layers_per_pallet c} \<Longrightarrow> 0 < n"
  shows "packing_factor config level = Some F \<and> 0 < F"
proof (cases "level = Each")
  case True
  then show ?thesis using F by (simp add: true_factor_def packing_factor_def)
next
  case False
  then obtain c where c: "config = Some c" using F by (auto simp: true_factor_def bind_eq_Some_conv)
  note p = pos [OF c]
  show ?thesis
  proof (cases level)
    case Inner
    then show ?thesis using F c p by (auto simp: true_factor_def packing_factor_def Let_def split: if_splits)
  next
    case Carton
    then obtain u i where f: "pf_units_per_inner c = Some u" "pf_inners_per_carton c = Some i" "F = u * i"
      using F c by (cases "pf_units_per_inner c"; cases "pf_inners_per_carton c")
        (auto simp: true_factor_def Let_def numeral_2_eq_2)
    have n: "0 < u" "0 < i" using p f by auto
    then show ?thesis using Carton c f small by (simp add: packing_factor_def i64_mul_exact)
  next
    case Layer
    then obtain u i k where f: "pf_units_per_inner c = Some u" "pf_inners_per_carton c = Some i"
        "pf_cartons_per_layer c = Some k" "F = u * i * k"
      using F c by (cases "pf_units_per_inner c"; cases "pf_inners_per_carton c"; cases "pf_cartons_per_layer c")
        (auto simp: true_factor_def Let_def numeral_3_eq_3 mult.assoc)
    have n: "0 < u" "0 < i" "0 < k" using p f by auto
    then have "u * i < 2 ^ 63" using prefix_product [of k "u * i" "2 ^ 63"] small f(4) by simp
    then show ?thesis using Layer c f n small by (simp add: packing_factor_def i64_mul_exact)
  next
    case Pallet
    then obtain u i k l where f: "pf_units_per_inner c = Some u" "pf_inners_per_carton c = Some i"
        "pf_cartons_per_layer c = Some k" "pf_layers_per_pallet c = Some l" "F = u * i * k * l"
      using F c by (cases "pf_units_per_inner c"; cases "pf_inners_per_carton c"; cases "pf_cartons_per_layer c";
          cases "pf_layers_per_pallet c") (auto simp: true_factor_def Let_def mult.assoc)
    have n: "0 < u" "0 < i" "0 < k" "0 < l" using p f by auto
    then have uik: "u * i * k < 2 ^ 63" using prefix_product [of l "u * i * k" "2 ^ 63"] small f(5) by simp
    then have "u * i < 2 ^ 63" using prefix_product [of k "u * i" "2 ^ 63"] n by simp
    then show ?thesis using Pallet c f n small uik by (simp add: packing_factor_def i64_mul_exact)
  qed (use False in simp)
qed

lemma saturating_mul_exact: "0 \<le> a * b \<Longrightarrow> a * b < 2 ^ 63 \<Longrightarrow> saturating_mul a b = a * b"
  by (simp add: saturating_mul_def)

lemma resolve_count_entered:
  "resolve_count base (Some n) (Some ls) config item = Inr (q, ec) \<Longrightarrow>
     0 < n \<and> (\<exists>l f. ls = level_str l \<and> (needs_config l \<longrightarrow> config \<noteq> None)
       \<and> (\<forall>c. config = Some c \<longrightarrow> pf_item c = item) \<and> packing_factor config l = Some f
       \<and> q = saturating_mul n f \<and> 0 < q \<and> (base = None \<or> base = Some q)
       \<and> ec = \<lparr>en_quantity = n, en_level = l, en_config = map_option pf_id config\<rparr>)"
  by (cases config; cases base)
     (auto simp: result_simps Let_def level_of_string_iff split: if_splits)

text \<open>
  A count in cartons becomes exactly that many units.  With the configured numbers positive: whatever
  is accepted is positive, keeps the entered form, agrees with a stated base quantity, and was converted
  by a configuration of the line's own item whenever the level needs one; and while the true product
  stays below 2^63 the base quantity is the entered count times the product of the configured numbers.
\<close>

theorem resolve_count_converts_exactly:
  assumes ok: "resolve_count base entered level config item = Inr (q, ec)"
    and pos: "\<And>c n. config = Some c \<Longrightarrow> Some n \<in> {pf_units_per_inner c, pf_inners_per_carton c,
        pf_cartons_per_layer c, pf_layers_per_pallet c} \<Longrightarrow> 0 < n"
    and factor: "true_factor config (en_level ec) = Some F" and fits: "en_quantity ec * F < 2 ^ 63"
  shows "q = en_quantity ec * F \<and> 0 < q \<and> (base = None \<or> base = Some q)
    \<and> (entered = None \<longrightarrow> en_level ec = Each) \<and> (entered \<noteq> None \<longrightarrow> entered = Some (en_quantity ec))
    \<and> (level \<noteq> None \<longrightarrow> level = Some (level_str (en_level ec)))
    \<and> (en_level ec \<noteq> Each \<longrightarrow> (\<exists>c. config = Some c \<and> pf_item c = item \<and> en_config ec = Some (pf_id c)))"
proof (cases entered)
  case None
  then have e: "level = None" "base = Some q" "0 < q" "ec = \<lparr>en_quantity = q, en_level = Each, en_config = None\<rparr>"
    using ok by (cases base; cases level; auto split: if_splits)+
  then show ?thesis using factor None by (simp add: true_factor_def)
next
  case (Some n)
  show ?thesis
  proof (cases level)
    case None
    then show ?thesis using ok Some by (cases base) simp_all
  next
    case (Some ls)
    obtain l f where l: "ls = level_str l" "needs_config l \<longrightarrow> config \<noteq> None"
        "\<forall>c. config = Some c \<longrightarrow> pf_item c = item" "packing_factor config l = Some f"
        "q = saturating_mul n f" "0 < q" "base = None \<or> base = Some q" "0 < n"
        "ec = \<lparr>en_quantity = n, en_level = l, en_config = map_option pf_id config\<rparr>"
      using resolve_count_entered [OF ok [unfolded \<open>entered = Some n\<close> Some]] by blast
    have small: "F < 2 ^ 63 \<or> F \<le> 0"
      using prefix_product [of n F "2 ^ 63"] fits l(8,9) by (cases "0 < F") (simp_all add: mult.commute)
    have F: "F < 2 ^ 63" using small by auto
    from packing_factor_exact [OF factor F pos] have "f = F" "0 < F" using l(4,9) by auto
    then have "q = n * F" using l(5,8,9) fits by (simp add: saturating_mul_exact)
    then show ?thesis using l \<open>entered = Some n\<close> Some by (auto simp: needs_config_def)
  qed
qed

definition sample_packing :: packing_config where
  "sample_packing = \<lparr>pf_id = 1, pf_item = 2, pf_units_per_inner = Some 10, pf_inners_per_carton = Some 1,
     pf_cartons_per_layer = Some 8, pf_layers_per_pallet = Some 5\<rparr>"

theorem resolve_count_converts_exactly_witness:
  "\<exists>q ec. resolve_count (Some 1200) (Some 3) (Some ''pallet'') (Some sample_packing) 2 = Inr (q, ec)
     \<and> q = 3 * 400"
proof -
  let ?ec = "\<lparr>en_quantity = 3, en_level = Pallet, en_config = Some 1\<rparr>"
  have "resolve_count (Some 1200) (Some 3) (Some ''pallet'') (Some sample_packing) 2 = Inr (1200, ?ec)" by code_simp
  moreover from resolve_count_converts_exactly [OF this, of 400]
  have "1200 = (3::i64) * 400" by (simp add: true_factor_def sample_packing_def)
  ultimately show ?thesis by blast
qed

text \<open>
  Past 2^63 the conversion saturates, so that the stored base quantity is not what was entered times
  the factor, which is what job J65 asserts of every stored line; and a product of four configured
  numbers may wrap to another positive factor.
\<close>

lemma resolve_count_saturates:
  "case resolve_count None (Some (2 ^ 62)) (Some ''inner'') (Some sample_packing) 2 of Inl _ \<Rightarrow> False
     | Inr (q, ec) \<Rightarrow> packing_factor (Some sample_packing) (en_level ec) = Some 10 \<and> q \<noteq> en_quantity ec * 10"
  by code_simp

lemma packing_factor_wraps:
  "packing_factor (Some (sample_packing\<lparr>pf_units_per_inner := Some (2 ^ 22 + 1),
     pf_inners_per_carton := Some (2 ^ 21), pf_cartons_per_layer := Some (2 ^ 21)\<rparr>)) Layer = Some (2 ^ 42)"
  by code_simp

end
