(* ===== verification/Receipts.thy ===== *)
theory Receipts
  imports Receiving Ledger
begin

text \<open>
  \<open>POST /receipts\<close>, the handler by which stock comes in: one line of a delivery counted against a
  promise, decided by the resolved policy, recorded with its movement, and handed over to the claims
  that waited for it.  From \<^verbatim>\<open>routes.rs\<close>, with the SQL function that applies the decision.

  What the crate does not hold is an argument: the policy functions of the database, the rebuild that
  \<open>projection_refresh_tenant\<close> may run, the calendar of \<open>chrono\<close> and \<open>Uuid::now_v7\<close>.
\<close>

record inbound =
  ib_candidates :: "db \<Rightarrow> uuid \<Rightarrow> uuid \<Rightarrow> uuid option \<Rightarrow> uuid option \<Rightarrow> time \<Rightarrow> api_error + candidate list"
  ib_values :: "db \<Rightarrow> time \<Rightarrow> 128 word list \<Rightarrow> api_error + policy_value list"
  ib_version :: "db \<Rightarrow> time \<Rightarrow> 128 word \<Rightarrow> api_error + uuid option"
  ib_refresh :: "uuid \<Rightarrow> db \<Rightarrow> api_error + (i64 option \<times> db)"
  ib_day :: "time \<Rightarrow> int"
  ib_show_day :: "int \<Rightarrow> string"
  ib_lot_id :: uuid

section \<open>The request\<close>

record record_receipt_request =
  gq_supply :: uuid
  gq_to_location :: uuid
  gq_quantity :: "i64 option"
  gq_entered :: "i64 option"
  gq_level :: "string option"
  gq_config :: "uuid option"
  gq_lot :: "uuid option"
  gq_lot_code :: "string option"
  gq_lot_expiry :: "int option"
  gq_status :: "uuid option"
  gq_owner :: "uuid option"
  gq_order :: "uuid option"
  gq_close :: "bool option"
  gq_receipt :: "uuid option"
  gq_event :: uuid
  gq_occurred_at :: time

record record_receipt_response =
  ga_receipt :: uuid
  ga_line :: uuid
  ga_header_created :: bool
  ga_quantity :: i64
  ga_entered :: i64
  ga_level :: string
  ga_config :: "uuid option"
  ga_movement :: "uuid option"
  ga_stock :: "uuid option"
  ga_repointed :: "uuid list"
  ga_policy :: "uuid option"
  ga_accepted :: bool
  ga_discrepancy :: "uuid option"
  ga_warnings :: "string list"

section \<open>What is read before the act is claimed\<close>

text \<open>The promise joined to its order line and its order: the promise, the order and the supplier.\<close>

definition supply_joined :: "uuid \<Rightarrow> uuid \<Rightarrow> db \<Rightarrow> (expected_supply_row \<times> uuid \<times> uuid option) option" where
  "supply_joined t i s =
     Option.bind (by_id es_tenant es_id t i (expected_supplies s)) (\<lambda>e.
       Option.bind (by_id pl_tenant pl_id t (es_order_line e) (purchase_order_lines s)) (\<lambda>l.
         Option.bind (by_id po_tenant po_id t (pl_order l) (purchase_orders s)) (\<lambda>p.
           Some (e, pl_order l, po_supplier p))))"

definition load_packing ::
  "inbound \<Rightarrow> uuid \<Rightarrow> record_receipt_request \<Rightarrow> db \<Rightarrow> api_error + packing_config option" where
  "load_packing ib t req s =
     (case gq_config req of
        None \<Rightarrow> Inr None
      | Some c \<Rightarrow>
          and_then (ok_or (by_id kg_tenant kg_id t c (packing_configs s))
                     (Rejected ''item_packing_config_id was not found'')) (\<lambda>k.
            if kg_effective_from k > ib_day ib (gq_occurred_at req)
            then Inl (Rejected ''item_packing_config is not yet effective at the act time'')
            else Inr (Some \<lparr>pf_id = kg_id k, pf_item = kg_item k,
                   pf_units_per_inner = kg_units_per_inner k,
                   pf_inners_per_carton = kg_inners_per_carton k,
                   pf_cartons_per_layer = kg_cartons_per_layer k,
                   pf_layers_per_pallet = kg_layers_per_pallet k\<rparr>)))"

text \<open>\<open>map_err(|e| Rejected(e.to_string()))\<close>.\<close>

definition or_rejected :: "('e \<Rightarrow> string) \<Rightarrow> 'e + 'a \<Rightarrow> api_error + 'a" where
  "or_rejected show r = (case r of Inl e \<Rightarrow> Inl (Rejected (show e)) | Inr x \<Rightarrow> Inr x)"

lemma or_rejected_Inr [result_simps]: "or_rejected sh r = Inr x \<longleftrightarrow> r = Inr x"
  by (cases r) (simp_all add: or_rejected_def)

text \<open>\<open>query_one\<close> on the shipped statuses.\<close>

definition available_status :: "db \<Rightarrow> api_error + uuid" where
  "available_status s =
     (case filter (\<lambda>v. iv_code v = ''available'' \<and> iv_tenant v = None) (statuses s) of
        [v] \<Rightarrow> Inr (iv_id v)
      | _ \<Rightarrow> Inl Database)"

record receipt_facts =
  fc_promise :: expected_supply_row
  fc_supplier :: "uuid option"
  fc_base :: i64
  fc_entered :: entered_count
  fc_status :: uuid
  fc_owner :: uuid
  fc_order :: "uuid option"

definition receipt_reads ::
  "inbound \<Rightarrow> caller \<Rightarrow> record_receipt_request \<Rightarrow> db \<Rightarrow> api_error + receipt_facts" where
  "receipt_reads ib who req s =
     (let t = ca_tenant who in
      and_then (ok_or (supply_joined t (gq_supply req) s) NotFound) (\<lambda>(e, order, supplier).
      and_then (guard (es_tenant e = t) NotFound) (\<lambda>_.
      and_then (load_packing ib t req s) (\<lambda>packing.
      and_then (or_rejected show_entered_problem
                 (resolve_count (gq_quantity req) (gq_entered req) (gq_level req) packing (es_item e)))
        (\<lambda>(base_quantity, entered).
      and_then (guard (0 < base_quantity) (Rejected (show_receipt_problem NothingArrived))) (\<lambda>_.
      and_then (ok_or (location_by_id t (gq_to_location req) s)
                 (Rejected ''destination location not found'')) (\<lambda>l.
      and_then (guard (lo_tenant l = t) (Rejected ''destination location not found'')) (\<lambda>_.
      and_then (case gq_status req of Some v \<Rightarrow> Inr v | None \<Rightarrow>
                 (case es_status e of Some v \<Rightarrow> Inr v | None \<Rightarrow> available_status s)) (\<lambda>status.
      and_then (case gq_owner req of Some v \<Rightarrow> Inr v | None \<Rightarrow>
                 ok_or (es_owner e) (Rejected ''owner_id is required when the promise names none''))
        (\<lambda>owner.
        Inr \<lparr>fc_promise = e, fc_supplier = supplier, fc_base = base_quantity, fc_entered = entered,
             fc_status = status, fc_owner = owner,
             fc_order = (case gq_order req of Some p \<Rightarrow> Some p | None \<Rightarrow>
                map_option pl_order
                  (by_id pl_tenant pl_id t (es_order_line e) (purchase_order_lines s)))\<rparr>))))))))))"

section \<open>The replay\<close>

definition first_found :: "discrepancy_row \<Rightarrow> discrepancy_row \<Rightarrow> ordering" where
  "first_found a b = then_cmp (cmp (di_detected_at a) (di_detected_at b)) (cmp (di_id a) (di_id b))"

definition head_id :: "('r \<Rightarrow> uuid) \<Rightarrow> 'r list \<Rightarrow> uuid option" where
  "head_id f rs = (case rs of [] \<Rightarrow> None | r # _ \<Rightarrow> Some (f r))"

definition receipt_replay ::
  "uuid \<Rightarrow> record_receipt_request \<Rightarrow> receipt_facts \<Rightarrow> db \<Rightarrow> api_error + record_receipt_response" where
  "receipt_replay t req fc s =
     and_then (require_receipt_facts t (gq_event req) s)
       (\<lambda>(receipt, line, movement, movement_quantity, policy, accepted).
     and_then (case movement_quantity of None \<Rightarrow> Inr ()
               | Some qty \<Rightarrow> reject_quantity_mismatch qty (fc_base fc)) (\<lambda>_.
     let stock_id = head_id sk_id (sort_by (\<lambda>a b. cmp (sk_id a) (sk_id b))
           (filter (\<lambda>k. sk_location k = Some (gq_to_location req) \<and> sk_item k = es_item (fc_promise fc))
             (visible sk_tenant t (stock s))));
         finding = head_id di_id (sort_by first_found
           (filter (\<lambda>d. di_receipt_line d = Some line) (visible di_tenant t (discrepancies s)))) in
     and_then (ok_or (by_id gl_tenant gl_id t line (goods_receipt_lines s)) Database) (\<lambda>form.
     and_then (ok_or (by_id gr_tenant gr_id t receipt (goods_receipts s)) Database) (\<lambda>header.
       Inr \<lparr>ga_receipt = receipt, ga_line = line,
            ga_header_created = (gr_event header = gq_event req),
            ga_quantity = gl_quantity form, ga_entered = gl_entered form, ga_level = gl_level form,
            ga_config = gl_config form, ga_movement = movement, ga_stock = stock_id,
            ga_repointed = [], ga_policy = policy, ga_accepted = accepted,
            ga_discrepancy = finding, ga_warnings = [REPLAY_WARNING]\<rparr>))))"

section \<open>The lot\<close>

text \<open>
  A lot is found by its code or made; the expiry of a lot that has one is never changed, and a
  disagreement becomes a warning.
\<close>

definition find_or_make_lot ::
  "pg \<Rightarrow> inbound \<Rightarrow> uuid \<Rightarrow> uuid \<Rightarrow> string \<Rightarrow> int option \<Rightarrow> db
   \<Rightarrow> api_error + ((uuid \<times> string list) \<times> db)" where
  "find_or_make_lot pg ib t item code expiry s =
     (case filter (\<lambda>l. lt_item l = item \<and> lt_code l = code) (visible lt_tenant t (lots s)) of
        [] \<Rightarrow>
          and_then (write_to pg Lot s
            (s\<lparr>lots := lots s @ [\<lparr>lt_id = ib_lot_id ib, lt_tenant = t, lt_item = item,
                                   lt_code = code, lt_expiry = expiry\<rparr>]\<rparr>))
            (\<lambda>s'. Inr ((ib_lot_id ib, []), s'))
      | [l] \<Rightarrow>
          (case (lt_expiry l, expiry) of
             (None, Some stated) \<Rightarrow>
               and_then (write_to pg Lot s (s\<lparr>lots := update_rows lt_tenant lt_id t (lt_id l)
                   (\<lambda>_. True) (\<lambda>r. r\<lparr>lt_expiry := Some stated\<rparr>) (lots s)\<rparr>))
                 (\<lambda>s'. Inr ((lt_id l, []), s'))
           | (Some held, Some stated) \<Rightarrow>
               Inr ((lt_id l, if held \<noteq> stated
                  then [''lot '' @ code @ '' is on file with expiry '' @ ib_show_day ib held @
                        ''; this delivery says '' @ ib_show_day ib stated @ ''. The held date stands.'']
                  else []), s)
           | _ \<Rightarrow> Inr ((lt_id l, []), s))
      | _ \<Rightarrow> Inl Database)"

definition receipt_lot ::
  "pg \<Rightarrow> inbound \<Rightarrow> uuid \<Rightarrow> uuid \<Rightarrow> record_receipt_request \<Rightarrow> db
   \<Rightarrow> api_error + ((uuid option \<times> string list) \<times> db)" where
  "receipt_lot pg ib t item req s =
     (case gq_lot req of
        Some i \<Rightarrow> Inr ((Some i, []), s)
      | None \<Rightarrow>
          (case map_option trim (gq_lot_code req) of
             None \<Rightarrow> Inr ((None, []), s)
           | Some code \<Rightarrow>
               if code = [] then Inr ((None, []), s)
               else and_then (find_or_make_lot pg ib t item code (gq_lot_expiry req) s)
                      (\<lambda>((i, ws), s'). Inr ((Some i, ws), s'))))"

section \<open>The line and its disposition\<close>

definition receipt_line ::
  "pg \<Rightarrow> caller \<Rightarrow> record_receipt_request \<Rightarrow> receipt_facts \<Rightarrow> uuid \<Rightarrow> uuid option \<Rightarrow> goods_receipt_line_row" where
  "receipt_line pg who req fc header lot =
     \<lparr>gl_id = minted pg Goods_receipt_line, gl_tenant = ca_tenant who, gl_receipt = header,
      gl_event = gq_event req, gl_accepted_at = None, gl_policy = None,
      gl_item = es_item (fc_promise fc), gl_supply = Some (gq_supply req),
      gl_expected = Some (es_expected (fc_promise fc)), gl_quantity = fc_base fc,
      gl_entered = en_quantity (fc_entered fc), gl_level = level_str (en_level (fc_entered fc)),
      gl_config = en_config (fc_entered fc), gl_lot = lot, gl_recorded_by = ca_person who,
      gl_rejected_at = None\<rparr>"

definition insert_line :: "goods_receipt_line_row \<Rightarrow> db \<Rightarrow> db" where
  [row_simps]: "insert_line l s = s\<lparr>goods_receipt_lines := goods_receipt_lines s @ [l]\<rparr>"

text \<open>
  The SQL function \<open>goods_receipt_line_dispose\<close> (migration 66): it stamps the decision on the line,
  refuses a line that has one, and writes the finding the decision raises.
\<close>

definition disposed :: "pg \<Rightarrow> bool \<Rightarrow> uuid \<Rightarrow> goods_receipt_line_row \<Rightarrow> goods_receipt_line_row" where
  "disposed pg accept policy l =
     (if accept then l\<lparr>gl_accepted_at := Some (now pg), gl_policy := Some policy\<rparr>
      else l\<lparr>gl_rejected_at := Some (now pg), gl_policy := Some policy\<rparr>)"

definition disposition_finding ::
  "pg \<Rightarrow> uuid \<Rightarrow> string \<Rightarrow> uuid \<Rightarrow> goods_receipt_line_row \<Rightarrow> discrepancy_row" where
  "disposition_finding pg policy kind actor l =
     \<lparr>di_id = minted pg Discrepancy, di_tenant = gl_tenant l, di_kind = kind, di_state = ''open'',
      di_item = Some (gl_item l), di_holder = no_side\<lparr>sd_lot := gl_lot l\<rparr>,
      di_expected = gl_expected l, di_observed = Some (gl_entered l), di_stock_count = None,
      di_detail = Some (''receipt line '' @ show_uuid (gl_id l) @
        '' disposed under receiving policy '' @ show_uuid policy),
      di_detected_at = now pg, di_detected_by = Some actor, di_resolved_at = None,
      di_resolved_by = None, di_resolving_movement = None, di_resolution_reason = None,
      di_receipt_line = Some (gl_id l)\<rparr>"

definition goods_receipt_line_dispose ::
  "pg \<Rightarrow> uuid \<Rightarrow> uuid \<Rightarrow> uuid \<Rightarrow> bool \<Rightarrow> string option \<Rightarrow> uuid \<Rightarrow> db \<Rightarrow> api_error + (uuid option \<times> db)" where
  "goods_receipt_line_dispose pg t line policy accept kind actor s =
     (case by_id gl_tenant gl_id t line (goods_receipt_lines s) of
        None \<Rightarrow> Inl Database
      | Some l \<Rightarrow>
          if gl_accepted_at l \<noteq> None \<or> gl_rejected_at l \<noteq> None then Inl Database
          else and_then (write_to pg Goods_receipt_line s
                 (s\<lparr>goods_receipt_lines := update_rows gl_tenant gl_id t line (\<lambda>_. True)
                      (disposed pg accept policy) (goods_receipt_lines s)\<rparr>)) (\<lambda>s1.
            case kind of None \<Rightarrow> Inr (None, s1)
            | Some k \<Rightarrow>
                and_then (write_to pg Discrepancy s1
                   (insert_discrepancy (disposition_finding pg policy k actor l) s1)) (\<lambda>s2.
                  Inr (Some (minted pg Discrepancy), s2))))"

text \<open>An ambiguous resolution is a finding of its own.\<close>

definition ambiguity_finding ::
  "pg \<Rightarrow> caller \<Rightarrow> receipt_facts \<Rightarrow> uuid option \<Rightarrow> string \<Rightarrow> discrepancy_row" where
  "ambiguity_finding pg who fc lot detail =
     \<lparr>di_id = minted pg Policy_finding, di_tenant = ca_tenant who, di_kind = ''policy_ambiguous'',
      di_state = ''open'', di_item = Some (es_item (fc_promise fc)),
      di_holder = no_side\<lparr>sd_lot := lot\<rparr>, di_expected = None, di_observed = None,
      di_stock_count = None, di_detail = Some detail, di_detected_at = now pg,
      di_detected_by = Some (ca_person who), di_resolved_at = None, di_resolved_by = None,
      di_resolving_movement = None, di_resolution_reason = None,
      di_receipt_line = Some (minted pg Goods_receipt_line)\<rparr>"

definition raise_ambiguity ::
  "pg \<Rightarrow> caller \<Rightarrow> receipt_facts \<Rightarrow> uuid option \<Rightarrow> string option \<Rightarrow> db \<Rightarrow> api_error + db" where
  "raise_ambiguity pg who fc lot ambiguity s =
     (case ambiguity of None \<Rightarrow> Inr s
      | Some detail \<Rightarrow>
          write_to pg Policy_finding s (insert_discrepancy (ambiguity_finding pg who fc lot detail) s))"

section \<open>The movement and the handover\<close>

definition receipt_movement ::
  "pg \<Rightarrow> caller \<Rightarrow> record_receipt_request \<Rightarrow> receipt_facts \<Rightarrow> uuid option \<Rightarrow> stock_movement" where
  "receipt_movement pg who req fc lot =
     \<lparr>mv_id = minted pg Stock_movement, mv_tenant = ca_tenant who, mv_event = gq_event req,
      mv_item = es_item (fc_promise fc), mv_quantity = fc_base fc, mv_from = no_side,
      mv_to = \<lparr>sd_location = Some (gq_to_location req), sd_package = None, sd_lot = lot,
               sd_status = Some (fc_status fc), sd_owner = Some (fc_owner fc)\<rparr>,
      mv_reason = ''receipt'', mv_occurred_at = gq_occurred_at req, mv_recorded_by = ca_person who,
      mv_reverses = None, mv_adjustment_reason = None, mv_line = None,
      mv_receipt_line = Some (minted pg Goods_receipt_line), mv_external_pick = None\<rparr>"

definition receiving_cell ::
  "uuid \<Rightarrow> record_receipt_request \<Rightarrow> receipt_facts \<Rightarrow> uuid option \<Rightarrow> db \<Rightarrow> api_error + uuid option" where
  "receiving_cell t req fc lot s =
     (case filter (\<lambda>k. sk_item k = es_item (fc_promise fc) \<and> sk_location k = Some (gq_to_location req)
             \<and> sk_lot k = lot \<and> sk_status k = fc_status fc \<and> sk_owner k = fc_owner fc
             \<and> sk_package k = None) (visible sk_tenant t (stock s)) of
        [] \<Rightarrow> Inr None
      | [k] \<Rightarrow> Inr (Some (sk_id k))
      | _ \<Rightarrow> Inl Database)"

definition claim_of_row :: "stock_allocation_row \<Rightarrow> claim" where
  "claim_of_row a = \<lparr>cm_id = al_id a, cm_tenant = al_tenant a, cm_supply = al_supply a,
     cm_quantity = al_quantity a, cm_state = al_state a, cm_bound_at = al_bound_at a\<rparr>"

definition promise_claims :: "uuid \<Rightarrow> uuid \<Rightarrow> db \<Rightarrow> claim list" where
  "promise_claims t supply s =
     map claim_of_row (filter (\<lambda>a. al_supply a = Some supply) (visible al_tenant t (allocations s)))"

definition repointed :: "repoint \<Rightarrow> stock_allocation_row \<Rightarrow> stock_allocation_row" where
  "repointed r a = a\<lparr>al_stock := Some (rt_stock r), al_supply := None,
     al_origin := Some (rt_origin r), al_bound_at := rt_bound_at r\<rparr>"

fun repoint_all :: "pg \<Rightarrow> uuid \<Rightarrow> repoint list \<Rightarrow> db \<Rightarrow> api_error + db" where
  "repoint_all pg t [] s = Inr s"
| "repoint_all pg t (r # rs) s =
     and_then (write_to pg Stock_allocation s
        (s\<lparr>allocations := update_rows al_tenant al_id t (rt_allocation r) (\<lambda>_. True) (repointed r)
             (allocations s)\<rparr>))
       (repoint_all pg t rs)"

definition arrival_of ::
  "uuid \<Rightarrow> record_receipt_request \<Rightarrow> receipt_facts \<Rightarrow> uuid \<Rightarrow> arrival" where
  "arrival_of t req fc stock_id =
     \<lparr>av_tenant = t, av_supply = gq_supply req, av_stock = stock_id, av_received = fc_base fc,
      av_occurred_at = gq_occurred_at req,
      av_closed = (gq_close req = Some True \<or> es_closed_at (fc_promise fc) \<noteq> None)\<rparr>"

text \<open>
  The accepted branch after the movement: the rebuild (skipped when it is rate-limited), the cell,
  and the claims handed over to it, then the dirty mark.
\<close>

definition receipt_handover ::
  "pg \<Rightarrow> inbound \<Rightarrow> uuid \<Rightarrow> record_receipt_request \<Rightarrow> receipt_facts \<Rightarrow> uuid option \<Rightarrow> db
   \<Rightarrow> api_error + ((uuid option \<times> uuid list \<times> string list) \<times> db)" where
  "receipt_handover pg ib t req fc lot s =
     and_then (ib_refresh ib t s) (\<lambda>(refresh, s1).
     let late = (if refresh = None
           then [''projection refresh rate-limited; claim handover deferred until the scheduler rebuilds stock'']
           else []) in
     and_then (receiving_cell t req fc lot s1) (\<lambda>cell.
     and_then (case cell of
         None \<Rightarrow> Inr (([], late @ [''stock cell not found after receipt; claims remain on the promise until the stock projection runs'']), s1)
       | Some k \<Rightarrow>
           (let (repoints, problems) = plan (arrival_of t req fc k) (promise_claims t (gq_supply req) s1) in
            and_then (repoint_all pg t repoints s1) (\<lambda>s2.
              Inr ((map rt_allocation repoints, late @ map show_receipt_problem problems), s2))))
       (\<lambda>((ids, ws), s3).
     and_then (write_to pg Projection_dirty s3 (mark_dirty pg t ''receipt'' s3)) (\<lambda>s4.
       Inr ((cell, ids, ws), s4)))))"

section \<open>The handler\<close>

definition receipt_envelope :: "caller \<Rightarrow> record_receipt_request \<Rightarrow> new_client_event" where
  "receipt_envelope who req = \<lparr>ne_tenant = ca_tenant who, ne_id = gq_event req, ne_site = ca_site who,
     ne_recorded_by = ca_person who, ne_submitted_at = gq_occurred_at req\<rparr>"

definition receipt_header_of ::
  "caller \<Rightarrow> record_receipt_request \<Rightarrow> receipt_facts \<Rightarrow> new_goods_receipt" where
  "receipt_header_of who req fc = \<lparr>ng_tenant = ca_tenant who, ng_id = gq_receipt req,
     ng_site = ca_site who, ng_purchase_order = fc_order fc, ng_received_at = gq_occurred_at req,
     ng_event = gq_event req, ng_recorded_by = ca_person who\<rparr>"

definition policy_in_force ::
  "inbound \<Rightarrow> caller \<Rightarrow> record_receipt_request \<Rightarrow> receipt_facts \<Rightarrow> db \<Rightarrow> api_error + resolved_receiving" where
  "policy_in_force ib who req fc s =
     (let w = gq_occurred_at req;
          site = (case es_site (fc_promise fc) of None \<Rightarrow> ca_site who | Some i \<Rightarrow> Some i) in
      resolve_receiving_policy
        (ib_candidates ib s (ca_tenant who) (es_item (fc_promise fc)) (fc_supplier fc) site w)
        (ib_values ib s w) (ib_version ib s w))"

definition receipt_decision ::
  "resolved_receiving \<Rightarrow> receipt_facts \<Rightarrow> uuid option \<Rightarrow> disposition" where
  "receipt_decision rg fc lot = disposition (rg_policy rg)
     \<lparr>ct_expected = es_expected (fc_promise fc), ct_quantity = fc_base fc, ct_has_lot = (lot \<noteq> None)\<rparr>"

definition receipt_warnings :: "disposition \<Rightarrow> resolved_receiving \<Rightarrow> string list" where
  "receipt_warnings d rg =
     (case ds_raise d of None \<Rightarrow> [] | Some kind \<Rightarrow> [''disposition raised finding kind '' @ kind])
     @ (case rg_ambiguity rg of None \<Rightarrow> [] | Some detail \<Rightarrow> [detail])"

definition receipt_write ::
  "pg \<Rightarrow> inbound \<Rightarrow> caller \<Rightarrow> record_receipt_request \<Rightarrow> receipt_facts \<Rightarrow> db
   \<Rightarrow> api_error + (record_receipt_response \<times> db)" where
  "receipt_write pg ib who req fc s =
     (let t = ca_tenant who; line = minted pg Goods_receipt_line in
      and_then (receipt_lot pg ib t (es_item (fc_promise fc)) req s) (\<lambda>((lot, lot_ws), s1).
      and_then (policy_in_force ib who req fc s1) (\<lambda>rg.
      let d = receipt_decision rg fc lot in
      and_then (ensure_goods_receipt pg (receipt_header_of who req fc) s1) (\<lambda>((header, created), s2).
      and_then (write_to pg Goods_receipt_line s2
                 (insert_line (receipt_line pg who req fc header lot) s2)) (\<lambda>s3.
      and_then (goods_receipt_line_dispose pg t line (ds_policy d) (ds_accept d) (ds_raise d)
                 (ca_person who) s3) (\<lambda>(finding, s4).
      and_then (raise_ambiguity pg who fc lot (rg_ambiguity rg) s4) (\<lambda>s5.
      let answer = \<lparr>ga_receipt = header, ga_line = line, ga_header_created = created,
            ga_quantity = fc_base fc, ga_entered = en_quantity (fc_entered fc),
            ga_level = level_str (en_level (fc_entered fc)), ga_config = en_config (fc_entered fc),
            ga_movement = None, ga_stock = None, ga_repointed = [], ga_policy = Some (ds_policy d),
            ga_accepted = ds_accept d, ga_discrepancy = finding,
            ga_warnings = lot_ws @ receipt_warnings d rg\<rparr> in
      if ds_accept d
      then and_then (write_to pg Stock_movement s5
                      (insert_movement (receipt_movement pg who req fc lot) s5)) (\<lambda>s6.
           and_then (receipt_handover pg ib t req fc lot s6) (\<lambda>((cell, ids, ws), s7).
             Inr (answer\<lparr>ga_movement := Some (minted pg Stock_movement), ga_stock := cell,
                         ga_repointed := ids, ga_warnings := ga_warnings answer @ ws\<rparr>, s7)))
      else Inr (answer\<lparr>ga_warnings := ga_warnings answer
                  @ [''receipt line refused by receiving policy; no stock movement written'']\<rparr>, s5))))))))"

definition record_receipt ::
  "inbound \<Rightarrow> pg \<Rightarrow> caller \<Rightarrow> record_receipt_request \<Rightarrow> db \<Rightarrow> api_error + (record_receipt_response \<times> db)" where
  "record_receipt ib pg who req s =
     and_then (receipt_reads ib who req s) (\<lambda>fc.
     and_then (claim_act pg (receipt_envelope who req) s) (\<lambda>(act, s1).
       if is_replay act
       then and_then (receipt_replay (ca_tenant who) req fc s1) (\<lambda>v. Inr (v, s1))
       else receipt_write pg ib who req fc s1))"

section \<open>What each part writes\<close>

text \<open>
  What \<open>projection_refresh_tenant\<close> promises: a rebuild of the session's tenant, or nothing when it
  answers null because it is rate-limited.
\<close>

definition maintains :: "(uuid \<Rightarrow> db \<Rightarrow> api_error + (i64 option \<times> db)) \<Rightarrow> bool" where
  "maintains refresh \<longleftrightarrow> (\<forall>t s n s'. refresh t s = Inr (n, s') \<longrightarrow>
     rebuilt t s s' \<and> (n = None \<longrightarrow> s' = s))"

text \<open>A statement of \<open>t\<close> that leaves the facts alone and at most adds findings.\<close>

definition bystands :: "uuid \<Rightarrow> db \<Rightarrow> db \<Rightarrow> bool" where
  "bystands t s s' \<longleftrightarrow> isolated t s s' \<and> client_events s' = client_events s
     \<and> movements s' = movements s \<and> package_events s' = package_events s
     \<and> adjustment_reasons s' = adjustment_reasons s
     \<and> (\<exists>ds. discrepancies s' = discrepancies s @ ds)"

lemma bystands_refl [simp]: "bystands t s s"
  by (simp add: bystands_def)

lemma bystands_trans: "bystands t s s' \<Longrightarrow> bystands t s' s'' \<Longrightarrow> bystands t s s''"
  by (auto simp: bystands_def intro: isolated_trans)

lemma bystands_mark_dirty [simp]: "bystands t s (mark_dirty pg t why s)"
  by (simp add: bystands_def)

lemma bystands_update:
  "(\<And>r. lt_tenant (f r) = lt_tenant r) \<Longrightarrow>
     bystands t s (s\<lparr>lots := update_rows lt_tenant lt_id t i p f (lots s)\<rparr>)"
  "(\<And>r. gl_tenant (g r) = gl_tenant r) \<Longrightarrow>
     bystands t s (s\<lparr>goods_receipt_lines := update_rows gl_tenant gl_id t i q g (goods_receipt_lines s)\<rparr>)"
  "(\<And>r. al_tenant (h r) = al_tenant r) \<Longrightarrow>
     bystands t s (s\<lparr>allocations := update_rows al_tenant al_id t i u h (allocations s)\<rparr>)"
  by (auto simp: bystands_def isolated_def tenant_view_def update_rows_visible_other)

lemma bystands_insert:
  "lt_tenant l = t \<Longrightarrow> bystands t s (s\<lparr>lots := lots s @ [l]\<rparr>)"
  "gr_tenant g = t \<Longrightarrow> bystands t s (s\<lparr>goods_receipts := goods_receipts s @ [g]\<rparr>)"
  "gl_tenant n = t \<Longrightarrow> bystands t s (s\<lparr>goods_receipt_lines := goods_receipt_lines s @ [n]\<rparr>)"
  "di_tenant d = t \<Longrightarrow> bystands t s (s\<lparr>discrepancies := discrepancies s @ [d]\<rparr>)"
  by (simp_all add: bystands_def isolated_insert)

lemma bystands_rebuilt:
  assumes "rebuilt t s s'"
  shows "bystands t s s'"
proof -
  have s': "s' = s\<lparr>stock := stock s', fulfilment_lines := fulfilment_lines s', packages := packages s',
              expected_supplies := expected_supplies s', dirty := dirty s', freshness := freshness s'\<rparr>"
    and iso: "isolated t s s'" using assms by (simp_all add: rebuilt_def)
  have "client_events s' = client_events s" "movements s' = movements s"
      "package_events s' = package_events s" "discrepancies s' = discrepancies s"
      "adjustment_reasons s' = adjustment_reasons s"
    by (subst s', simp)+
  with iso show ?thesis by (simp add: bystands_def)
qed

lemma receipt_lot_writes:
  assumes "receipt_lot pg ib t item req s = Inr ((lot, ws), s')"
  shows "bystands t s s' \<and> discrepancies s' = discrepancies s
     \<and> goods_receipt_lines s' = goods_receipt_lines s \<and> allocations s' = allocations s \<and> stock s' = stock s"
proof -
  have "bystands t s s' \<and> discrepancies s' = discrepancies s
     \<and> goods_receipt_lines s' = goods_receipt_lines s \<and> allocations s' = allocations s \<and> stock s' = stock s"
    if "find_or_make_lot pg ib t item code e s = Inr ((i, w), s')" for code e i w
    using that by (auto simp: find_or_make_lot_def result_simps bystands_insert bystands_update
        split: list.splits option.splits)
  then show ?thesis using assms
    by (fastforce simp: receipt_lot_def result_simps split: option.splits if_splits)
qed

lemma ensure_goods_receipt_writes:
  assumes "ensure_goods_receipt pg gr s = Inr ((h, c), s')"
  shows "bystands (ng_tenant gr) s s' \<and> discrepancies s' = discrepancies s
     \<and> goods_receipt_lines s' = goods_receipt_lines s \<and> allocations s' = allocations s \<and> stock s' = stock s"
  using assms by (auto simp: ensure_goods_receipt_def result_simps row_simps receipt_header_def
      bystands_insert split: option.splits if_splits)

lemma goods_receipt_line_dispose_writes:
  assumes "goods_receipt_line_dispose pg t line policy accept kind actor s = Inr (finding, s')"
  obtains l where "by_id gl_tenant gl_id t line (goods_receipt_lines s) = Some l"
    "gl_accepted_at l = None" "gl_rejected_at l = None"
    "finding = (if kind = None then None else Some (minted pg Discrepancy))"
    "s' = s\<lparr>goods_receipt_lines := update_rows gl_tenant gl_id t line (\<lambda>_. True)
              (disposed pg accept policy) (goods_receipt_lines s),
            discrepancies := discrepancies s
              @ (case kind of None \<Rightarrow> [] | Some k \<Rightarrow> [disposition_finding pg policy k actor l])\<rparr>"
  using assms that
  by (auto simp: goods_receipt_line_dispose_def result_simps row_simps split: option.splits if_splits)

lemma raise_ambiguity_writes:
  "raise_ambiguity pg who fc lot ambiguity s = Inr s' \<Longrightarrow>
   s' = s\<lparr>discrepancies := discrepancies s @ (case ambiguity of None \<Rightarrow> []
            | Some detail \<Rightarrow> [ambiguity_finding pg who fc lot detail])\<rparr>"
  by (auto simp: raise_ambiguity_def result_simps row_simps split: option.splits)

lemma repoint_all_writes:
  "repoint_all pg t rs s = Inr s' \<Longrightarrow> bystands t s s'
     \<and> s' = s\<lparr>allocations := fold (\<lambda>r. update_rows al_tenant al_id t (rt_allocation r) (\<lambda>_. True) (repointed r))
                rs (allocations s)\<rparr>"
proof (induction rs arbitrary: s)
  case (Cons r rs)
  let ?s1 = "s\<lparr>allocations := update_rows al_tenant al_id t (rt_allocation r) (\<lambda>_. True) (repointed r)
       (allocations s)\<rparr>"
  have "repoint_all pg t rs ?s1 = Inr s'" using Cons.prems by (auto simp: result_simps)
  note IH = Cons.IH [OF this]
  have "bystands t s ?s1" by (rule bystands_update) (simp add: repointed_def)
  from bystands_trans [OF this conjunct1 [OF IH]] have "bystands t s s'" .
  moreover have "s' = s\<lparr>allocations := fold (\<lambda>r. update_rows al_tenant al_id t (rt_allocation r) (\<lambda>_. True)
          (repointed r)) (r # rs) (allocations s)\<rparr>"
    by (rule trans [OF conjunct2 [OF IH]]) simp
  ultimately show ?case by simp
qed simp

text \<open>The handover: a rebuild, then the re-pointing of claims, then the dirty mark.\<close>

lemma receipt_handover_writes:
  assumes run: "receipt_handover pg ib t req fc lot s = Inr ((cell, ids, ws), s')"
    and db: "maintains (ib_refresh ib)"
  obtains n s1 where "ib_refresh ib t s = Inr (n, s1)" "rebuilt t s s1" "n = None \<longrightarrow> s1 = s"
    "receiving_cell t req fc lot s1 = Inr cell"
    "ids = (case cell of None \<Rightarrow> [] | Some k \<Rightarrow>
       map rt_allocation (fst (plan (arrival_of t req fc k) (promise_claims t (gq_supply req) s1))))"
    "s' = mark_dirty pg t ''receipt'' (s1\<lparr>allocations := (case cell of None \<Rightarrow> allocations s1
       | Some k \<Rightarrow> fold (\<lambda>r. update_rows al_tenant al_id t (rt_allocation r) (\<lambda>_. True) (repointed r))
           (fst (plan (arrival_of t req fc k) (promise_claims t (gq_supply req) s1))) (allocations s1))\<rparr>)"
    "bystands t s s'"
proof -
  obtain n s1 where r: "ib_refresh ib t s = Inr (n, s1)" and c: "receiving_cell t req fc lot s1 = Inr cell"
    using run by (auto simp: receipt_handover_def Let_def result_simps)
  have reb: "rebuilt t s s1" "n = None \<longrightarrow> s1 = s" using db r unfolding maintains_def by blast+
  note by1 = bystands_rebuilt [OF reb(1)]
  show thesis
  proof (cases cell)
    case None
    then have "ids = []" "s' = mark_dirty pg t ''receipt'' s1"
      using run r c by (auto simp: receipt_handover_def Let_def result_simps)
    with None show thesis
      by (intro that [OF r reb c]) (auto intro: bystands_trans [OF by1])
  next
    case (Some k)
    let ?plan = "plan (arrival_of t req fc k) (promise_claims t (gq_supply req) s1)"
    obtain s2 where s2: "repoint_all pg t (fst ?plan) s1 = Inr s2" and ids: "ids = map rt_allocation (fst ?plan)"
        and s': "s' = mark_dirty pg t ''receipt'' s2"
      using run r c Some by (auto simp: receipt_handover_def Let_def result_simps split: prod.splits)
    note w = repoint_all_writes [OF s2]
    have all: "bystands t s s'"
      unfolding s' using w by (blast intro: bystands_trans [OF by1] bystands_trans bystands_mark_dirty)
    have "s' = mark_dirty pg t ''receipt'' (s1\<lparr>allocations := fold (\<lambda>r. update_rows al_tenant al_id t
        (rt_allocation r) (\<lambda>_. True) (repointed r)) (fst ?plan) (allocations s1)\<rparr>)"
      unfolding s' using w by metis
    with ids all Some show thesis by (intro that [OF r reb c]) simp_all
  qed
qed

text \<open>The state once the line is written, disposed of and its findings raised.\<close>

definition findings_of ::
  "pg \<Rightarrow> caller \<Rightarrow> receipt_facts \<Rightarrow> uuid option \<Rightarrow> resolved_receiving \<Rightarrow> goods_receipt_line_row \<Rightarrow> discrepancy_row list" where
  "findings_of pg who fc lot rg l =
     (let d = receipt_decision rg fc lot in
      (case ds_raise d of None \<Rightarrow> [] | Some k \<Rightarrow> [disposition_finding pg (ds_policy d) k (ca_person who) l])
      @ (case rg_ambiguity rg of None \<Rightarrow> [] | Some detail \<Rightarrow> [ambiguity_finding pg who fc lot detail]))"

text \<open>No receipt line of the tenant has the id the new one is given, as its primary key demands.\<close>

definition new_line :: "pg \<Rightarrow> uuid \<Rightarrow> db \<Rightarrow> bool" where
  "new_line pg t s \<longleftrightarrow> (\<forall>l \<in> set (goods_receipt_lines s). gl_tenant l = t \<longrightarrow> gl_id l \<noteq> minted pg Goods_receipt_line)"

lemma update_rows_none:
  "\<forall>r \<in> set rows. tn r = t \<longrightarrow> io r \<noteq> i \<Longrightarrow> update_rows tn io t i p f rows = rows"
  by (induction rows) (auto simp: update_rows_def)

lemma update_rows_snoc:
  "update_rows tn io t i p f (rows @ [r]) =
   update_rows tn io t i p f rows @ [if tn r = t \<and> io r = i \<and> p r then f r else r]"
  by (simp add: update_rows_def)

lemma by_id_none:
  "\<forall>r \<in> set rows. tn r = t \<longrightarrow> io r \<noteq> i \<Longrightarrow> by_id tn io t i rows = None"
  by (auto simp: by_id_def find_None_iff)

lemma by_id_snoc:
  "by_id tn io t i (rows @ [r]) = (case by_id tn io t i rows of Some x \<Rightarrow> Some x
     | None \<Rightarrow> if tn r = t \<and> io r = i then Some r else None)"
  by (auto simp: by_id_def find_append split: option.splits)

text \<open>Everything a fresh run does, in order.\<close>

definition claimed_db :: "pg \<Rightarrow> caller \<Rightarrow> record_receipt_request \<Rightarrow> db \<Rightarrow> db" where
  "claimed_db pg who req s = s\<lparr>client_events := client_events s @ [envelope pg (receipt_envelope who req)]\<rparr>"

lemma record_receipt_fresh:
  assumes run: "record_receipt ib pg who req s = Inr (v, s')"
    and fresh: "\<not> claimed (ca_tenant who) (gq_event req) s"
  obtains fc where "receipt_reads ib who req s = Inr fc"
    "receipt_write pg ib who req fc (claimed_db pg who req s) = Inr (v, s')"
proof -
  obtain fc a s1 where 1: "receipt_reads ib who req s = Inr fc"
      "claim_act pg (receipt_envelope who req) s = Inr (a, s1)"
    using run by (auto simp: record_receipt_def result_simps)
  then have a: "a = Fresh" using fresh by (cases a) (auto simp: claim_act_Replay receipt_envelope_def)
  then have "s1 = claimed_db pg who req s" using 1(2) by (simp add: claim_act_Fresh claimed_db_def)
  then have "receipt_write pg ib who req fc (claimed_db pg who req s) = Inr (v, s')"
    using 1 run a by (simp add: record_receipt_def)
  with 1(1) show thesis by (rule that)
qed

lemma receipt_write_Inr:
  assumes run: "receipt_write pg ib who req fc s = Inr (v, s')"
    and new: "new_line pg (ca_tenant who) s"
  obtains lot lot_ws s1 rg header created s2 s5 where
    "receipt_lot pg ib (ca_tenant who) (es_item (fc_promise fc)) req s = Inr ((lot, lot_ws), s1)"
    "policy_in_force ib who req fc s1 = Inr rg"
    "ensure_goods_receipt pg (receipt_header_of who req fc) s1 = Inr ((header, created), s2)"
    "s5 = s2\<lparr>goods_receipt_lines := goods_receipt_lines s @ [disposed pg
         (ds_accept (receipt_decision rg fc lot)) (ds_policy (receipt_decision rg fc lot))
         (receipt_line pg who req fc header lot)],
       discrepancies := discrepancies s @ findings_of pg who fc lot rg (receipt_line pg who req fc header lot)\<rparr>"
    "ga_receipt v = header \<and> ga_line v = minted pg Goods_receipt_line \<and> ga_header_created v = created
     \<and> ga_quantity v = fc_base fc \<and> ga_entered v = en_quantity (fc_entered fc)
     \<and> ga_level v = level_str (en_level (fc_entered fc)) \<and> ga_config v = en_config (fc_entered fc)
     \<and> ga_policy v = Some (ds_policy (receipt_decision rg fc lot))
     \<and> ga_accepted v = ds_accept (receipt_decision rg fc lot)
     \<and> ga_discrepancy v = (if ds_raise (receipt_decision rg fc lot) = None then None
          else Some (minted pg Discrepancy))"
    "if ds_accept (receipt_decision rg fc lot)
     then ga_movement v = Some (minted pg Stock_movement)
       \<and> (\<exists>ws. receipt_handover pg ib (ca_tenant who) req fc lot
            (insert_movement (receipt_movement pg who req fc lot) s5) = Inr ((ga_stock v, ga_repointed v, ws), s'))
     else s' = s5 \<and> ga_movement v = None \<and> ga_stock v = None \<and> ga_repointed v = []"
proof -
  let ?t = "ca_tenant who"
  obtain lot lot_ws s1 rg header created s2 finding s4 where
      1: "receipt_lot pg ib ?t (es_item (fc_promise fc)) req s = Inr ((lot, lot_ws), s1)"
    and 2: "policy_in_force ib who req fc s1 = Inr rg"
    and 3: "ensure_goods_receipt pg (receipt_header_of who req fc) s1 = Inr ((header, created), s2)"
    and 4: "goods_receipt_line_dispose pg ?t (minted pg Goods_receipt_line)
        (ds_policy (receipt_decision rg fc lot)) (ds_accept (receipt_decision rg fc lot))
        (ds_raise (receipt_decision rg fc lot)) (ca_person who)
        (insert_line (receipt_line pg who req fc header lot) s2) = Inr (finding, s4)"
    using run by (auto simp: receipt_write_def Let_def result_simps)
  then obtain s5 where 5: "raise_ambiguity pg who fc lot (rg_ambiguity rg) s4 = Inr s5"
    using run by (auto simp: receipt_write_def Let_def result_simps)
  let ?d = "receipt_decision rg fc lot" and ?l = "receipt_line pg who req fc header lot"
  note w1 = receipt_lot_writes [OF 1] and w2 = ensure_goods_receipt_writes [OF 3]
  have lines: "goods_receipt_lines s2 = goods_receipt_lines s" "discrepancies s2 = discrepancies s"
    using w1 w2 by simp_all
  have new': "\<forall>l \<in> set (goods_receipt_lines s). gl_tenant l = ?t \<longrightarrow> gl_id l \<noteq> minted pg Goods_receipt_line"
    using new by (simp add: new_line_def)
  have l: "gl_tenant ?l = ?t" "gl_id ?l = minted pg Goods_receipt_line" by (simp_all add: receipt_line_def)
  have found: "by_id gl_tenant gl_id ?t (minted pg Goods_receipt_line) (goods_receipt_lines s @ [?l]) = Some ?l"
    using by_id_none [OF new'] l by (simp add: by_id_snoc)
  have upd: "update_rows gl_tenant gl_id ?t (minted pg Goods_receipt_line) (\<lambda>_. True) f (goods_receipt_lines s @ [?l])
      = goods_receipt_lines s @ [f ?l]" for f
    using update_rows_none [OF new'] l by (simp add: update_rows_snoc)
  show thesis
  proof (rule goods_receipt_line_dispose_writes [OF 4])
    fix l'
    assume found': "by_id gl_tenant gl_id ?t (minted pg Goods_receipt_line)
        (goods_receipt_lines (insert_line ?l s2)) = Some l'"
      and f: "finding = (if ds_raise ?d = None then None else Some (minted pg Discrepancy))"
      and s4: "s4 = insert_line ?l s2\<lparr>goods_receipt_lines := update_rows gl_tenant gl_id ?t
          (minted pg Goods_receipt_line) (\<lambda>_. True) (disposed pg (ds_accept ?d) (ds_policy ?d))
          (goods_receipt_lines (insert_line ?l s2)),
        discrepancies := discrepancies (insert_line ?l s2) @ (case ds_raise ?d of None \<Rightarrow> []
          | Some k \<Rightarrow> [disposition_finding pg (ds_policy ?d) k (ca_person who) l'])\<rparr>"
    have e: "l' = ?l" using found' found lines by (simp add: insert_line_def)
    have s5: "s5 = s2\<lparr>goods_receipt_lines := goods_receipt_lines s @ [disposed pg (ds_accept ?d) (ds_policy ?d) ?l],
        discrepancies := discrepancies s @ findings_of pg who fc lot rg ?l\<rparr>"
      using raise_ambiguity_writes [OF 5] s4 [unfolded e] lines upd
      by (simp add: insert_line_def findings_of_def Let_def)
    show thesis
      by (rule that [OF 1 2 3 s5])
         (use run 1 2 3 4 5 f in \<open>auto simp: receipt_write_def Let_def result_simps split: if_splits\<close>)
  qed
qed

section \<open>The contract of the handler\<close>

lemma receipt_write_frame:
  assumes run: "receipt_write pg ib who req fc s = Inr (v, s')" and db: "maintains (ib_refresh ib)"
  obtains (refused) "bystands (ca_tenant who) s s'"
  | (received) u lot where "bystands (ca_tenant who) s u"
      "bystands (ca_tenant who) (insert_movement (receipt_movement pg who req fc lot) u) s'"
proof -
  let ?t = "ca_tenant who"
  obtain lot lot_ws s1 rg header created s2 finding s4 where
      1: "receipt_lot pg ib ?t (es_item (fc_promise fc)) req s = Inr ((lot, lot_ws), s1)"
    and 2: "policy_in_force ib who req fc s1 = Inr rg"
    and 3: "ensure_goods_receipt pg (receipt_header_of who req fc) s1 = Inr ((header, created), s2)"
    and 4: "goods_receipt_line_dispose pg ?t (minted pg Goods_receipt_line)
        (ds_policy (receipt_decision rg fc lot)) (ds_accept (receipt_decision rg fc lot))
        (ds_raise (receipt_decision rg fc lot)) (ca_person who)
        (insert_line (receipt_line pg who req fc header lot) s2) = Inr (finding, s4)"
    using run by (auto simp: receipt_write_def Let_def result_simps)
  then obtain s5 where 5: "raise_ambiguity pg who fc lot (rg_ambiguity rg) s4 = Inr s5"
    using run by (auto simp: receipt_write_def Let_def result_simps)
  have "bystands ?t s s1" using receipt_lot_writes [OF 1] by simp
  moreover have "bystands ?t s1 s2"
    using ensure_goods_receipt_writes [OF 3] by (simp add: receipt_header_of_def)
  moreover have "bystands ?t s2 (insert_line (receipt_line pg who req fc header lot) s2)"
    unfolding insert_line_def by (rule bystands_insert) (simp add: receipt_line_def)
  moreover have "bystands ?t (insert_line (receipt_line pg who req fc header lot) s2) s4"
    by (rule goods_receipt_line_dispose_writes [OF 4])
       (auto simp: bystands_def isolated_def tenant_view_def visible_def disposition_finding_def
          disposed_def update_rows_visible_other [unfolded visible_def] dest: by_id_SomeD split: option.splits)
  moreover have "bystands ?t s4 s5"
    using raise_ambiguity_writes [OF 5]
    by (auto simp: bystands_def isolated_def tenant_view_def visible_def ambiguity_finding_def split: option.splits)
  ultimately have u: "bystands ?t s s5" by (blast intro: bystands_trans)
  show thesis
  proof (cases "ds_accept (receipt_decision rg fc lot)")
    case True
    then obtain x where "receipt_handover pg ib ?t req fc lot
        (insert_movement (receipt_movement pg who req fc lot) s5) = Inr (x, s')"
      using run 1 2 3 4 5 by (auto simp: receipt_write_def Let_def result_simps)
    moreover obtain cell ids ws where "x = (cell, ids, ws)" by (cases x)
    ultimately have "receipt_handover pg ib ?t req fc lot
        (insert_movement (receipt_movement pg who req fc lot) s5) = Inr ((cell, ids, ws), s')" by simp
    then have "bystands ?t (insert_movement (receipt_movement pg who req fc lot) s5) s'"
      by (rule receipt_handover_writes) (rule db)
    with u show thesis by (rule received)
  next
    case False
    then have "s' = s5" using run 1 2 3 4 5 by (auto simp: receipt_write_def Let_def result_simps)
    with u show thesis by (intro refused) simp
  qed
qed

text \<open>
  A replay writes nothing; a fresh run leaves the envelope, at most one ledger row, and findings, all
  its own tenant's.
\<close>

lemma record_receipt_replay:
  assumes "record_receipt ib pg who req s = Inr (v, s')" and "claimed (ca_tenant who) (gq_event req) s"
  obtains fc where "s' = s" "receipt_reads ib who req s = Inr fc"
    "receipt_replay (ca_tenant who) req fc s = Inr v"
  using assms that
  by (auto simp: record_receipt_def result_simps claim_act_def is_replay_def receipt_envelope_def)

lemma record_receipt_frame:
  assumes run: "record_receipt ib pg who req s = Inr (v, s')"
    and fresh: "\<not> claimed (ca_tenant who) (gq_event req) s" and db: "maintains (ib_refresh ib)"
  obtains ms where "isolated (ca_tenant who) s s'"
    "client_events s' = client_events s @ [envelope pg (receipt_envelope who req)]"
    "movements s' = movements s @ ms" "length ms \<le> 1"
    "\<forall>m \<in> set ms. mv_tenant m = ca_tenant who \<and> mv_event m = gq_event req \<and> mv_reverses m = None"
    "package_events s' = package_events s" "adjustment_reasons s' = adjustment_reasons s"
    "\<exists>ds. discrepancies s' = discrepancies s @ ds"
proof (rule record_receipt_fresh [OF run fresh])
  fix fc
  let ?t = "ca_tenant who" and ?c = "claimed_db pg who req s"
  assume w: "receipt_write pg ib who req fc ?c = Inr (v, s')"
  have c: "isolated ?t s ?c" unfolding claimed_db_def
    by (rule isolated_insert) (simp add: envelope_def receipt_envelope_def)
  show thesis
  proof (rule receipt_write_frame [OF w db])
    assume b: "bystands ?t ?c s'"
    then have "isolated ?t s s'" by (auto simp: bystands_def intro: isolated_trans [OF c])
    with b show thesis by (intro that [of "[]"]) (auto simp: bystands_def claimed_db_def)
  next
    fix u lot
    let ?m = "receipt_movement pg who req fc lot"
    assume b1: "bystands ?t ?c u" and b2: "bystands ?t (insert_movement ?m u) s'"
    have "isolated ?t u (insert_movement ?m u)" unfolding insert_movement_def
      by (rule isolated_insert) (simp add: receipt_movement_def)
    then have "isolated ?t s s'"
      using b1 b2 unfolding bystands_def by (blast intro: isolated_trans [OF c] isolated_trans)
    then show thesis using b1 b2
      by (intro that [of "[?m]"])
        (auto simp: bystands_def claimed_db_def insert_movement_def receipt_movement_def)
  qed
qed

lemma record_receipt_effect:
  assumes run: "record_receipt ib pg who req s = Inr (v, s')" and db: "maintains (ib_refresh ib)"
  shows "act_effect (ca_tenant who) (gq_event req) s s'" "claimed (ca_tenant who) (gq_event req) s'"
    "package_events s' = package_events s" "\<exists>ds. discrepancies s' = discrepancies s @ ds"
proof -
  have "act_effect (ca_tenant who) (gq_event req) s s' \<and> claimed (ca_tenant who) (gq_event req) s'
    \<and> package_events s' = package_events s \<and> (\<exists>ds. discrepancies s' = discrepancies s @ ds)"
  proof (cases "claimed (ca_tenant who) (gq_event req) s")
    case True
    show ?thesis by (rule record_receipt_replay [OF run True]) (use True in \<open>simp add: act_effect_def\<close>)
  next
    case False
    show ?thesis
      by (rule record_receipt_frame [OF run False db])
         (use False in \<open>auto simp: act_effect_def claimed_def envelope_def receipt_envelope_def\<close>)
  qed
  then show "act_effect (ca_tenant who) (gq_event req) s s'" "claimed (ca_tenant who) (gq_event req) s'"
    "package_events s' = package_events s" "\<exists>ds. discrepancies s' = discrepancies s @ ds" by simp_all
qed

section \<open>Goods come in\<close>

definition dock_side :: "record_receipt_request \<Rightarrow> receipt_facts \<Rightarrow> uuid option \<Rightarrow> side" where
  "dock_side req fc lot = \<lparr>sd_location = Some (gq_to_location req), sd_package = None, sd_lot = lot,
     sd_status = Some (fc_status fc), sd_owner = Some (fc_owner fc)\<rparr>"

lemma receipt_lines_and_ledger:
  assumes run: "record_receipt ib pg who req s = Inr (v, s')"
    and fresh: "\<not> claimed (ca_tenant who) (gq_event req) s"
    and db: "maintains (ib_refresh ib)" and new: "new_line pg (ca_tenant who) s"
  obtains fc lot rg header created s2 where "receipt_reads ib who req s = Inr fc"
    "ensure_goods_receipt pg (receipt_header_of who req fc) s2 = Inr ((header, created), s2\<lparr>goods_receipts := goods_receipts s'\<rparr>)"
    "goods_receipts s2 = goods_receipts s"
    "goods_receipt_lines s' = goods_receipt_lines s @ [disposed pg (ga_accepted v)
       (ds_policy (receipt_decision rg fc lot)) (receipt_line pg who req fc header lot)]"
    "discrepancies s' = discrepancies s @ findings_of pg who fc lot rg (receipt_line pg who req fc header lot)"
    "movements s' = movements s @ (if ga_accepted v then [receipt_movement pg who req fc lot] else [])"
    "ga_accepted v = ds_accept (receipt_decision rg fc lot)"
    "ga_movement v = (if ga_accepted v then Some (minted pg Stock_movement) else None)"
    "ga_receipt v = header" "ga_header_created v = created" "ga_line v = minted pg Goods_receipt_line"
    "ga_quantity v = fc_base fc" "ga_entered v = en_quantity (fc_entered fc)"
    "ga_level v = level_str (en_level (fc_entered fc))" "ga_config v = en_config (fc_entered fc)"
    "ga_policy v = Some (ds_policy (receipt_decision rg fc lot))"
proof (rule record_receipt_fresh [OF run fresh])
  fix fc
  let ?t = "ca_tenant who" and ?c = "claimed_db pg who req s"
  assume reads: "receipt_reads ib who req s = Inr fc" and w: "receipt_write pg ib who req fc ?c = Inr (v, s')"
  have new': "new_line pg ?t ?c" using new by (simp add: new_line_def claimed_db_def)
  show thesis
  proof (rule receipt_write_Inr [OF w new'])
    fix lot lot_ws s1 rg header created s2 s5
    let ?d = "receipt_decision rg fc lot" and ?l = "receipt_line pg who req fc header lot"
    assume 1: "receipt_lot pg ib ?t (es_item (fc_promise fc)) req ?c = Inr ((lot, lot_ws), s1)"
      and 3: "ensure_goods_receipt pg (receipt_header_of who req fc) s1 = Inr ((header, created), s2)"
      and s5: "s5 = s2\<lparr>goods_receipt_lines := goods_receipt_lines ?c @ [disposed pg (ds_accept ?d) (ds_policy ?d) ?l],
         discrepancies := discrepancies ?c @ findings_of pg who fc lot rg ?l\<rparr>"
      and v: "ga_receipt v = header \<and> ga_line v = minted pg Goods_receipt_line \<and> ga_header_created v = created
         \<and> ga_quantity v = fc_base fc \<and> ga_entered v = en_quantity (fc_entered fc)
         \<and> ga_level v = level_str (en_level (fc_entered fc)) \<and> ga_config v = en_config (fc_entered fc)
         \<and> ga_policy v = Some (ds_policy ?d) \<and> ga_accepted v = ds_accept ?d
         \<and> ga_discrepancy v = (if ds_raise ?d = None then None else Some (minted pg Discrepancy))"
      and branch: "if ds_accept ?d then ga_movement v = Some (minted pg Stock_movement)
           \<and> (\<exists>ws. receipt_handover pg ib ?t req fc lot (insert_movement (receipt_movement pg who req fc lot) s5)
                = Inr ((ga_stock v, ga_repointed v, ws), s'))
         else s' = s5 \<and> ga_movement v = None \<and> ga_stock v = None \<and> ga_repointed v = []"
    have heads: "goods_receipts s1 = goods_receipts s" "s2 = s1\<lparr>goods_receipts := goods_receipts s2\<rparr>"
      using 1 3 by (auto simp: receipt_lot_def find_or_make_lot_def result_simps claimed_db_def
          ensure_goods_receipt_def row_simps split: option.splits list.splits if_splits)
    have mv5: "movements s5 = movements s"
      using receipt_lot_writes [OF 1] ensure_goods_receipt_writes [OF 3]
      by (simp add: s5 bystands_def claimed_db_def receipt_header_of_def)
    have tail: "goods_receipts s' = goods_receipts s2 \<and> goods_receipt_lines s' = goods_receipt_lines s5
       \<and> discrepancies s' = discrepancies s5
       \<and> movements s' = movements s5 @ (if ds_accept ?d then [receipt_movement pg who req fc lot] else [])"
    proof (cases "ds_accept ?d")
      case True
      then obtain ws where h: "receipt_handover pg ib ?t req fc lot
          (insert_movement (receipt_movement pg who req fc lot) s5) = Inr ((ga_stock v, ga_repointed v, ws), s')"
        using branch by auto
      show ?thesis
      proof (rule receipt_handover_writes [OF h db])
        fix n u
        let ?i = "insert_movement (receipt_movement pg who req fc lot) s5"
        assume reb: "rebuilt ?t ?i u" and s': "s' = mark_dirty pg ?t ''receipt'' (u\<lparr>allocations :=
            (case ga_stock v of None \<Rightarrow> allocations u | Some k \<Rightarrow> fold (\<lambda>r. update_rows al_tenant al_id ?t
              (rt_allocation r) (\<lambda>_. True) (repointed r))
             (fst (plan (arrival_of ?t req fc k) (promise_claims ?t (gq_supply req) u))) (allocations u))\<rparr>)"
        have u: "goods_receipts u = goods_receipts ?i" "goods_receipt_lines u = goods_receipt_lines ?i"
            "discrepancies u = discrepancies ?i" "movements u = movements ?i"
          by (subst conjunct2 [OF reb [unfolded rebuilt_def]], simp)+
        show ?thesis using True unfolding s' by (simp add: u insert_movement_def s5)
      qed
    next
      case False
      then show ?thesis using branch by (simp add: s5)
    qed
    show thesis
    proof (rule that [of fc s1 header created rg lot])
      show "ensure_goods_receipt pg (receipt_header_of who req fc) s1
          = Inr ((header, created), s1\<lparr>goods_receipts := goods_receipts s'\<rparr>)"
        using 3 heads(2) tail by simp
    qed (use reads heads tail v branch mv5 in \<open>auto simp: s5 claimed_db_def\<close>)
  qed
qed

text \<open>
  C25: A fresh receipt brings in what was counted.  The line records the count as entered and in base
  units, with the policy that decided it, and is accepted or rejected, never both or neither.  An
  accepted line raises the ledger of one cell, at the dock, by exactly its base quantity, and the
  tenant's holding of the item with it; a rejected one raises nothing; no other figure moves.
\<close>

theorem record_receipt_brings_in:
  assumes run: "record_receipt ib pg who req s = Inr (v, s')"
    and fresh: "\<not> claimed (ca_tenant who) (gq_event req) s"
    and db: "maintains (ib_refresh ib)" and new: "new_line pg (ca_tenant who) s"
  shows "\<exists>fc lot l. receipt_reads ib who req s = Inr fc
    \<and> goods_receipt_lines s' = goods_receipt_lines s @ [l] \<and> gl_id l = ga_line v \<and> gl_receipt l = ga_receipt v
    \<and> gl_quantity l = ga_quantity v \<and> gl_entered l = ga_entered v \<and> gl_level l = ga_level v
    \<and> gl_lot l = lot \<and> gl_policy l = ga_policy v
    \<and> (gl_accepted_at l \<noteq> None) = ga_accepted v \<and> (gl_rejected_at l \<noteq> None) = (\<not> ga_accepted v)
    \<and> (\<forall>item sd. sd \<noteq> no_side \<longrightarrow> on_hand (ca_tenant who) item sd s' = on_hand (ca_tenant who) item sd s
         + (if ga_accepted v \<and> item = es_item (fc_promise fc) \<and> sd = dock_side req fc lot then ga_quantity v else 0))
    \<and> (\<forall>item. total_held (ca_tenant who) item s' = total_held (ca_tenant who) item s
         + (if ga_accepted v \<and> item = es_item (fc_promise fc) then ga_quantity v else 0))"
proof (rule receipt_lines_and_ledger [OF run fresh db new])
  fix fc lot rg header created s2
  let ?m = "receipt_movement pg who req fc lot"
  let ?l = "disposed pg (ga_accepted v) (ds_policy (receipt_decision rg fc lot)) (receipt_line pg who req fc header lot)"
  assume reads: "receipt_reads ib who req s = Inr fc"
    and lines: "goods_receipt_lines s' = goods_receipt_lines s @ [?l]"
    and mv: "movements s' = movements s @ (if ga_accepted v then [?m] else [])"
    and v: "ga_receipt v = header" "ga_line v = minted pg Goods_receipt_line" "ga_quantity v = fc_base fc"
      "ga_entered v = en_quantity (fc_entered fc)" "ga_level v = level_str (en_level (fc_entered fc))"
      "ga_policy v = Some (ds_policy (receipt_decision rg fc lot))"
  have m: "mv_tenant ?m = ca_tenant who" "mv_item ?m = es_item (fc_promise fc)" "mv_quantity ?m = fc_base fc"
      "mv_from ?m = no_side" "mv_to ?m = dock_side req fc lot"
    by (simp_all add: receipt_movement_def dock_side_def)
  have dock: "dock_side req fc lot \<noteq> no_side" by (simp add: dock_side_def no_side_def)
  have "on_hand (ca_tenant who) item sd s' = on_hand (ca_tenant who) item sd s
         + (if ga_accepted v \<and> item = es_item (fc_promise fc) \<and> sd = dock_side req fc lot then fc_base fc else 0)"
      "total_held (ca_tenant who) item s' = total_held (ca_tenant who) item s
         + (if ga_accepted v \<and> item = es_item (fc_promise fc) then fc_base fc else 0)"
    if "sd \<noteq> no_side" for item sd
    using mv m dock that on_hand_snoc [of s' s ?m] total_held_snoc [of s' s ?m]
    by (auto simp: net_def entered_def left_from_def crosses_def on_hand_def total_held_def visible_def)
  moreover have "no_side \<noteq> dock_side req fc lot" using dock by simp
  ultimately have ledger: "\<forall>item sd. sd \<noteq> no_side \<longrightarrow> on_hand (ca_tenant who) item sd s' = on_hand (ca_tenant who) item sd s
         + (if ga_accepted v \<and> item = es_item (fc_promise fc) \<and> sd = dock_side req fc lot then ga_quantity v else 0)"
    "\<forall>item. total_held (ca_tenant who) item s' = total_held (ca_tenant who) item s
         + (if ga_accepted v \<and> item = es_item (fc_promise fc) then ga_quantity v else 0)"
    using v(3) dock by auto
  show ?thesis
    by (rule exI [of _ fc], rule exI [of _ lot], rule exI [of _ ?l])
       (use reads lines ledger v in \<open>simp add: disposed_def receipt_line_def\<close>)
qed

text \<open>The tables the reads before the claim come from.\<close>

definition same_papers :: "db \<Rightarrow> db \<Rightarrow> bool" where
  "same_papers a b \<longleftrightarrow> expected_supplies a = expected_supplies b \<and> purchase_orders a = purchase_orders b
     \<and> purchase_order_lines a = purchase_order_lines b \<and> packing_configs a = packing_configs b
     \<and> locations a = locations b \<and> statuses a = statuses b"

lemma receipt_reads_cong:
  assumes "same_papers a b" and "ib_day ib = ib_day ib'"
  shows "receipt_reads ib who req a = receipt_reads ib' who req b"
proof -
  have e: "expected_supplies a = expected_supplies b" "purchase_orders a = purchase_orders b"
      "purchase_order_lines a = purchase_order_lines b" "packing_configs a = packing_configs b"
      "locations a = locations b" "statuses a = statuses b"
    using assms(1) by (simp_all add: same_papers_def)
  show ?thesis
    unfolding receipt_reads_def supply_joined_def load_packing_def available_status_def location_by_id_def
      e assms(2) ..
qed

text \<open>
  A dock: a promise of 120 of item 100 on an order, a carton of ten, claims of 20, 50 and 30 on the
  promise, one policy, and a rebuild that shows the receiving cell.
\<close>

definition dock_promise :: expected_supply_row where
  "dock_promise = \<lparr>es_id = 11, es_tenant = 10, es_item = 100, es_site = None, es_owner = Some 5,
     es_status = Some 4, es_expected = 120, es_closed_at = None, es_order_line = 12\<rparr>"

definition dock_claim :: "uuid \<Rightarrow> i64 \<Rightarrow> time \<Rightarrow> stock_allocation_row" where
  "dock_claim i q w = \<lparr>al_id = i, al_tenant = 10, al_stock = None, al_line = Some 50, al_quantity = q,
     al_state = ''allocated'', al_firm = False, al_bound_at = w, al_supply = Some 11, al_origin = None\<rparr>"

definition dock_db :: db where
  "dock_db = sample_db\<lparr>expected_supplies := [dock_promise],
     purchase_order_lines := [\<lparr>pl_id = 12, pl_tenant = 10, pl_order = 13\<rparr>],
     purchase_orders := [\<lparr>po_id = 13, po_tenant = 10, po_supplier = None\<rparr>],
     packing_configs := [\<lparr>kg_id = 14, kg_tenant = 10, kg_item = 100, kg_units_per_inner = Some 10,
       kg_inners_per_carton = Some 1, kg_cartons_per_layer = None, kg_layers_per_pallet = None,
       kg_effective_from = 0\<rparr>],
     allocations := [dock_claim 71 20 3, dock_claim 72 50 1, dock_claim 73 30 2]\<rparr>"

definition dock_cell :: "uuid \<Rightarrow> stock_row" where
  "dock_cell t = \<lparr>sk_id = 91, sk_tenant = t, sk_item = 100, sk_location = Some 9, sk_package = None,
     sk_lot = None, sk_status = 4, sk_owner = 5, sk_quantity = 100, sk_available = 100\<rparr>"

definition dock_inbound :: inbound where
  "dock_inbound = \<lparr>
     ib_candidates = \<lambda>_ _ _ _ _ _. Inr [\<lparr>binding = 1, tenancy = 0, product_depth = 0, counterparty = 0,
        space = 0, ownership = 0, metric = 0\<rparr>],
     ib_values = \<lambda>_ _ _. Inr [(1, ''require_lot'', Fin 0)],
     ib_version = \<lambda>_ _ _. Inr (Some 2),
     ib_refresh = \<lambda>t s. Inr (Some 1, s\<lparr>stock := stock s @ [dock_cell t]\<rparr>),
     ib_day = \<lambda>w. 0, ib_show_day = \<lambda>_. [], ib_lot_id = 95\<rparr>"

definition dock_request :: record_receipt_request where
  "dock_request = \<lparr>gq_supply = 11, gq_to_location = 9, gq_quantity = None, gq_entered = Some 10,
     gq_level = Some ''carton'', gq_config = Some 14, gq_lot = None, gq_lot_code = None,
     gq_lot_expiry = None, gq_status = None, gq_owner = None, gq_order = None, gq_close = None,
     gq_receipt = None, gq_event = 601, gq_occurred_at = 8\<rparr>"

lemma dock_maintains: "maintains (ib_refresh dock_inbound)"
  by (auto simp: maintains_def dock_inbound_def rebuilt_def isolated_def tenant_view_def visible_def dock_cell_def)

lemma dock_fresh:
  "\<not> claimed (ca_tenant sample_caller) (gq_event dock_request) dock_db"
  "new_line sample_pg (ca_tenant sample_caller) dock_db"
  by code_simp (simp add: new_line_def dock_db_def sample_defs)

definition dock_resolved :: resolved_receiving where
  "dock_resolved = \<lparr>rg_policy = \<lparr>vp_version = 2, vp_tolerance_over_pct = None, vp_require_lot = False\<rparr>,
     rg_ambiguity = None\<rparr>"

definition dock_facts :: receipt_facts where
  "dock_facts = \<lparr>fc_promise = dock_promise, fc_supplier = None, fc_base = 100,
     fc_entered = \<lparr>en_quantity = 10, en_level = Carton, en_config = Some 14\<rparr>, fc_status = 4,
     fc_owner = 5, fc_order = Some 13\<rparr>"

lemma dock_reads: "receipt_reads dock_inbound sample_caller dock_request dock_db = Inr dock_facts"
  by code_simp

lemma dock_policy: "policy_in_force dock_inbound who req fc s = Inr dock_resolved"
proof -
  let ?c = "\<lparr>binding = 1, tenancy = 0, product_depth = 0, counterparty = 0, space = 0, ownership = 0, metric = 0\<rparr>"
  have "case resolve Receiving [?c] of None \<Rightarrow> False | Some r \<Rightarrow> binding (winner r) = 1 \<and> ambiguous_with r = []"
    by code_simp
  then obtain r where r: "resolve Receiving [?c] = Some r" "binding (winner r) = 1" "ambiguous_with r = []"
    by (auto split: option.splits)
  have "apply_clamps Receiving 1 [(1, ''require_lot'', Fin 0)] = []" by code_simp
  then show ?thesis
    by (simp add: policy_in_force_def resolve_receiving_policy_def dock_inbound_def dock_resolved_def r
        winner_value_def f64_eq_def)
qed

lemma dock_runs:
  "case record_receipt dock_inbound sample_pg sample_caller dock_request dock_db of Inl _ \<Rightarrow> False
     | Inr (v, s') \<Rightarrow> ga_accepted v \<and> ga_quantity v = 100 \<and> ga_stock v = Some 91 \<and> ga_repointed v = [72, 73, 71]
         \<and> same_papers s' dock_db"
proof -
  have d: "ds_accept (receipt_decision dock_resolved dock_facts None)"
      "ds_raise (receipt_decision dock_resolved dock_facts None) = None"
    by (simp_all add: receipt_decision_def disposition_def dock_resolved_def dock_facts_def dock_promise_def)
  have claim: "claim_act sample_pg (receipt_envelope sample_caller dock_request) dock_db
      = Inr (Fresh, claimed_db sample_pg sample_caller dock_request dock_db)"
    using dock_fresh(1) by (simp add: claim_act_Fresh claimed_db_def receipt_envelope_def sample_pg_def)
  have plan: "plan (arrival_of 10 dock_request dock_facts 91) (promise_claims 10 11 dock_db)
      = (map (repoint_of (arrival_of 10 dock_request dock_facts 91))
          [claim_of_row (dock_claim 72 50 1), claim_of_row (dock_claim 73 30 2), claim_of_row (dock_claim 71 20 3)], [])"
    by code_simp
  have lot: "receipt_lot sample_pg dock_inbound 10 item dock_request s = Inr ((None, []), s)" for item s
    by (simp add: receipt_lot_def dock_request_def)
  have head: "ensure_goods_receipt sample_pg (receipt_header_of sample_caller dock_request dock_facts) s
      = Inr ((77, True), insert_receipt (receipt_header (receipt_header_of sample_caller dock_request dock_facts) 77) s)" for s
    by (simp add: ensure_goods_receipt_def receipt_header_of_def dock_request_def sample_pg_def write_to_def)
  have line: "goods_receipt_line_dispose sample_pg 10 77 policy True None actor
      (insert_line (receipt_line sample_pg sample_caller dock_request dock_facts 77 None) s) =
      Inr (None, s\<lparr>goods_receipt_lines := [disposed sample_pg True policy
        (receipt_line sample_pg sample_caller dock_request dock_facts 77 None)]\<rparr>)"
    if "goods_receipt_lines s = []" for s policy actor
    using that by (simp add: goods_receipt_line_dispose_def insert_line_def by_id_def receipt_line_def
        sample_caller_def sample_pg_def write_to_def update_rows_def)
  have hand: "\<exists>s2. receipt_handover sample_pg dock_inbound 10 dock_request dock_facts None s1
      = Inr ((Some 91, [72, 73, 71], []), s2) \<and> same_papers s2 s1"
    if "allocations s1 = allocations dock_db" "stock s1 = [sample_cell]" for s1
  proof -
    let ?s2 = "s1\<lparr>stock := stock s1 @ [dock_cell 10]\<rparr>"
    have "receiving_cell 10 dock_request dock_facts None ?s2 = Inr (Some 91)"
      by (simp add: receiving_cell_def visible_def that dock_cell_def sample_cell_def dock_request_def
          dock_facts_def dock_promise_def)
    moreover have "promise_claims 10 11 ?s2 = promise_claims 10 11 dock_db"
      using that(1) by (simp add: promise_claims_def)
    moreover have "ib_refresh dock_inbound 10 s1 = Inr (Some 1, ?s2)" by (simp add: dock_inbound_def)
    moreover have "gq_supply dock_request = 11" by (simp add: dock_request_def)
    ultimately show ?thesis using plan
      by (simp add: receipt_handover_def Let_def sample_pg_def write_to_def repoint_of_def claim_of_row_def
          dock_claim_def same_papers_def)
  qed
  have t: "ca_tenant sample_caller = 10" by (simp add: sample_caller_def)
  let ?h = "insert_receipt (receipt_header (receipt_header_of sample_caller dock_request dock_facts) 77)
      (claimed_db sample_pg sample_caller dock_request dock_db)"
  let ?s5 = "?h\<lparr>goods_receipt_lines := [disposed sample_pg True (ds_policy (receipt_decision dock_resolved dock_facts None))
      (receipt_line sample_pg sample_caller dock_request dock_facts 77 None)]\<rparr>"
  have lines: "goods_receipt_lines ?h = []"
    by (simp add: insert_receipt_def claimed_db_def dock_db_def sample_defs)
  have "allocations ?s5 = allocations dock_db" "stock ?s5 = [sample_cell]"
    by (simp_all add: insert_receipt_def claimed_db_def dock_db_def sample_db_def)
  then obtain s2 where s2: "receipt_handover sample_pg dock_inbound 10 dock_request dock_facts None
      (insert_movement (receipt_movement sample_pg sample_caller dock_request dock_facts None) ?s5)
      = Inr ((Some 91, [72, 73, 71], []), s2)" "same_papers s2 dock_db"
    using hand [of "insert_movement (receipt_movement sample_pg sample_caller dock_request dock_facts None) ?s5"]
    by (auto simp: insert_movement_def same_papers_def insert_receipt_def claimed_db_def)
  have wr: "write_to sample_pg tbl s s' = Inr s'" and "minted sample_pg Goods_receipt_line = 77"
      "rg_ambiguity dock_resolved = None" for tbl s s'
    by (simp_all add: write_to_def sample_pg_def dock_resolved_def)
  then show ?thesis
    by (simp add: record_receipt_def dock_reads claim receipt_write_def Let_def lot dock_policy head t
        wr line [OF lines] d raise_ambiguity_def s2) (simp add: dock_facts_def)
qed

theorem record_receipt_brings_in_witness:
  "\<exists>v s'. record_receipt dock_inbound sample_pg sample_caller dock_request dock_db = Inr (v, s')
     \<and> length (goods_receipt_lines s') = 1 \<and> total_held 10 100 s' = total_held 10 100 dock_db + 100"
proof -
  obtain v s' where run: "record_receipt dock_inbound sample_pg sample_caller dock_request dock_db = Inr (v, s')"
      and v: "ga_accepted v" "ga_quantity v = 100"
    using dock_runs by (auto split: sum.splits)
  obtain fc l where fc: "receipt_reads dock_inbound sample_caller dock_request dock_db = Inr fc"
      and lines: "goods_receipt_lines s' = goods_receipt_lines dock_db @ [l]"
      and held: "\<forall>item. total_held (ca_tenant sample_caller) item s' = total_held (ca_tenant sample_caller) item dock_db
         + (if ga_accepted v \<and> item = es_item (fc_promise fc) then ga_quantity v else 0)"
    using record_receipt_brings_in [OF run dock_fresh(1) dock_maintains dock_fresh(2)] by blast
  have "fc = dock_facts" using fc dock_reads by simp
  then have "es_item (fc_promise fc) = 100" by (simp add: dock_facts_def dock_promise_def)
  with held v have "total_held 10 100 s' = total_held 10 100 dock_db + 100" by (simp add: sample_caller_def)
  moreover have "length (goods_receipt_lines s') = 1" by (simp add: lines dock_db_def sample_defs)
  ultimately show ?thesis using run by blast
qed

section \<open>The claims that waited\<close>

lemma fold_repoint:
  "distinct (map rt_allocation rs) \<Longrightarrow>
   fold (\<lambda>r. update_rows al_tenant al_id t (rt_allocation r) (\<lambda>_. True) (repointed r)) rs rows =
   map (\<lambda>a. if al_tenant a = t then (case find (\<lambda>r. rt_allocation r = al_id a) rs of
       None \<Rightarrow> a | Some r \<Rightarrow> repointed r a) else a) rows"
proof (induction rs arbitrary: rows)
  case (Cons r rs)
  have "find (\<lambda>x. rt_allocation x = rt_allocation r) rs = None"
    using Cons.prems by (simp add: find_None_iff) (metis image_eqI)
  with Cons show ?case
    by (auto simp: update_rows_def repointed_def split: option.splits)
qed (auto intro!: map_idI [symmetric])

lemma greedy_distinct: "distinct (map f cs) \<Longrightarrow> distinct (map f (greedy n cs))"
proof (induction n cs rule: greedy.induct)
  case (2 n c cs)
  have "f c \<notin> f ` set (greedy m cs)" for m using 2(3) greedy_subset by fastforce
  with 2 show ?case by simp
qed simp

lemma inj_of_distinct: "distinct (map f xs) \<Longrightarrow> x \<in> set xs \<Longrightarrow> y \<in> set xs \<Longrightarrow> f x = f y \<Longrightarrow> x = y"
  by (auto simp: distinct_map inj_on_def)

lemma promise_claims_props:
  assumes "distinct (map al_id (visible al_tenant t (allocations s)))" and "\<forall>a \<in> set (allocations s). 0 < al_quantity a"
  shows "\<forall>c \<in> set (promise_claims t p s). 0 < cm_quantity c" "distinct (map cm_id (promise_claims t p s))"
proof -
  have cm: "map cm_id (map claim_of_row rows) = map al_id rows" for rows
    by (simp add: claim_of_row_def)
  show "distinct (map cm_id (promise_claims t p s))"
    unfolding promise_claims_def cm by (rule distinct_map_filter [OF assms(1)])
  show "\<forall>c \<in> set (promise_claims t p s). 0 < cm_quantity c"
    using assms(2) by (auto simp: promise_claims_def claim_of_row_def visible_def)
qed

lemma handed_over:
  assumes rows: "distinct (map al_id (visible al_tenant t (allocations s)))" "\<forall>a \<in> set (allocations s). 0 < al_quantity a"
    and arrival: "0 < av_received A" "in_i64 (av_received A)" "av_tenant A = t" "av_supply A = p"
    and rs: "rs = fst (plan A (promise_claims t p s))"
  shows "distinct (map rt_allocation rs)"
    and "\<forall>r \<in> set rs. r = \<lparr>rt_allocation = rt_allocation r, rt_stock = av_stock A,
        rt_bound_at = av_occurred_at A, rt_origin = p\<rparr>"
    and "a \<in> set (allocations s) \<Longrightarrow> al_tenant a = t \<Longrightarrow> al_id a \<in> rt_allocation ` set rs \<Longrightarrow>
        al_supply a = Some p \<and> al_state a \<in> set ACTIVE"
    and "sum_list (map al_quantity (filter (\<lambda>a. al_tenant a = t \<and> al_id a \<in> rt_allocation ` set rs) (allocations s)))
        \<le> av_received A"
proof -
  let ?claims = "promise_claims t p s" and ?g = "greedy (av_received A) (eligible A (promise_claims t p s))"
  note props = promise_claims_props [OF rows, of p]
  note el = eligible_props [OF props(2), of A]
  have rs': "rs = map (repoint_of A) ?g"
    unfolding rs by (rule plan_repoints(1) [OF arrival(1,2) props])
  have gd: "distinct (map cm_id ?g)" by (rule greedy_distinct [OF el(1)])
  then show "distinct (map rt_allocation rs)" by (simp add: rs' repoint_of_def o_def)
  show "\<forall>r \<in> set rs. r = \<lparr>rt_allocation = rt_allocation r, rt_stock = av_stock A,
        rt_bound_at = av_occurred_at A, rt_origin = p\<rparr>"
    using arrival(4) by (auto simp: rs' repoint_of_def)
  have sub: "set ?g \<subseteq> {c \<in> set ?claims. is_eligible A c}" using greedy_subset el(2) by fastforce
  have ids: "rt_allocation ` set rs = cm_id ` set ?g" by (simp add: rs' repoint_of_def image_image)
  have in_g: "claim_of_row a \<in> set ?g" if a: "a \<in> set (allocations s)" "al_tenant a = t"
      "al_id a \<in> rt_allocation ` set rs" for a
  proof -
    obtain c where c: "c \<in> set ?g" "cm_id c = al_id a" using a(3) ids by auto
    then obtain b where b: "c = claim_of_row b" "b \<in> set (allocations s)" "al_tenant b = t"
      using sub by (auto simp: promise_claims_def visible_def)
    have "b = a"
      by (rule inj_of_distinct [OF rows(1)]) (use a b c in \<open>auto simp: visible_def claim_of_row_def\<close>)
    with b c show ?thesis by simp
  qed
  show "al_supply a = Some p \<and> al_state a \<in> set ACTIVE"
    if "a \<in> set (allocations s)" "al_tenant a = t" "al_id a \<in> rt_allocation ` set rs"
    using sub in_g [OF that] arrival
    by (auto simp: is_eligible_def misplaced_def claim_of_row_def split: if_splits)
  let ?f = "filter (\<lambda>a. al_tenant a = t \<and> al_id a \<in> rt_allocation ` set rs) (allocations s)"
  have "distinct (map al_id ?f)"
  proof -
    have "?f = filter (\<lambda>a. al_id a \<in> rt_allocation ` set rs) (visible al_tenant t (allocations s))"
      by (simp add: visible_def conj_commute)
    then show ?thesis using distinct_map_filter [OF rows(1)] by simp
  qed
  then have "distinct (map cm_id (map claim_of_row ?f))" by (simp add: claim_of_row_def o_def)
  then have "distinct (map claim_of_row ?f)" using distinct_map by blast
  moreover have "distinct ?g" using gd distinct_map by blast
  moreover have "set (map claim_of_row ?f) = set ?g"
  proof
    show "set (map claim_of_row ?f) \<subseteq> set ?g" using in_g by auto
    show "set ?g \<subseteq> set (map claim_of_row ?f)"
    proof
      fix c assume c: "c \<in> set ?g"
      then obtain b where "c = claim_of_row b" "b \<in> set (allocations s)" "al_tenant b = t"
        using sub by (auto simp: promise_claims_def visible_def)
      moreover have "cm_id c \<in> rt_allocation ` set rs" using c ids by simp
      ultimately show "c \<in> set (map claim_of_row ?f)" by (auto simp: claim_of_row_def)
    qed
  qed
  ultimately have "mset (map claim_of_row ?f) = mset ?g" by (rule set_eq_iff_mset_eq_distinct [THEN iffD1])
  then have "image_mset cm_quantity (mset (map claim_of_row ?f)) = image_mset cm_quantity (mset ?g)" by simp
  then have "mset (map cm_quantity (map claim_of_row ?f)) = mset (map cm_quantity ?g)" by (simp only: mset_map)
  then have "sum_mset (mset (map cm_quantity (map claim_of_row ?f))) = sum_mset (mset (map cm_quantity ?g))" by simp
  then have "sum_list (map cm_quantity (map claim_of_row ?f)) = sum_list (map cm_quantity ?g)"
    by (simp only: sum_mset_sum_list)
  then have "sum_list (map al_quantity ?f) = claimed_total ?g"
    by (simp add: claimed_total_def claim_of_row_def o_def)
  then show "sum_list (map al_quantity ?f) \<le> av_received A" using greedy_total arrival(1) by simp
qed

text \<open>The row-by-row reading of the update.\<close>

lemma repointed_rows:
  assumes rs: "\<forall>r \<in> set rs. r = \<lparr>rt_allocation = rt_allocation r, rt_stock = k, rt_bound_at = w, rt_origin = p\<rparr>"
    and P: "\<And>a. a \<in> set rows \<Longrightarrow> al_tenant a = t \<Longrightarrow> al_id a \<in> rt_allocation ` set rs \<Longrightarrow> P a \<and> Q a"
  shows "list_all2 (\<lambda>a b. if al_tenant a = t \<and> al_id a \<in> rt_allocation ` set rs
      then P a \<and> Q a \<and> b = a\<lparr>al_stock := Some k, al_supply := None, al_origin := Some p, al_bound_at := w\<rparr>
      else b = a) rows (map (\<lambda>a. if al_tenant a = t then (case find (\<lambda>r. rt_allocation r = al_id a) rs of
           None \<Rightarrow> a | Some r \<Rightarrow> repointed r a) else a) rows)"
proof -
  have "if al_tenant a = t \<and> al_id a \<in> rt_allocation ` set rs
      then P a \<and> Q a \<and> b = a\<lparr>al_stock := Some k, al_supply := None, al_origin := Some p, al_bound_at := w\<rparr>
      else b = a"
    if a: "a \<in> set rows" and b: "b = (if al_tenant a = t then (case find (\<lambda>r. rt_allocation r = al_id a) rs of
           None \<Rightarrow> a | Some r \<Rightarrow> repointed r a) else a)" for a b
  proof (cases "find (\<lambda>r. rt_allocation r = al_id a) rs")
    case None
    then have "al_id a \<notin> rt_allocation ` set rs" by (auto simp: find_None_iff)
    then show ?thesis using None b by simp
  next
    case (Some r)
    then have r: "r \<in> set rs" "rt_allocation r = al_id a" by (auto dest: find_SomeD)
    then have "al_id a \<in> rt_allocation ` set rs" by force
    moreover have "rt_stock r = k" "rt_bound_at r = w" "rt_origin r = p"
      using bspec [OF rs r(1)] by (metis repoint.select_convs)+
    ultimately show ?thesis using Some b P [OF a] by (simp add: repointed_def)
  qed
  then show ?thesis by (simp add: list_all2_map2 list_all2_same)
qed

text \<open>
  The goods are handed over to whoever waited for them.  When an accepted receipt finds its cell,
  the claims it re-points were active claims on this promise, now hold stock of that cell bound at the
  act's time and remember the promise they came from; together they are never more than what arrived,
  no claim changes its quantity, and no other claim changes at all.
\<close>

theorem record_receipt_hands_over:
  assumes run: "record_receipt ib pg who req s = Inr (v, s')"
    and fresh: "\<not> claimed (ca_tenant who) (gq_event req) s"
    and db: "maintains (ib_refresh ib)" and new: "new_line pg (ca_tenant who) s"
    and rows: "distinct (map al_id (visible al_tenant (ca_tenant who) (allocations s)))"
      "\<forall>a \<in> set (allocations s). 0 < al_quantity a"
    and cell: "ga_stock v = Some k" "in_i64 (ga_quantity v)"
  shows "list_all2 (\<lambda>a b.
      if al_tenant a = ca_tenant who \<and> al_id a \<in> set (ga_repointed v)
      then al_supply a = Some (gq_supply req) \<and> al_state a \<in> set ACTIVE
        \<and> b = a\<lparr>al_stock := Some k, al_supply := None, al_origin := Some (gq_supply req),
                al_bound_at := gq_occurred_at req\<rparr>
      else b = a) (allocations s) (allocations s')
    \<and> sum_list (map al_quantity (filter (\<lambda>a. al_tenant a = ca_tenant who \<and> al_id a \<in> set (ga_repointed v))
        (allocations s))) \<le> ga_quantity v"
proof (rule record_receipt_fresh [OF run fresh])
  fix fc
  let ?t = "ca_tenant who" and ?c = "claimed_db pg who req s"
  assume reads: "receipt_reads ib who req s = Inr fc" and w: "receipt_write pg ib who req fc ?c = Inr (v, s')"
  have new': "new_line pg ?t ?c" using new by (simp add: new_line_def claimed_db_def)
  have pos: "0 < fc_base fc" using reads by (auto simp: receipt_reads_def Let_def result_simps)
  show ?thesis
  proof (rule receipt_write_Inr [OF w new'])
    fix lot lot_ws s1 rg header created s2 s5
    assume 1: "receipt_lot pg ib ?t (es_item (fc_promise fc)) req ?c = Inr ((lot, lot_ws), s1)"
      and 3: "ensure_goods_receipt pg (receipt_header_of who req fc) s1 = Inr ((header, created), s2)"
      and s5: "s5 = s2\<lparr>goods_receipt_lines := goods_receipt_lines ?c @ [disposed pg
           (ds_accept (receipt_decision rg fc lot)) (ds_policy (receipt_decision rg fc lot))
           (receipt_line pg who req fc header lot)],
         discrepancies := discrepancies ?c @ findings_of pg who fc lot rg (receipt_line pg who req fc header lot)\<rparr>"
      and v: "ga_receipt v = header \<and> ga_line v = minted pg Goods_receipt_line \<and> ga_header_created v = created
         \<and> ga_quantity v = fc_base fc \<and> ga_entered v = en_quantity (fc_entered fc)
         \<and> ga_level v = level_str (en_level (fc_entered fc)) \<and> ga_config v = en_config (fc_entered fc)
         \<and> ga_policy v = Some (ds_policy (receipt_decision rg fc lot)) \<and> ga_accepted v = ds_accept (receipt_decision rg fc lot)
         \<and> ga_discrepancy v = (if ds_raise (receipt_decision rg fc lot) = None then None else Some (minted pg Discrepancy))"
      and branch: "if ds_accept (receipt_decision rg fc lot) then ga_movement v = Some (minted pg Stock_movement)
           \<and> (\<exists>ws. receipt_handover pg ib ?t req fc lot (insert_movement (receipt_movement pg who req fc lot) s5)
                = Inr ((ga_stock v, ga_repointed v, ws), s'))
         else s' = s5 \<and> ga_movement v = None \<and> ga_stock v = None \<and> ga_repointed v = []"
    let ?i = "insert_movement (receipt_movement pg who req fc lot) s5"
    have "allocations s5 = allocations s"
      using receipt_lot_writes [OF 1] ensure_goods_receipt_writes [OF 3] by (simp add: s5 claimed_db_def)
    then have i: "allocations ?i = allocations s" by (simp add: insert_movement_def)
    obtain ws where h: "receipt_handover pg ib ?t req fc lot ?i = Inr ((Some k, ga_repointed v, ws), s')"
      using branch cell(1) by (auto split: if_splits)
    show ?thesis
    proof (rule receipt_handover_writes [OF h db])
      fix u
      let ?A = "arrival_of ?t req fc k"
      let ?rs = "fst (plan ?A (promise_claims ?t (gq_supply req) u))"
      assume reb: "rebuilt ?t ?i u"
        and ids: "ga_repointed v = (case Some k of None \<Rightarrow> [] | Some k \<Rightarrow>
           map rt_allocation (fst (plan (arrival_of ?t req fc k) (promise_claims ?t (gq_supply req) u))))"
        and s': "s' = mark_dirty pg ?t ''receipt'' (u\<lparr>allocations := (case Some k of None \<Rightarrow> allocations u
           | Some k \<Rightarrow> fold (\<lambda>r. update_rows al_tenant al_id ?t (rt_allocation r) (\<lambda>_. True) (repointed r))
             (fst (plan (arrival_of ?t req fc k) (promise_claims ?t (gq_supply req) u))) (allocations u))\<rparr>)"
      have u: "allocations u = allocations s"
        using i by (subst conjunct2 [OF reb [unfolded rebuilt_def]]) simp
      have A: "0 < av_received ?A" "in_i64 (av_received ?A)" "av_tenant ?A = ?t" "av_supply ?A = gq_supply req"
          "av_stock ?A = k" "av_occurred_at ?A = gq_occurred_at req" "av_received ?A = ga_quantity v"
        using pos cell(2) v by (simp_all add: arrival_of_def)
      have ids': "set (ga_repointed v) = rt_allocation ` set ?rs" by (simp add: ids)
      note ho = handed_over [OF rows [folded u] A(1-4) refl]
      have a': "allocations s' = map (\<lambda>a. if al_tenant a = ?t then (case find (\<lambda>r. rt_allocation r = al_id a) ?rs of
           None \<Rightarrow> a | Some r \<Rightarrow> repointed r a) else a) (allocations s)"
        using fold_repoint [OF ho(1)] by (simp add: s' u)
      have "list_all2 (\<lambda>a b. if al_tenant a = ?t \<and> al_id a \<in> rt_allocation ` set ?rs
          then al_supply a = Some (gq_supply req) \<and> al_state a \<in> set ACTIVE
            \<and> b = a\<lparr>al_stock := Some (av_stock ?A), al_supply := None, al_origin := Some (gq_supply req),
                    al_bound_at := av_occurred_at ?A\<rparr>
          else b = a) (allocations s) (allocations s')"
        unfolding a' by (rule repointed_rows) (use ho(2,3) u in auto)
      then have "list_all2 (\<lambda>a b. if al_tenant a = ?t \<and> al_id a \<in> set (ga_repointed v)
          then al_supply a = Some (gq_supply req) \<and> al_state a \<in> set ACTIVE
            \<and> b = a\<lparr>al_stock := Some k, al_supply := None, al_origin := Some (gq_supply req),
                    al_bound_at := gq_occurred_at req\<rparr>
          else b = a) (allocations s) (allocations s')"
        by (simp only: ids' A(5,6))
      moreover have "sum_list (map al_quantity (filter (\<lambda>a. al_tenant a = ?t \<and> al_id a \<in> set (ga_repointed v))
          (allocations s))) \<le> ga_quantity v"
        using ho(4) by (simp add: ids u A(7))
      ultimately show ?thesis by blast
    qed
  qed
qed

theorem record_receipt_hands_over_witness:
  "\<exists>v s'. record_receipt dock_inbound sample_pg sample_caller dock_request dock_db = Inr (v, s')
     \<and> al_stock (allocations s' ! 0) = Some 91 \<and> al_supply (allocations s' ! 0) = None"
proof -
  obtain v s' where run: "record_receipt dock_inbound sample_pg sample_caller dock_request dock_db = Inr (v, s')"
      and v: "ga_quantity v = 100" "ga_stock v = Some 91" "ga_repointed v = [72, 73, 71]"
    using dock_runs by (auto split: sum.splits)
  have "distinct (map al_id (visible al_tenant (ca_tenant sample_caller) (allocations dock_db)))"
      "\<forall>a \<in> set (allocations dock_db). 0 < al_quantity a" "in_i64 (ga_quantity v)"
    using v by (simp_all add: dock_db_def dock_claim_def visible_def sample_caller_def in_i64_def)
  note over = conjunct1 [OF record_receipt_hands_over [OF run dock_fresh(1) dock_maintains dock_fresh(2) this(1,2) v(2) this(3)]]
  from list_all2_nthD [OF over, of 0]
  have "al_stock (allocations s' ! 0) = Some 91 \<and> al_supply (allocations s' ! 0) = None"
    by (simp add: dock_db_def dock_claim_def sample_caller_def v)
  with run show ?thesis by blast
qed

section \<open>The retry\<close>

text \<open>Every receipt line and header belongs to a claimed act, as the handler leaves them.\<close>

definition receipts_keyed :: "db \<Rightarrow> bool" where
  "receipts_keyed s \<longleftrightarrow> (\<forall>l \<in> set (goods_receipt_lines s). claimed (gl_tenant l) (gl_event l) s)
     \<and> (\<forall>g \<in> set (goods_receipts s). claimed (gr_tenant g) (gr_event g) s)"

lemma ensured_header:
  assumes run: "ensure_goods_receipt pg gr s = Inr ((h, created), s')"
    and new: "\<not> (\<exists>g \<in> set (goods_receipts s). gr_id g = minted pg Goods_receipt)"
    and others: "\<forall>g \<in> set (goods_receipts s). gr_tenant g = ng_tenant gr \<longrightarrow> gr_event g \<noteq> ng_event gr"
  shows "\<exists>g. by_id gr_tenant gr_id (ng_tenant gr) h (goods_receipts s') = Some g
    \<and> (gr_event g = ng_event gr) = created"
proof (cases created)
  case True
  then have s': "goods_receipts s' = goods_receipts s @ [receipt_header gr h]"
      and h: "\<not> (\<exists>g \<in> set (goods_receipts s). gr_id g = h)"
    using run new by (auto simp: ensure_goods_receipt_def result_simps row_simps split: option.splits if_splits)
  show ?thesis using True h by (simp add: s' by_id_snoc_new receipt_header_def)
next
  case False
  then have s': "s' = s" and g: "by_id gr_tenant gr_id (ng_tenant gr) h (goods_receipts s) \<noteq> None"
    using run by (auto simp: ensure_goods_receipt_def result_simps split: option.splits if_splits)
  then obtain g where "by_id gr_tenant gr_id (ng_tenant gr) h (goods_receipts s) = Some g" by blast
  moreover from this have "gr_event g \<noteq> ng_event gr" using others by (auto dest: by_id_SomeD)
  ultimately show ?thesis using False s' by simp
qed

lemma receipt_retried:
  assumes run: "record_receipt ib pg who req s = Inr (v, s')"
    and fresh: "\<not> claimed (ca_tenant who) (gq_event req) s"
    and keyed: "well_keyed s" "receipts_keyed s"
    and db: "maintains (ib_refresh ib)" and new: "new_line pg (ca_tenant who) s"
      "\<not> (\<exists>g \<in> set (goods_receipts s). gr_id g = minted pg Goods_receipt)"
    and later: "claimed (ca_tenant who) (gq_event req) s''"
      "facts_of (ca_tenant who) (gq_event req) s'' = facts_of (ca_tenant who) (gq_event req) s'"
      "goods_receipt_lines s'' = goods_receipt_lines s'" "goods_receipts s'' = goods_receipts s'"
    and again: "receipt_reads ib' who' req s'' = Inr fc'" "fc_base fc' = ga_quantity v"
      "ca_tenant who' = ca_tenant who"
  shows "\<exists>v'. record_receipt ib' pg' who' req s'' = Inr (v', s'')
    \<and> v'\<lparr>ga_stock := ga_stock v, ga_repointed := ga_repointed v, ga_discrepancy := ga_discrepancy v,
          ga_warnings := ga_warnings v\<rparr> = v
    \<and> ga_repointed v' = [] \<and> ga_warnings v' = [REPLAY_WARNING]"
proof (rule receipt_lines_and_ledger [OF run fresh db new(1)])
  fix fc lot rg header created s2
  let ?t = "ca_tenant who" and ?e = "gq_event req" and ?m = "receipt_movement pg who req fc lot"
  let ?l = "disposed pg (ga_accepted v) (ds_policy (receipt_decision rg fc lot)) (receipt_line pg who req fc header lot)"
  assume head: "ensure_goods_receipt pg (receipt_header_of who req fc) s2
        = Inr ((header, created), s2\<lparr>goods_receipts := goods_receipts s'\<rparr>)" "goods_receipts s2 = goods_receipts s"
    and lines: "goods_receipt_lines s' = goods_receipt_lines s @ [?l]"
    and mv: "movements s' = movements s @ (if ga_accepted v then [?m] else [])"
    and v: "ga_movement v = (if ga_accepted v then Some (minted pg Stock_movement) else None)"
      "ga_receipt v = header" "ga_header_created v = created" "ga_line v = minted pg Goods_receipt_line"
      "ga_quantity v = fc_base fc" "ga_entered v = en_quantity (fc_entered fc)"
      "ga_level v = level_str (en_level (fc_entered fc))" "ga_config v = en_config (fc_entered fc)"
      "ga_policy v = Some (ds_policy (receipt_decision rg fc lot))"
  have l: "gl_tenant ?l = ?t" "gl_event ?l = ?e" "gl_id ?l = ga_line v" "gl_receipt ?l = header"
      "gl_policy ?l = ga_policy v" "(gl_accepted_at ?l \<noteq> None) = ga_accepted v"
      "gl_quantity ?l = ga_quantity v" "gl_entered ?l = ga_entered v" "gl_level ?l = ga_level v" "gl_config ?l = ga_config v"
    by (simp_all add: disposed_def receipt_line_def v)
  have "filter (\<lambda>l. gl_event l = ?e) (visible gl_tenant ?t (goods_receipt_lines s)) = []"
    using keyed(2) fresh by (auto simp: receipts_keyed_def visible_def filter_empty_conv)
  then have one: "filter (\<lambda>l. gl_event l = ?e) (visible gl_tenant ?t (goods_receipt_lines s'')) = [?l]"
    using l(1,2) by (simp add: later(3) lines visible_def)
  have "facts_of ?t ?e s = []" by (rule facts_of_unclaimed [OF keyed(1) fresh])
  then have "facts_of ?t ?e s'' = (if ga_accepted v then [?m] else [])"
    unfolding later(2) using mv by (simp add: facts_of_def receipt_movement_def)
  then have "optional_one_movement ?t ?e s'' = Inr (if ga_accepted v then Some (minted pg Stock_movement, fc_base fc) else None)"
    by (simp add: optional_one_movement_def act_movements_facts sort_by_def receipt_movement_def)
  then have facts: "require_receipt_facts ?t ?e s'' = Inr (header, ga_line v, ga_movement v,
      (if ga_accepted v then Some (ga_quantity v) else None), ga_policy v, ga_accepted v)"
    using l by (simp add: require_receipt_facts_def one sort_by_def v(1,5))
  have line: "by_id gl_tenant gl_id ?t (ga_line v) (goods_receipt_lines s'') = Some ?l"
    using by_id_none [OF new(1) [unfolded new_line_def]] l by (simp add: later(3) lines by_id_snoc v(4))
  have "\<forall>g \<in> set (goods_receipts s). gr_tenant g = ?t \<longrightarrow> gr_event g \<noteq> ?e"
    using keyed(2) fresh by (auto simp: receipts_keyed_def)
  then have "\<exists>g. by_id gr_tenant gr_id ?t header (goods_receipts s'') = Some g \<and> (gr_event g = ?e) = created"
    using ensured_header [OF head(1)] new(2) by (simp add: head(2) later(4) receipt_header_of_def)
  then obtain g where g: "by_id gr_tenant gr_id ?t header (goods_receipts s'') = Some g" "(gr_event g = ?e) = created"
    by blast
  show ?thesis
    using facts line g l later(1) again v
    by (simp add: record_receipt_def claim_act_def receipt_envelope_def receipt_replay_def Let_def)
qed


text \<open>A tenant whose receiving policy has since been retired altogether.\<close>

definition retired_inbound :: inbound where
  "retired_inbound = dock_inbound\<lparr>ib_candidates := \<lambda>_ _ _ _ _ _. Inr []\<rparr>"

lemma dock_keyed: "well_keyed dock_db" "receipts_keyed dock_db"
  by (auto simp: well_keyed_def receipts_keyed_def dock_db_def sample_defs claimed_def facts_of_def)


text \<open>
  One part of the answer is not the first attempt's.  The cell a retry names is the lowest of all the
  item's cells at the location in the request, whatever their lot, status or owner: where another lot of
  the item stands in the same bin under a lower id, the retry names that lot's cell instead of the one
  the goods went into.
\<close>

theorem record_receipt_retry_misnames_cell:
  assumes run: "record_receipt ib pg who req s = Inr (v, s')"
    and old: "claimed (ca_tenant who) (gq_event req) s"
    and reads: "receipt_reads ib who req s = Inr fc"
    and k: "k \<in> set (stock s)" "sk_tenant k = ca_tenant who" "sk_item k = es_item (fc_promise fc)"
      "sk_location k = Some (gq_to_location req)"
  shows "(\<exists>j \<in> set (stock s). ga_stock v = Some (sk_id j) \<and> sk_id j \<le> sk_id k)
    \<and> (\<forall>c. sk_id k < c \<longrightarrow> ga_stock v \<noteq> Some c)"
proof (rule record_receipt_replay [OF run old])
  fix fc'
  let ?cells = "filter (\<lambda>k. sk_location k = Some (gq_to_location req) \<and> sk_item k = es_item (fc_promise fc))
      (visible sk_tenant (ca_tenant who) (stock s))"
  assume "receipt_reads ib who req s = Inr fc'" and r: "receipt_replay (ca_tenant who) req fc' s = Inr v"
  then have "fc' = fc" using reads by simp
  with r have v: "ga_stock v = head_id sk_id (sort_by (\<lambda>a b. cmp (sk_id a) (sk_id b)) ?cells)"
    by (auto simp: receipt_replay_def Let_def result_simps)
  have mem: "k \<in> set ?cells" using k by (simp add: visible_def)
  then have ne: "?cells \<noteq> []" by (metis empty_iff list.set(1))
  have "k \<in> set (sort_by (\<lambda>a b. cmp (sk_id a) (sk_id b)) ?cells)" using mem by simp
  then obtain j js where j: "sort_by (\<lambda>a b. cmp (sk_id a) (sk_id b)) ?cells = j # js"
    by (cases "sort_by (\<lambda>a b. cmp (sk_id a) (sk_id b)) ?cells") simp_all
  have "j \<in> set (sort_by (\<lambda>a b. cmp (sk_id a) (sk_id b)) ?cells)" by (simp only: j list.set_intros(1))
  then have "j \<in> set (stock s)" by (auto simp: visible_def)
  moreover have "cmp (sk_id j) (sk_id k) \<noteq> Greater"
    using cmp_on.hd_sort_by_least [OF ne mem, of sk_id] j by simp
  then have "sk_id j \<le> sk_id k" by (auto simp: cmp_def split: if_splits)
  ultimately show ?thesis using v j by (auto simp: head_id_def)
qed

text \<open>After the rebuild an older lot of the item stands in the same bin.\<close>

definition other_lot :: stock_row where
  "other_lot = sample_cell\<lparr>sk_location := Some 9\<rparr>"

theorem record_receipt_retry_misnames_cell_witness:
  "\<exists>v s' v'. record_receipt dock_inbound sample_pg sample_caller dock_request dock_db = Inr (v, s')
     \<and> record_receipt retired_inbound sample_pg sample_caller dock_request
          (s'\<lparr>stock := [dock_cell 10, other_lot]\<rparr>) = Inr (v', s'\<lparr>stock := [dock_cell 10, other_lot]\<rparr>)
     \<and> ga_stock v = Some 91 \<and> ga_stock v' \<noteq> ga_stock v"
proof -
  obtain v s' where run: "record_receipt dock_inbound sample_pg sample_caller dock_request dock_db = Inr (v, s')"
      and v: "ga_quantity v = 100" "ga_stock v = Some 91" and papers: "same_papers s' dock_db"
    using dock_runs by (auto split: sum.splits)
  let ?s = "s'\<lparr>stock := [dock_cell 10, other_lot]\<rparr>"
  have claimed: "claimed (ca_tenant sample_caller) (gq_event dock_request) ?s"
    using record_receipt_effect(2) [OF run dock_maintains] by (simp add: claimed_def)
  have head: "\<not> (\<exists>g \<in> set (goods_receipts dock_db). gr_id g = minted sample_pg Goods_receipt)"
    by (simp add: dock_db_def sample_defs)
  have "same_papers ?s dock_db" using papers by (simp add: same_papers_def)
  then have reads: "receipt_reads retired_inbound sample_caller dock_request ?s = Inr dock_facts"
    using receipt_reads_cong [of ?s dock_db retired_inbound dock_inbound] dock_reads
    by (simp add: retired_inbound_def)
  have base: "fc_base dock_facts = ga_quantity v" using v by (simp add: dock_facts_def)
  have same: "facts_of (ca_tenant sample_caller) (gq_event dock_request) ?s
      = facts_of (ca_tenant sample_caller) (gq_event dock_request) s'"
      "goods_receipt_lines ?s = goods_receipt_lines s'" "goods_receipts ?s = goods_receipts s'"
    by (simp_all add: facts_of_def)
  obtain v' where again: "record_receipt retired_inbound sample_pg sample_caller dock_request ?s = Inr (v', ?s)"
    using receipt_retried [OF run dock_fresh(1) dock_keyed dock_maintains dock_fresh(2) head claimed
        same reads base refl, of sample_pg] by blast
  have "\<forall>c. sk_id other_lot < c \<longrightarrow> ga_stock v' \<noteq> Some c"
    by (rule conjunct2 [OF record_receipt_retry_misnames_cell [OF again claimed reads]])
       (simp_all add: other_lot_def sample_cell_def sample_caller_def dock_facts_def dock_promise_def dock_request_def)
  then have "ga_stock v' \<noteq> Some 91" by (simp add: other_lot_def sample_cell_def)
  with run again v(2) show ?thesis by (intro exI [of _ v] exI [of _ s'] exI [of _ v']) simp
qed

text \<open>
  The finding of an over-receipt compares two units: what it says was expected is the promise's base
  quantity, what it says was observed is the count as entered, in cartons where it was entered in cartons.
\<close>

lemma receipt_finding_mixes_units:
  assumes run: "record_receipt ib pg who req s = Inr (v, s')"
    and fresh: "\<not> claimed (ca_tenant who) (gq_event req) s"
    and db: "maintains (ib_refresh ib)" and new: "new_line pg (ca_tenant who) s"
    and d: "d \<in> set (drop (length (discrepancies s)) (discrepancies s'))" "di_kind d = ''over_receipt''"
  shows "\<exists>fc. receipt_reads ib who req s = Inr fc \<and> di_expected d = Some (es_expected (fc_promise fc))
     \<and> di_observed d = Some (ga_entered v) \<and> ga_quantity v > es_expected (fc_promise fc)"
proof (rule receipt_lines_and_ledger [OF run fresh db new])
  fix fc lot rg header
  assume reads: "receipt_reads ib who req s = Inr fc"
    and ds: "discrepancies s' = discrepancies s @ findings_of pg who fc lot rg (receipt_line pg who req fc header lot)"
    and v: "ga_quantity v = fc_base fc" "ga_entered v = en_quantity (fc_entered fc)"
  have "d \<in> set (findings_of pg who fc lot rg (receipt_line pg who req fc header lot))" using d(1) ds by simp
  then show ?thesis using d(2) reads v
    by (auto simp: findings_of_def Let_def disposition_finding_def ambiguity_finding_def receipt_line_def
        receipt_decision_def disposition_def split: option.splits if_splits)
qed

end
