(* ===== verification/Acts.thy ===== *)
theory Acts
  imports Ledger
begin

text \<open>
  One ledger row under one act: the tail that \<^verbatim>\<open>repacking.rs\<close> and \<^verbatim>\<open>handover.rs\<close> write out alike.  The
  act is claimed; a replay is answered with the row it already owns, when the quantities agree; a
  fresh act inserts its row and marks the tenant's projections dirty.
\<close>

definition one_movement_act ::
  "pg \<Rightarrow> caller \<Rightarrow> uuid \<Rightarrow> time \<Rightarrow> string \<Rightarrow> i64 \<Rightarrow> (api_error + stock_movement) \<Rightarrow> string list \<Rightarrow> db
   \<Rightarrow> api_error + ((uuid \<times> string list) \<times> db)" where
  "one_movement_act pg who act occurred_at why quantity row warnings s =
     and_then (claim_act pg
         \<lparr>ne_tenant = ca_tenant who, ne_id = act, ne_site = ca_site who,
          ne_recorded_by = ca_person who, ne_submitted_at = occurred_at\<rparr> s)
       (\<lambda>(claim, s1).
          if is_replay claim
          then and_then (require_one_movement (ca_tenant who) act s1) (\<lambda>(movement_id, qty).
               and_then (reject_quantity_mismatch qty quantity) (\<lambda>_.
                 Inr ((movement_id, warnings @ [REPLAY_WARNING]), s1)))
          else and_then row (\<lambda>m.
               and_then (append_movement pg (ca_tenant who) why m s1) (\<lambda>s2.
                 Inr ((mv_id m, warnings), s2))))"

lemma one_movement_fresh:
  assumes "one_movement_act pg who act occurred_at why quantity row warnings s = Inr ((i, ws), s')"
    and "\<not> claimed (ca_tenant who) act s"
  shows "\<exists>m. row = Inr m \<and> i = mv_id m \<and> ws = warnings
    \<and> s' = mark_dirty pg (ca_tenant who) why (s\<lparr>client_events := client_events s @ [envelope pg
          \<lparr>ne_tenant = ca_tenant who, ne_id = act, ne_site = ca_site who,
           ne_recorded_by = ca_person who, ne_submitted_at = occurred_at\<rparr>],
        movements := movements s @ [m]\<rparr>)"
proof -
  obtain a s1 where claim: "claim_act pg
       \<lparr>ne_tenant = ca_tenant who, ne_id = act, ne_site = ca_site who,
        ne_recorded_by = ca_person who, ne_submitted_at = occurred_at\<rparr> s = Inr (a, s1)"
    using assms(1) by (auto simp: one_movement_act_def result_simps)
  have "a = Fresh" using claim assms(2) by (cases a) (auto simp: claim_act_Replay)
  then show ?thesis
    using assms(1) claim
    by (auto simp: one_movement_act_def result_simps claim_act_Fresh row_simps)
qed

lemma one_movement_replay:
  assumes "one_movement_act pg who act occurred_at why quantity row warnings s = Inr ((i, ws), s')"
    and "claimed (ca_tenant who) act s"
  shows "s' = s" and "ws = warnings @ [REPLAY_WARNING]"
    and "require_one_movement (ca_tenant who) act s = Inr (i, quantity)"
  using assms
  by (auto simp: one_movement_act_def result_simps claim_act_def is_replay_def split: if_splits)

lemma one_movement_retry:
  assumes "claimed (ca_tenant who) act s" and "require_one_movement (ca_tenant who) act s = Inr (i, quantity)"
  shows "one_movement_act pg who act occurred_at why quantity row warnings s
    = Inr ((i, warnings @ [REPLAY_WARNING]), s)"
  using assms by (simp add: one_movement_act_def claim_act_def)

lemma one_movement_effect:
  assumes run: "one_movement_act pg who act occurred_at why quantity row warnings s = Inr ((i, ws), s')"
    and row: "\<And>m. row = Inr m \<Longrightarrow> mv_tenant m = ca_tenant who \<and> mv_event m = act"
  shows "act_effect (ca_tenant who) act s s'" and "claimed (ca_tenant who) act s'"
proof -
  have "act_effect (ca_tenant who) act s s' \<and> claimed (ca_tenant who) act s'"
  proof (cases "claimed (ca_tenant who) act s")
    case True
    then show ?thesis using one_movement_replay(1) [OF run] by (simp add: act_effect_def)
  next
    case False
    obtain m where m: "row = Inr m" and s': "s' = mark_dirty pg (ca_tenant who) why
        (s\<lparr>client_events := client_events s @ [envelope pg
          \<lparr>ne_tenant = ca_tenant who, ne_id = act, ne_site = ca_site who,
           ne_recorded_by = ca_person who, ne_submitted_at = occurred_at\<rparr>],
        movements := movements s @ [m]\<rparr>)"
      using one_movement_fresh [OF run False] by blast
    show ?thesis
      unfolding s' using row [OF m] False by (auto intro!: fresh_effect simp: claimed_def)
  qed
  then show "act_effect (ca_tenant who) act s s'" and "claimed (ca_tenant who) act s'" by simp_all
qed

text \<open>The tables a handler of this shape leaves alone.\<close>

lemma one_movement_frame:
  assumes "one_movement_act pg who act occurred_at why quantity row warnings s = Inr ((i, ws), s')"
  shows "package_events s' = package_events s" and "discrepancies s' = discrepancies s"
    and "packages s' = packages s" and "locations s' = locations s" and "fulfilments s' = fulfilments s"
    and "fulfilment_lines s' = fulfilment_lines s" and "sites s' = sites s"
    and "order_lines s' = order_lines s" and "external_picks s' = external_picks s"
    and "allocations s' = allocations s" and "stock s' = stock s"
proof -
  have "s' = s \<or> (\<exists>e m. s' = mark_dirty pg (ca_tenant who) why
      (s\<lparr>client_events := client_events s @ [e], movements := movements s @ [m]\<rparr>))"
  proof (cases "claimed (ca_tenant who) act s")
    case True
    then show ?thesis using one_movement_replay(1) [OF assms] by simp
  next
    case False
    then show ?thesis using one_movement_fresh [OF assms] by blast
  qed
  then show "package_events s' = package_events s" and "discrepancies s' = discrepancies s"
    and "packages s' = packages s" and "locations s' = locations s" and "fulfilments s' = fulfilments s"
    and "fulfilment_lines s' = fulfilment_lines s" and "sites s' = sites s"
    and "order_lines s' = order_lines s" and "external_picks s' = external_picks s"
    and "allocations s' = allocations s" and "stock s' = stock s"
    by (elim disjE exE; simp)+
qed

end
