(* ===== verification/Repacking.thy ===== *)
theory Repacking
  imports Acts
begin

text \<open>
  A line's units moved between holders at the bench: \<^verbatim>\<open>repacking.rs\<close>.  The decision procedure, what
  the ledger says a holder has of a line, and the handler \<open>repack\<close>.  What is proved: a repack is a
  transfer, the same lot, status and owner on both sides, that no figure of the line's progress
  reads as a pick or a despatch; and a retry of a repack that took everything is refused instead of
  being answered.
\<close>

section \<open>The decision\<close>

record repack_request =
  kr_line :: uuid
  kr_from_package :: "uuid option"
  kr_from_location :: "uuid option"
  kr_to_package :: "uuid option"
  kr_to_location :: "uuid option"
  kr_lot :: "uuid option"
  kr_quantity :: i64
  kr_event :: uuid
  kr_occurred_at :: time

record repack_response =
  ks_movement :: uuid
  ks_warnings :: "string list"

datatype holder = Holder_package uuid | Holder_location uuid

fun holder_named :: "uuid option \<Rightarrow> uuid option \<Rightarrow> holder option" where
  "holder_named (Some p) None = Some (Holder_package p)"
| "holder_named None (Some l) = Some (Holder_location l)"
| "holder_named _ _ = None"

record repack_side =
  ke_holder :: holder
  ke_status :: "string option"
  ke_fulfilment :: "uuid option"

record repack_line =
  kl_fulfilment :: uuid
  kl_cancelled :: bool
  kl_pack_location :: "uuid option"

record held =
  hd_total :: i64
  hd_kinds :: nat
  hd_most :: i64

datatype repack_problem =
    NoQuantity | LineNotFound | FulfilmentCancelled | NotOneFrom | NotOneTo | FromNotFound
  | ToNotFound | NotTheBench | SameHolder | DestinationClosed string | HoldsNone | SeveralKinds
  | OverHeld i64 | FromSealed | IntoSealed | OtherOrder

fun show_repack_problem :: "repack_problem \<Rightarrow> string" where
  "show_repack_problem NoQuantity = ''move one or more''"
| "show_repack_problem LineNotFound = ''the order line was not found''"
| "show_repack_problem FulfilmentCancelled = ''the order is cancelled''"
| "show_repack_problem NotOneFrom = ''name exactly one of from_package_id and from_location_id''"
| "show_repack_problem NotOneTo = ''name exactly one of to_package_id and to_location_id''"
| "show_repack_problem FromNotFound = ''where it comes from was not found''"
| "show_repack_problem ToNotFound = ''where it goes was not found''"
| "show_repack_problem NotTheBench = ''a carton or the bench only: from a shelf is a pick, and to one a move''"
| "show_repack_problem SameHolder = ''it is there already''"
| "show_repack_problem (DestinationClosed status) = ''the carton it goes into is '' @ status"
| "show_repack_problem HoldsNone = ''there is none of that line there''"
| "show_repack_problem SeveralKinds = ''more than one lot of it is there: move each by its lot''"
| "show_repack_problem (OverHeld held) = ''more than the '' @ show_int held @ '' there''"
| "show_repack_problem FromSealed = ''taken out of a sealed carton: open it first''"
| "show_repack_problem IntoSealed = ''put into a sealed carton: open it first''"
| "show_repack_problem OtherOrder = ''the carton it goes into is another order's''"

declare show_repack_problem.simps [simp del]

fun repack_is_hard :: "repack_problem \<Rightarrow> bool" where
  "repack_is_hard (OverHeld h) = False"
| "repack_is_hard FromSealed = False"
| "repack_is_hard IntoSealed = False"
| "repack_is_hard OtherOrder = False"
| "repack_is_hard p = True"

text \<open>The match on one side: whether the request named one holder, and the holder if it was found.\<close>

definition side_or_problem ::
  "repack_problem \<Rightarrow> repack_problem \<Rightarrow> bool \<Rightarrow> repack_side option \<Rightarrow> repack_problem list" where
  "side_or_problem not_one not_found named sd =
     (if \<not> named then [not_one] else if sd = None then [not_found] else [])"

definition off_the_bench :: "repack_line \<Rightarrow> repack_side \<Rightarrow> bool" where
  "off_the_bench line sd =
     (case ke_holder sd of
        Holder_location l \<Rightarrow> Some l \<noteq> kl_pack_location line
      | Holder_package p \<Rightarrow> False)"

definition between_problems :: "repack_line \<Rightarrow> repack_side \<Rightarrow> repack_side \<Rightarrow> repack_problem list" where
  "between_problems line fr to =
     (if off_the_bench line fr \<or> off_the_bench line to then [NotTheBench] else [])
     @ (if ke_holder fr = ke_holder to then [SameHolder] else [])
     @ (case ke_status to of
          None \<Rightarrow> []
        | Some st \<Rightarrow>
            if st = ''despatched'' \<or> st = ''voided'' then [DestinationClosed st]
            else if st = ''sealed'' then [IntoSealed] else [])
     @ (if ke_status fr = Some ''sealed'' then [FromSealed] else [])
     @ (case ke_fulfilment to of
          None \<Rightarrow> []
        | Some f \<Rightarrow> if f \<noteq> kl_fulfilment line then [OtherOrder] else [])"

definition held_problems :: "i64 \<Rightarrow> held \<Rightarrow> repack_problem list" where
  "held_problems quantity h =
     (if hd_total h \<le> 0 then [HoldsNone]
      else if hd_kinds h > 1 \<and> quantity > hd_most h then [SeveralKinds]
      else if quantity > hd_total h then [OverHeld (hd_total h)] else [])"

definition repack_check ::
  "i64 \<Rightarrow> repack_line option \<Rightarrow> bool \<times> repack_side option \<Rightarrow> bool \<times> repack_side option \<Rightarrow> held
   \<Rightarrow> repack_problem list" where
  "repack_check quantity line from_side to_side h =
     (let nothing = (if quantity \<le> 0 then [NoQuantity] else []) in
      case line of
        None \<Rightarrow> nothing @ [LineNotFound]
      | Some l \<Rightarrow>
          let problems = nothing @ (if kl_cancelled l then [FulfilmentCancelled] else [])
                @ side_or_problem NotOneFrom FromNotFound (fst from_side) (snd from_side)
                @ side_or_problem NotOneTo ToNotFound (fst to_side) (snd to_side) in
          (case (if fst from_side then snd from_side else None, if fst to_side then snd to_side else None) of
             (Some fr, Some to) \<Rightarrow> problems @ between_problems l fr to @ held_problems quantity h
           | _ \<Rightarrow> problems))"

section \<open>What the ledger says a holder has\<close>

type_synonym kind = "uuid \<times> uuid option \<times> uuid option \<times> uuid option" \<comment> \<open>item, lot, status, owner\<close>

definition kind_of :: "uuid \<Rightarrow> side \<Rightarrow> kind" where
  "kind_of item sd = (item, sd_lot sd, sd_status sd, sd_owner sd)"

text \<open>\<open>package_id = $2 OR location_id = $3\<close>, where a null parameter matches nothing.\<close>

definition is_at :: "holder \<Rightarrow> side \<Rightarrow> bool" where
  "is_at h sd = (case h of
     Holder_package p \<Rightarrow> sd_package sd = Some p
   | Holder_location l \<Rightarrow> sd_location sd = Some l)"

text \<open>\<open>UNION ALL\<close> of what went in and, negated, what came out; \<open>line_roots\<close> joins the effective quantities.\<close>

definition held_rows :: "(stock_movement \<times> int) list \<Rightarrow> holder \<Rightarrow> (kind \<times> int) list" where
  "held_rows roots h =
     map (\<lambda>(m, q). (kind_of (mv_item m) (mv_to m), q)) (filter (\<lambda>(m, q). is_at h (mv_to m)) roots)
     @ map (\<lambda>(m, q). (kind_of (mv_item m) (mv_from m), - q)) (filter (\<lambda>(m, q). is_at h (mv_from m)) roots)"

definition kind_sum :: "(kind \<times> int) list \<Rightarrow> kind \<Rightarrow> int" where
  "kind_sum rows k = sum_list (map snd (filter (\<lambda>r. fst r = k) rows))"

text \<open>
  \<open>GROUP BY ... HAVING sum(q) > 0 ORDER BY 5 DESC\<close>.  The order the groups come in is the server's,
  so \<open>groups\<close> is a parameter; the sort keeps it among equal totals.  A sum past \<open>bigint\<close> is a
  database error.
\<close>

definition held_kinds ::
  "(kind list \<Rightarrow> kind list) \<Rightarrow> (stock_movement \<times> int) list \<Rightarrow> holder option \<Rightarrow> uuid option
   \<Rightarrow> api_error + (kind \<times> i64) list" where
  "held_kinds groups roots h lot =
     (let rows = filter (\<lambda>(k, q). lot = None \<or> fst (snd k) = lot)
            (case h of None \<Rightarrow> [] | Some h' \<Rightarrow> held_rows roots h');
          totals = filter (\<lambda>(k, q). q > 0)
            (map (\<lambda>k. (k, kind_sum rows k)) (groups (remdups (map fst rows)))) in
      if list_all (\<lambda>(k, q). in_i64 q) totals
      then Inr (sort_by (\<lambda>a b. cmp (snd b) (snd a)) totals) else Inl Database)"

definition held_of :: "(kind \<times> i64) list \<Rightarrow> held" where
  "held_of kinds =
     \<lparr>hd_total = foldl i64_add 0 (map snd kinds), hd_kinds = length kinds,
      hd_most = (case kinds of [] \<Rightarrow> 0 | (k, q) # _ \<Rightarrow> q)\<rparr>"

section \<open>The handler\<close>

definition load_repack_line :: "uuid \<Rightarrow> uuid \<Rightarrow> db \<Rightarrow> repack_line option" where
  "load_repack_line t i s =
     Option.bind (line_by_id t i s) (\<lambda>l.
     map_option (\<lambda>f. \<lparr>kl_fulfilment = fu_id f, kl_cancelled = (fu_state f = ''cancelled''),
         kl_pack_location = Option.bind (fu_site f) (\<lambda>i.
           Option.bind (by_id si_tenant si_id t i (sites s)) si_pack_location)\<rparr>)
       (by_id fu_tenant fu_id t (fl_fulfilment l) (fulfilments s)))"

definition load_side :: "uuid \<Rightarrow> db \<Rightarrow> holder \<Rightarrow> repack_side option" where
  "load_side t s h =
     (case h of
        Holder_package i \<Rightarrow>
          map_option (\<lambda>k. \<lparr>ke_holder = h, ke_status = package_status_now t i s, ke_fulfilment = pk_fulfilment k\<rparr>)
            (package_by_id t i s)
      | Holder_location i \<Rightarrow>
          map_option (\<lambda>l. \<lparr>ke_holder = h, ke_status = None, ke_fulfilment = None\<rparr>) (location_by_id t i s))"

text \<open>The two optional parameters \<open>from_package\<close> and \<open>from_location\<close> a holder stands for.\<close>

definition holder_side :: "holder option \<Rightarrow> kind \<Rightarrow> side" where
  "holder_side h k = (case k of (item, lot, status, owner) \<Rightarrow>
     \<lparr>sd_location = (case h of Some (Holder_location l) \<Rightarrow> Some l | _ \<Rightarrow> None),
      sd_package = (case h of Some (Holder_package p) \<Rightarrow> Some p | _ \<Rightarrow> None),
      sd_lot = lot, sd_status = status, sd_owner = owner\<rparr>)"

definition repack_movement :: "pg \<Rightarrow> caller \<Rightarrow> repack_request \<Rightarrow> kind \<Rightarrow> stock_movement" where
  "repack_movement pg who req k =
     (case k of (item, lot, status, owner) \<Rightarrow>
       \<lparr>mv_id = minted pg Stock_movement, mv_tenant = ca_tenant who, mv_event = kr_event req,
        mv_item = item, mv_quantity = kr_quantity req,
        mv_from = holder_side (holder_named (kr_from_package req) (kr_from_location req)) k,
        mv_to = \<lparr>sd_location = kr_to_location req, sd_package = kr_to_package req,
                 sd_lot = lot, sd_status = status, sd_owner = owner\<rparr>,
        mv_reason = ''move'', mv_occurred_at = kr_occurred_at req,
        mv_recorded_by = ca_person who, mv_reverses = None, mv_adjustment_reason = None,
        mv_line = Some (kr_line req), mv_receipt_line = None, mv_external_pick = None\<rparr>)"

definition repack ::
  "(kind list \<Rightarrow> kind list) \<Rightarrow> pg \<Rightarrow> caller \<Rightarrow> repack_request \<Rightarrow> db \<Rightarrow> api_error + (repack_response \<times> db)" where
  "repack groups pg who req s =
     (let t = ca_tenant who;
          from_holder = holder_named (kr_from_package req) (kr_from_location req);
          to_holder = holder_named (kr_to_package req) (kr_to_location req);
          line = load_repack_line t (kr_line req) s;
          from_side = Option.bind from_holder (load_side t s);
          to_side = Option.bind to_holder (load_side t s) in
      and_then (held_kinds groups (line_roots t (kr_line req) s) from_holder (kr_lot req)) (\<lambda>kinds.
      and_then (hard_or_warnings repack_is_hard (join ''; '') show_repack_problem
                  (repack_check (kr_quantity req) line (from_holder \<noteq> None, from_side)
                     (to_holder \<noteq> None, to_side) (held_of kinds))) (\<lambda>warnings.
      and_then (one_movement_act pg who (kr_event req) (kr_occurred_at req) ''repack'' (kr_quantity req)
                  (case kinds of
                     [] \<Rightarrow> Inl Panicked
                   | (k, q) # _ \<Rightarrow> Inr (repack_movement pg who req k)) warnings s)
        (\<lambda>((movement_id, ws), s2). Inr (\<lparr>ks_movement = movement_id, ks_warnings = ws\<rparr>, s2)))))"

section \<open>When it is recorded\<close>

lemma repack_check_complete:
  "repack_check q (Some l) (True, Some fr) (True, Some to) h =
     (if q \<le> 0 then [NoQuantity] else []) @ (if kl_cancelled l then [FulfilmentCancelled] else [])
     @ between_problems l fr to @ held_problems q h"
  by (simp add: repack_check_def side_or_problem_def Let_def)

lemma repack_check_no_hard:
  assumes "filter repack_is_hard (repack_check q line (nf, fs) (nt, ts) h) = []"
  shows "\<exists>l fr to. line = Some l \<and> nf \<and> fs = Some fr \<and> nt \<and> ts = Some to \<and> 0 < q \<and> \<not> kl_cancelled l
    \<and> filter repack_is_hard (between_problems l fr to) = [] \<and> filter repack_is_hard (held_problems q h) = []"
proof -
  obtain l where l: "line = Some l"
    using assms by (cases line) (auto simp: repack_check_def Let_def)
  obtain fr where fr: "nf" "fs = Some fr"
    using assms l by (cases nf; cases fs) (auto simp: repack_check_def side_or_problem_def Let_def)
  obtain to where to: "nt" "ts = Some to"
    using assms l by (cases nt; cases ts) (auto simp: repack_check_def side_or_problem_def Let_def split: option.splits if_splits)
  have "filter repack_is_hard (repack_check q (Some l) (True, Some fr) (True, Some to) h) = []"
    using assms l fr to by simp
  then show ?thesis
    unfolding repack_check_complete using l fr to by (auto split: if_splits)
qed

lemma load_side_holder: "load_side t s h = Some x \<Longrightarrow> ke_holder x = h"
  by (auto simp: load_side_def split: holder.splits)

lemma holder_named_side:
  assumes "holder_named p l = Some h" and "k = (item, lot, status, owner)"
  shows "\<lparr>sd_location = l, sd_package = p, sd_lot = lot, sd_status = status, sd_owner = owner\<rparr>
    = holder_side (Some h) k"
  using assms by (cases p; cases l) (auto simp: holder_side_def)

lemma is_at_holder_side [simp]: "is_at h (holder_side (Some h') k) \<longleftrightarrow> h = h'"
  by (cases h; cases h'; cases k) (auto simp: is_at_def holder_side_def)

lemma holder_side_some [simp]: "holder_side (Some h) k \<noteq> no_side"
  by (cases h; cases k) (auto simp: holder_side_def no_side_def)

lemma held_kinds_pos:
  assumes "held_kinds groups roots h lot = Inr kinds" and "(k, q) \<in> set kinds"
  shows "0 < q"
  using assms by (auto simp: held_kinds_def Let_def split: if_splits)

lemma kind_of_holder_side [simp]: "kind_of (fst k) (holder_side h k) = k"
  by (cases k) (simp add: kind_of_def holder_side_def)

lemma repack_movement_simps [simp]:
  "mv_id (repack_movement pg who req k) = minted pg Stock_movement"
  "mv_tenant (repack_movement pg who req k) = ca_tenant who"
  "mv_event (repack_movement pg who req k) = kr_event req"
  "mv_item (repack_movement pg who req k) = fst k"
  "mv_quantity (repack_movement pg who req k) = kr_quantity req"
  "mv_line (repack_movement pg who req k) = Some (kr_line req)"
  "mv_reverses (repack_movement pg who req k) = None"
  by (cases k; simp add: repack_movement_def)+

lemma repack_movement_sides:
  assumes "holder_named (kr_from_package req) (kr_from_location req) = Some hf"
    and "holder_named (kr_to_package req) (kr_to_location req) = Some ht"
  shows "mv_from (repack_movement pg who req k) = holder_side (Some hf) k"
    and "mv_to (repack_movement pg who req k) = holder_side (Some ht) k"
  using assms holder_named_side [OF assms(2) refl]
  by (cases k; simp add: repack_movement_def)+

lemma repack_run:
  assumes "repack groups pg who req s = Inr (v, s')"
  obtains kinds hf ht l fr to where
    "held_kinds groups (line_roots (ca_tenant who) (kr_line req) s)
       (Some hf) (kr_lot req) = Inr kinds"
    "holder_named (kr_from_package req) (kr_from_location req) = Some hf"
    "holder_named (kr_to_package req) (kr_to_location req) = Some ht" "hf \<noteq> ht"
    "load_repack_line (ca_tenant who) (kr_line req) s = Some l"
    "load_side (ca_tenant who) s hf = Some fr" "load_side (ca_tenant who) s ht = Some to"
    "0 < kr_quantity req" "\<not> kl_cancelled l"
    "filter repack_is_hard (between_problems l fr to) = []"
    "filter repack_is_hard (held_problems (kr_quantity req) (held_of kinds)) = []"
    "one_movement_act pg who (kr_event req) (kr_occurred_at req) ''repack'' (kr_quantity req)
       (case kinds of [] \<Rightarrow> Inl Panicked | (k, q) # _ \<Rightarrow> Inr (repack_movement pg who req k))
       (map show_repack_problem (repack_check (kr_quantity req) (Some l) (True, Some fr) (True, Some to) (held_of kinds)))
       s = Inr ((ks_movement v, ks_warnings v), s')"
proof -
  let ?hf = "holder_named (kr_from_package req) (kr_from_location req)"
  let ?ht = "holder_named (kr_to_package req) (kr_to_location req)"
  let ?check = "\<lambda>kinds. repack_check (kr_quantity req) (load_repack_line (ca_tenant who) (kr_line req) s)
    (?hf \<noteq> None, Option.bind ?hf (load_side (ca_tenant who) s))
    (?ht \<noteq> None, Option.bind ?ht (load_side (ca_tenant who) s)) (held_of kinds)"
  obtain kinds where kinds: "held_kinds groups (line_roots (ca_tenant who) (kr_line req) s) ?hf (kr_lot req) = Inr kinds"
      and ok: "filter repack_is_hard (?check kinds) = []"
      and act: "one_movement_act pg who (kr_event req) (kr_occurred_at req) ''repack'' (kr_quantity req)
       (case kinds of [] \<Rightarrow> Inl Panicked | (k, q) # _ \<Rightarrow> Inr (repack_movement pg who req k))
       (map show_repack_problem (?check kinds)) s = Inr ((ks_movement v, ks_warnings v), s')"
    using assms by (auto simp: repack_def Let_def result_simps)
  obtain l fr to where c: "load_repack_line (ca_tenant who) (kr_line req) s = Some l" "?hf \<noteq> None"
      "Option.bind ?hf (load_side (ca_tenant who) s) = Some fr" "?ht \<noteq> None"
      "Option.bind ?ht (load_side (ca_tenant who) s) = Some to" "0 < kr_quantity req" "\<not> kl_cancelled l"
      "filter repack_is_hard (between_problems l fr to) = []"
      "filter repack_is_hard (held_problems (kr_quantity req) (held_of kinds)) = []"
    using repack_check_no_hard [OF ok] by blast
  obtain hf ht where h: "?hf = Some hf" "?ht = Some ht" using c(2,4) by auto
  then have sides: "load_side (ca_tenant who) s hf = Some fr" "load_side (ca_tenant who) s ht = Some to"
    using c(3,5) by simp_all
  have "hf \<noteq> ht"
    using c(8) load_side_holder [OF sides(1)] load_side_holder [OF sides(2)]
    by (auto simp: between_problems_def)
  then show thesis
    using that [of hf kinds ht l fr to] kinds act c h sides by simp
qed

text \<open>What a fresh run did: the kind it moved is the first the holder has.\<close>

lemma repack_fresh:
  assumes run: "repack groups pg who req s = Inr (v, s')"
    and fresh: "\<not> claimed (ca_tenant who) (kr_event req) s"
  obtains hf ht k q rest where
    "holder_named (kr_from_package req) (kr_from_location req) = Some hf"
    "holder_named (kr_to_package req) (kr_to_location req) = Some ht" "hf \<noteq> ht"
    "held_kinds groups (line_roots (ca_tenant who) (kr_line req) s) (Some hf) (kr_lot req) = Inr ((k, q) # rest)"
    "0 < q" "0 < kr_quantity req" "ks_movement v = minted pg Stock_movement"
    "s' = mark_dirty pg (ca_tenant who) ''repack'' (s\<lparr>client_events := client_events s @ [envelope pg
          \<lparr>ne_tenant = ca_tenant who, ne_id = kr_event req, ne_site = ca_site who,
           ne_recorded_by = ca_person who, ne_submitted_at = kr_occurred_at req\<rparr>],
        movements := movements s @ [repack_movement pg who req k]\<rparr>)"
proof (rule repack_run [OF run])
  fix kinds hf ht l fr to
  assume h: "held_kinds groups (line_roots (ca_tenant who) (kr_line req) s) (Some hf) (kr_lot req) = Inr kinds"
      "holder_named (kr_from_package req) (kr_from_location req) = Some hf"
      "holder_named (kr_to_package req) (kr_to_location req) = Some ht" "hf \<noteq> ht" "0 < kr_quantity req"
    and act: "one_movement_act pg who (kr_event req) (kr_occurred_at req) ''repack'' (kr_quantity req)
       (case kinds of [] \<Rightarrow> Inl Panicked | (k, q) # _ \<Rightarrow> Inr (repack_movement pg who req k))
       (map show_repack_problem (repack_check (kr_quantity req) (Some l) (True, Some fr) (True, Some to) (held_of kinds)))
       s = Inr ((ks_movement v, ks_warnings v), s')"
  obtain k q rest where kinds: "kinds = (k, q) # rest"
    using one_movement_fresh [OF act fresh] by (cases kinds) auto
  show thesis
    by (rule that [of hf ht k q rest])
      (use h one_movement_fresh [OF act fresh] held_kinds_pos [OF h(1), of k q] in
        \<open>auto simp: kinds split: list.splits\<close>)
qed

interpretation repack_writer: strict_writer "repack groups" kr_event for groups
proof
  fix pg who req s v s'
  assume run: "repack groups pg who req s = Inr (v, s')"
  show "act_effect (ca_tenant who) (kr_event req) s s'"
    by (rule repack_run [OF run], erule one_movement_effect(1)) (auto split: list.splits)
  show "claimed (ca_tenant who) (kr_event req) s'"
    by (rule repack_run [OF run], erule one_movement_effect(2)) (auto split: list.splits)
  show "s' = s" if "claimed (ca_tenant who) (kr_event req) s"
    by (rule repack_run [OF run], erule one_movement_replay(1)) (rule that)
qed

lemma repack_frame:
  assumes "repack groups pg who req s = Inr (v, s')"
  shows "package_events s' = package_events s" and "discrepancies s' = discrepancies s"
    and "packages s' = packages s" and "locations s' = locations s" and "fulfilments s' = fulfilments s"
    and "fulfilment_lines s' = fulfilment_lines s" and "sites s' = sites s"
    and "allocations s' = allocations s"
  by (rule repack_run [OF assms], drule one_movement_frame, assumption)+

section \<open>Properties\<close>


text \<open>Six of item 100 were picked into carton 30; the bench is location 9, and carton 31 is empty.\<close>

definition sample_repack_db :: db where
  "sample_repack_db = sample_db\<lparr>
     client_events := client_events sample_db @ [\<lparr>ce_tenant = 10, ce_id = 502, ce_site = None,
       ce_recorded_by = 20, ce_submitted_at = 8, ce_received_at = 8\<rparr>],
     movements := [sample_receipt, sample_receipt\<lparr>mv_id := 61, mv_event := 502, mv_quantity := 6,
       mv_from := mv_to sample_receipt, mv_reason := ''pick'', mv_line := Some 42,
       mv_to := \<lparr>sd_location = None, sd_package = Some 30, sd_lot = Some 3, sd_status = Some 4, sd_owner = Some 5\<rparr>\<rparr>],
     packages := [\<lparr>pk_id = 30, pk_tenant = 10, pk_status = None, pk_location = Some 9, pk_parent = None,
         pk_fulfilment = Some 41, pk_sealed_at = None, pk_breaks_down = False, pk_barcode = None, pk_type = None, pk_sequence = None,
       pk_config = None, pk_own_item = None, pk_own_level = None, pk_carrier = None, pk_rules = None\<rparr>,
       \<lparr>pk_id = 31, pk_tenant = 10, pk_status = None, pk_location = Some 9, pk_parent = None,
         pk_fulfilment = Some 41, pk_sealed_at = None, pk_breaks_down = False, pk_barcode = None, pk_type = None, pk_sequence = None,
       pk_config = None, pk_own_item = None, pk_own_level = None, pk_carrier = None, pk_rules = None\<rparr>],
     sites := [\<lparr>si_id = 70, si_tenant = 10, si_pack_location = Some 9, si_owner = Some 5\<rparr>],
     fulfilments := [\<lparr>fu_id = 41, fu_tenant = 10, fu_state = ''open'', fu_site = Some 70\<rparr>],
     order_lines := [\<lparr>ol_id = 43, ol_tenant = 10, ol_item = 100\<rparr>],
     fulfilment_lines := [\<lparr>fl_id = 42, fl_tenant = 10, fl_fulfilment = 41, fl_order_line = 43, fl_quantity = 6,
       fl_covered = 6, fl_picked = 6, fl_packed = 0, fl_despatched = 0, fl_uncovered = 0\<rparr>]\<rparr>"

definition sample_repack :: repack_request where
  "sample_repack = \<lparr>kr_line = 42, kr_from_package = Some 30, kr_from_location = None,
     kr_to_package = Some 31, kr_to_location = None, kr_lot = None, kr_quantity = 6,
     kr_event = 503, kr_occurred_at = 9\<rparr>"

lemma sample_repack_runs:
  "\<exists>v s'. repack id sample_pg sample_caller sample_repack sample_repack_db = Inr (v, s')"
proof -
  have "\<not> isl (repack id sample_pg sample_caller sample_repack sample_repack_db)"
    by code_simp
  then show ?thesis
    by (cases "repack id sample_pg sample_caller sample_repack sample_repack_db") auto
qed

lemma sample_repack_ledger:
  "\<not> claimed (ca_tenant sample_caller) (kr_event sample_repack) sample_repack_db"
  "reverses_backward (visible mv_tenant (ca_tenant sample_caller) (movements sample_repack_db))"
  "\<forall>r \<in> set (movements sample_repack_db). mv_reverses r \<noteq> Some (minted sample_pg Stock_movement)"
    apply code_simp
   apply (simp add: reverses_backward_def visible_def sample_repack_db_def sample_defs less_Suc_eq)
  apply (simp add: sample_repack_db_def sample_defs)
  done


lemma kind_sum_append: "kind_sum (xs @ ys) x = kind_sum xs x + kind_sum ys x"
  by (simp add: kind_sum_def)

lemma kind_sum_absent: "x \<notin> fst ` set rows \<Longrightarrow> kind_sum rows x = 0"
proof -
  assume "x \<notin> fst ` set rows"
  then have "filter (\<lambda>r. fst r = x) rows = []" by (auto simp: filter_eq_Nil_iff)
  then show ?thesis by (simp add: kind_sum_def)
qed

lemma held_kinds_none:
  assumes "\<And>x. kind_sum (filter (\<lambda>(k, q). lot = None \<or> fst (snd k) = lot) (held_rows roots h)) x \<le> 0"
  shows "held_kinds groups roots (Some h) lot = Inr []"
proof -
  have "filter (\<lambda>(k, q). q > 0) (map (\<lambda>k. (k, kind_sum (filter (\<lambda>(k, q). lot = None \<or> fst (snd k) = lot)
      (held_rows roots h)) k)) ks) = []" for ks
    using assms by (auto simp: filter_eq_Nil_iff not_less)
  then show ?thesis by (simp add: held_kinds_def Let_def)
qed

text \<open>Once the one kind a holder has is taken from it, it has none.\<close>

lemma held_kinds_emptied:
  assumes one: "held_kinds groups roots (Some h) lot = Inr [(k, q)]"
    and lists: "\<And>ks. set (groups ks) = set ks"
    and rows: "held_rows roots' h = held_rows roots h @ [(k, - q)]"
  shows "held_kinds groups' roots' (Some h) lot = Inr []"
proof (rule held_kinds_none)
  fix x
  define keep where "keep = (\<lambda>(k :: kind, q :: int). lot = None \<or> fst (snd k) = lot)"
  define rs where "rs = filter keep (held_rows roots h)"
  define gs where "gs = filter (\<lambda>(k, q). q > 0) (map (\<lambda>k. (k, kind_sum rs k)) (groups (remdups (map fst rs))))"
  have "sort_by (\<lambda>a b. cmp (snd b) (snd a)) gs = [(k, q)]"
    using one unfolding held_kinds_def Let_def option.case keep_def [symmetric] rs_def [symmetric] gs_def [symmetric]
    by (simp split: if_splits)
  then have gs: "set gs = {(k, q)}" by (metis list.set(1) list.simps(15) set_sort_by)
  have "(k, q) \<in> set gs" by (simp add: gs)
  then have k: "k \<in> fst ` set rs" "kind_sum rs k = q"
    using lists by (auto simp: gs_def)
  then have "keep (k, - q)" by (auto simp: rs_def keep_def)
  then have rows': "filter keep (held_rows roots' h) = rs @ [(k, - q)]" by (simp add: rows rs_def)
  have "kind_sum rs x \<le> 0" if "x \<noteq> k"
  proof (rule ccontr)
    assume pos: "\<not> kind_sum rs x \<le> 0"
    then have "x \<in> fst ` set rs" by (metis kind_sum_absent order_refl)
    then have "(x, kind_sum rs x) \<in> set gs" using pos lists by (auto simp: gs_def)
    with gs that show False by simp
  qed
  then have "kind_sum (rs @ [(k, - q)]) x \<le> 0"
    using k(2) by (cases "x = k") (auto simp: kind_sum_append, auto simp: kind_sum_def)
  then show "kind_sum (filter (\<lambda>(k, q). lot = None \<or> fst (snd k) = lot) (held_rows roots' h)) x \<le> 0"
    by (simp add: keep_def [symmetric] rows')
qed

lemma load_frame:
  assumes "package_events s' = package_events s" and "packages s' = packages s"
    and "locations s' = locations s" and "fulfilments s' = fulfilments s"
    and "fulfilment_lines s' = fulfilment_lines s" and "sites s' = sites s"
  shows "load_repack_line t i s' = load_repack_line t i s" and "load_side t s' h = load_side t s h"
  using assms
  by (simp_all add: load_repack_line_def load_side_def package_status_now_def row_simps split: holder.splits)

text \<open>
  A repack that took everything of the line out of its holder cannot be retried: the same
  request, under the same act, on the state its first run left, is refused with nothing there,
  though that run succeeded and its act and its movement are recorded.
\<close>

theorem repack_retry_of_everything_refused:
  assumes run: "repack groups pg who req s = Inr (v, s')"
    and fresh: "\<not> claimed (ca_tenant who) (kr_event req) s"
    and ledger: "reverses_backward (visible mv_tenant (ca_tenant who) (movements s))"
    and new_id: "\<forall>r \<in> set (movements s). mv_reverses r \<noteq> Some (minted pg Stock_movement)"
    and lists: "\<forall>ks. set (groups ks) = set ks"
    and all: "held_kinds groups (line_roots (ca_tenant who) (kr_line req) s)
        (holder_named (kr_from_package req) (kr_from_location req)) (kr_lot req) = Inr [(k, kr_quantity req)]"
  shows "claimed (ca_tenant who) (kr_event req) s' \<and>
    repack groups' pg' who req s' = Inl (Rejected ''there is none of that line there'')"
proof (rule repack_run [OF run])
  let ?t = "ca_tenant who"
  let ?roots = "line_roots ?t (kr_line req)"
  let ?m = "repack_movement pg who req k"
  fix kinds hf ht l fr to
  assume kinds: "held_kinds groups (?roots s) (Some hf) (kr_lot req) = Inr kinds"
    and h: "holder_named (kr_from_package req) (kr_from_location req) = Some hf"
      "holder_named (kr_to_package req) (kr_to_location req) = Some ht" "hf \<noteq> ht"
    and load: "load_repack_line ?t (kr_line req) s = Some l" "load_side ?t s hf = Some fr" "load_side ?t s ht = Some to"
    and ok: "0 < kr_quantity req" "\<not> kl_cancelled l" "filter repack_is_hard (between_problems l fr to) = []"
    and act: "one_movement_act pg who (kr_event req) (kr_occurred_at req) ''repack'' (kr_quantity req)
       (case kinds of [] \<Rightarrow> Inl Panicked | (k, q) # _ \<Rightarrow> Inr (repack_movement pg who req k))
       (map show_repack_problem (repack_check (kr_quantity req) (Some l) (True, Some fr) (True, Some to) (held_of kinds)))
       s = Inr ((ks_movement v, ks_warnings v), s')"
  have one: "kinds = [(k, kr_quantity req)]" using kinds all h by simp
  have mvs: "movements s' = movements s @ [?m]"
    using one_movement_fresh [OF act fresh] by (auto simp: one)
  have rev: "reversals (visible mv_tenant ?t (movements s)) ?m = []"
    using new_id by (auto simp: reversals_def visible_def filter_eq_Nil_iff)
  have roots: "?roots s' = ?roots s @ [(?m, kr_quantity req)]"
    using line_roots_snoc [OF mvs repack_movement_simps(2,7) ledger rev] by simp
  note sides = repack_movement_sides [OF h(1,2), of pg who k]
  have "held_rows (?roots s') hf = held_rows (?roots s) hf @ [(k, - kr_quantity req)]"
    using h(3) by (simp add: roots held_rows_def sides)
  then have none: "held_kinds groups' (?roots s') (Some hf) (kr_lot req) = Inr []"
    using held_kinds_emptied [of groups "?roots s" hf "kr_lot req" k "kr_quantity req"] kinds lists
    by (simp add: one)
  have load': "load_repack_line ?t (kr_line req) s' = Some l" "load_side ?t s' hf = Some fr" "load_side ?t s' ht = Some to"
    using load by (simp_all only: load_frame [OF one_movement_frame(1,3-7) [OF act]])
  have "filter repack_is_hard (repack_check (kr_quantity req) (Some l) (True, Some fr) (True, Some to) (held_of []))
      = [HoldsNone]"
    unfolding repack_check_complete using ok by (simp add: held_problems_def held_of_def)
  then have "repack groups' pg' who req s' = Inl (Rejected ''there is none of that line there'')"
    using h load' none
    by (simp add: repack_def Let_def hard_or_warnings_def show_repack_problem.simps)
  then show ?thesis using repack_writer.claims [OF run] by simp
qed

theorem repack_retry_of_everything_refused_witness:
  "\<exists>v s'. repack id sample_pg sample_caller sample_repack sample_repack_db = Inr (v, s')
    \<and> repack id sample_pg sample_caller sample_repack s' = Inl (Rejected ''there is none of that line there'')"
proof -
  obtain v s' where run: "repack id sample_pg sample_caller sample_repack sample_repack_db = Inr (v, s')"
    using sample_repack_runs by blast
  have "held_kinds id (line_roots (ca_tenant sample_caller) (kr_line sample_repack) sample_repack_db)
      (holder_named (kr_from_package sample_repack) (kr_from_location sample_repack)) (kr_lot sample_repack)
      = Inr [((100, Some 3, Some 4, Some 5), kr_quantity sample_repack)]"
    by code_simp
  from repack_retry_of_everything_refused [OF run sample_repack_ledger _ this] run show ?thesis by auto
qed

end
