(* ===== verification/Handover.thy ===== *)
theory Handover
  imports Acts
begin

text \<open>
  Goods picked elsewhere, handed over: \<^verbatim>\<open>handover.rs\<close>.  Another system reports a pick
  (\<open>external_pick\<close>, never a movement); when the packer takes the goods they enter the ledger as an
  arrival that names the line and the report.  What is proved: a handover brings in exactly its
  quantity, counts towards what was handed over and never as a pick.
\<close>

section \<open>The decision\<close>

record handover_request =
  ho_line :: uuid
  ho_quantity :: i64
  ho_to_package :: "uuid option"
  ho_to_location :: "uuid option"
  ho_event :: uuid
  ho_occurred_at :: time

record handover_response =
  hr_movement :: uuid
  hr_warnings :: "string list"
  hr_reported :: i64
  hr_handed :: i64

record handover_line =
  hl_item :: uuid
  hl_site :: "uuid option"
  hl_cancelled :: bool

datatype put_down =
    Into_package bool \<comment> \<open>sealed now\<close>
  | At_location "uuid option" \<comment> \<open>its site\<close>

record handover_facts =
  hf_line :: "handover_line option"
  hf_report :: "uuid option"
  hf_reported :: i64
  hf_handed :: i64
  hf_destination :: "put_down option"
  hf_owner :: "uuid option"

datatype handover_problem =
    NotPositive | NoLine | Cancelled | NotOneDestination | NoDestination | ElsewhereOnSite
  | NothingReported | NoOwner | PastTheReport i64 i64 | IntoSealed

fun handover_is_hard :: "handover_problem \<Rightarrow> bool" where
  "handover_is_hard (PastTheReport r h) = False"
| "handover_is_hard IntoSealed = False"
| "handover_is_hard p = True"

fun show_handover_problem :: "handover_problem \<Rightarrow> string" where
  "show_handover_problem NotPositive = ''quantity must be more than nought''"
| "show_handover_problem NoLine = ''fulfilment line not found''"
| "show_handover_problem Cancelled = ''the fulfilment is cancelled''"
| "show_handover_problem NotOneDestination = ''name exactly one of to_package_id and to_location_id''"
| "show_handover_problem NoDestination = ''destination not found''"
| "show_handover_problem ElsewhereOnSite = ''the location is not at the fulfilment's site''"
| "show_handover_problem NothingReported =
     ''nothing is reported picked on this line, so there is nothing to hand over''"
| "show_handover_problem NoOwner =
     ''this site does not say who owns the goods it holds; set its owner first''"
| "show_handover_problem (PastTheReport reported handed) =
     show_int handed @ '' handed over against '' @ show_int reported @
     '' reported picked; the count at the bench is recorded, and the difference is a finding''"
| "show_handover_problem IntoSealed = ''put into a sealed carton: open it first''"

declare show_handover_problem.simps [simp del]

definition destination_problems ::
  "bool \<Rightarrow> put_down option \<Rightarrow> handover_line \<Rightarrow> handover_problem list" where
  "destination_problems one_destination destination line =
     (case destination of
        None \<Rightarrow> if one_destination then [NoDestination] else []
      | Some (At_location site) \<Rightarrow> if site \<noteq> hl_site line then [ElsewhereOnSite] else []
      | Some (Into_package sealed) \<Rightarrow> if sealed then [IntoSealed] else [])"

definition handover_check :: "i64 \<Rightarrow> bool \<Rightarrow> handover_facts \<Rightarrow> handover_problem list" where
  "handover_check quantity one_destination facts =
     (if quantity \<le> 0 then [NotPositive] else [])
     @ (if \<not> one_destination then [NotOneDestination] else [])
     @ (case hf_line facts of
          None \<Rightarrow> [NoLine]
        | Some line \<Rightarrow>
            (if hl_cancelled line then [Cancelled] else [])
            @ destination_problems one_destination (hf_destination facts) line)
     @ (if hf_report facts = None then [NothingReported] else [])
     @ (if hf_owner facts = None \<and> hf_line facts \<noteq> None then [NoOwner] else [])
     @ (if hf_report facts \<noteq> None \<and> quantity > 0
            \<and> i64_add (hf_handed facts) quantity > hf_reported facts
        then [PastTheReport (hf_reported facts) (i64_add (hf_handed facts) quantity)] else [])"

lemma handover_check_no_hard:
  "filter handover_is_hard (handover_check q one facts) = [] \<longleftrightarrow>
   0 < q \<and> one \<and> hf_report facts \<noteq> None \<and> hf_owner facts \<noteq> None
   \<and> (\<exists>l. hf_line facts = Some l \<and> \<not> hl_cancelled l
        \<and> (\<exists>d. hf_destination facts = Some d \<and> (\<forall>site. d = At_location site \<longrightarrow> site = hl_site l)))"
  by (cases "hf_line facts"; cases "hf_destination facts")
    (auto simp: handover_check_def destination_problems_def split: put_down.splits if_splits)

section \<open>What is reported, and what was handed over\<close>

text \<open>\<open>ORDER BY observed_at DESC, recorded_at DESC, id DESC\<close>.\<close>

definition newest_report :: "external_pick_row \<Rightarrow> external_pick_row \<Rightarrow> ordering" where
  "newest_report a b =
     then_cmp (cmp (xp_observed_at b) (xp_observed_at a))
       (then_cmp (cmp (xp_recorded_at b) (xp_recorded_at a)) (cmp (xp_id b) (xp_id a)))"

interpretation newest_reports: comparator newest_report
  by unfold_locales (auto simp: newest_report_def then_cmp_def cmp_def split: if_splits)

definition reports_on :: "uuid \<Rightarrow> uuid \<Rightarrow> db \<Rightarrow> external_pick_row list" where
  "reports_on t line s = filter (\<lambda>r. xp_line r = line) (visible xp_tenant t (external_picks s))"

definition newest_of :: "external_pick_row list \<Rightarrow> external_pick_row option" where
  "newest_of rs = (case sort_by newest_report rs of [] \<Rightarrow> None | r # _ \<Rightarrow> Some r)"

text \<open>The line's level: \<open>DISTINCT ON (external_line)\<close> keeps each external line's newest report.\<close>

definition reported_level :: "external_pick_row list \<Rightarrow> int" where
  "reported_level rs =
     sum_list (map (\<lambda>e. case newest_of (filter (\<lambda>r. xp_external_line r = e) rs) of
         None \<Rightarrow> 0 | Some r \<Rightarrow> xp_quantity r)
       (remdups (map xp_external_line rs)))"

text \<open>Net of corrections: the effective quantity of each row that names a report.\<close>

definition handed_over :: "uuid \<Rightarrow> uuid \<Rightarrow> db \<Rightarrow> int" where
  "handed_over t line s =
     sum_list (map snd (filter (\<lambda>(m, q). mv_external_pick m \<noteq> None) (line_roots t line s)))"

section \<open>The handler\<close>

definition load_handover_line :: "uuid \<Rightarrow> uuid \<Rightarrow> db \<Rightarrow> (handover_line \<times> uuid option) option" where
  "load_handover_line t i s =
     Option.bind (line_by_id t i s) (\<lambda>l.
     Option.bind (by_id fu_tenant fu_id t (fl_fulfilment l) (fulfilments s)) (\<lambda>f.
     map_option (\<lambda>ol. (\<lparr>hl_item = ol_item ol, hl_site = fu_site f, hl_cancelled = (fu_state f = ''cancelled'')\<rparr>,
         Option.bind (fu_site f) (\<lambda>i. Option.bind (by_id si_tenant si_id t i (sites s)) si_owner)))
       (by_id ol_tenant ol_id t (fl_order_line l) (order_lines s))))"

definition load_put_down :: "uuid \<Rightarrow> handover_request \<Rightarrow> db \<Rightarrow> put_down option" where
  "load_put_down t req s =
     (case ho_to_package req of
        Some p \<Rightarrow> map_option (\<lambda>_. Into_package (package_status_now t p s = Some ''sealed'')) (package_by_id t p s)
      | None \<Rightarrow>
          (case ho_to_location req of
             Some l \<Rightarrow> map_option (\<lambda>r. At_location (lo_site r)) (location_by_id t l s)
           | None \<Rightarrow> None))"

definition handover_movement ::
  "pg \<Rightarrow> caller \<Rightarrow> handover_request \<Rightarrow> uuid \<Rightarrow> uuid \<Rightarrow> handover_facts \<Rightarrow> stock_movement" where
  "handover_movement pg who req item status facts =
     \<lparr>mv_id = minted pg Stock_movement, mv_tenant = ca_tenant who, mv_event = ho_event req,
      mv_item = item, mv_quantity = ho_quantity req, mv_from = no_side,
      mv_to = \<lparr>sd_location = ho_to_location req, sd_package = ho_to_package req, sd_lot = None,
               sd_status = Some status, sd_owner = hf_owner facts\<rparr>,
      mv_reason = ''handover'', mv_occurred_at = ho_occurred_at req,
      mv_recorded_by = ca_person who, mv_reverses = None, mv_adjustment_reason = None,
      mv_line = Some (ho_line req), mv_receipt_line = None, mv_external_pick = hf_report facts\<rparr>"

text \<open>\<open>INSERT ... SELECT ... FROM inventory_status\<close>: one row, of the shared status \<open>available\<close>.\<close>

definition handover_row ::
  "pg \<Rightarrow> caller \<Rightarrow> handover_request \<Rightarrow> uuid \<Rightarrow> handover_facts \<Rightarrow> db \<Rightarrow> api_error + stock_movement" where
  "handover_row pg who req item facts s =
     (case filter (\<lambda>r. iv_code r = ''available'' \<and> iv_tenant r = None) (statuses s) of
        [r] \<Rightarrow> Inr (handover_movement pg who req item (iv_id r) facts)
      | _ \<Rightarrow> Inl Database)"

definition handover_facts_now ::
  "uuid \<Rightarrow> handover_request \<Rightarrow> db \<Rightarrow> api_error + handover_facts" where
  "handover_facts_now t req s =
     (let line = load_handover_line t (ho_line req) s;
          rs = reports_on t (ho_line req) s in
      and_then (bigint (reported_level rs)) (\<lambda>reported.
      and_then (bigint (handed_over t (ho_line req) s)) (\<lambda>handed.
        Inr \<lparr>hf_line = map_option fst line, hf_report = map_option xp_id (newest_of rs),
             hf_reported = reported, hf_handed = handed, hf_destination = load_put_down t req s,
             hf_owner = Option.bind line snd\<rparr>)))"

definition record_handover ::
  "pg \<Rightarrow> caller \<Rightarrow> handover_request \<Rightarrow> db \<Rightarrow> api_error + (handover_response \<times> db)" where
  "record_handover pg who req s =
     (let t = ca_tenant who;
          one_destination = ((ho_to_package req \<noteq> None) \<noteq> (ho_to_location req \<noteq> None)) in
      and_then (handover_facts_now t req s) (\<lambda>facts.
      and_then (hard_or_warnings handover_is_hard (join ''; '') show_handover_problem
                  (handover_check (ho_quantity req) one_destination facts)) (\<lambda>warnings.
      and_then (ok_or (hf_line facts) Panicked) (\<lambda>line.
      and_then (one_movement_act pg who (ho_event req) (ho_occurred_at req) ''handover'' (ho_quantity req)
                  (handover_row pg who req (hl_item line) facts s) warnings s)
        (\<lambda>((movement_id, ws), s2).
      and_then (bigint (handed_over t (ho_line req) s2)) (\<lambda>handed_now.
        Inr (\<lparr>hr_movement = movement_id, hr_warnings = ws, hr_reported = hf_reported facts,
              hr_handed = handed_now\<rparr>, s2)))))))"

section \<open>What a run did\<close>

lemma handover_run:
  assumes "record_handover pg who req s = Inr (v, s')"
  obtains facts line where
    "handover_facts_now (ca_tenant who) req s = Inr facts" "hf_line facts = Some line"
    "hf_report facts \<noteq> None" "hf_owner facts \<noteq> None" "0 < ho_quantity req" "\<not> hl_cancelled line"
    "(ho_to_package req \<noteq> None) \<noteq> (ho_to_location req \<noteq> None)"
    "hr_reported v = hf_reported facts" "hr_handed v = handed_over (ca_tenant who) (ho_line req) s'"
    "one_movement_act pg who (ho_event req) (ho_occurred_at req) ''handover'' (ho_quantity req)
       (handover_row pg who req (hl_item line) facts s)
       (map show_handover_problem (handover_check (ho_quantity req)
          ((ho_to_package req \<noteq> None) \<noteq> (ho_to_location req \<noteq> None)) facts)) s
     = Inr ((hr_movement v, hr_warnings v), s')"
  using assms
  by (auto simp: record_handover_def Let_def result_simps handover_check_no_hard)

lemma handover_movement_simps [simp]:
  "mv_id (handover_movement pg who req item st facts) = minted pg Stock_movement"
  "mv_tenant (handover_movement pg who req item st facts) = ca_tenant who"
  "mv_event (handover_movement pg who req item st facts) = ho_event req"
  "mv_item (handover_movement pg who req item st facts) = item"
  "mv_quantity (handover_movement pg who req item st facts) = ho_quantity req"
  "mv_line (handover_movement pg who req item st facts) = Some (ho_line req)"
  "mv_reverses (handover_movement pg who req item st facts) = None"
  "mv_from (handover_movement pg who req item st facts) = no_side"
  "mv_external_pick (handover_movement pg who req item st facts) = hf_report facts"
  by (simp_all add: handover_movement_def)

lemma handover_row_Inr:
  "handover_row pg who req item facts s = Inr m \<longleftrightarrow>
   (\<exists>r. filter (\<lambda>r. iv_code r = ''available'' \<and> iv_tenant r = None) (statuses s) = [r]
      \<and> m = handover_movement pg who req item (iv_id r) facts)"
  by (auto simp: handover_row_def split: list.splits)

interpretation handover_writer: strict_writer record_handover ho_event
proof
  fix pg who req s v s'
  assume run: "record_handover pg who req s = Inr (v, s')"
  show "act_effect (ca_tenant who) (ho_event req) s s'"
    by (rule handover_run [OF run], erule one_movement_effect(1)) (auto simp: handover_row_Inr)
  show "claimed (ca_tenant who) (ho_event req) s'"
    by (rule handover_run [OF run], erule one_movement_effect(2)) (auto simp: handover_row_Inr)
  show "s' = s" if "claimed (ca_tenant who) (ho_event req) s"
    by (rule handover_run [OF run], erule one_movement_replay(1)) (rule that)
qed

lemma handover_frame:
  assumes "record_handover pg who req s = Inr (v, s')"
  shows "package_events s' = package_events s" and "discrepancies s' = discrepancies s"
    and "packages s' = packages s" and "locations s' = locations s" and "allocations s' = allocations s"
  by (rule handover_run [OF assms], drule one_movement_frame, assumption)+

section \<open>Properties\<close>

text \<open>
  C35: A fresh handover is an arrival: its quantity of the line's item enters one cell, at the
  carton or place named, available and owned by the site's owner, and the tenant holds that much
  more of it; what was handed over on the line grows by the quantity and is what the answer says,
  against a named report; and none of it reads as picked or as despatched.
\<close>

theorem record_handover_arrives:
  assumes run: "record_handover pg who req s = Inr (v, s')"
    and fresh: "\<not> claimed (ca_tenant who) (ho_event req) s"
    and ledger: "reverses_backward (visible mv_tenant (ca_tenant who) (movements s))"
    and new_id: "\<forall>r \<in> set (movements s). mv_reverses r \<noteq> Some (minted pg Stock_movement)"
  shows "\<exists>line owner status.
    load_handover_line (ca_tenant who) (ho_line req) s = Some (line, Some owner)
    \<and> newest_of (reports_on (ca_tenant who) (ho_line req) s) \<noteq> None
    \<and> (\<forall>item sd. on_hand (ca_tenant who) item sd s' = on_hand (ca_tenant who) item sd s
         + (if item = hl_item line \<and> sd = \<lparr>sd_location = ho_to_location req, sd_package = ho_to_package req,
              sd_lot = None, sd_status = Some status, sd_owner = Some owner\<rparr> then ho_quantity req else 0)
         - (if item = hl_item line \<and> sd = no_side then ho_quantity req else 0))
    \<and> (\<forall>item. total_held (ca_tenant who) item s' = total_held (ca_tenant who) item s
         + (if item = hl_item line then ho_quantity req else 0))
    \<and> hr_handed v = handed_over (ca_tenant who) (ho_line req) s + ho_quantity req
    \<and> hr_reported v = reported_level (reports_on (ca_tenant who) (ho_line req) s)
    \<and> (\<forall>c. let before = line_progress_ledger (ca_tenant who) (ho_line req) c s;
               after = line_progress_ledger (ca_tenant who) (ho_line req) c s' in
         pg_picked after = pg_picked before \<and> pg_despatched after = pg_despatched before
         \<and> pg_covered after = pg_covered before)"
proof (rule handover_run [OF run])
  let ?t = "ca_tenant who"
  fix facts line
  assume facts: "handover_facts_now ?t req s = Inr facts" "hf_line facts = Some line"
      "hf_report facts \<noteq> None" "hf_owner facts \<noteq> None"
      "(ho_to_package req \<noteq> None) \<noteq> (ho_to_location req \<noteq> None)"
    and resp: "hr_reported v = hf_reported facts" "hr_handed v = handed_over ?t (ho_line req) s'"
    and act: "one_movement_act pg who (ho_event req) (ho_occurred_at req) ''handover'' (ho_quantity req)
       (handover_row pg who req (hl_item line) facts s)
       (map show_handover_problem (handover_check (ho_quantity req)
          ((ho_to_package req \<noteq> None) \<noteq> (ho_to_location req \<noteq> None)) facts)) s
     = Inr ((hr_movement v, hr_warnings v), s')"
  obtain status where mvs: "movements s' = movements s @ [handover_movement pg who req (hl_item line) status facts]"
    using one_movement_fresh [OF act fresh] unfolding handover_row_Inr by auto
  let ?m = "handover_movement pg who req (hl_item line) status facts"
  obtain owner where owner: "hf_owner facts = Some owner" using facts(4) by auto
  have line: "load_handover_line ?t (ho_line req) s = Some (line, Some owner)"
      "newest_of (reports_on ?t (ho_line req) s) \<noteq> None"
      "hf_reported facts = reported_level (reports_on ?t (ho_line req) s)"
    using facts owner by (auto simp: handover_facts_now_def Let_def result_simps bind_eq_Some_conv)
  have to: "mv_to ?m = \<lparr>sd_location = ho_to_location req, sd_package = ho_to_package req,
      sd_lot = None, sd_status = Some status, sd_owner = Some owner\<rparr>"
    by (simp add: handover_movement_def owner)
  have hand: "on_hand ?t item sd s' = on_hand ?t item sd s
      + (if item = hl_item line \<and> sd = \<lparr>sd_location = ho_to_location req, sd_package = ho_to_package req,
              sd_lot = None, sd_status = Some status, sd_owner = Some owner\<rparr> then ho_quantity req else 0)
      - (if item = hl_item line \<and> sd = no_side then ho_quantity req else 0)" for item sd
    unfolding on_hand_snoc [OF mvs handover_movement_simps(2)] net_def entered_def left_from_def to
    by auto
  have "mv_to ?m \<noteq> no_side" by (simp add: to no_side_def)
  then have held: "total_held ?t item s' = total_held ?t item s
      + (if item = hl_item line then ho_quantity req else 0)" for item
    unfolding total_held_snoc [OF mvs handover_movement_simps(2)] crosses_def by simp
  have rev: "reversals (visible mv_tenant ?t (movements s)) ?m = []"
    using new_id by (auto simp: reversals_def visible_def filter_eq_Nil_iff)
  have roots: "line_roots ?t (ho_line req) s' = line_roots ?t (ho_line req) s @ [(?m, ho_quantity req)]"
    using line_roots_snoc [OF mvs handover_movement_simps(2,7) ledger rev] by simp
  have handed: "handed_over ?t (ho_line req) s' = handed_over ?t (ho_line req) s + ho_quantity req"
    using facts(3) by (simp add: handed_over_def roots)
  have figs: "pg_picked (line_progress_ledger ?t (ho_line req) c s') = pg_picked (line_progress_ledger ?t (ho_line req) c s)"
      "pg_despatched (line_progress_ledger ?t (ho_line req) c s') = pg_despatched (line_progress_ledger ?t (ho_line req) c s)"
      "pg_covered (line_progress_ledger ?t (ho_line req) c s') = pg_covered (line_progress_ledger ?t (ho_line req) c s)" for c
    using progress_snoc [OF mvs handover_movement_simps(2,7) ledger rev handover_movement_simps(6)
        one_movement_frame(4,10) [OF act], of c] facts(5)
    by (auto simp: to from_storage_def location_kind_def no_side_def)
  show ?thesis
    by (intro exI [of _ line] exI [of _ owner] exI [of _ status])
      (simp add: line hand held handed resp figs Let_def)
qed

text \<open>Six are reported picked elsewhere on line 42 and four are put into carton 30.\<close>

definition sample_handover_db :: db where
  "sample_handover_db = sample_db\<lparr>
     packages := [\<lparr>pk_id = 30, pk_tenant = 10, pk_status = None, pk_location = Some 9, pk_parent = None,
         pk_fulfilment = Some 41, pk_sealed_at = None, pk_breaks_down = False, pk_barcode = None, pk_type = None, pk_sequence = None,
       pk_config = None, pk_own_item = None, pk_own_level = None, pk_carrier = None, pk_rules = None\<rparr>],
     sites := [\<lparr>si_id = 70, si_tenant = 10, si_pack_location = Some 9, si_owner = Some 5\<rparr>],
     statuses := [\<lparr>iv_id = 4, iv_tenant = None, iv_code = ''available''\<rparr>],
     external_picks := [\<lparr>xp_id = 80, xp_tenant = 10, xp_line = 42, xp_external_line = ''1'',
         xp_quantity = 5, xp_observed_at = 1, xp_recorded_at = 2\<rparr>,
       \<lparr>xp_id = 81, xp_tenant = 10, xp_line = 42, xp_external_line = ''1'',
         xp_quantity = 6, xp_observed_at = 3, xp_recorded_at = 4\<rparr>],
     fulfilments := [\<lparr>fu_id = 41, fu_tenant = 10, fu_state = ''open'', fu_site = Some 70\<rparr>],
     order_lines := [\<lparr>ol_id = 43, ol_tenant = 10, ol_item = 100\<rparr>],
     fulfilment_lines := [\<lparr>fl_id = 42, fl_tenant = 10, fl_fulfilment = 41, fl_order_line = 43, fl_quantity = 6,
       fl_covered = 6, fl_picked = 0, fl_packed = 0, fl_despatched = 0, fl_uncovered = 0\<rparr>]\<rparr>"

definition sample_handover :: handover_request where
  "sample_handover = \<lparr>ho_line = 42, ho_quantity = 4, ho_to_package = Some 30, ho_to_location = None,
     ho_event = 505, ho_occurred_at = 9\<rparr>"

theorem record_handover_arrives_witness:
  "\<exists>v s'. record_handover sample_pg sample_caller sample_handover sample_handover_db = Inr (v, s')
     \<and> hr_reported v = 6 \<and> hr_handed v = 4"
proof -
  have "\<not> isl (record_handover sample_pg sample_caller sample_handover sample_handover_db)" by code_simp
  then obtain v s' where
      run: "record_handover sample_pg sample_caller sample_handover sample_handover_db = Inr (v, s')"
    by (cases "record_handover sample_pg sample_caller sample_handover sample_handover_db") auto
  have fresh: "\<not> claimed (ca_tenant sample_caller) (ho_event sample_handover) sample_handover_db"
    by code_simp
  have ledger: "reverses_backward (visible mv_tenant (ca_tenant sample_caller) (movements sample_handover_db))"
      "\<forall>r \<in> set (movements sample_handover_db). mv_reverses r \<noteq> Some (minted sample_pg Stock_movement)"
    by (simp_all add: reverses_backward_def visible_def sample_handover_db_def sample_defs)
  have "handed_over (ca_tenant sample_caller) (ho_line sample_handover) sample_handover_db = 0"
      "reported_level (reports_on (ca_tenant sample_caller) (ho_line sample_handover) sample_handover_db) = 6"
      "ho_quantity sample_handover = 4"
    by code_simp+
  then have "hr_reported v = 6 \<and> hr_handed v = 4"
    using record_handover_arrives [OF run fresh ledger] by auto
  with run show ?thesis by blast
qed

end
