(* ===== verification/Plans.thy ===== *)
theory Plans
  imports Database
begin

text \<open>
  The board's plan: \<^verbatim>\<open>pack_plan.rs\<close>.  A plan is the parcels a packer means to make, the pallet
  each goes on and the units in each; the board sends it whole and \<open>save_plan\<close> replaces the last
  one.  What is proved: \<open>check_plan\<close> takes exactly the plans that hold together, its bounded climb
  finding every loop and refusing no plan without one; and what is saved is what \<open>plan_of\<close> reads.
\<close>

section \<open>A plan\<close>

record spot =
  sp_x :: int
  sp_y :: int
  sp_z :: int
  sp_turned :: bool

record planned_as_is =
  pa_item :: uuid
  pa_level :: string
  pa_config :: "uuid option"

record planned_line =
  pq_line :: uuid
  pq_quantity :: i64

record planned_parcel =
  pc_id :: uuid
  pc_package_type :: "uuid option"
  pc_as_is :: "planned_as_is option"
  pc_on_parcel :: "uuid option"
  pc_on_package :: "uuid option"
  pc_at :: "spot option"
  pc_placed_by_hand :: bool
  pc_carrier :: "uuid option"
  pc_lines :: "planned_line list"

section \<open>Whether it holds together\<close>

text \<open>The first refusal of a \<open>for\<close> loop whose body may return one.\<close>

fun each_ok :: "('a \<Rightarrow> 'e + unit) \<Rightarrow> 'a list \<Rightarrow> 'e + unit" where
  "each_ok f [] = Inr ()"
| "each_ok f (x # xs) = and_then (f x) (\<lambda>_. each_ok f xs)"

lemma each_ok_Inr [result_simps]: "each_ok f xs = Inr u \<longleftrightarrow> (\<forall>x \<in> set xs. f x = Inr ())"
  by (induction xs) (auto simp: result_simps)

text \<open>\<open>HashMap::from_iter\<close>: a later pair replaces an earlier one of its key.\<close>

definition pallet_of :: "planned_parcel list \<Rightarrow> uuid \<Rightarrow> uuid option" where
  "pallet_of parcels = map_of (rev (List.map_filter
     (\<lambda>p. map_option (\<lambda>x. (pc_id p, x)) (pc_on_parcel p)) parcels))"

text \<open>The climb up the planned pallets; true where the loop returns its refusal.\<close>

function climbs_back ::
  "(uuid \<Rightarrow> uuid option) \<Rightarrow> uuid \<Rightarrow> nat \<Rightarrow> uuid option \<Rightarrow> nat \<Rightarrow> bool" where
  "climbs_back on start n None steps = False"
| "climbs_back on start n (Some y) steps =
     (if y = start \<or> Suc steps > n then True else climbs_back on start n (on y) (Suc steps))"
  by pat_completeness auto
termination
  by (relation "measure (\<lambda>(on, start, n, a, steps). Suc n - steps)") auto

fun check_lines :: "uuid list \<Rightarrow> planned_line list \<Rightarrow> string + unit" where
  "check_lines seen [] = Inr ()"
| "check_lines seen (l # ls) =
     (if pq_quantity l \<le> 0 then Inl ''a planned count is more than nought''
      else if pq_line l \<in> set seen
      then Inl ''a line is planned into a parcel once; add the counts''
      else check_lines (pq_line l # seen) ls)"

definition check_kind :: "planned_parcel \<Rightarrow> string + unit" where
  "check_kind p =
     (case (pc_package_type p, pc_as_is p) of
        (Some _, None) \<Rightarrow> Inr ()
      | (None, Some a) \<Rightarrow>
          if pa_level a \<noteq> ''each'' \<and> pa_level a \<noteq> ''inner'' \<and> pa_level a \<noteq> ''carton''
          then Inl (''a thing as it is is an each, an inner or a carton, not '' @ pa_level a)
          else if pa_config a \<noteq> None \<and> pa_level a = ''each''
          then Inl ''an each has no case to name'' else Inr ()
      | _ \<Rightarrow> Inl ''a planned parcel is a box or a thing as it is'')"

definition check_parcel :: "planned_parcel list \<Rightarrow> planned_parcel \<Rightarrow> string + unit" where
  "check_parcel parcels p =
     and_then (check_kind p) (\<lambda>_.
     and_then (guard (\<not> (pc_on_parcel p \<noteq> None \<and> pc_on_package p \<noteq> None))
       ''a parcel goes on one pallet'') (\<lambda>_.
     and_then (guard (\<not> (case pc_on_parcel p of None \<Rightarrow> False | Some x \<Rightarrow> x \<notin> pc_id ` set parcels))
       ''a parcel goes on a pallet the plan does not have'') (\<lambda>_.
     and_then (guard (\<not> (pc_at p \<noteq> None \<and> pc_on_parcel p = None \<and> pc_on_package p = None))
       ''a spot is on a pallet; this parcel is on none'') (\<lambda>_.
     and_then (guard (\<not> climbs_back (pallet_of parcels) (pc_id p) (length parcels) (pc_on_parcel p) 0)
       ''a parcel cannot go on itself'') (\<lambda>_.
     check_lines [] (pc_lines p))))))"

definition check_plan :: "planned_parcel list \<Rightarrow> string + unit" where
  "check_plan parcels =
     and_then (guard (distinct (map pc_id parcels)) ''a parcel is planned twice'') (\<lambda>_.
     each_ok (check_parcel parcels) parcels)"

section \<open>What it means to hold together\<close>

definition stands_on :: "planned_parcel list \<Rightarrow> (uuid \<times> uuid) set" where
  "stands_on parcels = {(pc_id p, x) | p x. p \<in> set parcels \<and> pc_on_parcel p = Some x}"

definition kind_holds :: "planned_parcel \<Rightarrow> bool" where
  "kind_holds p \<longleftrightarrow>
     (pc_package_type p \<noteq> None \<and> pc_as_is p = None)
     \<or> (pc_package_type p = None \<and>
         (\<exists>a. pc_as_is p = Some a \<and> pa_level a \<in> {''each'', ''inner'', ''carton''}
            \<and> (pa_level a = ''each'' \<longrightarrow> pa_config a = None)))"

definition parcel_holds :: "planned_parcel list \<Rightarrow> planned_parcel \<Rightarrow> bool" where
  "parcel_holds parcels p \<longleftrightarrow>
     kind_holds p
     \<and> (pc_on_parcel p = None \<or> pc_on_package p = None)
     \<and> (\<forall>x. pc_on_parcel p = Some x \<longrightarrow> x \<in> pc_id ` set parcels)
     \<and> (pc_at p \<noteq> None \<longrightarrow> pc_on_parcel p \<noteq> None \<or> pc_on_package p \<noteq> None)
     \<and> (\<forall>l \<in> set (pc_lines p). 0 < pq_quantity l)
     \<and> distinct (map pq_line (pc_lines p))"

definition plan_holds :: "planned_parcel list \<Rightarrow> bool" where
  "plan_holds parcels \<longleftrightarrow> distinct (map pc_id parcels)
     \<and> (\<forall>p \<in> set parcels. parcel_holds parcels p) \<and> acyclic (stands_on parcels)"

lemma check_lines_Inr:
  "check_lines seen ls = Inr u \<longleftrightarrow>
     (\<forall>l \<in> set ls. 0 < pq_quantity l) \<and> distinct (map pq_line ls) \<and> set seen \<inter> pq_line ` set ls = {}"
  by (induction ls arbitrary: seen) auto

lemma check_kind_Inr: "check_kind p = Inr u \<longleftrightarrow> kind_holds p"
  by (auto simp: check_kind_def kind_holds_def split: option.splits)

lemma pallet_of_Some:
  assumes "distinct (map pc_id parcels)"
  shows "pallet_of parcels u = Some x \<longleftrightarrow> (u, x) \<in> stands_on parcels"
proof -
  let ?pairs = "List.map_filter (\<lambda>p. map_option (\<lambda>x. (pc_id p, x)) (pc_on_parcel p)) parcels"
  have fsts: "set (map fst (List.map_filter (\<lambda>p. map_option (\<lambda>x. (pc_id p, x)) (pc_on_parcel p)) ps))
      \<subseteq> pc_id ` set ps" for ps
    by (induction ps) (auto simp: List.map_filter_def)
  have "distinct (map fst ?pairs)"
    using assms
  proof (induction parcels)
    case (Cons p ps)
    then show ?case
      using fsts [of ps] by (cases "pc_on_parcel p") (auto simp: List.map_filter_def)
  qed (simp add: List.map_filter_def)
  then have "pallet_of parcels u = Some x \<longleftrightarrow> (u, x) \<in> set ?pairs"
    unfolding pallet_of_def by (subst map_of_eq_Some_iff) (simp_all add: rev_map [symmetric])
  also have "\<dots> \<longleftrightarrow> (u, x) \<in> stands_on parcels"
    by (auto simp: List.map_filter_def stands_on_def image_iff)
  finally show ?thesis .
qed

text \<open>A loop through a parcel is found by that parcel's own climb.\<close>

lemma climb_finds_loop:
  assumes "\<And>u x. on u = Some x \<longleftrightarrow> (u, x) \<in> r"
    and "a = Some y" "(y, start) \<in> r\<^sup>*"
  shows "climbs_back on start n a steps"
  using assms
proof (induction on start n a steps arbitrary: y rule: climbs_back.induct)
  case (1 on start n steps)
  then show ?case by simp
next
  case (2 on start n x steps)
  show ?case
  proof (cases "y = start")
    case False
    then obtain z where "(y, z) \<in> r" "(z, start) \<in> r\<^sup>*"
      using "2.prems"(3) by (meson converse_rtranclE)
    moreover have "x = y" using "2.prems"(2) by simp
    moreover have "climbs_back on start n (on x) (Suc steps)" if "\<not> n < Suc steps"
      by (rule "2.IH" [of z, OF _ "2.prems"(1)]) (use that calculation False "2.prems"(1) [of y z] in auto)
    ultimately show ?thesis by auto
  qed (use "2.prems" in simp)
qed

text \<open>Without a loop the climb ends before it has taken more steps than there are parcels.\<close>

lemma climb_ends:
  assumes on: "\<And>u x. on u = Some x \<longleftrightarrow> (u, x) \<in> r" and "acyclic r"
    and ids: "finite ids" "\<And>u x. (u, x) \<in> r \<Longrightarrow> x \<in> ids" "card ids \<le> n"
    and "distinct vs" "set vs \<subseteq> ids" "length vs = steps"
    and "\<forall>v \<in> set (start # vs). \<forall>x. a = Some x \<longrightarrow> (v, x) \<in> r\<^sup>+"
  shows "\<not> climbs_back on start n a steps"
  using assms(6-)
proof (induction "Suc n - steps" arbitrary: vs a steps)
  case 0
  then have "card (set vs) \<le> n" using ids by (meson card_mono le_trans)
  then show ?case using 0 by (simp add: distinct_card)
next
  case (Suc k)
  show ?case
  proof (cases a)
    case (Some x)
    have reach: "\<forall>v \<in> set (start # vs). (v, x) \<in> r\<^sup>+" using Suc.prems(4) Some by simp
    then have new: "x \<noteq> start" "x \<notin> set vs" using assms(2) by (auto simp: acyclic_def)
    have "x \<in> ids" using reach ids(2) by (metis list.set_intros(1) tranclE)
    then have vs: "distinct (vs @ [x])" "set (vs @ [x]) \<subseteq> ids" "length (vs @ [x]) = Suc steps"
      using Suc.prems new by simp_all
    then have "Suc steps \<le> n" using ids(1,3) by (metis card_mono distinct_card le_trans)
    moreover have "\<not> climbs_back on start n (on x) (Suc steps)"
    proof (rule Suc.hyps(1) [OF _ vs])
      show "k = Suc n - Suc steps" using Suc.hyps(2) by simp
      show "\<forall>v \<in> set (start # vs @ [x]). \<forall>y. on x = Some y \<longrightarrow> (v, y) \<in> r\<^sup>+"
        using reach on by (auto intro: trancl_into_trancl)
    qed
    ultimately show ?thesis using Some new by simp
  qed simp
qed

lemma climbs_back_iff:
  assumes "distinct (map pc_id parcels)"
    and "\<forall>p \<in> set parcels. \<forall>x. pc_on_parcel p = Some x \<longrightarrow> x \<in> pc_id ` set parcels"
  shows "(\<forall>p \<in> set parcels.
      \<not> climbs_back (pallet_of parcels) (pc_id p) (length parcels) (pc_on_parcel p) 0)
    \<longleftrightarrow> acyclic (stands_on parcels)"
proof
  assume no: "\<forall>p \<in> set parcels.
      \<not> climbs_back (pallet_of parcels) (pc_id p) (length parcels) (pc_on_parcel p) 0"
  show "acyclic (stands_on parcels)"
    unfolding acyclic_def
  proof (intro allI notI)
    fix u
    assume "(u, u) \<in> (stands_on parcels)\<^sup>+"
    then obtain y where y: "(u, y) \<in> stands_on parcels" "(y, u) \<in> (stands_on parcels)\<^sup>*"
      by (meson tranclD)
    then obtain p where p: "p \<in> set parcels" "pc_id p = u" "pc_on_parcel p = Some y"
      by (auto simp: stands_on_def)
    have "climbs_back (pallet_of parcels) u (length parcels) (Some y) 0"
      by (rule climb_finds_loop [OF pallet_of_Some [OF assms(1)] refl y(2)])
    with no p show False by auto
  qed
next
  assume acyclic: "acyclic (stands_on parcels)"
  show "\<forall>p \<in> set parcels.
      \<not> climbs_back (pallet_of parcels) (pc_id p) (length parcels) (pc_on_parcel p) 0"
  proof
    fix p assume p: "p \<in> set parcels"
    show "\<not> climbs_back (pallet_of parcels) (pc_id p) (length parcels) (pc_on_parcel p) 0"
    proof (rule climb_ends [OF pallet_of_Some [OF assms(1)] acyclic, of "pc_id ` set parcels" _ "[]"])
      show "\<And>u x. (u, x) \<in> stands_on parcels \<Longrightarrow> x \<in> pc_id ` set parcels"
        using assms(2) unfolding stands_on_def by blast
      show "card (pc_id ` set parcels) \<le> length parcels"
        by (metis card_length length_map set_map)
      show "\<forall>v \<in> set [pc_id p]. \<forall>x. pc_on_parcel p = Some x \<longrightarrow> (v, x) \<in> (stands_on parcels)\<^sup>+"
        using p by (auto simp: stands_on_def)
    qed simp_all
  qed
qed

lemma check_parcel_Inr:
  "check_parcel parcels p = Inr u \<longleftrightarrow> parcel_holds parcels p
     \<and> \<not> climbs_back (pallet_of parcels) (pc_id p) (length parcels) (pc_on_parcel p) 0"
  by (auto simp: check_parcel_def parcel_holds_def result_simps check_kind_Inr check_lines_Inr
      split: option.splits)

section \<open>Saving and reading it\<close>

text \<open>
  \<open>DELETE FROM pack_plan_parcel WHERE fulfilment_id = $1\<close>.  Deleting a parcel deletes the parcels
  planned on it and its lines (both foreign keys are \<open>ON DELETE CASCADE\<close>, migration 142); a
  parcel stands on one of its own tenant, so the climb is within the tenant's rows.
\<close>

fun dragged :: "nat \<Rightarrow> plan_parcel_row list \<Rightarrow> uuid list \<Rightarrow> uuid list" where
  "dragged 0 rows gone = gone"
| "dragged (Suc n) rows gone =
     dragged n rows (remdups (gone @ map pz_id (filter (\<lambda>r. case pz_on_parcel r of
       None \<Rightarrow> False | Some x \<Rightarrow> x \<in> set gone) rows)))"

text \<open>A delete of the parcels \<open>ids\<close> of tenant \<open>t\<close>, with what goes with them.\<close>

definition drop_parcels :: "uuid \<Rightarrow> uuid list \<Rightarrow> db \<Rightarrow> db" where
  "drop_parcels t ids s =
     (let rows = visible pz_tenant t (plan_parcels s);
          gone = dragged (length rows) rows ids in
      s\<lparr>plan_parcels := filter (\<lambda>r. \<not> (pz_tenant r = t \<and> pz_id r \<in> set gone)) (plan_parcels s),
        plan_lines := filter (\<lambda>l. \<not> (pn_tenant l = t \<and> pn_parcel l \<in> set gone)) (plan_lines s)\<rparr>)"

definition drop_plan :: "uuid \<Rightarrow> uuid \<Rightarrow> db \<Rightarrow> db" where
  "drop_plan t f s =
     drop_parcels t (map pz_id (filter (\<lambda>r. pz_fulfilment r = f) (visible pz_tenant t (plan_parcels s)))) s"

definition plan_row :: "uuid \<Rightarrow> uuid \<Rightarrow> nat \<Rightarrow> planned_parcel \<Rightarrow> plan_parcel_row" where
  "plan_row t f position p =
     \<lparr>pz_id = pc_id p, pz_tenant = t, pz_fulfilment = f, pz_package_type = pc_package_type p,
      pz_on_parcel = pc_on_parcel p, pz_on_package = pc_on_package p,
      pz_x = map_option sp_x (pc_at p), pz_y = map_option sp_y (pc_at p),
      pz_z = map_option sp_z (pc_at p),
      pz_turned = (case pc_at p of None \<Rightarrow> False | Some at' \<Rightarrow> sp_turned at'),
      pz_placed_by_hand = pc_placed_by_hand p,
      pz_position = (int position + 2 ^ 31) mod 2 ^ 32 - 2 ^ 31,
      pz_own_item = map_option pa_item (pc_as_is p), pz_own_level = map_option pa_level (pc_as_is p),
      pz_config = Option.bind (pc_as_is p) pa_config, pz_carrier = pc_carrier p\<rparr>"

definition line_row :: "uuid \<Rightarrow> uuid \<Rightarrow> planned_line \<Rightarrow> plan_line_row" where
  "line_row t parcel l =
     \<lparr>pn_tenant = t, pn_parcel = parcel, pn_line = pq_line l, pn_quantity = pq_quantity l\<rparr>"

text \<open>The inserts, each refused on a primary key already there.\<close>

definition put_parcel :: "pg \<Rightarrow> plan_parcel_row \<Rightarrow> db \<Rightarrow> api_error + db" where
  "put_parcel pg r s =
     (if pz_id r \<in> pz_id ` set (plan_parcels s) then Inl Database
      else write_to pg Plan_parcel s (s\<lparr>plan_parcels := plan_parcels s @ [r]\<rparr>))"

definition put_line :: "pg \<Rightarrow> plan_line_row \<Rightarrow> db \<Rightarrow> api_error + db" where
  "put_line pg r s =
     (if (pn_parcel r, pn_line r) \<in> (\<lambda>l. (pn_parcel l, pn_line l)) ` set (plan_lines s) then Inl Database
      else write_to pg Plan_line s (s\<lparr>plan_lines := plan_lines s @ [r]\<rparr>))"

fun put_lines :: "pg \<Rightarrow> uuid \<Rightarrow> uuid \<Rightarrow> planned_line list \<Rightarrow> db \<Rightarrow> api_error + db" where
  "put_lines pg t parcel [] s = Inr s"
| "put_lines pg t parcel (l # ls) s =
     and_then (put_line pg (line_row t parcel l) s) (put_lines pg t parcel ls)"

fun put_parcels ::
  "pg \<Rightarrow> uuid \<Rightarrow> uuid \<Rightarrow> nat \<Rightarrow> planned_parcel list \<Rightarrow> db \<Rightarrow> api_error + db" where
  "put_parcels pg t f position [] s = Inr s"
| "put_parcels pg t f position (p # ps) s =
     and_then (put_parcel pg (plan_row t f position p) s) (\<lambda>s1.
     and_then (put_lines pg t (pc_id p) (pc_lines p) s1)
       (put_parcels pg t f (Suc position) ps))"

text \<open>The lines of one thing as it is that are of another item.\<close>

definition other_items :: "uuid \<Rightarrow> planned_as_is \<Rightarrow> planned_line list \<Rightarrow> db \<Rightarrow> nat" where
  "other_items t a ls s =
     length (filter (\<lambda>fl. fl_id fl \<in> pq_line ` set ls
         \<and> (case by_id ol_tenant ol_id t (fl_order_line fl) (order_lines s) of
              None \<Rightarrow> False | Some ol \<Rightarrow> ol_item ol \<noteq> pa_item a))
       (visible fl_tenant t (fulfilment_lines s)))"

definition carrier_pallets_ok :: "uuid \<Rightarrow> planned_parcel list \<Rightarrow> package_type_row list \<Rightarrow> bool" where
  "carrier_pallets_ok t parcels types =
     (let named = map pc_package_type (filter (\<lambda>p. pc_carrier p \<noteq> None) parcels);
          pallets = length (filter (\<lambda>r. (pt_tenant r = None \<or> pt_tenant r = Some t)
            \<and> Some (pt_id r) \<in> set named \<and> pt_carries r) types) in
      named = [] \<or> \<not> (None \<in> set named \<or> pallets < length (remdups named)))"

definition save_plan ::
  "pg \<Rightarrow> caller \<Rightarrow> uuid \<Rightarrow> planned_parcel list \<Rightarrow> db \<Rightarrow> api_error + (unit \<times> db)" where
  "save_plan pg who f parcels s =
     (case check_plan parcels of
        Inl why \<Rightarrow> Inl (Rejected why)
      | Inr _ \<Rightarrow>
          let t = ca_tenant who;
              lines = concat (map (\<lambda>p. map pq_line (pc_lines p)) parcels) in
          and_then (guard (by_id fu_tenant fu_id t f (fulfilments s) \<noteq> None) NotFound) (\<lambda>_.
          and_then (guard (\<not> list_ex (\<lambda>k. pk_id k \<in> pc_id ` set parcels)
                (visible pk_tenant t (packages s)))
              (Rejected ''a planned parcel has been made already; read the bench again'')) (\<lambda>_.
          and_then (guard (\<not> list_ex (\<lambda>fl. fl_id fl \<in> set lines \<and> fl_fulfilment fl \<noteq> f)
                (visible fl_tenant t (fulfilment_lines s)))
              (Rejected ''a planned line is another order's'')) (\<lambda>_.
          and_then (guard (\<not> list_ex (\<lambda>p. case pc_as_is p of None \<Rightarrow> False
                | Some a \<Rightarrow> other_items t a (pc_lines p) s > 0) parcels)
              (Rejected ''a thing as it is holds only its own item'')) (\<lambda>_.
          and_then (guard (carrier_pallets_ok t parcels (package_types s))
              (Rejected ''only a pallet is built for a carrier'')) (\<lambda>_.
          and_then (write_to pg Plan_parcel s (drop_plan t f s)) (\<lambda>s1.
          and_then (put_parcels pg t f 0 parcels s1) (\<lambda>s2. Inr ((), s2)))))))))"

definition read_spot :: "plan_parcel_row \<Rightarrow> spot option" where
  "read_spot r =
     (case (pz_x r, pz_y r, pz_z r) of
        (Some x, Some y, Some z) \<Rightarrow> Some \<lparr>sp_x = x, sp_y = y, sp_z = z, sp_turned = pz_turned r\<rparr>
      | _ \<Rightarrow> None)"

text \<open>The level column holds a word wherever the item column holds an item.\<close>

definition read_parcel :: "plan_line_row list \<Rightarrow> plan_parcel_row \<Rightarrow> planned_parcel" where
  "read_parcel lines r =
     \<lparr>pc_id = pz_id r, pc_package_type = pz_package_type r,
      pc_as_is = map_option (\<lambda>i. \<lparr>pa_item = i, pa_level = the (pz_own_level r), pa_config = pz_config r\<rparr>)
        (pz_own_item r),
      pc_on_parcel = pz_on_parcel r, pc_on_package = pz_on_package r, pc_at = read_spot r,
      pc_placed_by_hand = pz_placed_by_hand r, pc_carrier = pz_carrier r,
      pc_lines = map (\<lambda>l. \<lparr>pq_line = pn_line l, pq_quantity = pn_quantity l\<rparr>)
        (filter (\<lambda>l. pn_parcel l = pz_id r) lines)\<rparr>"

text \<open>\<open>ORDER BY position, id\<close>.\<close>

definition plan_order :: "plan_parcel_row \<Rightarrow> plan_parcel_row \<Rightarrow> ordering" where
  "plan_order a b = then_cmp (cmp (pz_position a) (pz_position b)) (cmp (pz_id a) (pz_id b))"

interpretation plan_orders: comparator plan_order
  by unfold_locales (auto simp: plan_order_def then_cmp_def cmp_def split: if_splits)

definition plan_of :: "uuid \<Rightarrow> uuid \<Rightarrow> db \<Rightarrow> planned_parcel list" where
  "plan_of t f s =
     (let rows = filter (\<lambda>r. pz_fulfilment r = f) (visible pz_tenant t (plan_parcels s));
          lines = sort_by (\<lambda>a b. cmp (pn_line a) (pn_line b))
            (filter (\<lambda>l. pn_parcel l \<in> pz_id ` set rows) (visible pn_tenant t (plan_lines s))) in
      map (read_parcel lines)
        (sort_by plan_order rows))"

section \<open>Reading back\<close>

text \<open>The foreign key of \<open>pack_plan_line\<close>: every line is of a parcel that is there.\<close>

definition lines_have_parcels :: "db \<Rightarrow> bool" where
  "lines_have_parcels s \<longleftrightarrow>
     (\<lambda>l. (pn_parcel l, pn_tenant l)) ` set (plan_lines s) \<subseteq> (\<lambda>r. (pz_id r, pz_tenant r)) ` set (plan_parcels s)"

fun plan_rows :: "uuid \<Rightarrow> uuid \<Rightarrow> nat \<Rightarrow> planned_parcel list \<Rightarrow> plan_parcel_row list" where
  "plan_rows t f n [] = []"
| "plan_rows t f n (p # ps) = plan_row t f n p # plan_rows t f (Suc n) ps"

definition line_rows :: "uuid \<Rightarrow> planned_parcel list \<Rightarrow> plan_line_row list" where
  "line_rows t ps = concat (map (\<lambda>p. map (line_row t (pc_id p)) (pc_lines p)) ps)"

lemma plan_row_simps [simp]:
  "pz_id (plan_row t f n p) = pc_id p" "pz_tenant (plan_row t f n p) = t"
  "pz_fulfilment (plan_row t f n p) = f"
  by (simp_all add: plan_row_def)

lemma line_row_simps [simp]:
  "pn_parcel (line_row t i l) = i" "pn_tenant (line_row t i l) = t" "pn_line (line_row t i l) = pq_line l"
  by (simp_all add: line_row_def)

lemma plan_rows_fixed [simp]:
  "map pz_id (plan_rows t f n ps) = map pc_id ps"
  "r \<in> set (plan_rows t f n ps) \<Longrightarrow> pz_tenant r = t \<and> pz_fulfilment r = f"
  by (induction ps arbitrary: n) auto

lemma put_lines_Inr:
  "put_lines pg t i ls s = Inr s' \<Longrightarrow>
   s' = s\<lparr>plan_lines := plan_lines s @ map (line_row t i) ls\<rparr>"
proof (induction ls arbitrary: s)
  case (Cons l ls)
  then have "put_lines pg t i ls (s\<lparr>plan_lines := plan_lines s @ [line_row t i l]\<rparr>) = Inr s'"
    by (auto simp: put_line_def result_simps split: if_splits)
  from Cons.IH [OF this] show ?case by simp
qed simp

lemma put_parcels_eq:
  assumes "put_parcels pg t f n ps s = Inr s'"
  shows "s' = s\<lparr>plan_parcels := plan_parcels s @ plan_rows t f n ps, plan_lines := plan_lines s @ line_rows t ps\<rparr>
    \<and> pc_id ` set ps \<inter> pz_id ` set (plan_parcels s) = {}"
  using assms
proof (induction ps arbitrary: n s)
  case Nil
  then show ?case by (simp add: line_rows_def)
next
  case (Cons p ps)
  let ?s1 = "s\<lparr>plan_parcels := plan_parcels s @ [plan_row t f n p]\<rparr>"
  let ?s2 = "?s1\<lparr>plan_lines := plan_lines ?s1 @ map (line_row t (pc_id p)) (pc_lines p)\<rparr>"
  obtain s2 where new: "pc_id p \<notin> pz_id ` set (plan_parcels s)"
      and s2: "put_lines pg t (pc_id p) (pc_lines p) ?s1 = Inr s2"
      and rest: "put_parcels pg t f (Suc n) ps s2 = Inr s'"
    using Cons.prems by (auto simp: put_parcel_def result_simps split: if_splits)
  have "s2 = ?s2" by (rule put_lines_Inr [OF s2])
  with Cons.IH [OF rest] new show ?case by (simp add: line_rows_def)
qed

lemma put_parcels_Inr:
  assumes "put_parcels pg t f n ps s = Inr s'"
  shows "plan_parcels s' = plan_parcels s @ plan_rows t f n ps \<and> plan_lines s' = plan_lines s @ line_rows t ps
    \<and> pc_id ` set ps \<inter> pz_id ` set (plan_parcels s) = {}"
  using put_parcels_eq [OF assms] by simp

lemma dragged_keeps: "u \<in> set gone \<Longrightarrow> u \<in> set (dragged n rows gone)"
proof (induction n arbitrary: gone)
  case (Suc n)
  show ?case unfolding dragged.simps by (rule Suc.IH) (use Suc.prems in simp)
qed simp

lemma drop_plan_drops:
  assumes "r \<in> set (plan_parcels (drop_plan t f s))" and "pz_tenant r = t"
  shows "pz_fulfilment r \<noteq> f"
proof
  assume "pz_fulfilment r = f"
  then have "pz_id r \<in> set (map pz_id (filter (\<lambda>r. pz_fulfilment r = f) (visible pz_tenant t (plan_parcels s))))"
    using assms by (auto simp: drop_plan_def drop_parcels_def Let_def visible_def)
  from dragged_keeps [OF this] show False
    using assms by (simp add: drop_plan_def drop_parcels_def Let_def)
qed

lemma drop_parcels_lines:
  assumes "lines_have_parcels s"
  shows "lines_have_parcels (drop_parcels t ids s)"
  unfolding lines_have_parcels_def
proof
  fix x
  assume "x \<in> (\<lambda>l. (pn_parcel l, pn_tenant l)) ` set (plan_lines (drop_parcels t ids s))"
  then obtain l where l: "l \<in> set (plan_lines (drop_parcels t ids s))" "x = (pn_parcel l, pn_tenant l)" by auto
  then have "l \<in> set (plan_lines s)" by (simp add: drop_parcels_def Let_def)
  then obtain r where r: "r \<in> set (plan_parcels s)" "pz_id r = pn_parcel l" "pz_tenant r = pn_tenant l"
    using assms unfolding lines_have_parcels_def by (force simp: image_subset_iff)
  then have "r \<in> set (plan_parcels (drop_parcels t ids s))"
    using l(1) by (simp add: drop_parcels_def Let_def)
  with r l(2) show "x \<in> (\<lambda>r. (pz_id r, pz_tenant r)) ` set (plan_parcels (drop_parcels t ids s))" by force
qed

lemma plan_rows_sorted:
  "n + length ps \<le> 2 ^ 31 \<Longrightarrow>
   sorted_wrt (\<lambda>a b. plan_order a b \<noteq> Greater) (plan_rows t f n ps)"
proof (induction ps arbitrary: n)
  case (Cons p ps)
  have pos: "pz_position (plan_row t f m q) = int m" if "m < 2 ^ 31" for m q
    using that by (simp add: plan_row_def)
  have "int n < pz_position r" if "r \<in> set (plan_rows t f m qs)" "n < m" "m + length qs \<le> 2 ^ 31" for r m qs
    using that by (induction qs arbitrary: m) (auto simp: pos)
  then show ?case using Cons by (fastforce simp: pos plan_order_def then_cmp_def cmp_def)
qed simp

lemma filter_line_rows:
  assumes "distinct (map pc_id ps)" and "p \<in> set ps"
  shows "filter (\<lambda>l. pn_parcel l = pc_id p) (line_rows t ps) = map (line_row t (pc_id p)) (pc_lines p)"
  using assms
proof (induction ps)
  case (Cons q qs)
  have none: "filter (\<lambda>l. pn_parcel l = u) (line_rows t qs') = []" if "u \<notin> pc_id ` set qs'" for u qs'
    using that by (induction qs') (auto simp: line_rows_def filter_eq_Nil_iff)
  have own: "filter (\<lambda>l. pn_parcel l = u) (map (line_row t v) ls) =
      (if v = u then map (line_row t v) ls else [])" for u v ls
    by (induction ls) auto
  have split: "line_rows t (q # qs) = map (line_row t (pc_id q)) (pc_lines q) @ line_rows t qs"
    by (simp add: line_rows_def)
  show ?case
  proof (cases "p = q")
    case True
    then show ?thesis using Cons.prems none [of "pc_id q" qs] by (simp add: split own)
  next
    case False
    then have "p \<in> set qs" "pc_id q \<noteq> pc_id p" using Cons.prems by auto
    then show ?thesis using Cons.IH Cons.prems(1) by (simp add: split own)
  qed
qed simp

lemma read_plan_row:
  "read_parcel ls (plan_row t f n p) = p\<lparr>pc_lines :=
     map (\<lambda>l. \<lparr>pq_line = pn_line l, pq_quantity = pn_quantity l\<rparr>)
       (filter (\<lambda>l. pn_parcel l = pc_id p) ls)\<rparr>"
  by (cases p; cases "pc_at p"; cases "pc_as_is p")
    (simp_all add: read_parcel_def plan_row_def read_spot_def)

definition as_read :: "planned_parcel \<Rightarrow> planned_parcel" where
  "as_read p = p\<lparr>pc_lines := sort_by (\<lambda>a b. cmp (pq_line a) (pq_line b)) (pc_lines p)\<rparr>"

lemma read_back_parcel:
  assumes "distinct (map pc_id ps)" and "p \<in> set ps"
  shows "read_parcel (sort_by (\<lambda>a b. cmp (pn_line a) (pn_line b)) (line_rows t ps)) (plan_row t f n p)
    = as_read p"
proof -
  have "filter (\<lambda>l. pn_parcel l = pc_id p) (sort_by (\<lambda>a b. cmp (pn_line a) (pn_line b)) (line_rows t ps))
      = map (line_row t (pc_id p)) (sort_by (\<lambda>a b. cmp (pq_line a) (pq_line b)) (pc_lines p))"
    by (simp add: cmp_on.filter_sort_by filter_line_rows [OF assms] sort_by_map)
  moreover have "(\<lambda>x. \<lparr>pq_line = pq_line x, pq_quantity = pq_quantity x\<rparr>) = (\<lambda>x. x)" by auto
  ultimately show ?thesis
    by (simp add: read_plan_row as_read_def line_row_def comp_def)
qed

lemma read_back_rows:
  assumes "\<And>p n. p \<in> set ps \<Longrightarrow> read_parcel ls (plan_row t f n p) = as_read p"
  shows "map (read_parcel ls) (plan_rows t f n ps) = map as_read ps"
  using assms by (induction ps arbitrary: n) simp_all

lemma plan_of_rows:
  assumes old: "\<forall>r \<in> set (plan_parcels s). pz_tenant r = t \<longrightarrow> pz_fulfilment r \<noteq> f" "lines_have_parcels s"
    and new: "plan_parcels s' = plan_parcels s @ plan_rows t f 0 ps" "plan_lines s' = plan_lines s @ line_rows t ps"
      "pc_id ` set ps \<inter> pz_id ` set (plan_parcels s) = {}"
    and ids: "distinct (map pc_id ps)" and few: "length ps \<le> 2 ^ 31"
  shows "plan_of t f s' = map as_read ps"
proof -
  have none: "filter (\<lambda>r. pz_fulfilment r = f) (visible pz_tenant t (plan_parcels s)) = []"
    using old(1) by (auto simp: filter_eq_Nil_iff visible_def)
  have rows: "filter (\<lambda>r. pz_fulfilment r = f) (visible pz_tenant t (plan_parcels s')) = plan_rows t f 0 ps"
    by (simp add: new(1) none) (simp add: visible_def cong: filter_cong)
  have idset: "pz_id ` set (plan_rows t f 0 ps) = pc_id ` set ps"
    by (metis plan_rows_fixed(1) set_map)
  have "\<forall>l \<in> set (plan_lines s). pn_parcel l \<notin> pc_id ` set ps"
    using old(2) new(3) by (auto simp: lines_have_parcels_def)
  then have "filter (\<lambda>l. pn_parcel l \<in> pc_id ` set ps) (visible pn_tenant t (plan_lines s)) = []"
    by (auto simp: filter_eq_Nil_iff visible_def)
  moreover have "\<forall>l \<in> set (line_rows t ps). pn_parcel l \<in> pc_id ` set ps \<and> pn_tenant l = t"
    by (auto simp: line_rows_def)
  ultimately have lines: "filter (\<lambda>l. pn_parcel l \<in> pc_id ` set ps) (visible pn_tenant t (plan_lines s'))
      = line_rows t ps"
    by (simp add: new(2)) (simp add: visible_def cong: filter_cong)
  have sorted: "sort_by plan_order (plan_rows t f 0 ps) = plan_rows t f 0 ps"
    by (rule sort_by_sorted, rule plan_rows_sorted) (use few in simp)
  show ?thesis
    unfolding plan_of_def Let_def rows idset lines sorted
    by (rule read_back_rows, rule read_back_parcel [OF ids])
qed

text \<open>What a save leaves alone.\<close>

lemma put_parcels_isolated:
  assumes "put_parcels pg t f n ps s = Inr s'"
  shows "isolated t s s'"
proof -
  have "visible pz_tenant t' (plan_rows t f n ps) = []" "visible pn_tenant t' (line_rows t ps) = []" if "t' \<noteq> t" for t'
    using that by (auto simp: visible_def filter_eq_Nil_iff line_rows_def)
  then show ?thesis
    using put_parcels_eq [OF assms] by (simp add: isolated_def tenant_view_def)
qed

lemma visible_drop:
  "t' \<noteq> t \<Longrightarrow> visible tn t' (filter (\<lambda>r. tn r = t \<longrightarrow> \<not> P r) rows) = visible tn t' rows"
  by (induction rows) (auto simp: visible_def)

lemma drop_parcels_isolated: "isolated t s (drop_parcels t ids s)"
  by (simp add: isolated_def tenant_view_def drop_parcels_def Let_def visible_drop)

lemma save_plan_effect:
  assumes "save_plan pg who f parcels s = Inr (v, s')"
  shows "\<exists>ps ls. s' = s\<lparr>plan_parcels := ps, plan_lines := ls\<rparr>" and "isolated (ca_tenant who) s s'"
proof -
  have put: "put_parcels pg (ca_tenant who) f 0 parcels (drop_plan (ca_tenant who) f s) = Inr s'"
    using assms by (auto simp: save_plan_def Let_def result_simps split: sum.splits if_splits)
  show "isolated (ca_tenant who) s s'"
    using put_parcels_isolated [OF put] drop_parcels_isolated isolated_trans
    unfolding drop_plan_def by blast
  show "\<exists>ps ls. s' = s\<lparr>plan_parcels := ps, plan_lines := ls\<rparr>"
    using put_parcels_eq [OF put] by (auto simp: drop_plan_def drop_parcels_def Let_def)
qed

section \<open>Properties\<close>

text \<open>
  C37: A plan is taken exactly when it holds together: every parcel once, each a box or a thing as
  it is at a level that is one, on at most one pallet and a planned one of this plan, a spot only
  where there is a pallet, counts above nought of lines named once, and no parcel standing, through
  any number of others, on itself.
\<close>

theorem check_plan_iff: "check_plan parcels = Inr () \<longleftrightarrow> plan_holds parcels"
proof (cases "distinct (map pc_id parcels)
    \<and> (\<forall>p \<in> set parcels. \<forall>x. pc_on_parcel p = Some x \<longrightarrow> x \<in> pc_id ` set parcels)")
  case True
  then show ?thesis
    using climbs_back_iff [of parcels]
    by (auto simp: check_plan_def plan_holds_def result_simps check_parcel_Inr)
next
  case False
  then show ?thesis
    by (auto simp: check_plan_def plan_holds_def result_simps check_parcel_Inr parcel_holds_def)
qed

text \<open>
  C36: What is saved is what is read: after a plan is saved, reading the fulfilment's plan gives the
  same parcels in the same order, every field as it was sent, each parcel's lines in the order of
  their ids; whatever plan the fulfilment had before is gone.
\<close>

theorem plan_reads_back:
  assumes "save_plan pg who f parcels s = Inr (v, s')" and "lines_have_parcels s"
    and "length parcels \<le> 2 ^ 31"
  shows "plan_of (ca_tenant who) f s' =
    map (\<lambda>p. p\<lparr>pc_lines := sort_by (\<lambda>a b. cmp (pq_line a) (pq_line b)) (pc_lines p)\<rparr>) parcels"
proof -
  let ?t = "ca_tenant who"
  have plan: "distinct (map pc_id parcels)" and put: "put_parcels pg ?t f 0 parcels (drop_plan ?t f s) = Inr s'"
    using assms(1)
    by (auto simp: save_plan_def Let_def result_simps check_plan_def split: sum.splits if_splits)
  have "plan_of ?t f s' = map as_read parcels"
  proof (rule plan_of_rows [OF _ _ _ _ _ plan assms(3)])
    show "\<forall>r \<in> set (plan_parcels (drop_plan ?t f s)). pz_tenant r = ?t \<longrightarrow> pz_fulfilment r \<noteq> f"
      using drop_plan_drops by blast
    show "lines_have_parcels (drop_plan ?t f s)"
      unfolding drop_plan_def by (rule drop_parcels_lines [OF assms(2)])
  qed (use put_parcels_Inr [OF put] in simp_all)
  then show ?thesis by (simp add: as_read_def [abs_def])
qed

definition sample_plan_db :: db where
  "sample_plan_db = empty_db\<lparr>
     fulfilments := [\<lparr>fu_id = 41, fu_tenant = 10, fu_state = ''open'', fu_site = None\<rparr>],
     plan_parcels := [plan_row 10 41 0 \<lparr>pc_id = 9, pc_package_type = Some 99, pc_as_is = None,
       pc_on_parcel = None, pc_on_package = None, pc_at = None, pc_placed_by_hand = True,
       pc_carrier = None, pc_lines = []\<rparr>]\<rparr>"

definition sample_plan :: "planned_parcel list" where
  "sample_plan =
     [\<lparr>pc_id = 2, pc_package_type = None,
       pc_as_is = Some \<lparr>pa_item = 7, pa_level = ''carton'', pa_config = Some 3\<rparr>,
       pc_on_parcel = Some 1, pc_on_package = None,
       pc_at = Some \<lparr>sp_x = 0, sp_y = 400, sp_z = 0, sp_turned = True\<rparr>, pc_placed_by_hand = True,
       pc_carrier = None, pc_lines = [\<lparr>pq_line = 501, pq_quantity = 4\<rparr>, \<lparr>pq_line = 500, pq_quantity = 2\<rparr>]\<rparr>,
      \<lparr>pc_id = 1, pc_package_type = Some 99, pc_as_is = None, pc_on_parcel = None,
       pc_on_package = None, pc_at = None, pc_placed_by_hand = False, pc_carrier = None, pc_lines = []\<rparr>]"

lemma sample_plan_saves:
  "\<exists>s'. save_plan sample_pg sample_caller 41 sample_plan sample_plan_db = Inr ((), s')"
proof -
  have "\<not> isl (save_plan sample_pg sample_caller 41 sample_plan sample_plan_db)" by code_simp
  then show ?thesis
    by (cases "save_plan sample_pg sample_caller 41 sample_plan sample_plan_db") auto
qed

theorem plan_reads_back_witness:
  "\<exists>s'. save_plan sample_pg sample_caller 41 sample_plan sample_plan_db = Inr ((), s')
    \<and> length (plan_of (ca_tenant sample_caller) 41 s') = 2"
proof -
  obtain s' where run: "save_plan sample_pg sample_caller 41 sample_plan sample_plan_db = Inr ((), s')"
    using sample_plan_saves by blast
  have "lines_have_parcels sample_plan_db" "length sample_plan \<le> 2 ^ 31"
    by (simp_all add: lines_have_parcels_def sample_plan_db_def sample_plan_def empty_db_def)
  from plan_reads_back [OF run this] run show ?thesis by (auto simp: sample_plan_def)
qed

end
