(* ===== verification/Creating.thy ===== *)
theory Creating
  imports Packages Plans
begin

text \<open>
  Making a package: \<open>create_package\<close> of \<^verbatim>\<open>routes.rs\<close>, with \<open>usual_carrier\<close> and \<open>rules_for\<close> of
  \<^verbatim>\<open>carriers.rs\<close>.  The decision procedure \<open>packages::check\<close> is in \<open>Packages\<close>, the plan in \<open>Plans\<close>.
  What is proved: a carton made from a planned parcel uses that parcel up and nothing else, and
  what was planned onto it is planned onto the carton.
\<close>

section \<open>The request\<close>

record create_request =
  cq_id :: "uuid option"
  cq_fulfilment :: "uuid option"
  cq_sequence :: "int option"
  cq_type :: "uuid option"
  cq_config :: "uuid option"
  cq_own_item :: "uuid option"
  cq_own_level :: "string option"
  cq_location :: uuid
  cq_breaks_down :: bool
  cq_carrier :: "uuid option"
  cq_barcode :: "string option"
  cq_sscc :: "string option"
  cq_source :: "string option"
  cq_event :: uuid
  cq_occurred_at :: time

record create_response =
  cs_package :: uuid
  cs_event :: uuid

section \<open>What it reads\<close>

text \<open>Whether the fulfilment carries the item; a package of no fulfilment may be of any.\<close>

definition on_order :: "uuid \<Rightarrow> uuid option \<Rightarrow> uuid \<Rightarrow> db \<Rightarrow> bool" where
  "on_order t f item s =
     (case f of
        None \<Rightarrow> True
      | Some i \<Rightarrow> list_ex (\<lambda>fl. fl_fulfilment fl = i
            \<and> (case by_id ol_tenant ol_id t (fl_order_line fl) (order_lines s) of
                 None \<Rightarrow> False | Some ol \<Rightarrow> ol_item ol = item))
          (visible fl_tenant t (fulfilment_lines s)))"

text \<open>One of a product as it is: its problems, and the item and level when there is one.\<close>

definition own_product ::
  "uuid \<Rightarrow> create_request \<Rightarrow> db \<Rightarrow> string list \<times> (uuid \<times> string) option" where
  "own_product t req s =
     (if cq_config req = None \<and> cq_own_item req = None then ([], None)
      else
        let level = (case cq_own_level req of None \<Rightarrow> ''carton'' | Some l \<Rightarrow> l);
            problems =
              (if cq_type req \<noteq> None
               then [''a package is a box type or one of a product as it is, not both''] else [])
              @ (if level \<notin> {''each'', ''inner'', ''carton''} then [''own_level is each, inner or carton''] else [])
              @ (if cq_config req \<noteq> None \<and> level = ''each''
                 then [''an each has no case pack: name the item instead''] else []);
            item = (case cq_config req of
                      Some c \<Rightarrow> map_option kg_item (by_id kg_tenant kg_id t c (packing_configs s))
                    | None \<Rightarrow> cq_own_item req) in
        (case item of
           None \<Rightarrow> (problems @ [''no such case pack''], None)
         | Some i \<Rightarrow>
             if cq_own_item req \<noteq> None \<and> cq_own_item req \<noteq> Some i
             then (problems @ [''that case pack is for another item''], None)
             else if on_order t (cq_fulfilment req) i s then (problems, Some (i, level))
             else (problems @ [''that is an item this fulfilment does not carry''], None)))"

definition type_carries :: "uuid \<Rightarrow> uuid option \<Rightarrow> db \<Rightarrow> bool" where
  "type_carries t ty s =
     (case ty of
        None \<Rightarrow> False
      | Some i \<Rightarrow>
          (case find (\<lambda>r. (pt_tenant r = None \<or> pt_tenant r = Some t) \<and> pt_id r = i) (package_types s) of
             None \<Rightarrow> False | Some r \<Rightarrow> pt_carries r))"

definition carrier_by_id :: "uuid \<Rightarrow> uuid \<Rightarrow> db \<Rightarrow> carrier_row option" where
  "carrier_by_id t i s =
     find (\<lambda>r. (cy_tenant r = None \<or> cy_tenant r = Some t) \<and> cy_id r = i) (carriers s)"

definition usual_carrier :: "uuid \<Rightarrow> db \<Rightarrow> uuid option" where
  "usual_carrier t s =
     Option.bind (find (\<lambda>r. ws_tenant r = t) (workspace_settings s)) ws_usual_carrier"

text \<open>\<open>build_rules_now\<close>: the newest version of a set.\<close>

definition newest_version :: "build_rules_version_row \<Rightarrow> build_rules_version_row \<Rightarrow> ordering" where
  "newest_version a b = then_cmp (cmp (bv_saved_at b) (bv_saved_at a)) (cmp (bv_id b) (bv_id a))"

definition rules_for :: "uuid \<Rightarrow> uuid \<Rightarrow> bool \<Rightarrow> db \<Rightarrow> uuid option" where
  "rules_for t c breaks_down s =
     Option.bind (carrier_by_id t c s) (\<lambda>r.
     Option.bind (if breaks_down then cy_breakdown_rules r else cy_as_one_rules r) (\<lambda>rules.
       case sort_by newest_version
              (filter (\<lambda>v. bv_rules v = rules) (visible bv_tenant t (build_rules_versions s))) of
         [] \<Rightarrow> None
       | v # _ \<Rightarrow> Some (bv_id v)))"

definition pallet_carrier :: "uuid \<Rightarrow> uuid \<Rightarrow> create_request \<Rightarrow> db \<Rightarrow> uuid option \<times> uuid option" where
  "pallet_carrier t pkg req s =
     (if type_carries t (cq_type req) s
      then let planned = Option.bind (by_id pz_tenant pz_id t pkg (plan_parcels s)) pz_carrier;
               said = (if cq_carrier req \<noteq> None then cq_carrier req else planned);
               carrier = (if said \<noteq> None then said else usual_carrier t s) in
           (carrier, Option.bind carrier (\<lambda>c. rules_for t c (cq_breaks_down req) s))
      else (None, None))"

definition create_problems :: "uuid \<Rightarrow> uuid \<Rightarrow> create_request \<Rightarrow> db \<Rightarrow> string list" where
  "create_problems t pkg req s =
     (let fulfilment = Option.bind (cq_fulfilment req) (\<lambda>i. map_option
            (\<lambda>f. \<lparr>fr_id = fu_id f, fr_tenant = fu_tenant f, fr_cancelled = (fu_state f = ''cancelled'')\<rparr>)
            (by_id fu_tenant fu_id t i (fulfilments s)));
          proposed = \<lparr>xk_tenant = t, xk_package = pkg, xk_fulfilment = cq_fulfilment req,
            xk_sequence = cq_sequence req, xk_type = cq_type req, xk_location = cq_location req,
            xk_barcode = cq_barcode req, xk_sscc = cq_sscc req, xk_source = or_scan (cq_source req)\<rparr> in
      map show_package_problem (package_check proposed fulfilment
        (map_option location_ref_of (location_by_id t (cq_location req) s)))
      @ (if cq_breaks_down req \<and> cq_fulfilment req \<noteq> None
         then [''a breakdown pallet carries many orders: name none''] else [])
      @ fst (own_product t req s)
      @ (case cq_carrier req of
           None \<Rightarrow> []
         | Some c \<Rightarrow>
             if \<not> type_carries t (cq_type req) s then [''only a pallet is built for a carrier'']
             else if carrier_by_id t c s = None then [''no such carrier''] else []))"

section \<open>What it writes\<close>

definition made_row :: "uuid \<Rightarrow> uuid \<Rightarrow> create_request \<Rightarrow> db \<Rightarrow> package_row" where
  "made_row t pkg req s =
     \<lparr>pk_id = pkg, pk_tenant = t, pk_status = None, pk_location = None, pk_parent = None,
      pk_fulfilment = cq_fulfilment req, pk_sealed_at = None, pk_breaks_down = cq_breaks_down req,
      pk_barcode = None, pk_type = cq_type req, pk_sequence = cq_sequence req,
      pk_config = cq_config req, pk_own_item = map_option fst (snd (own_product t req s)),
      pk_own_level = map_option snd (snd (own_product t req s)),
      pk_carrier = fst (pallet_carrier t pkg req s), pk_rules = snd (pallet_carrier t pkg req s)\<rparr>"

text \<open>\<open>UPDATE pack_plan_parcel SET on_package_id = $1, on_parcel_id = NULL WHERE on_parcel_id = $1\<close>.\<close>

definition onto_made :: "uuid \<Rightarrow> uuid \<Rightarrow> plan_parcel_row \<Rightarrow> plan_parcel_row" where
  "onto_made t pkg r =
     (if pz_tenant r = t \<and> pz_on_parcel r = Some pkg
      then r\<lparr>pz_on_package := Some pkg, pz_on_parcel := None\<rparr> else r)"

definition move_plan :: "uuid \<Rightarrow> uuid \<Rightarrow> db \<Rightarrow> db" where
  "move_plan t pkg s = s\<lparr>plan_parcels := map (onto_made t pkg) (plan_parcels s)\<rparr>"

definition created_event :: "pg \<Rightarrow> caller \<Rightarrow> uuid \<Rightarrow> create_request \<Rightarrow> package_event" where
  "created_event pg who pkg req =
     (package_event_of pg who (cq_event req) (cq_occurred_at req) pkg ''created'' (or_scan (cq_source req)))
       \<lparr>pe_location := Some (cq_location req), pe_barcode := cq_barcode req, pe_sscc := cq_sscc req\<rparr>"

definition insert_package :: "pg \<Rightarrow> package_row \<Rightarrow> db \<Rightarrow> api_error + db" where
  "insert_package pg k s =
     (if pk_id k \<in> pk_id ` set (packages s) then Inl Database
      else write_to pg Package s (s\<lparr>packages := packages s @ [k]\<rparr>))"

definition create_package ::
  "pg \<Rightarrow> caller \<Rightarrow> create_request \<Rightarrow> db \<Rightarrow> api_error + (create_response \<times> db)" where
  "create_package pg who req s =
     (let t = ca_tenant who;
          pkg = (case cq_id req of None \<Rightarrow> minted pg Package | Some i \<Rightarrow> i);
          problems = create_problems t pkg req s in
      and_then (guard (problems = []) (Rejected (join ''; '' problems))) (\<lambda>_.
      and_then (claim_act pg (act_new_client_event who (cq_event req) (cq_occurred_at req)) s)
        (\<lambda>(act, s1).
           if is_replay act
           then and_then (require_one_package_event t (cq_event req) s1) (\<lambda>(event_id, prior, kind).
                  if kind \<noteq> ''created''
                  then Inl (Rejected (''client_event already recorded package_event kind '' @ kind))
                  else Inr (\<lparr>cs_package = prior, cs_event = event_id\<rparr>, s1))
           else and_then (insert_package pg (made_row t pkg req s) s1) (\<lambda>s2.
                and_then (write_to pg Plan_parcel s2 (move_plan t pkg s2)) (\<lambda>s3.
                and_then (write_to pg Plan_parcel s3 (drop_parcels t [pkg] s3)) (\<lambda>s4.
                and_then (write_to pg Package_event s4
                    (insert_package_event (created_event pg who pkg req) s4)) (\<lambda>s5.
                and_then (write_to pg Projection_dirty s5 (mark_dirty pg t ''package_create'' s5)) (\<lambda>s6.
                  Inr (\<lparr>cs_package = pkg, cs_event = minted pg Package_event\<rparr>, s6)))))))))"

section \<open>What a run did\<close>

lemma create_replay:
  assumes "create_package pg who req s = Inr (v, s')" and "claimed (ca_tenant who) (cq_event req) s"
  shows "s' = s"
  using assms
  by (auto simp: create_package_def Let_def result_simps claim_act_def act_new_client_event_def is_replay_def
      split: if_splits)

lemma create_fresh:
  assumes run: "create_package pg who req s = Inr (v, s')"
    and fresh: "\<not> claimed (ca_tenant who) (cq_event req) s"
    and pkg: "pkg = (case cq_id req of None \<Rightarrow> minted pg Package | Some i \<Rightarrow> i)"
  shows "cs_package v = pkg \<and> pkg \<notin> pk_id ` set (packages s)
    \<and> s' = mark_dirty pg (ca_tenant who) ''package_create''
        ((drop_parcels (ca_tenant who) [pkg] (move_plan (ca_tenant who) pkg s))
          \<lparr>client_events := client_events s
               @ [envelope pg (act_new_client_event who (cq_event req) (cq_occurred_at req))],
           packages := packages s @ [made_row (ca_tenant who) pkg req s],
           package_events := package_events s @ [created_event pg who pkg req]\<rparr>)"
proof -
  obtain a s1 where claim: "claim_act pg (act_new_client_event who (cq_event req) (cq_occurred_at req)) s = Inr (a, s1)"
    using run by (auto simp: create_package_def Let_def result_simps)
  have "a = Fresh" using claim fresh by (cases a) (auto simp: claim_act_Replay act_new_client_event_def)
  with claim have claim': "claim_act pg (act_new_client_event who (cq_event req) (cq_occurred_at req)) s = Inr (Fresh, s1)"
    by simp
  then have s1: "s1 = s\<lparr>client_events := client_events s
               @ [envelope pg (act_new_client_event who (cq_event req) (cq_occurred_at req))]\<rparr>"
    by (simp add: claim_act_Fresh)
  have id: "pk_id (made_row (ca_tenant who) pkg req s) = pkg" by (simp add: made_row_def)
  let ?s2 = "s1\<lparr>packages := packages s1 @ [made_row (ca_tenant who) pkg req s]\<rparr>"
  let ?s4 = "drop_parcels (ca_tenant who) [pkg] (move_plan (ca_tenant who) pkg ?s2)"
  have "cs_package v = pkg \<and> pkg \<notin> pk_id ` set (packages s1) \<and> s' = mark_dirty pg (ca_tenant who) ''package_create''
      (insert_package_event (created_event pg who pkg req) ?s4)"
    using run claim'
    by (auto simp: create_package_def Let_def result_simps pkg [symmetric] insert_package_def id split: if_splits)
  moreover have "insert_package_event (created_event pg who pkg req) ?s4 =
      (drop_parcels (ca_tenant who) [pkg] (move_plan (ca_tenant who) pkg s))
          \<lparr>client_events := client_events s
               @ [envelope pg (act_new_client_event who (cq_event req) (cq_occurred_at req))],
           packages := packages s @ [made_row (ca_tenant who) pkg req s],
           package_events := package_events s @ [created_event pg who pkg req]\<rparr>"
    by (simp add: s1 row_simps move_plan_def drop_parcels_def Let_def)
  ultimately show ?thesis by (simp add: s1)
qed

lemma create_runs:
  assumes run: "create_package pg who req s = Inr (v, s')"
  shows "act_effect (ca_tenant who) (cq_event req) s s' \<and> claimed (ca_tenant who) (cq_event req) s'
    \<and> plants (ca_tenant who) s s' \<and> discrepancies s' = discrepancies s
    \<and> adjustment_reasons s' = adjustment_reasons s \<and> movements s' = movements s"
proof (cases "claimed (ca_tenant who) (cq_event req) s")
  case True
  then show ?thesis using create_replay [OF run] by (simp add: act_effect_def plants_def)
next
  case False
  let ?t = "ca_tenant who"
  obtain pkg where "pkg = (case cq_id req of None \<Rightarrow> minted pg Package | Some i \<Rightarrow> i)" by simp
  note s' = create_fresh [OF run False this]
  let ?s1 = "drop_parcels ?t [pkg] (move_plan ?t pkg s)"
  let ?s2 = "?s1\<lparr>client_events := client_events s
               @ [envelope pg (act_new_client_event who (cq_event req) (cq_occurred_at req))],
           packages := packages s @ [made_row ?t pkg req s],
           package_events := package_events s @ [created_event pg who pkg req]\<rparr>"
  have tn: "pz_tenant (onto_made ?t pkg r) = pz_tenant r" for r by (simp add: onto_made_def)
  have mv: "visible pz_tenant t' (map (onto_made ?t pkg) rows) = visible pz_tenant t' rows" if "t' \<noteq> ?t" for t' rows
    using that by (induction rows) (auto simp: visible_def onto_made_def)
  have "isolated ?t s (move_plan ?t pkg s)"
    by (simp add: isolated_def tenant_view_def move_plan_def mv)
  then have "isolated ?t s ?s1" by (rule isolated_trans [OF _ drop_parcels_isolated])
  moreover have "isolated ?t ?s1 ?s2"
    by (simp add: isolated_def tenant_view_def drop_parcels_def move_plan_def Let_def)
      (simp add: visible_def act_new_client_event_def made_row_def created_event_def)
  ultimately have "isolated ?t s ?s2" by (rule isolated_trans)
  then have iso: "isolated ?t s s'"
    using s' by (simp add: isolated_trans [OF _ isolated_mark_dirty])
  have evs: "client_events s' = client_events s
        @ [envelope pg (act_new_client_event who (cq_event req) (cq_occurred_at req))]"
      "movements s' = movements s" "package_events s' = package_events s @ [created_event pg who pkg req]"
      "discrepancies s' = discrepancies s" "adjustment_reasons s' = adjustment_reasons s"
    using s' by (simp_all add: drop_parcels_def move_plan_def Let_def)
  have "pe_tenant (created_event pg who pkg req) = ?t" "pe_parent (created_event pg who pkg req) = None"
    by (simp_all add: created_event_def)
  then show ?thesis
    using iso False evs
    by (auto simp: act_effect_def plants_def claimed_def act_new_client_event_def intro!: exI [of _ "[]"])
qed

interpretation create_writer: package_writer create_package cq_event
proof
  fix pg who req s v s'
  assume run: "create_package pg who req s = Inr (v, s')"
  show "act_effect (ca_tenant who) (cq_event req) s s'" "claimed (ca_tenant who) (cq_event req) s'"
    "plants (ca_tenant who) s s'"
    using create_runs [OF run] by simp_all
  show "s' = s" if "claimed (ca_tenant who) (cq_event req) s" by (rule create_replay [OF run that])
qed

section \<open>The plan it was made from\<close>

definition onto_package :: "uuid \<Rightarrow> planned_parcel \<Rightarrow> planned_parcel" where
  "onto_package pkg p =
     (if pc_on_parcel p = Some pkg then p\<lparr>pc_on_parcel := None, pc_on_package := Some pkg\<rparr> else p)"

lemma dragged_alone:
  assumes "\<forall>r \<in> set rows. pz_on_parcel r \<noteq> Some pkg"
  shows "dragged n rows [pkg] = [pkg]"
proof -
  have "filter (\<lambda>r. case pz_on_parcel r of None \<Rightarrow> False | Some x \<Rightarrow> x \<in> set [pkg]) rows = []"
    using assms by (auto simp: filter_eq_Nil_iff split: option.splits)
  then show ?thesis by (induction n) simp_all
qed

lemma drop_one:
  assumes "\<forall>r \<in> set (plan_parcels s). pz_tenant r = t \<longrightarrow> pz_on_parcel r \<noteq> Some pkg"
  shows "drop_parcels t [pkg] s =
    s\<lparr>plan_parcels := filter (\<lambda>r. \<not> (pz_tenant r = t \<and> pz_id r = pkg)) (plan_parcels s),
      plan_lines := filter (\<lambda>l. \<not> (pn_tenant l = t \<and> pn_parcel l = pkg)) (plan_lines s)\<rparr>"
proof -
  have "dragged n (visible pz_tenant t (plan_parcels s)) [pkg] = [pkg]" for n
    by (rule dragged_alone) (use assms in \<open>auto simp: visible_def\<close>)
  then show ?thesis by (simp add: drop_parcels_def Let_def)
qed

lemma used_up:
  "drop_parcels t [pkg] (move_plan t pkg s) =
    s\<lparr>plan_parcels := filter (\<lambda>r. \<not> (pz_tenant r = t \<and> pz_id r = pkg)) (map (onto_made t pkg) (plan_parcels s)),
      plan_lines := filter (\<lambda>l. \<not> (pn_tenant l = t \<and> pn_parcel l = pkg)) (plan_lines s)\<rparr>"
proof -
  have "pz_tenant (onto_made t pkg r) = t \<longrightarrow> pz_on_parcel (onto_made t pkg r) \<noteq> Some pkg" for r
    by (simp add: onto_made_def)
  then have "\<forall>r \<in> set (plan_parcels (move_plan t pkg s)). pz_tenant r = t \<longrightarrow> pz_on_parcel r \<noteq> Some pkg"
    unfolding move_plan_def by simp
  then have "drop_parcels t [pkg] (move_plan t pkg s) = (move_plan t pkg s)\<lparr>
      plan_parcels := filter (\<lambda>r. \<not> (pz_tenant r = t \<and> pz_id r = pkg)) (plan_parcels (move_plan t pkg s)),
      plan_lines := filter (\<lambda>l. \<not> (pn_tenant l = t \<and> pn_parcel l = pkg)) (plan_lines (move_plan t pkg s))\<rparr>"
    by (rule drop_one)
  also have "\<dots> = s\<lparr>plan_parcels := filter (\<lambda>r. \<not> (pz_tenant r = t \<and> pz_id r = pkg)) (map (onto_made t pkg) (plan_parcels s)),
      plan_lines := filter (\<lambda>l. \<not> (pn_tenant l = t \<and> pn_parcel l = pkg)) (plan_lines s)\<rparr>"
    by (simp add: move_plan_def)
  finally show ?thesis .
qed

lemma onto_made_simps [simp]:
  "pz_id (onto_made t pkg r) = pz_id r" "pz_tenant (onto_made t pkg r) = pz_tenant r"
  "pz_fulfilment (onto_made t pkg r) = pz_fulfilment r" "pz_position (onto_made t pkg r) = pz_position r"
  by (simp_all add: onto_made_def)

lemma read_onto_made:
  assumes "pz_tenant r = t" and "pz_id r \<noteq> pkg"
  shows "read_parcel (filter (\<lambda>l. pn_parcel l \<noteq> pkg) ls) (onto_made t pkg r)
    = onto_package pkg (read_parcel ls r)"
proof -
  have "filter (\<lambda>l. pn_parcel l = pz_id r) (filter (\<lambda>l. pn_parcel l \<noteq> pkg) ls)
      = filter (\<lambda>l. pn_parcel l = pz_id r) ls"
    using assms(2) by (induction ls) auto
  moreover have "read_spot (onto_made t pkg r) = read_spot r"
    by (auto simp: onto_made_def read_spot_def split: option.splits)
  ultimately show ?thesis
    using assms(1) by (simp add: read_parcel_def onto_package_def) (simp add: onto_made_def)
qed

lemma plan_of_used_up:
  assumes s': "plan_parcels s' = filter (\<lambda>r. \<not> (pz_tenant r = t \<and> pz_id r = pkg)) (map (onto_made t pkg) (plan_parcels s))"
    "plan_lines s' = filter (\<lambda>l. \<not> (pn_tenant l = t \<and> pn_parcel l = pkg)) (plan_lines s)"
  shows "plan_of t f s' = map (onto_package pkg) (filter (\<lambda>p. pc_id p \<noteq> pkg) (plan_of t f s))"
proof -
  define rows where "rows = filter (\<lambda>r. pz_fulfilment r = f) (visible pz_tenant t (plan_parcels s))"
  define lines where "lines = sort_by (\<lambda>a b. cmp (pn_line a) (pn_line b))
    (filter (\<lambda>l. pn_parcel l \<in> pz_id ` set rows) (visible pn_tenant t (plan_lines s)))"
  have rows': "filter (\<lambda>r. pz_fulfilment r = f) (visible pz_tenant t (plan_parcels s'))
      = map (onto_made t pkg) (filter (\<lambda>r. pz_id r \<noteq> pkg) rows)"
  proof -
    have "filter (\<lambda>r. pz_fulfilment r = f) (filter (\<lambda>r. pz_tenant r = t)
        (filter (\<lambda>r. \<not> (pz_tenant r = t \<and> pz_id r = pkg)) (map (onto_made t pkg) xs)))
      = map (onto_made t pkg) (filter (\<lambda>r. pz_id r \<noteq> pkg)
          (filter (\<lambda>r. pz_fulfilment r = f) (filter (\<lambda>r. pz_tenant r = t) xs)))" for xs
      by (induction xs) auto
    then show ?thesis by (simp only: s'(1) rows_def visible_def)
  qed
  have ids: "pz_id ` set (map (onto_made t pkg) (filter (\<lambda>r. pz_id r \<noteq> pkg) rows)) = pz_id ` set rows - {pkg}"
    by (force simp: image_iff)
  have "filter (\<lambda>l. pn_parcel l \<in> pz_id ` set rows - {pkg}) (visible pn_tenant t (plan_lines s'))
      = filter (\<lambda>l. pn_parcel l \<noteq> pkg)
          (filter (\<lambda>l. pn_parcel l \<in> pz_id ` set rows) (visible pn_tenant t (plan_lines s)))"
  proof -
    have "filter (\<lambda>l. pn_parcel l \<in> A - {pkg}) (filter (\<lambda>l. pn_tenant l = t)
        (filter (\<lambda>l. \<not> (pn_tenant l = t \<and> pn_parcel l = pkg)) xs))
      = filter (\<lambda>l. pn_parcel l \<noteq> pkg) (filter (\<lambda>l. pn_parcel l \<in> A) (filter (\<lambda>l. pn_tenant l = t) xs))" for xs A
      by (induction xs) auto
    then show ?thesis by (simp only: s'(2) visible_def)
  qed
  then have lines': "sort_by (\<lambda>a b. cmp (pn_line a) (pn_line b))
      (filter (\<lambda>l. pn_parcel l \<in> pz_id ` set rows - {pkg}) (visible pn_tenant t (plan_lines s')))
      = filter (\<lambda>l. pn_parcel l \<noteq> pkg) lines"
    unfolding lines_def by (simp only: cmp_on.filter_sort_by)
  have order: "(\<lambda>a b. plan_order (onto_made t pkg a) (onto_made t pkg b)) = plan_order"
    by (intro ext) (simp add: plan_order_def)
  have sorted: "sort_by plan_order (map (onto_made t pkg) (filter (\<lambda>r. pz_id r \<noteq> pkg) rows))
      = map (onto_made t pkg) (filter (\<lambda>r. pz_id r \<noteq> pkg) (sort_by plan_order rows))"
    by (simp only: sort_by_map order plan_orders.filter_sort_by)
  have each: "read_parcel (filter (\<lambda>l. pn_parcel l \<noteq> pkg) lines) (onto_made t pkg r)
      = onto_package pkg (read_parcel lines r)"
    if "r \<in> set (filter (\<lambda>r. pz_id r \<noteq> pkg) (sort_by plan_order rows))" for r
    by (rule read_onto_made) (use that in \<open>auto simp: rows_def visible_def\<close>)
  have "plan_of t f s' = map (\<lambda>r. onto_package pkg (read_parcel lines r))
      (filter (\<lambda>r. pz_id r \<noteq> pkg) (sort_by plan_order rows))"
    unfolding plan_of_def Let_def rows' ids lines' sorted map_map comp_def using each by simp
  also have "\<dots> = map (onto_package pkg) (filter (\<lambda>p. pc_id p \<noteq> pkg) (map (read_parcel lines) (sort_by plan_order rows)))"
    by (simp add: filter_map comp_def read_parcel_def)
  also have "\<dots> = map (onto_package pkg) (filter (\<lambda>p. pc_id p \<noteq> pkg) (plan_of t f s))"
    by (simp add: plan_of_def Let_def rows_def lines_def)
  finally show ?thesis .
qed

section \<open>Properties\<close>

text \<open>
  C33: A package made with the id of a planned parcel uses that parcel up: every plan of the tenant
  then reads as it did, in the same order, without that parcel, and what was planned to stand on it
  now stands on the package made; the package's row is new, and the event that made it is the one
  event added, at the location said, outside every other package.
\<close>

theorem create_uses_up_plan:
  assumes run: "create_package pg who req s = Inr (v, s')"
    and fresh: "\<not> claimed (ca_tenant who) (cq_event req) s"
  shows "(\<forall>f. plan_of (ca_tenant who) f s' =
      map (\<lambda>p. if pc_on_parcel p = Some (cs_package v)
                then p\<lparr>pc_on_parcel := None, pc_on_package := Some (cs_package v)\<rparr> else p)
        (filter (\<lambda>p. pc_id p \<noteq> cs_package v) (plan_of (ca_tenant who) f s)))
    \<and> cs_package v \<notin> pk_id ` set (packages s)
    \<and> (\<exists>k. packages s' = packages s @ [k] \<and> pk_id k = cs_package v \<and> pk_tenant k = ca_tenant who)
    \<and> (\<exists>e. package_events s' = package_events s @ [e] \<and> pe_package e = cs_package v
         \<and> pe_kind e = ''created'' \<and> pe_location e = Some (cq_location req) \<and> pe_parent e = None)"
proof -
  let ?t = "ca_tenant who"
  let ?p = "cs_package v"
  obtain pkg where pkg: "pkg = (case cq_id req of None \<Rightarrow> minted pg Package | Some i \<Rightarrow> i)" by simp
  note s' = create_fresh [OF run fresh pkg]
  have v: "?p = pkg" using s' by simp
  have "plan_of ?t f s' = map (onto_package ?p) (filter (\<lambda>p. pc_id p \<noteq> ?p) (plan_of ?t f s))" for f
    by (rule plan_of_used_up) (use s' in \<open>simp_all add: used_up v\<close>)
  moreover have "packages s' = packages s @ [made_row ?t pkg req s]"
      "package_events s' = package_events s @ [created_event pg who pkg req]"
    using s' by simp_all
  ultimately show ?thesis
    using s' v by (simp add: onto_package_def [abs_def] made_row_def created_event_def)
qed

text \<open>The pallet of the sample plan is made, and the carton planned onto it is planned onto what was made.\<close>

definition sample_create :: create_request where
  "sample_create = \<lparr>cq_id = Some 1, cq_fulfilment = Some 41, cq_sequence = None, cq_type = Some 99,
     cq_config = None, cq_own_item = None, cq_own_level = None, cq_location = 9, cq_breaks_down = False,
     cq_carrier = None, cq_barcode = None, cq_sscc = None, cq_source = None, cq_event = 504,
     cq_occurred_at = 10\<rparr>"

definition sample_create_db :: db where
  "sample_create_db = sample_plan_db\<lparr>
     locations := [\<lparr>lo_id = 9, lo_tenant = 10, lo_kind = ''staging'', lo_site = None\<rparr>],
     plan_parcels := map (plan_row 10 41 0) sample_plan\<rparr>"

theorem create_uses_up_plan_witness:
  "\<exists>v s'. create_package sample_pg sample_caller sample_create sample_create_db = Inr (v, s')
    \<and> map pc_on_package (plan_of 10 41 s') = [Some 1]"
proof -
  have "\<not> isl (create_package sample_pg sample_caller sample_create sample_create_db)" by code_simp
  then obtain v s' where run: "create_package sample_pg sample_caller sample_create sample_create_db = Inr (v, s')"
    by (cases "create_package sample_pg sample_caller sample_create sample_create_db") auto
  have fresh: "\<not> claimed (ca_tenant sample_caller) (cq_event sample_create) sample_create_db" by code_simp
  have "map (\<lambda>p. (pc_id p, pc_on_parcel p, pc_on_package p)) (plan_of 10 41 sample_create_db)
      = [(1, None, None), (2, Some 1, None)]"
    by code_simp
  then obtain p q where plan: "plan_of 10 41 sample_create_db = [p, q]" "pc_id p = 1" "pc_id q = 2" "pc_on_parcel q = Some 1"
    by (auto simp: map_eq_Cons_conv)
  have "cs_package v = 1"
    using create_fresh [OF run fresh, of 1] by (simp add: sample_create_def)
  then have "map pc_on_package (plan_of (ca_tenant sample_caller) 41 s') = [Some 1]"
    using create_uses_up_plan [OF run fresh] plan by (auto simp: sample_caller_def)
  with run show ?thesis by (auto simp: sample_caller_def)
qed

end
