(* ===== verification/Server.thy ===== *)
theory Server
  imports Moving Picking Counting Adjusting Correction Findings Allocating Despatching Receipts Repacking Handover Creating
begin

text \<open>
  The server as one state machine: every write handler modelled, in any order, for any tenants.
  What each handler promises in its own theory gives one contract, and the reachable states of the
  machine keep it: the ledger only grows, an act owns at most one ledger row and keeps it, no tenant
  sees another's writes, containment stays a forest, and a signed-off finding stays signed off.
\<close>

section \<open>What a step may do\<close>

definition closed :: "discrepancy_row \<Rightarrow> bool" where
  "closed d \<longleftrightarrow> di_state d = ''accepted'' \<or> di_state d = ''resolved''"

definition kept :: "'a option \<Rightarrow> 'a option \<Rightarrow> bool" where
  "kept a b \<longleftrightarrow> a = None \<or> b = a"

lemma kept_refl [simp]: "kept a a" and kept_None [simp]: "kept None b"
  by (simp_all add: kept_def)

text \<open>A finding may move on; once closed its state and its sign-off stand.\<close>

definition follows :: "discrepancy_row \<Rightarrow> discrepancy_row \<Rightarrow> bool" where
  "follows d d' \<longleftrightarrow> di_id d' = di_id d \<and> di_tenant d' = di_tenant d \<and> di_kind d' = di_kind d
     \<and> (closed d \<longrightarrow> di_state d' = di_state d
          \<and> kept (di_resolved_at d) (di_resolved_at d') \<and> kept (di_resolved_by d) (di_resolved_by d')
          \<and> kept (di_resolution_reason d) (di_resolution_reason d')
          \<and> kept (di_resolving_movement d) (di_resolving_movement d'))"

lemma follows_refl [simp]: "follows d d"
  by (simp add: follows_def)

lemma kept_trans: "kept a b \<Longrightarrow> kept b c \<Longrightarrow> kept a c"
  by (auto simp: kept_def)

lemma follows_trans:
  assumes "follows a b" and "follows b c"
  shows "follows a c"
proof -
  have "closed b" if "closed a" using assms(1) that by (auto simp: follows_def closed_def)
  then show ?thesis using assms unfolding follows_def by (metis kept_trans)
qed

lemma kept_Some: "kept a b = (\<forall>x. a = Some x \<longrightarrow> b = Some x)"
  by (cases a) (auto simp: kept_def)

lemma follows_final:
  assumes "follows d d'"
  shows "di_state d \<in> {''accepted'', ''resolved''} \<longrightarrow> di_state d' = di_state d
     \<and> (\<forall>p. di_resolved_by d = Some p \<longrightarrow> di_resolved_by d' = Some p)
     \<and> (\<forall>w. di_resolved_at d = Some w \<longrightarrow> di_resolved_at d' = Some w)
     \<and> (\<forall>r. di_resolution_reason d = Some r \<longrightarrow> di_resolution_reason d' = Some r)
     \<and> (\<forall>m. di_resolving_movement d = Some m \<longrightarrow> di_resolving_movement d' = Some m)"
proof
  assume "di_state d \<in> {''accepted'', ''resolved''}"
  then have "closed d" by (simp add: closed_def)
  with assms show "di_state d' = di_state d
     \<and> (\<forall>p. di_resolved_by d = Some p \<longrightarrow> di_resolved_by d' = Some p)
     \<and> (\<forall>w. di_resolved_at d = Some w \<longrightarrow> di_resolved_at d' = Some w)
     \<and> (\<forall>r. di_resolution_reason d = Some r \<longrightarrow> di_resolution_reason d' = Some r)
     \<and> (\<forall>m. di_resolving_movement d = Some m \<longrightarrow> di_resolving_movement d' = Some m)"
    unfolding follows_def kept_Some by blast
qed

text \<open>Rows are never removed; each row of the first list is followed by the same place of the second.\<close>

definition findings_follow :: "discrepancy_row list \<Rightarrow> discrepancy_row list \<Rightarrow> bool" where
  "findings_follow ds ds' \<longleftrightarrow> (\<exists>xs ys. ds' = xs @ ys \<and> list_all2 follows ds xs)"

lemma findings_follow_refl [simp]: "findings_follow ds ds"
  unfolding findings_follow_def by (rule exI [of _ ds], rule exI [of _ "[]"]) (simp add: list_all2_refl)

lemma findings_follow_append [simp]: "findings_follow ds (ds @ new)"
  unfolding findings_follow_def by (rule exI [of _ ds], rule exI [of _ new]) (simp add: list_all2_refl)

lemma findings_follow_trans:
  assumes "findings_follow a b" and "findings_follow b c"
  shows "findings_follow a c"
proof -
  obtain xs ys where 1: "b = xs @ ys" "list_all2 follows a xs"
    using assms(1) by (auto simp: findings_follow_def)
  obtain us vs where 2: "c = us @ vs" "list_all2 follows b us"
    using assms(2) by (auto simp: findings_follow_def)
  obtain u1 u2 where u: "us = u1 @ u2" "list_all2 follows xs u1"
    using 1(1) 2(2) by (auto simp: list_all2_append1)
  have "list_all2 follows a u1"
    using 1(2) u(2) by (rule list_all2_trans [rotated]) (rule follows_trans)
  then show ?thesis
    unfolding findings_follow_def
    by (intro exI [of _ u1] exI [of _ "u2 @ vs"]) (simp add: 2(1) u(1))
qed

lemma findings_follow_update:
  assumes "\<And>d. p d \<Longrightarrow> follows d (f d)"
  shows "findings_follow ds (update_rows tn io t i p f ds)"
proof -
  have "list_all2 follows ds (update_rows tn io t i p f ds)"
    by (auto simp: update_rows_def list_all2_map2 list_all2_same assms)
  then show ?thesis
    unfolding findings_follow_def by (intro exI [of _ "update_rows tn io t i p f ds"] exI [of _ "[]"]) simp
qed

lemma findings_follow_nth:
  assumes "findings_follow ds ds'" and "i < length ds"
  shows "i < length ds' \<and> follows (ds ! i) (ds' ! i)"
proof -
  obtain xs ys where x: "ds' = xs @ ys" "list_all2 follows ds xs"
    using assms(1) by (auto simp: findings_follow_def)
  then have "length xs = length ds" by (simp add: list_all2_lengthD)
  with x assms(2) show ?thesis by (simp add: nth_append list_all2_nthD)
qed

text \<open>The contract of one step of tenant \<open>t\<close>.\<close>

definition handled :: "uuid \<Rightarrow> db \<Rightarrow> db \<Rightarrow> bool" where
  "handled t s s' \<longleftrightarrow> isolated t s s'
     \<and> (well_keyed s \<longrightarrow> well_keyed s')
     \<and> (\<exists>ms. movements s' = movements s @ ms)
     \<and> (\<forall>t' act. claimed t' act s \<longrightarrow> claimed t' act s' \<and> facts_of t' act s' = facts_of t' act s)
     \<and> plants t s s'
     \<and> findings_follow (discrepancies s) (discrepancies s')"

lemma handled_refl [simp]: "handled t s s"
  by (simp add: handled_def plants_def)

lemma handled_act:
  assumes "act_effect t act s s'" and "plants t s s'"
    and "findings_follow (discrepancies s) (discrepancies s')"
  shows "handled t s s'"
proof -
  have "isolated t s s'" using assms(1) by (simp add: act_effect_def)
  moreover have "well_keyed s \<longrightarrow> well_keyed s'" using act_effect_well_keyed [OF assms(1)] by simp
  moreover have "claimed t' act' s'" "facts_of t' act' s' = facts_of t' act' s" if "claimed t' act' s" for t' act'
    using act_effect_append_only(2) [OF assms(1) that] act_effect_facts_stable [OF assms(1) that] .
  ultimately show ?thesis
    using act_effect_append_only(1) [OF assms(1)] assms(2,3) by (simp add: handled_def)
qed

lemma handled_act_only:
  assumes "act_effect t act s s'" and "package_events s' = package_events s"
    and "findings_follow (discrepancies s) (discrepancies s')"
  shows "handled t s s'"
  using assms by (intro handled_act) (simp_all add: plants_def)

lemma handled_quiet:
  assumes "isolated t s s'" and "client_events s' = client_events s" "movements s' = movements s"
    "package_events s' = package_events s"
    and "findings_follow (discrepancies s) (discrepancies s')"
  shows "handled t s s'"
proof -
  have "well_keyed s' = well_keyed s" using assms(2,3) by (rule well_keyed_cong)
  moreover have "claimed t' act s' = claimed t' act s" "facts_of t' act s' = facts_of t' act s" for t' act
    using assms(2,3) by (simp_all add: claimed_def facts_of_def)
  moreover have "\<exists>ms. movements s' = movements s @ ms" using assms(3) by simp
  ultimately show ?thesis using assms(1,4,5) by (simp add: handled_def plants_def)
qed

section \<open>Each handler keeps it\<close>

lemma move_handled:
  assumes run: "record_move pg who req s = Inr (v, s')"
  shows "handled (ca_tenant who) s s'"
proof (cases "claimed (ca_tenant who) (rm_event req) s")
  case True
  then show ?thesis using move_writer.replay [OF run] by simp
next
  case False
  have "package_events s' = package_events s \<and> discrepancies s' = discrepancies s"
    by (rule record_move_fresh [OF run False]) simp
  then show ?thesis using handled_act_only [OF move_writer.effect [OF run]] by simp
qed

lemma pick_handled:
  assumes run: "record_pick pg who req s = Inr (v, s')"
  shows "handled (ca_tenant who) s s'"
proof (cases "claimed (ca_tenant who) (rp_event req) s")
  case True
  then show ?thesis using pick_writer.replay [OF run] by simp
next
  case False
  have "package_events s' = package_events s \<and> discrepancies s' = discrepancies s"
    by (rule record_pick_fresh [OF run False]) simp
  then show ?thesis using handled_act_only [OF pick_writer.effect [OF run]] by simp
qed

lemma repack_handled:
  assumes run: "repack groups pg who req s = Inr (v, s')"
  shows "handled (ca_tenant who) s s'"
  using handled_act_only [OF repack_writer.effect [OF run]] repack_frame(1,2) [OF run] by simp

lemma handover_handled:
  assumes run: "record_handover pg who req s = Inr (v, s')"
  shows "handled (ca_tenant who) s s'"
  using handled_act_only [OF handover_writer.effect [OF run]] handover_frame(1,2) [OF run] by simp

lemma create_handled:
  assumes run: "create_package pg who req s = Inr (v, s')"
  shows "handled (ca_tenant who) s s'"
  using create_runs [OF run] by (intro handled_act [of _ "cq_event req"]) simp_all

lemma plan_handled:
  assumes run: "save_plan pg who f parcels s = Inr (v, s')"
  shows "handled (ca_tenant who) s s'"
proof -
  obtain ps ls where s': "s' = s\<lparr>plan_parcels := ps, plan_lines := ls\<rparr>"
    using save_plan_effect(1) [OF run] by blast
  show ?thesis using save_plan_effect(2) [OF run] by (intro handled_quiet) (simp_all add: s')
qed

lemma count_handled:
  assumes run: "record_count pg who req s = Inr (v, s')"
  shows "handled (ca_tenant who) s s'"
proof (cases "claimed (ca_tenant who) (rc_event req) s")
  case True
  then show ?thesis using count_writer.replay [OF run] by simp
next
  case False
  have "package_events s' = package_events s"
      and "findings_follow (discrepancies s) (discrepancies s')"
    by (rule record_count_fresh [OF run False], simp)+
  then show ?thesis using handled_act_only [OF count_writer.effect [OF run]] by simp
qed

lemma correction_handled:
  assumes run: "record_correction sh clock pg who req s = Inr (v, s')"
  shows "handled (ca_tenant who) s s'"
proof (cases "claimed (ca_tenant who) (rx_event req) s")
  case True
  then show ?thesis using correction_writer.replay [OF run] by simp
next
  case False
  have "package_events s' = package_events s \<and> discrepancies s' = discrepancies s"
    by (rule record_correction_fresh [OF run False]) simp
  then show ?thesis using handled_act_only [OF correction_writer.effect [OF run]] by simp
qed

text \<open>A package act touches no finding.\<close>

lemma package_act_handled:
  assumes eff: "act_effect t act s s'" and plants: "plants t s s'"
    and act: "runs_package_act pg who act' s s'"
  shows "handled t s s'"
proof -
  obtain w e upd why ws i ws' where run: "package_act pg who act' w e upd why ws s = Inr ((i, ws'), s')"
    using act unfolding runs_package_act_def by fastforce
  have "discrepancies s' = discrepancies s"
  proof (cases "claimed (ca_tenant who) act' s")
    case True
    then show ?thesis using package_act_replay(1) [OF run] by simp
  next
    case False
    then show ?thesis using package_act_fresh [OF run] by simp
  qed
  with eff plants show ?thesis by (intro handled_act) simp_all
qed

lemma place_handled: "place_package pg who r s = Inr (v, s') \<Longrightarrow> handled (ca_tenant who) s s'"
  by (rule package_act_handled [OF place_writer.effect place_writer.plants place_runs_act])

lemma contain_handled: "contain_package pg who r s = Inr (v, s') \<Longrightarrow> handled (ca_tenant who) s s'"
  by (rule package_act_handled [OF contain_writer.effect contain_writer.plants contain_runs_act])

lemma void_handled: "void_package pg who r s = Inr (v, s') \<Longrightarrow> handled (ca_tenant who) s s'"
  by (rule package_act_handled [OF void_writer.effect void_writer.plants void_runs_act])

lemma seal_handled: "seal_package pg who r s = Inr (v, s') \<Longrightarrow> handled (ca_tenant who) s s'"
  by (rule package_act_handled [OF seal_writer.effect seal_writer.plants seal_runs_act])

lemma open_handled: "open_package pg who r s = Inr (v, s') \<Longrightarrow> handled (ca_tenant who) s s'"
  by (rule package_act_handled [OF open_writer.effect open_writer.plants open_runs_act])

lemma itself_handled: "despatch_itself pg who r s = Inr (v, s') \<Longrightarrow> handled (ca_tenant who) s s'"
  by (rule package_act_handled [OF itself_writer.effect itself_writer.plants despatch_itself_runs_act])

lemma despatch_line_handled:
  assumes run: "despatch_line_tx pg who pkg line req s = Inr (v, s')"
  shows "handled (ca_tenant who) s s'"
proof (cases "claimed (ca_tenant who) (rd_event req) s")
  case True
  then show ?thesis using despatch_line_replay [OF run] by simp
next
  case False
  have "discrepancies s' = discrepancies s"
    by (rule despatch_line_fresh [OF run False]) simp
  then show ?thesis
    using handled_act [OF despatch_line_contract(1) [OF run] despatch_line_contract(3) [OF run]] by simp
qed

lemma despatch_handled: "despatch_package pg who r s = Inr (v, s') \<Longrightarrow> handled (ca_tenant who) s s'"
  by (erule despatch_package_cases) (erule itself_handled, erule despatch_line_handled)

lemma allocation_handled:
  assumes run: "record_allocation clock pg who req s = Inr (v, s')"
  shows "handled (ca_tenant who) s s'"
proof (cases "Option.bind (rl_id req) (\<lambda>i. prior_allocation (ca_tenant who) i s)")
  case None
  show ?thesis
  proof (rule record_allocation_claims [OF run None])
    assume s': "s' = mark_dirty pg (ca_tenant who) ''allocation''
       (s\<lparr>allocations := allocations s @ [claim_row (lr_allocation v) who clock req]\<rparr>)"
    have "isolated (ca_tenant who) s s'"
      unfolding s' by (rule isolated_trans [OF isolated_insert(6) isolated_mark_dirty]) simp
    then show ?thesis by (rule handled_quiet) (simp_all add: s')
  qed
next
  case (Some prior)
  then show ?thesis using record_allocation_replay(1) [OF run] by (auto simp: bind_eq_Some_conv)
qed

lemma release_handled:
  assumes "release_allocation pg who i force s = Inr (v, s')"
  shows "handled (ca_tenant who) s s'"
proof (rule release_allocation_effect [OF assms])
  let ?s1 = "s\<lparr>allocations := update_rows al_tenant al_id (ca_tenant who) i (\<lambda>_. True)
           (\<lambda>r. r\<lparr>al_state := ''released''\<rparr>) (allocations s)\<rparr>"
  assume s': "s' = mark_dirty pg (ca_tenant who) ''allocation_release'' ?s1"
  have "isolated (ca_tenant who) s ?s1"
    by (auto simp: isolated_def tenant_view_def intro!: update_rows_visible_other)
  then have "isolated (ca_tenant who) s s'" unfolding s' by (rule isolated_trans) simp
  then show ?thesis by (rule handled_quiet) (simp_all add: s')
qed

lemma investigate_handled:
  assumes "investigate_discrepancy pg who i note s = Inr (v, s')"
  shows "handled (ca_tenant who) s s'"
proof (rule investigate_frame [OF assms])
  fix n
  assume s': "s' = s\<lparr>discrepancies := update_rows di_tenant di_id (ca_tenant who) i still_open
      (investigated n) (discrepancies s)\<rparr>"
  have "findings_follow (discrepancies s) (discrepancies s')"
    unfolding s' by (simp, rule findings_follow_update)
      (auto simp: follows_def closed_def still_open_def)
  moreover have "isolated (ca_tenant who) s s'"
    unfolding s' by (rule isolated_discrepancies) simp
  ultimately show ?thesis by (intro handled_quiet) (simp_all add: s')
qed

lemma accept_handled:
  assumes "accept_discrepancy clock pg who i req s = Inr (v, s')"
  shows "handled (ca_tenant who) s s'"
proof (rule accept_frame [OF assms])
  fix w r n
  assume s': "s' = s\<lparr>discrepancies := update_rows di_tenant di_id (ca_tenant who) i may_accept
      (accepted w (ca_person who) r n) (discrepancies s)\<rparr>"
  have "findings_follow (discrepancies s) (discrepancies s')"
    unfolding s' by (simp, rule findings_follow_update)
      (auto simp: follows_def closed_def may_accept_def accepted_def coalesce_def kept_def
        split: option.splits)
  moreover have "isolated (ca_tenant who) s s'"
    unfolding s' by (rule isolated_discrepancies) simp
  ultimately show ?thesis by (intro handled_quiet) (simp_all add: s')
qed

text \<open>An adjustment closes an open finding at most.\<close>

lemma close_and_answer_follow:
  assumes "close_and_answer pg who req c f mid ws s = Inr (v, s')"
  shows "findings_follow (discrepancies s) (discrepancies s') \<and> package_events s' = package_events s"
proof (cases "mid = None \<or> f = None")
  case True
  then have "s' = s" using assms by (auto simp: close_and_answer_def split: option.splits)
  then show ?thesis by simp
next
  case False
  then obtain m fid where "resolve_finding pg who req (i64_sub (ra_counted req) (sk_quantity c))
      (sk_quantity c) m fid s = Inr s'"
    using assms by (auto simp: close_and_answer_def and_then_eq_Inr)
  then obtain why where s': "s' = s\<lparr>discrepancies := update_rows di_tenant di_id (ca_tenant who) fid
      finding_open (resolved_row who req m why) (discrepancies s)\<rparr>"
    by (auto simp: resolve_finding_def write_to_eq_Inr)
  show ?thesis unfolding s'
    by (auto intro!: findings_follow_update simp: follows_def closed_def finding_open_def)
qed

lemma adjustment_handled:
  assumes run: "record_adjustment pg who req s = Inr (v, s')"
  shows "handled (ca_tenant who) s s'"
proof -
  let ?dir = "\<lambda>c. direction_of (i64_sub (ra_counted req) (sk_quantity c))"
  obtain c ws where body: "adjust_write pg who req c (load_finding (ca_tenant who) req s)
      (?dir c) ws s = Inr (v, s')"
    by (rule record_adjustment_Inr [OF run])
  have "findings_follow (discrepancies s) (discrepancies s') \<and> package_events s' = package_events s"
  proof (cases "?dir c")
    case None
    then obtain m ws' where "close_and_answer pg who req c (load_finding (ca_tenant who) req s) m ws' s
        = Inr (v, s')"
      using body by (auto simp: adjust_write_def and_then_eq_Inr split: option.splits)
    then show ?thesis by (rule close_and_answer_follow)
  next
    case (Some d)
    show ?thesis
    proof (cases "claimed (ca_tenant who) (ra_event req) s")
      case True
      then have "s' = s" using body Some by (auto simp: adjust_write_def claim_act_def and_then_eq_Inr)
      then show ?thesis by simp
    next
      case False
      from close_and_answer_follow [OF adjust_write_fresh [OF body [unfolded Some] False]]
      show ?thesis by (simp add: adjusted_def)
    qed
  qed
  then show ?thesis using handled_act_only [OF adjust_writer.effect [OF run]] by simp
qed

section \<open>The machine\<close>

lemma rebuilt_handled:
  assumes "rebuilt t s s'"
  shows "handled t s s'"
proof -
  have s': "s' = s\<lparr>stock := stock s', fulfilment_lines := fulfilment_lines s', packages := packages s',
              expected_supplies := expected_supplies s', dirty := dirty s', freshness := freshness s'\<rparr>" and iso: "isolated t s s'"
    using assms by (simp_all add: rebuilt_def)
  have "client_events s' = client_events s" "movements s' = movements s"
      "package_events s' = package_events s" "discrepancies s' = discrepancies s"
    by (subst s', simp)+
  with iso show ?thesis by (intro handled_quiet) simp_all
qed

lemma receipt_handled:
  assumes run: "record_receipt ib pg who req s = Inr (v, s')" and db: "maintains (ib_refresh ib)"
  shows "handled (ca_tenant who) s s'"
proof (rule handled_act_only)
  show "act_effect (ca_tenant who) (gq_event req) s s'" "package_events s' = package_events s"
    using record_receipt_effect [OF run db] by simp_all
  show "findings_follow (discrepancies s) (discrepancies s')"
    using record_receipt_effect(4) [OF run db] by auto
qed

text \<open>
  One step: a handler of some tenant that committed, or the maintainers' rebuild.
\<close>

inductive step :: "uuid \<Rightarrow> db \<Rightarrow> db \<Rightarrow> bool" where
  move: "record_move pg who r1 s = Inr (v1, s') \<Longrightarrow> step (ca_tenant who) s s'"
| pick: "record_pick pg who r2 s = Inr (v2, s') \<Longrightarrow> step (ca_tenant who) s s'"
| count: "record_count pg who r3 s = Inr (v3, s') \<Longrightarrow> step (ca_tenant who) s s'"
| adjust: "record_adjustment pg who r4 s = Inr (v4, s') \<Longrightarrow> step (ca_tenant who) s s'"
| correct: "record_correction sh clock pg who r5 s = Inr (v5, s') \<Longrightarrow> step (ca_tenant who) s s'"
| investigate: "investigate_discrepancy pg who i note s = Inr (v6, s') \<Longrightarrow> step (ca_tenant who) s s'"
| accept: "accept_discrepancy clock pg who i r7 s = Inr (v7, s') \<Longrightarrow> step (ca_tenant who) s s'"
| allocate: "record_allocation clock pg who r8 s = Inr (v8, s') \<Longrightarrow> step (ca_tenant who) s s'"
| release: "release_allocation pg who i force s = Inr (v9, s') \<Longrightarrow> step (ca_tenant who) s s'"
| place: "place_package pg who r10 s = Inr (v10, s') \<Longrightarrow> step (ca_tenant who) s s'"
| contain: "contain_package pg who r11 s = Inr (v11, s') \<Longrightarrow> step (ca_tenant who) s s'"
| void: "void_package pg who r12 s = Inr (v12, s') \<Longrightarrow> step (ca_tenant who) s s'"
| seal: "seal_package pg who r13 s = Inr (v13, s') \<Longrightarrow> step (ca_tenant who) s s'"
| unseal: "open_package pg who r14 s = Inr (v14, s') \<Longrightarrow> step (ca_tenant who) s s'"
| despatch: "despatch_package pg who r15 s = Inr (v15, s') \<Longrightarrow> step (ca_tenant who) s s'"
| receive: "record_receipt ib pg who r16 s = Inr (v16, s') \<Longrightarrow> maintains (ib_refresh ib) \<Longrightarrow>
    step (ca_tenant who) s s'"
| repack: "repack groups pg who r17 s = Inr (v17, s') \<Longrightarrow> step (ca_tenant who) s s'"
| hand_over: "record_handover pg who r18 s = Inr (v18, s') \<Longrightarrow> step (ca_tenant who) s s'"
| create: "create_package pg who r19 s = Inr (v19, s') \<Longrightarrow> step (ca_tenant who) s s'"
| save_plan: "save_plan pg who i parcels s = Inr (v20, s') \<Longrightarrow> step (ca_tenant who) s s'"
| rebuild: "rebuilt t s s' \<Longrightarrow> step t s s'"

lemmas handler_contracts =
  move_handled pick_handled count_handled adjustment_handled correction_handled
  investigate_handled accept_handled allocation_handled release_handled
  place_handled contain_handled void_handled seal_handled open_handled despatch_handled
  receipt_handled repack_handled handover_handled create_handled plan_handled rebuilt_handled

lemma step_handled: "step t s s' \<Longrightarrow> handled t s s'"
  by (induction rule: step.induct) (assumption | erule handler_contracts)+

text \<open>Any number of steps, by any tenants.\<close>

inductive steps :: "db \<Rightarrow> db \<Rightarrow> bool" where
  none: "steps s s"
| more: "steps s s' \<Longrightarrow> step t s' s'' \<Longrightarrow> steps s s''"

inductive_cases stepsE: "steps s s'"

text \<open>The steps of the tenants other than \<open>t\<close>.\<close>

inductive others :: "uuid \<Rightarrow> db \<Rightarrow> db \<Rightarrow> bool" for t where
  others_none: "others t s s"
| others_more: "others t s s' \<Longrightarrow> step t' s' s'' \<Longrightarrow> t' \<noteq> t \<Longrightarrow> others t s s''"

lemma others_view: "others t s s' \<Longrightarrow> tenant_view t s' = tenant_view t s"
  by (induction rule: others.induct)
    (auto dest!: step_handled simp: handled_def isolated_def)

lemma steps_contract:
  assumes "steps s s'"
  shows "(well_keyed s \<longrightarrow> well_keyed s') \<and> (\<exists>ms. movements s' = movements s @ ms)
     \<and> (\<forall>t act. claimed t act s \<longrightarrow> claimed t act s' \<and> facts_of t act s' = facts_of t act s)
     \<and> (\<forall>t. forest t s \<longrightarrow> forest t s') \<and> findings_follow (discrepancies s) (discrepancies s')"
  using assms
proof (induction rule: steps.induct)
  case (more s s' t s'')
  from step_handled [OF more.hyps(2)] have h: "handled t s' s''" .
  have forest: "forest t' s' \<longrightarrow> forest t' s''" for t'
    using h plants_forest unfolding handled_def by blast
  obtain ms ms' where "movements s' = movements s @ ms" "movements s'' = movements s' @ ms'"
    using more.IH h unfolding handled_def by blast
  then have "movements s'' = movements s @ (ms @ ms')" by simp
  then have "\<exists>ms. movements s'' = movements s @ ms" by blast
  moreover have "claimed t act s'' \<and> facts_of t act s'' = facts_of t act s" if "claimed t act s" for t act
    using more.IH h that unfolding handled_def by simp
  moreover have "findings_follow (discrepancies s) (discrepancies s'')"
    using more.IH h findings_follow_trans unfolding handled_def by blast
  moreover have "well_keyed s \<longrightarrow> well_keyed s''" using more.IH h unfolding handled_def by simp
  ultimately show ?case using more.IH forest by simp
qed simp

section \<open>Properties\<close>

lemma runs: "\<not> isl r \<Longrightarrow> \<exists>v s'. r = Inr (v, s')"
  by (cases r) auto

lemma run_then:
  "(case r of Inl _ \<Rightarrow> False | Inr (v, s') \<Rightarrow> P v s') \<Longrightarrow> \<exists>v s'. r = Inr (v, s') \<and> P v s'"
  by (cases r) auto

text \<open>
  C1: On a server started with no envelope and no ledger row, whatever handlers run for whatever
  tenants, with whatever retries and rebuilds: a tenant's client event is claimed once, every ledger
  row belongs to a claimed client event of its tenant, and no client event owns two ledger rows.
\<close>

theorem reachable_acts_own_one_row:
  assumes "steps s s'" and "client_events s = []" and "movements s = []"
  shows "distinct (map (\<lambda>e. (ce_tenant e, ce_id e)) (client_events s'))
    \<and> (\<forall>m \<in> set (movements s'). \<exists>e \<in> set (client_events s').
         ce_tenant e = mv_tenant m \<and> ce_id e = mv_event m)
    \<and> (\<forall>t act. length (filter (\<lambda>m. mv_tenant m = t \<and> mv_event m = act) (movements s')) \<le> 1)"
proof -
  have "well_keyed s" using assms(2,3) by (simp add: well_keyed_def facts_of_def)
  then have "well_keyed s'" using steps_contract [OF assms(1)] by simp
  then show ?thesis unfolding well_keyed_def claimed_def facts_of_def by blast
qed

text \<open>A first count, then a seal by another tenant's caller, on a fresh server.\<close>

definition fresh_db :: db where
  "fresh_db = packed_db\<lparr>client_events := [], movements := []\<rparr>"

lemma fresh_db_steps:
  "\<exists>s1 s2 v1 v2. record_count sample_pg sample_caller sample_count fresh_db = Inr (v1, s1)
    \<and> record_move (willing_pg (\<lambda>_. 79)) sample_caller sample_move s1 = Inr (v2, s2)
    \<and> steps fresh_db s2 \<and> length (movements s2) = 1"
proof -
  have "\<not> isl (record_count sample_pg sample_caller sample_count fresh_db)" by code_simp
  then obtain v1 s1 where 1: "record_count sample_pg sample_caller sample_count fresh_db = Inr (v1, s1)"
    using runs by blast
  have both: "case record_count sample_pg sample_caller sample_count fresh_db of Inl _ \<Rightarrow> False
      | Inr (_, s1) \<Rightarrow> (case record_move (willing_pg (\<lambda>_. 79)) sample_caller sample_move s1 of
          Inl _ \<Rightarrow> False | Inr (_, s2) \<Rightarrow> length (movements s2) = 1)" by code_simp
  then obtain v2 s2 where 2: "record_move (willing_pg (\<lambda>_. 79)) sample_caller sample_move s1 = Inr (v2, s2)"
      "length (movements s2) = 1"
    unfolding 1 by (auto split: sum.splits)
  have "steps fresh_db s1" by (rule steps.more [OF steps.none step.count [OF 1]])
  then have "steps fresh_db s2" by (rule steps.more) (rule step.move [OF 2(1)])
  with 1 2 show ?thesis by blast
qed

theorem reachable_acts_own_one_row_witness:
  "\<exists>s2 :: db. length (movements s2) = 1
     \<and> (\<forall>m \<in> set (movements s2). \<exists>e \<in> set (client_events s2).
          ce_tenant e = mv_tenant m \<and> ce_id e = mv_event m)"
proof -
  obtain s2 where s2: "steps fresh_db s2" "length (movements s2) = 1" using fresh_db_steps by blast
  have "client_events fresh_db = []" and "movements fresh_db = []" by (simp_all add: fresh_db_def)
  from reachable_acts_own_one_row [OF s2(1) this] s2(2) show ?thesis
    by (intro exI [of _ s2] conjI) simp_all
qed

text \<open>
  C5: History is immutable.  After any further steps every ledger row stands where it stood with
  every column as it was, and an act that was claimed has exactly the ledger rows it had.
\<close>

theorem history_is_immutable:
  assumes "steps s s'"
  shows "(\<forall>i < length (movements s). i < length (movements s') \<and> movements s' ! i = movements s ! i)
    \<and> (\<forall>t act. claimed t act s \<longrightarrow> facts_of t act s' = facts_of t act s)"
proof -
  obtain ms where "movements s' = movements s @ ms" using steps_contract [OF assms] by blast
  then show ?thesis using steps_contract [OF assms] by (simp add: nth_append)
qed

theorem history_is_immutable_witness:
  "\<exists>s1 s2. steps s1 s2 \<and> facts_of 10 (rc_event sample_count) s2 = facts_of 10 (rc_event sample_count) s1"
proof -
  obtain s1 s2 v1 v2 where run: "record_count sample_pg sample_caller sample_count fresh_db = Inr (v1, s1)"
      "record_move (willing_pg (\<lambda>_. 79)) sample_caller sample_move s1 = Inr (v2, s2)"
    using fresh_db_steps by blast
  have 12: "steps s1 s2" by (rule steps.more [OF steps.none step.move [OF run(2)]])
  have "claimed 10 (rc_event sample_count) s1"
    using count_writer.claims [OF run(1)] by (simp add: sample_caller_def)
  with history_is_immutable [OF 12] 12 show ?thesis by blast
qed



text \<open>
  C2: A signed-off finding stays signed off.  Findings are never removed or re-keyed, and once one is
  accepted or resolved no later step changes its state, who signed it off, when, why, or the movement
  that resolved it.
\<close>

theorem signed_off_findings_are_final:
  assumes "steps s s'" and "i < length (discrepancies s)"
  shows "i < length (discrepancies s')
    \<and> di_id (discrepancies s' ! i) = di_id (discrepancies s ! i)
    \<and> (di_state (discrepancies s ! i) \<in> {''accepted'', ''resolved''} \<longrightarrow>
         di_state (discrepancies s' ! i) = di_state (discrepancies s ! i)
         \<and> (\<forall>p. di_resolved_by (discrepancies s ! i) = Some p \<longrightarrow>
              di_resolved_by (discrepancies s' ! i) = Some p)
         \<and> (\<forall>w. di_resolved_at (discrepancies s ! i) = Some w \<longrightarrow>
              di_resolved_at (discrepancies s' ! i) = Some w)
         \<and> (\<forall>r. di_resolution_reason (discrepancies s ! i) = Some r \<longrightarrow>
              di_resolution_reason (discrepancies s' ! i) = Some r)
         \<and> (\<forall>m. di_resolving_movement (discrepancies s ! i) = Some m \<longrightarrow>
              di_resolving_movement (discrepancies s' ! i) = Some m))"
proof -
  have "findings_follow (discrepancies s) (discrepancies s')" using steps_contract [OF assms(1)] by blast
  from findings_follow_nth [OF this assms(2)]
  have "i < length (discrepancies s')" and f: "follows (discrepancies s ! i) (discrepancies s' ! i)" by simp_all
  then show ?thesis using follows_final [OF f] by (simp add: follows_def)
qed

definition signed_off :: discrepancy_row where
  "signed_off = \<lparr>di_id = 90, di_tenant = 10, di_kind = ''count_variance'', di_state = ''accepted'',
     di_item = Some 100, di_holder = no_side, di_expected = Some 50, di_observed = Some 48,
     di_stock_count = None, di_detail = None, di_detected_at = 3, di_detected_by = Some 20,
     di_resolved_at = Some 4, di_resolved_by = Some 20, di_resolving_movement = None,
     di_resolution_reason = Some ''within tolerance'', di_receipt_line = None\<rparr>"

definition signed_db :: db where
  "signed_db = fresh_db\<lparr>discrepancies := [signed_off], persons := [20, 21]\<rparr>"

definition second_accept :: accept_request where
  "second_accept = \<lparr>aq_reason = ''again'', aq_note = None, aq_accepted_at = Some 9\<rparr>"

theorem signed_off_findings_are_final_witness:
  "\<exists>v s'. accept_discrepancy 9 sample_pg (sample_caller\<lparr>ca_person := 21\<rparr>) 90 second_accept signed_db
       = Inr (v, s')
     \<and> di_resolved_by (discrepancies s' ! 0) = Some 20 \<and> di_resolved_at (discrepancies s' ! 0) = Some 4"
proof -
  have "\<not> isl (accept_discrepancy 9 sample_pg (sample_caller\<lparr>ca_person := 21\<rparr>) 90 second_accept signed_db)"
    by code_simp
  then obtain v s' where
      run: "accept_discrepancy 9 sample_pg (sample_caller\<lparr>ca_person := 21\<rparr>) 90 second_accept signed_db
        = Inr (v, s')"
    using runs by blast
  have "steps signed_db s'" by (rule steps.more [OF steps.none step.accept [OF run]])
  moreover have "0 < length (discrepancies signed_db)" by (simp add: signed_db_def)
  ultimately have "di_resolved_by (discrepancies s' ! 0) = Some 20 \<and> di_resolved_at (discrepancies s' ! 0) = Some 4"
    using signed_off_findings_are_final [of signed_db s' 0] by (simp add: signed_db_def signed_off_def)
  with run show ?thesis by blast
qed

text \<open>
  C4: A pick may be retried at any later time.  Whatever ran since, for whomever, and whatever the
  folds rebuilt: if the same request under the same client event is answered at all, it is answered
  with the first attempt's movement, and it writes nothing.
\<close>

theorem pick_retry_any_time:
  assumes first: "record_pick pg who req s = Inr (v, s')"
    and fresh: "well_keyed s" "\<not> claimed (ca_tenant who) (rp_event req) s"
    and later: "steps s' s''"
    and again: "record_pick pg' who' req s'' = Inr (v', s3)" "ca_tenant who' = ca_tenant who"
  shows "s3 = s'' \<and> rpr_movement v' = rpr_movement v"
proof -
  have old': "claimed (ca_tenant who) (rp_event req) s'" by (rule pick_writer.claims [OF first])
  then have old: "claimed (ca_tenant who') (rp_event req) s''"
    using steps_contract [OF later] again(2) by simp
  have facts: "facts_of (ca_tenant who') (rp_event req) s'' = facts_of (ca_tenant who) (rp_event req) s'"
    using steps_contract [OF later] old' again(2) by simp
  obtain c d where m: "movements s' = movements s @ [pick_movement pg who req (pick_sides c d)]"
      "rpr_movement v = minted pg Stock_movement"
    by (rule record_pick_fresh [OF first fresh(2)]) simp
  have "require_one_movement (ca_tenant who') (rp_event req) s'' = Inr (rpr_movement v, rp_quantity req)"
    using require_one_movement_facts [of "ca_tenant who'" "rp_event req" s''
        "pick_movement pg who req (pick_sides c d)"]
      facts_of_fresh [OF fresh m(1)] facts m(2) by (simp add: pick_movement_def)
  then show ?thesis using record_pick_replay [OF again(1) old] by simp
qed

definition seal_after :: seal_request where
  "seal_after = \<lparr>rz_event = 621, rz_occurred_at = 20, rz_source = None, rz_hollow = None\<rparr>"

theorem pick_retry_any_time_witness:
  "\<exists>v s1 v' s2. record_pick sample_pg sample_caller sample_pick sample_pick_db = Inr (v, s1)
     \<and> s2 \<noteq> s1 \<and> record_pick (willing_pg (\<lambda>_. 80)) sample_caller sample_pick s2 = Inr (v', s2)
     \<and> rpr_movement v' = rpr_movement v"
proof -
  have "case record_pick sample_pg sample_caller sample_pick sample_pick_db of Inl _ \<Rightarrow> False
    | Inr (v, s1) \<Rightarrow> (case seal_package sample_pg sample_caller (30, seal_after) s1 of Inl _ \<Rightarrow> False
      | Inr (v2, s2) \<Rightarrow> package_events s2 \<noteq> package_events s1
          \<and> \<not> isl (record_pick (willing_pg (\<lambda>_. 80)) sample_caller sample_pick s2))"
    by code_simp
  from run_then [OF this] obtain v s1 where 1: "record_pick sample_pg sample_caller sample_pick sample_pick_db = Inr (v, s1)"
    and rest: "case seal_package sample_pg sample_caller (30, seal_after) s1 of Inl _ \<Rightarrow> False
      | Inr (v2, s2) \<Rightarrow> package_events s2 \<noteq> package_events s1
          \<and> \<not> isl (record_pick (willing_pg (\<lambda>_. 80)) sample_caller sample_pick s2)"
    by blast
  from run_then [OF rest] obtain v2 s2 where
      2: "seal_package sample_pg sample_caller (30, seal_after) s1 = Inr (v2, s2)"
      and new: "package_events s2 \<noteq> package_events s1"
      and third: "\<not> isl (record_pick (willing_pg (\<lambda>_. 80)) sample_caller sample_pick s2)"
    by blast
  from runs [OF third] obtain v' s3 where
      3: "record_pick (willing_pg (\<lambda>_. 80)) sample_caller sample_pick s2 = Inr (v', s3)" by blast
  have "well_keyed sample_pick_db"
    by (auto simp: well_keyed_def sample_pick_db_def sample_defs claimed_def facts_of_def)
  moreover have "\<not> claimed (ca_tenant sample_caller) (rp_event sample_pick) sample_pick_db" by code_simp
  moreover have "steps s1 s2" by (rule steps.more [OF steps.none step.seal [OF 2]])
  ultimately have "s3 = s2 \<and> rpr_movement v' = rpr_movement v"
    using pick_retry_any_time [OF 1 _ _ _ 3] by blast
  moreover have "s2 \<noteq> s1" using new by blast
  ultimately show ?thesis using 1 3 by blast
qed

end
