(* ===== verification/Barcodes.thy ===== *)
theory Barcodes
  imports Prelude
begin

text \<open>
  What a scanner handed over: \<^verbatim>\<open>barcodes.rs\<close>, what may be bound to it: \<^verbatim>\<open>binding.rs\<close>, and
  the word for a lookup of \<^verbatim>\<open>locator.rs\<close>.  Text is the list of its Unicode code points, since the
  parser counts characters in one place and UTF-8 bytes in another.
\<close>

section \<open>Text\<close>

type_synonym ustr = "nat list"

definition ascii :: "string \<Rightarrow> ustr" where
  "ascii s = map of_char s"

text \<open>How many bytes a code point takes in UTF-8, and \<open>str::len\<close>.\<close>

definition utf8_width :: "nat \<Rightarrow> nat" where
  "utf8_width c = (if c < 128 then 1 else if c < 2048 then 2 else if c < 65536 then 3 else 4)"

definition byte_len :: "ustr \<Rightarrow> nat" where
  "byte_len s = sum_list (map utf8_width s)"

text \<open>\<open>&s[n..]\<close>, a panic (no value) inside a character or past the end.\<close>

fun slice_from :: "nat \<Rightarrow> ustr \<Rightarrow> ustr option" where
  "slice_from 0 s = Some s"
| "slice_from n [] = None"
| "slice_from n (c # s) = (if utf8_width c \<le> n then slice_from (n - utf8_width c) s else None)"

text \<open>\<open>char::is_whitespace\<close>: the code points with the property \<open>White_Space\<close>.\<close>

definition white_space :: "nat \<Rightarrow> bool" where
  "white_space c \<longleftrightarrow> (9 \<le> c \<and> c \<le> 13) \<or> c = 32 \<or> c = 133 \<or> c = 160 \<or> c = 5760
     \<or> (8192 \<le> c \<and> c \<le> 8202) \<or> c = 8232 \<or> c = 8233 \<or> c = 8239 \<or> c = 8287 \<or> c = 12288"

definition trim_matches :: "(nat \<Rightarrow> bool) \<Rightarrow> ustr \<Rightarrow> ustr" where
  "trim_matches p s = rev (dropWhile p (rev (dropWhile p s)))"

definition is_digit :: "nat \<Rightarrow> bool" where
  "is_digit c \<longleftrightarrow> 48 \<le> c \<and> c \<le> 57"

definition digit :: "nat \<Rightarrow> nat" where
  "digit c = c - 48"

lemma digit_less: "is_digit c \<Longrightarrow> digit c < 10"
  by (auto simp: is_digit_def digit_def)

lemma digit_inj: "is_digit a \<Longrightarrow> is_digit b \<Longrightarrow> digit a = digit b \<Longrightarrow> a = b"
  by (auto simp: is_digit_def digit_def)

lemma digits_byte_len: "list_all is_digit s \<Longrightarrow> byte_len s = length s"
  by (induction s) (auto simp: byte_len_def utf8_width_def is_digit_def)

section \<open>Check digits\<close>

definition FNC1 :: nat where
  "FNC1 = 29"

text \<open>The sum over the body from its right end, with weights 3 and 1 in turn.\<close>

fun weighted :: "nat \<Rightarrow> ustr \<Rightarrow> nat" where
  "weighted w [] = 0"
| "weighted w (c # cs) = digit c * w + weighted (4 - w) cs"

definition check_digit :: "ustr \<Rightarrow> nat option" where
  "check_digit body =
     (if body = [] \<or> \<not> list_all is_digit body then None
      else Some ((10 - weighted 3 (rev body) mod 10) mod 10))"

definition is_gtin :: "ustr \<Rightarrow> bool" where
  "is_gtin s \<longleftrightarrow> byte_len s \<in> {8, 12, 13, 14} \<and> list_all is_digit s
     \<and> check_digit (butlast s) = Some (digit (last s))"

text \<open>\<open>format!("{s:0>14}")\<close>.\<close>

definition pad14 :: "ustr \<Rightarrow> ustr" where
  "pad14 s = replicate (14 - length s) 48 @ s"

definition normalise_gtin :: "ustr \<Rightarrow> ustr option" where
  "normalise_gtin s = (if is_gtin s then Some (pad14 s) else None)"

definition sscc_ok :: "ustr \<Rightarrow> bool" where
  "sscc_ok s \<longleftrightarrow> check_digit (take 17 s) = Some (digit (s ! 17))"

text \<open>A number with a sound check digit is one whose own weighted sum ends in nought.\<close>

lemma complement_mod_10:
  fixes r d :: nat
  assumes "r < 10" and "d < 10"
  shows "(10 - r) mod 10 = d \<longleftrightarrow> (d + r) mod 10 = 0"
proof (cases "r = 0")
  case False
  have "(d + r) mod 10 = (if d + r < 10 then d + r else d + r - 10)"
    using assms by (simp add: mod_if)
  with False assms show ?thesis by auto
qed (use assms in simp)

lemma check_digit_sound:
  assumes "list_all is_digit s" and "2 \<le> length s"
  shows "check_digit (butlast s) = Some (digit (last s)) \<longleftrightarrow> weighted 1 (rev s) mod 10 = 0"
proof -
  obtain b c where s: "s = b @ [c]" using assms(2) by (cases s rule: rev_cases) auto
  have b: "b \<noteq> []" "list_all is_digit b" "digit c < 10"
    using assms s by (auto intro: digit_less)
  have "(10 - weighted 3 (rev b) mod 10) mod 10 = digit c \<longleftrightarrow> (digit c + weighted 3 (rev b)) mod 10 = 0"
    using complement_mod_10 [of "weighted 3 (rev b) mod 10" "digit c"] b(3) by (simp add: mod_add_right_eq)
  then show ?thesis using b(1,2) by (simp add: s check_digit_def)
qed

lemma weighted_append:
  "w \<in> {1, 3} \<Longrightarrow> weighted w (xs @ ys) = weighted w xs + weighted (if even (length xs) then w else 4 - w) ys"
  by (induction xs arbitrary: w) auto

lemma weighted_zeros: "weighted w (replicate n 48) = 0"
  by (induction n arbitrary: w) (simp_all add: digit_def)

lemma is_gtin_iff:
  "is_gtin s \<longleftrightarrow> list_all is_digit s \<and> length s \<in> {8, 12, 13, 14} \<and> weighted 1 (rev s) mod 10 = 0"
proof (cases "list_all is_digit s \<and> length s \<in> {8, 12, 13, 14}")
  case True
  then have "2 \<le> length s" by auto
  with True show ?thesis by (simp add: is_gtin_def digits_byte_len check_digit_sound)
next
  case False
  then show ?thesis by (auto simp: is_gtin_def digits_byte_len)
qed

lemma is_gtin_pad14: "is_gtin s \<Longrightarrow> is_gtin (pad14 s) \<and> length (pad14 s) = 14"
  by (auto simp: is_gtin_iff pad14_def weighted_append weighted_zeros list_all_iff is_digit_def)

text \<open>One digit misread moves the sum by a multiple of 1 or 3, which ten does not divide.\<close>

lemma weighted_update:
  assumes "w \<in> {1, 3}" and "i < length s"
  shows "\<exists>k \<in> {1, 3}. weighted w (s[i := c]) + k * digit (s ! i) = weighted w s + k * digit c"
  using assms
proof (induction s arbitrary: w i)
  case (Cons a s)
  show ?case
  proof (cases i)
    case 0
    then show ?thesis using Cons.prems(1) by (intro bexI [of _ w]) (simp_all add: mult.commute)
  next
    case (Suc j)
    have "4 - w \<in> {1, 3}" using Cons.prems(1) by auto
    from Cons.IH [OF this, of j] Cons.prems(2) Suc show ?thesis by auto
  qed
qed simp

lemma misread_changes_sum:
  assumes "k \<in> {1, 3::nat}" and "d < 10" "e < 10" "d \<noteq> e"
    and "x + k * d = y + k * e" and "y mod 10 = 0"
  shows "x mod 10 \<noteq> 0"
proof
  assume x: "x mod 10 = 0"
  have "(x + k * d) mod 10 = (k * d) mod 10" "(y + k * e) mod 10 = (k * e) mod 10"
    using x assms(6) by (metis add_0 mod_add_left_eq)+
  then have same: "(k * d) mod 10 = (k * e) mod 10" using assms(5) by simp
  have undo: "(7 * (3 * n mod 10)) mod 10 = n" if "n < 10" for n :: nat
  proof -
    have "(7 * (3 * n mod 10)) mod 10 = (20 * n + n) mod 10" by (simp add: mod_mult_right_eq)
    also have "20 * n + n = n + 10 * (2 * n)" by simp
    also have "(n + 10 * (2 * n)) mod 10 = n mod 10" by (rule mod_mult_self2)
    finally show ?thesis using that by simp
  qed
  from assms(1) consider "k = 1" | "k = 3" by blast
  then show False
  proof cases
    case 1
    then show ?thesis using same assms(2-4) by simp
  next
    case 2
    then have "(7 * (3 * d mod 10)) mod 10 = (7 * (3 * e mod 10)) mod 10" using same by simp
    then show ?thesis using undo assms(2-4) by simp
  qed
qed

section \<open>Parsing\<close>

record scanned =
  sn_raw :: ustr
  sn_gtin :: "ustr option"
  sn_sscc :: "ustr option"
  sn_lot :: "ustr option"
  sn_expiry :: "ustr option"
  sn_serial :: "ustr option"
  sn_other :: "(ustr \<times> ustr) list"
  sn_gs1 :: bool

definition bare :: "ustr \<Rightarrow> scanned" where
  "bare raw = \<lparr>sn_raw = raw, sn_gtin = None, sn_sscc = None, sn_lot = None, sn_expiry = None,
     sn_serial = None, sn_other = [], sn_gs1 = False\<rparr>"

definition is_structured :: "scanned \<Rightarrow> bool" where
  "is_structured x \<longleftrightarrow> sn_gtin x \<noteq> None \<or> sn_sscc x \<noteq> None"

text \<open>The prefix is dropped by bytes: \<open>None\<close> is the panic of a slice inside a character.\<close>

definition strip_aim :: "ustr \<Rightarrow> ustr option" where
  "strip_aim raw = (if byte_len raw > 3 \<and> hd raw = 93 then slice_from 3 raw else Some raw)"

definition fixed_length :: "ustr \<Rightarrow> nat option" where
  "fixed_length ai =
     (if ai = ascii ''00'' then Some 18
      else if ai = ascii ''01'' then Some 14
      else if ai = ascii ''02'' then Some 14
      else if ai \<in> set (map ascii [''11'', ''12'', ''13'', ''15'', ''16'', ''17'']) then Some 6
      else if ai = ascii ''20'' then Some 2
      else None)"

definition variable_max :: "ustr \<Rightarrow> nat option" where
  "variable_max ai =
     (if ai = ascii ''10'' then Some 20
      else if ai = ascii ''21'' then Some 20
      else if ai = ascii ''30'' then Some 8
      else if ai = ascii ''37'' then Some 8
      else None)"

definition measure_ais :: "ustr list" where
  "measure_ais = map ascii [''31'', ''32'', ''33'', ''34'', ''35'', ''36'', ''39'']"

text \<open>The end of a value: the separator, or the end of the text.\<close>

definition to_separator :: "ustr \<Rightarrow> nat" where
  "to_separator cs = length (takeWhile (\<lambda>c. c \<noteq> FNC1) cs)"

definition set_field :: "ustr \<Rightarrow> ustr \<Rightarrow> scanned \<Rightarrow> scanned" where
  "set_field ai value out =
     (if ai = ascii ''01'' \<or> ai = ascii ''02''
      then (let g = normalise_gtin value in
            if g = None then out\<lparr>sn_gtin := None, sn_other := sn_other out @ [(ai, value)]\<rparr>
            else out\<lparr>sn_gtin := g\<rparr>)
      else if ai = ascii ''00'' then out\<lparr>sn_sscc := Some value\<rparr>
      else if ai = ascii ''10'' then out\<lparr>sn_lot := Some value\<rparr>
      else if ai = ascii ''17'' then out\<lparr>sn_expiry := Some value\<rparr>
      else if ai = ascii ''21'' then out\<lparr>sn_serial := Some value\<rparr>
      else out\<lparr>sn_other := sn_other out @ [(ai, value)]\<rparr>)"

text \<open>
  The loop over application identifiers.  \<open>cs\<close> is \<open>chars[i..]\<close>; the result is the fields and
  whether any was read.
\<close>

function elements :: "ustr \<Rightarrow> scanned \<Rightarrow> bool \<Rightarrow> scanned \<times> bool" where
  "elements cs out any =
     (if length cs < 2 then (out, any)
      else if hd cs = FNC1 then elements (tl cs) out any
      else
        let ai = take 2 cs; body = drop 2 cs in
        if \<not> list_all is_digit ai then (out, any)
        else if ai \<in> set measure_ais \<and> length cs > 3
        then elements (drop 10 cs) (out\<lparr>sn_other := sn_other out @ [(take 4 cs, take 6 (drop 4 cs))]\<rparr>) True
        else (case fixed_length ai of
                Some n \<Rightarrow> elements (drop n body) (set_field ai (take n body) out) True
              | None \<Rightarrow>
                  (case variable_max ai of
                     Some n \<Rightarrow>
                       (let e = min (to_separator body) n; rest = drop e body in
                        elements (if rest \<noteq> [] \<and> hd rest = FNC1 then tl rest else rest)
                          (set_field ai (take e body) out) True)
                   | None \<Rightarrow>
                       (let e = to_separator body in
                        elements (drop (e + 1) body)
                          (out\<lparr>sn_other := sn_other out @ [(ai, take e body)]\<rparr>) True))))"
  by pat_completeness auto

termination
  by (relation "measure (\<lambda>(cs, _, _). length cs)") auto

declare elements.simps [simp del]

definition parse :: "ustr \<Rightarrow> scanned option" where
  "parse input =
     (case strip_aim (trim_matches white_space input) of None \<Rightarrow> None | Some x \<Rightarrow>
        Some (let raw = trim_matches (\<lambda>c. c = FNC1) x in
          if normalise_gtin raw \<noteq> None then (bare raw)\<lparr>sn_gtin := normalise_gtin raw\<rparr>
          else if byte_len raw = 18 \<and> list_all is_digit raw \<and> sscc_ok raw
          then (bare raw)\<lparr>sn_sscc := Some raw\<rparr>
          else
            (let (out, any) = elements raw (bare raw) False;
                 gs1 = any \<and> (is_structured out \<or> sn_other out \<noteq> [] \<or> sn_lot out \<noteq> None) in
             if gs1 then out\<lparr>sn_gs1 := True\<rparr> else bare raw)))"

section \<open>What a lookup found\<close>

text \<open>\<open>alnum\<close> is \<open>char::is_alphanumeric\<close>.\<close>

definition looks_like_a_code :: "(nat \<Rightarrow> bool) \<Rightarrow> ustr \<Rightarrow> bool" where
  "looks_like_a_code alnum raw =
     (let t = trim_matches white_space raw in t \<noteq> [] \<and> list_ex alnum t)"

definition outcome_of :: "(nat \<Rightarrow> bool) \<Rightarrow> scanned \<Rightarrow> nat \<Rightarrow> string" where
  "outcome_of alnum scan hits =
     (if hits = 1 then ''resolved''
      else if hits > 1 then ''identifier_ambiguous''
      else if is_structured scan \<or> sn_gs1 scan then ''identifier_unknown''
      else if looks_like_a_code alnum (sn_raw scan) then ''identifier_unknown''
      else ''identifier_unrecognised'')"

section \<open>Binding a code to an item\<close>

record proposed_binding =
  pb_raw :: ustr
  pb_level :: ustr
  pb_quantity :: "i64 option"

definition LEVELS :: "ustr list" where
  "LEVELS = map ascii [''each'', ''inner'', ''carton'', ''layer'', ''pallet'']"

datatype binding_problem =
    NothingScanned | CheckDigit | UnknownLevel ustr | CountMissing | CountNotPositive

definition joined_levels :: ustr where
  "joined_levels = ascii ''each, inner, carton, layer, pallet''"

fun show_binding_problem :: "binding_problem \<Rightarrow> ustr" where
  "show_binding_problem NothingScanned = ascii ''nothing was scanned''"
| "show_binding_problem CheckDigit =
     ascii ''that reads as a GTIN and its check digit does not agree: it was misread or mistyped''"
| "show_binding_problem (UnknownLevel l) =
     l @ ascii '' is not a packaging level; it is one of '' @ joined_levels"
| "show_binding_problem CountMissing =
     ascii ''a code that is not a GTIN has to say how many base units one scan of it means''"
| "show_binding_problem CountNotPositive = ascii ''one scan means at least one of something''"

record binding =
  bn_barcode :: ustr
  bn_scheme :: string
  bn_level :: ustr
  bn_quantity :: "i64 option"
  bn_warnings :: "ustr list"

definition decide :: "proposed_binding \<Rightarrow> binding_problem + binding" where
  "decide p =
     (let raw = trim_matches white_space (pb_raw p) in
      if raw = [] then Inl NothingScanned
      else if pb_level p \<notin> set LEVELS then Inl (UnknownLevel (pb_level p))
      else if (case pb_quantity p of None \<Rightarrow> False | Some q \<Rightarrow> q \<le> 0) then Inl CountNotPositive
      else
        (let numeric = list_all is_digit raw; gtin_length = byte_len raw \<in> {8, 12, 13, 14} in
         case (if numeric \<and> gtin_length then map_option (\<lambda>g. (g, ''gtin'')) (normalise_gtin raw)
               else Some (raw, ''internal'')) of
           None \<Rightarrow> Inl CheckDigit
         | Some (barcode, scheme) \<Rightarrow>
             (case (case pb_quantity p of
                      Some q \<Rightarrow> Some (Some q)
                    | None \<Rightarrow> if pb_level p = ascii ''each'' then Some (Some 1)
                              else if scheme = ''gtin'' then Some None else None) of
                None \<Rightarrow> Inl CountMissing
              | Some quantity \<Rightarrow>
                  Inr \<lparr>bn_barcode = barcode, bn_scheme = scheme, bn_level = pb_level p,
                       bn_quantity = quantity,
                       bn_warnings = (if quantity = None
                         then [ascii ''this binding says nothing about how many: a scan of it will resolve the item and not a quantity'']
                         else [])\<rparr>)))"

section \<open>Properties\<close>

lemma digits_not_space: "list_all is_digit s \<Longrightarrow> c \<in> set s \<Longrightarrow> \<not> white_space c"
  by (auto simp: list_all_iff is_digit_def white_space_def)

lemma dropWhile_none: "(\<And>c. c \<in> set s \<Longrightarrow> \<not> p c) \<Longrightarrow> dropWhile p s = s"
  by (cases s) auto

lemma trim_none:
  assumes "\<And>c. c \<in> set s \<Longrightarrow> \<not> p c"
  shows "trim_matches p s = s"
proof -
  have "dropWhile p s = s" and "dropWhile p (rev s) = rev s"
    using assms by (auto intro: dropWhile_none)
  then show ?thesis by (simp add: trim_matches_def)
qed

lemma trim_digits: "list_all is_digit s \<Longrightarrow> trim_matches white_space s = s"
  by (rule trim_none) (rule digits_not_space)

lemma misread_not_gtin:
  assumes "is_gtin s" and "i < length s" and "is_digit c" and "c \<noteq> s ! i"
  shows "\<not> is_gtin (s[i := c])"
proof -
  let ?j = "length s - 1 - i"
  have rev: "rev (s[i := c]) = (rev s)[?j := c]" using assms(2) by (simp add: rev_update)
  have "is_digit (s ! i)" using assms(1,2) by (auto simp: is_gtin_iff list_all_length)
  then have d: "digit (s ! i) \<noteq> digit c" "digit (s ! i) < 10" "digit c < 10"
    using assms(3,4) digit_inj digit_less by metis+
  have j: "?j < length (rev s)" "rev s ! ?j = s ! i" using assms(2) by (simp_all add: rev_nth)
  obtain k where "k \<in> {1, 3}"
      "weighted 1 ((rev s)[?j := c]) + k * digit (s ! i) = weighted 1 (rev s) + k * digit c"
    using weighted_update [of 1 ?j "rev s" c] j by (metis insertI1)
  then have "weighted 1 ((rev s)[?j := c]) mod 10 \<noteq> 0"
    using misread_changes_sum [of k "digit (s ! i)" "digit c"] d assms(1) by (auto simp: is_gtin_iff)
  then show ?thesis by (simp add: is_gtin_iff rev)
qed

text \<open>
  C18: One misread digit never becomes a binding.  Change any one digit of a sound GTIN and the result
  is no GTIN; proposing it as a barcode, at any level and with any positive count, is refused for its
  check digit and is never recorded as an internal code.
\<close>

theorem one_misread_digit_never_binds:
  assumes "is_gtin s" and "i < length s" and "is_digit c" and "c \<noteq> s ! i"
    and "level \<in> set LEVELS" and "\<forall>q. quantity = Some q \<longrightarrow> 0 < q"
  shows "decide \<lparr>pb_raw = s[i := c], pb_level = level, pb_quantity = quantity\<rparr> = Inl CheckDigit"
proof -
  have digits: "list_all is_digit (s[i := c])"
    using assms(1,3) by (auto simp: is_gtin_iff list_all_iff dest: set_update_subset_insert [THEN subsetD])
  have len: "length s \<in> {8, 12, 13, 14}" using assms(1) by (simp add: is_gtin_iff)
  have "\<not> is_gtin (s[i := c])" by (rule misread_not_gtin [OF assms(1-4)])
  moreover have "\<not> (case quantity of None \<Rightarrow> False | Some q \<Rightarrow> q \<le> 0)"
    using assms(6) by (auto split: option.splits)
  moreover have "s[i := c] \<noteq> []" using assms(2) by auto
  ultimately show ?thesis
    using digits len assms(5) by (simp add: decide_def trim_digits digits_byte_len normalise_gtin_def Let_def)
qed

theorem one_misread_digit_never_binds_witness:
  "is_gtin (ascii ''9312345678907'')
   \<and> decide \<lparr>pb_raw = (ascii ''9312345678907'')[4 := 55], pb_level = ascii ''carton'', pb_quantity = Some 10\<rparr>
       = Inl CheckDigit"
proof -
  have g: "is_gtin (ascii ''9312345678907'')" by code_simp
  moreover have "4 < length (ascii ''9312345678907'')" "is_digit 55" "55 \<noteq> ascii ''9312345678907'' ! 4"
      "ascii ''carton'' \<in> set LEVELS" "\<forall>q. Some (10::i64) = Some q \<longrightarrow> 0 < q"
    by (simp_all add: ascii_def is_digit_def LEVELS_def)
  ultimately show ?thesis using one_misread_digit_never_binds by blast
qed

text \<open>
  A GTIN is stored in one form.  What normalisation returns is fourteen digits, is a sound GTIN
  itself, normalises to itself, and is the number scanned with noughts in front; so the retail scan and
  the carton scan of one trade item, one nought longer, are one row.
\<close>

theorem normalise_gtin_canonical:
  assumes "normalise_gtin s = Some g"
  shows "length g = 14 \<and> list_all is_digit g \<and> normalise_gtin g = Some g
     \<and> g = replicate (14 - length s) 48 @ s \<and> (length s \<in> {12, 13} \<longrightarrow> normalise_gtin (48 # s) = Some g)"
proof -
  have s: "is_gtin s" and g: "g = pad14 s"
    using assms by (auto simp: normalise_gtin_def split: if_splits)
  have g': "is_gtin g" "length g = 14" using is_gtin_pad14 [OF s] by (simp_all add: g)
  have "normalise_gtin (48 # s) = Some g" if len: "length s \<in> {12, 13}"
  proof -
    have "is_gtin (48 # s)"
      using s len by (auto simp: is_gtin_iff weighted_append is_digit_def digit_def)
    moreover have "pad14 (48 # s) = pad14 s"
      using len by (auto simp: pad14_def numeral_2_eq_2)
    ultimately show ?thesis by (simp add: normalise_gtin_def g)
  qed
  moreover have "pad14 g = g" using g'(2) by (simp add: pad14_def)
  ultimately show ?thesis using g g' by (auto simp: normalise_gtin_def is_gtin_iff pad14_def)
qed

theorem normalise_gtin_canonical_witness:
  "normalise_gtin (ascii ''9312345678907'') = Some (ascii ''09312345678907'')
   \<and> normalise_gtin (ascii ''09312345678907'') = Some (ascii ''09312345678907'')"
proof -
  have "normalise_gtin (ascii ''9312345678907'') = Some (ascii ''09312345678907'')" by code_simp
  from normalise_gtin_canonical [OF this] this show ?thesis by blast
qed

text \<open>The parser on a well-formed label: separators are stepped over, each element is read in turn.\<close>

lemma elements_short: "length cs < 2 \<Longrightarrow> elements cs out any = (out, any)"
  by (subst elements.simps) simp

lemma elements_separators:
  "2 \<le> length cs \<Longrightarrow> elements (replicate n FNC1 @ cs) out any = elements cs out any"
proof (induction n)
  case (Suc n)
  have "elements (replicate (Suc n) FNC1 @ cs) out any = elements (replicate n FNC1 @ cs) out any"
    by (subst elements.simps) (use Suc.prems in auto)
  with Suc show ?case by simp
qed simp

lemma elements_fixed:
  assumes "fixed_length [a, b] = Some (length v)" and "is_digit a" "is_digit b" "[a, b] \<notin> set measure_ais"
  shows "elements (a # b # v @ rest) out any = elements rest (set_field [a, b] v out) True"
proof -
  have "a \<noteq> FNC1" using assms(2) by (auto simp: is_digit_def FNC1_def)
  then show ?thesis using assms by (subst elements.simps) (simp add: Let_def)
qed

lemma elements_last_variable:
  assumes "fixed_length [a, b] = None" "variable_max [a, b] = Some n" and "is_digit a" "is_digit b"
    and "[a, b] \<notin> set measure_ais" and "length v \<le> n" "FNC1 \<notin> set v"
  shows "elements (a # b # v) out any = (set_field [a, b] v out, True)"
proof -
  have "a \<noteq> FNC1" using assms(3) by (auto simp: is_digit_def FNC1_def)
  moreover have "to_separator v = length v"
  proof -
    have "takeWhile (\<lambda>c. c \<noteq> FNC1) v = v" using assms(7) by (auto simp: takeWhile_eq_all_conv)
    then show ?thesis unfolding to_separator_def by (simp only:)
  qed
  ultimately show ?thesis
    using assms by (subst elements.simps) (simp add: Let_def elements_short)
qed

definition carton_label :: "nat \<Rightarrow> ustr \<Rightarrow> nat \<Rightarrow> ustr \<Rightarrow> nat \<Rightarrow> ustr \<Rightarrow> ustr" where
  "carton_label a gtin b expiry c lot =
     replicate a FNC1 @ ascii ''01'' @ gtin @ replicate b FNC1 @ ascii ''17'' @ expiry
       @ replicate c FNC1 @ ascii ''10'' @ lot"

lemma trim_front:
  assumes "x \<noteq> []" "\<not> p (hd x)" "\<not> p (last x)" and "\<And>y. y \<in> set pre \<Longrightarrow> p y"
  shows "trim_matches p (pre @ x) = x"
proof -
  have "dropWhile p (pre @ x) = x"
    using assms by (cases x) (auto simp: dropWhile_append2)
  moreover have "dropWhile p (rev x) = rev x"
    using assms(1,3) by (cases x rule: rev_cases) auto
  ultimately show ?thesis by (simp add: trim_matches_def)
qed

text \<open>
  C19: A carton label reads back as what was printed.  Any fourteen-digit GTIN, any six characters of
  expiry and any lot of at most twenty characters, with any number of separators in front and after
  each fixed element, are returned whole by one scan.
\<close>

theorem parse_carton_label:
  assumes gtin: "is_gtin g" "length g = 14" and expiry: "length e = 6"
    and lot: "l \<noteq> []" "length l \<le> 20" "FNC1 \<notin> set l" "\<not> white_space (last l)"
  shows "\<exists>r. parse (carton_label a g b e c l) = Some r \<and> sn_gs1 r
    \<and> sn_gtin r = Some g \<and> sn_expiry r = Some e \<and> sn_lot r = Some l \<and> sn_sscc r = None \<and> sn_other r = []"
proof -
  define raw where "raw = ascii ''01'' @ g @ replicate b FNC1 @ ascii ''17'' @ e @ replicate c FNC1 @ ascii ''10'' @ l"
  have label: "carton_label a g b e c l = replicate a FNC1 @ raw" by (simp add: carton_label_def raw_def)
  have ai: "ascii ''01'' = [48, 49]" "ascii ''17'' = [49, 55]" "ascii ''10'' = [49, 48]"
    by (simp_all add: ascii_def)
  have ends: "raw \<noteq> []" "hd raw = 48" "last raw = last l" "26 < length raw"
    using gtin(2) expiry lot(1) by (simp_all add: raw_def ai)
  have lastl: "last l \<noteq> FNC1" using lot(1,3) last_in_set by metis
  have "trim_matches white_space (replicate a FNC1 @ raw) = replicate a FNC1 @ raw"
  proof -
    have "replicate a FNC1 @ raw \<noteq> []" using ends by simp
    moreover have "\<not> white_space (hd (replicate a FNC1 @ raw))"
      using ends by (cases a) (simp_all add: white_space_def FNC1_def)
    moreover have "\<not> white_space (last (replicate a FNC1 @ raw))" using ends lot(4) by simp
    ultimately have "trim_matches white_space ([] @ (replicate a FNC1 @ raw)) = replicate a FNC1 @ raw"
      by (rule trim_front) simp
    then show ?thesis by simp
  qed
  moreover have "strip_aim (replicate a FNC1 @ raw) = Some (replicate a FNC1 @ raw)"
    using ends by (cases a) (simp_all add: strip_aim_def FNC1_def)
  moreover have trim: "trim_matches (\<lambda>c. c = FNC1) (replicate a FNC1 @ raw) = raw"
    using ends lastl by (intro trim_front) (auto simp: FNC1_def)
  moreover have "\<not> is_gtin raw" using ends(4) by (auto simp: is_gtin_iff)
  moreover have "\<not> (byte_len raw = 18 \<and> list_all is_digit raw)" using ends(4) digits_byte_len by fastforce
  moreover have "normalise_gtin g = Some g" using gtin by (simp add: normalise_gtin_def pad14_def)
  then have fields: "set_field [48, 49] g (bare raw) = (bare raw)\<lparr>sn_gtin := Some g\<rparr>"
    by (simp add: set_field_def ai)
  have "elements raw (bare raw) False =
      ((bare raw)\<lparr>sn_gtin := Some g, sn_expiry := Some e, sn_lot := Some l\<rparr>, True)"
  proof -
    have "elements raw (bare raw) False = elements (replicate b FNC1 @ 49 # 55 # e @ replicate c FNC1 @ 49 # 48 # l)
        ((bare raw)\<lparr>sn_gtin := Some g\<rparr>) True"
      using elements_fixed [of 48 49 g] gtin(2) fields
      by (simp add: raw_def ai fixed_length_def is_digit_def measure_ais_def ascii_def)
    also have "\<dots> = elements (replicate c FNC1 @ 49 # 48 # l) ((bare raw)\<lparr>sn_gtin := Some g, sn_expiry := Some e\<rparr>) True"
      using elements_fixed [of 49 55 e] expiry
      by (simp add: elements_separators fixed_length_def is_digit_def measure_ais_def set_field_def ascii_def)
    also have "\<dots> = ((bare raw)\<lparr>sn_gtin := Some g, sn_expiry := Some e, sn_lot := Some l\<rparr>, True)"
      using elements_last_variable [of 49 48 20 l] lot
      by (simp add: elements_separators fixed_length_def variable_max_def is_digit_def measure_ais_def
          set_field_def ascii_def)
    finally show ?thesis .
  qed
  ultimately show ?thesis
    by (auto simp: parse_def label Let_def normalise_gtin_def is_structured_def bare_def)
qed

theorem parse_carton_label_witness:
  "\<exists>r. parse (carton_label 1 (ascii ''09312345678907'') 0 (ascii ''260101'') 1 (ascii ''1ABC42'')) = Some r
     \<and> sn_lot r = Some (ascii ''1ABC42'')"
proof -
  have "is_gtin (ascii ''09312345678907'')" "length (ascii ''09312345678907'') = 14"
    "length (ascii ''260101'') = 6" "ascii ''1ABC42'' \<noteq> []" "length (ascii ''1ABC42'') \<le> 20"
    "FNC1 \<notin> set (ascii ''1ABC42'')" "\<not> white_space (last (ascii ''1ABC42''))"
    by code_simp+
  from parse_carton_label [OF this] show ?thesis by blast
qed

text \<open>
  The parser returns for every scan but these: the trimmed text begins with a bracket and the
  third byte after it falls inside a character, where slicing the symbology prefix off panics.
\<close>

theorem parse_panics_iff:
  "parse input = None \<longleftrightarrow>
     (\<exists>c cs. trim_matches white_space input = 93 # c # cs
        \<and> (3 \<le> utf8_width c \<or> utf8_width c = 1 \<and> cs \<noteq> [] \<and> utf8_width (hd cs) \<noteq> 1))"
proof -
  have w: "1 \<le> utf8_width c" for c by (simp add: utf8_width_def)
  define x where "x = trim_matches white_space input"
  have panic: "parse input = None \<longleftrightarrow> byte_len x > 3 \<and> hd x = 93 \<and> slice_from 3 x = None"
    by (auto simp: parse_def x_def strip_aim_def split: option.splits)
  have w93: "utf8_width 93 = 1" by (simp add: utf8_width_def)
  have bl: "byte_len [] = 0" "byte_len (c # cs) = utf8_width c + byte_len cs" for c cs
    by (simp_all add: byte_len_def)
  have cut: "slice_from 3 (93 # c # cs) = (if utf8_width c \<le> 2 then slice_from (2 - utf8_width c) cs else None)" for c cs
    by (simp add: numeral_3_eq_3 w93) (simp add: numeral_2_eq_2)
  have one: "slice_from (Suc 0) (d # ds) = (if utf8_width d \<le> 1 then slice_from (1 - utf8_width d) ds else None)"
    for d ds by simp
  have "byte_len (93 # c # cs) > 3 \<and> slice_from 3 (93 # c # cs) = None \<longleftrightarrow>
      3 \<le> utf8_width c \<or> utf8_width c = 1 \<and> cs \<noteq> [] \<and> utf8_width (hd cs) \<noteq> 1" for c cs
  proof -
    consider "utf8_width c = 1" | "utf8_width c = 2" | "3 \<le> utf8_width c" using w [of c] by linarith
    then show ?thesis
    proof cases
      case 1
      show ?thesis
      proof (cases cs)
        case (Cons d ds)
        then show ?thesis using 1 w [of d] by (auto simp: cut one bl w93)
      qed (simp add: 1 bl w93)
    qed (auto simp: cut bl w93)
  qed
  moreover have "byte_len x > 3 \<and> hd x = 93 \<longrightarrow> (\<exists>c cs. x = 93 # c # cs)"
    by (cases x rule: list.exhaust; cases "tl x") (auto simp: bl w93)
  ultimately have "byte_len x > 3 \<and> hd x = 93 \<and> slice_from 3 x = None \<longleftrightarrow>
     (\<exists>c cs. x = 93 # c # cs
        \<and> (3 \<le> utf8_width c \<or> utf8_width c = 1 \<and> cs \<noteq> [] \<and> utf8_width (hd cs) \<noteq> 1))"
    by (metis list.sel(1))
  then show ?thesis by (simp add: panic x_def)
qed

text \<open>
  A stock code that begins with the digits of a known identifier is taken for an element string: the
  first four characters become an element and the rest is dropped.
\<close>

lemma sku_read_as_element_string:
  "map_option (\<lambda>r. (sn_gs1 r, sn_other r)) (parse (ascii ''2025-CAT-CONTRIBUTION''))
     = Some (True, [(ascii ''20'', ascii ''25'')])"
  by code_simp

end
