(* ===== verification/Jobs.thy ===== *)
theory Jobs
  imports Packages
begin

text \<open>
  The invariant jobs of \<^verbatim>\<open>crates/invariants/src/jobs.rs\<close> that read the tables modelled here, as
  the queries they send.  The jobs run as the owner of the tables, over the rows of every tenant.
  What the write paths guarantee of them is in \<open>Guarantees\<close>.
\<close>

section \<open>Findings and verdicts\<close>

text \<open>The 84 constructors \<open>J1\<close> to \<open>J84\<close> by their number, which is what they print as.\<close>

datatype job_id = J nat

definition show_job_id :: "job_id \<Rightarrow> string" where
  "show_job_id i = (case i of J n \<Rightarrow> ''J'' @ show_nat n)"

definition ALL_JOBS :: "job_id list" where
  "ALL_JOBS = map J [1..<85]"

record job_finding =
  jf_invariant :: job_id
  jf_kind :: string
  jf_detail :: string

definition finding_of :: "job_id \<Rightarrow> string \<Rightarrow> string \<Rightarrow> job_finding" where
  "finding_of i kind detail = \<lparr>jf_invariant = i, jf_kind = kind, jf_detail = detail\<rparr>"

text \<open>How many rows a check looked at, and what it found; \<open>Inl Database\<close> is a \<open>postgres::Error\<close>.\<close>

type_synonym check_result = "api_error + (nat \<times> job_finding list)"

datatype verdict = Pass | Vacuous | Findings | Pending

datatype check = Waiting | Run "db \<Rightarrow> check_result"

definition run_check :: "check \<Rightarrow> db \<Rightarrow> api_error + (verdict \<times> nat \<times> job_finding list)" where
  "run_check c s =
     (case c of
        Waiting \<Rightarrow> Inr (Pending, 0, [])
      | Run f \<Rightarrow> and_then (f s) (\<lambda>(examined, found).
          Inr (if found \<noteq> [] then Findings else if examined = 0 then Vacuous else Pass,
               examined, found)))"

section \<open>The ledger and its projection\<close>

text \<open>
  A ledger key: tenant, item and one side of a movement, which holds exactly one holder.  Catch
  weights, which the fold sums beside the quantities, are not modelled.
\<close>

type_synonym cell_key = "uuid \<times> uuid \<times> side"

definition held_once :: "side \<Rightarrow> bool" where
  "held_once sd \<longleftrightarrow> (sd_location sd = None) \<noteq> (sd_package sd = None)"

definition ledger_rows :: "stock_movement list \<Rightarrow> (cell_key \<times> int) list" where
  "ledger_rows ms =
     map (\<lambda>m. ((mv_tenant m, mv_item m, mv_to m), mv_quantity m)) (filter (\<lambda>m. held_once (mv_to m)) ms)
     @ map (\<lambda>m. ((mv_tenant m, mv_item m, mv_from m), - mv_quantity m)) (filter (\<lambda>m. held_once (mv_from m)) ms)"

text \<open>\<open>GROUP BY\<close> the key, with the sum of its rows.\<close>

definition sum_at :: "('k \<times> int) list \<Rightarrow> 'k \<Rightarrow> int" where
  "sum_at rows k = sum_list (map snd (filter (\<lambda>r. fst r = k) rows))"

definition ledger_fold :: "stock_movement list \<Rightarrow> (cell_key \<times> int) list" where
  "ledger_fold ms = (let rows = ledger_rows ms in map (\<lambda>k. (k, sum_at rows k)) (remdups (map fst rows)))"

definition stock_key :: "stock_row \<Rightarrow> cell_key" where
  "stock_key k = (sk_tenant k, sk_item k, side_of_stock k)"

text \<open>The full outer join of fold and stock: the cell, what it holds and what the ledger folds to.\<close>

definition drift_rows :: "(cell_key \<times> int) list \<Rightarrow> stock_row list \<Rightarrow> (string \<times> int \<times> int option) list" where
  "drift_rows folded cells =
     filter (\<lambda>(_, q, f). q \<noteq> (case f of None \<Rightarrow> 0 | Some x \<Rightarrow> x))
       (concat (map (\<lambda>(key, q).
          (let found = filter (\<lambda>k. stock_key k = key) cells in
           if found = [] then [(''missing'', 0, Some q)]
           else map (\<lambda>k. (show_uuid (sk_id k), sk_quantity k, Some q)) found)) folded)
        @ map (\<lambda>k. (show_uuid (sk_id k), sk_quantity k, None))
            (filter (\<lambda>k. stock_key k \<notin> set (map fst folded)) cells))"

definition j1_stock_quantity_is_the_fold :: "db \<Rightarrow> check_result" where
  "j1_stock_quantity_is_the_fold s =
     (let folded = ledger_fold (movements s) in
      if \<exists>(_, q) \<in> set folded. \<not> in_i64 q then Inl Database
      else Inr (length (stock s), map (\<lambda>(cell, q, f). finding_of (J 1) ''projection_drift''
        (''cell '' @ cell @ '' holds '' @ show_int q @ '' and the ledger folds to ''
          @ show_int (case f of None \<Rightarrow> 0 | Some x \<Rightarrow> x))) (drift_rows folded (stock s))))"

text \<open>The cells of one key: a rebuild upserts on the key and would find the first only.\<close>

definition j33_rebuild_preserves_stock_identity :: "db \<Rightarrow> check_result" where
  "j33_rebuild_preserves_stock_identity s =
     (let count = (\<lambda>key. length (filter (\<lambda>k. stock_key k = key) (stock s))) in
      Inr (length (stock s), map (\<lambda>key. finding_of (J 33) ''projection_drift''
        (''tenant '' @ show_uuid (fst key) @ '' item '' @ show_uuid (fst (snd key)) @ '' has ''
          @ show_nat (count key) @ '' rows for one cell key: a rebuild would not find them''))
        (filter (\<lambda>key. count key > 1) (remdups (map stock_key (stock s))))))"

text \<open>Every fact agrees with its subject on whose it is.\<close>

definition j20_tenant_agreement_on_facts :: "db \<Rightarrow> check_result" where
  "j20_tenant_agreement_on_facts s =
     Inr (length (movements s) + length (package_events s),
       concat (map (\<lambda>m. map (\<lambda>_. finding_of (J 20) ''tenant_mismatch''
           (''stock_movement '' @ show_uuid (mv_id m) @ '' disagrees with its subject's tenant''))
         (filter (\<lambda>i. it_id i = mv_item m \<and> it_tenant i \<noteq> mv_tenant m) (items s))) (movements s))
       @ concat (map (\<lambda>e. map (\<lambda>_. finding_of (J 20) ''tenant_mismatch''
           (''package_event '' @ show_uuid (pe_id e) @ '' disagrees with its subject's tenant''))
         (filter (\<lambda>k. pk_id k = pe_package e \<and> pk_tenant k \<noteq> pe_tenant e) (packages s))) (package_events s)))"

section \<open>Corrections\<close>

text \<open>The five columns of \<^verbatim>\<open>J50\<close> for a correction, its target and its reason, each with its kind.\<close>

definition correction_faults ::
  "stock_movement \<Rightarrow> stock_movement \<Rightarrow> adjustment_reason_row option \<Rightarrow> (bool \<times> string \<times> string) list" where
  "correction_faults n t r =
     [(mv_occurred_at n \<noteq> mv_occurred_at t, ''correction_time'',
       ''carries its own discovery time instead of its target's occurred_at''),
      (mv_item n \<noteq> mv_item t, ''correction_item'', ''corrects a movement of a different item''),
      (mv_tenant n \<noteq> mv_tenant t, ''correction_tenant'', ''corrects a movement belonging to another tenant''),
      (mv_from n \<noteq> mv_to t \<or> mv_to n \<noteq> mv_from t, ''correction_sides'',
       ''does not mirror the movement it reverses''),
      (map_option ar_class r \<noteq> Some ''record_error'', ''correction_reason'',
       ''does not give a record_error reason'')]"

text \<open>\<open>LEFT JOIN\<close>: every match, or one row of nulls.\<close>

definition left_join :: "('a \<Rightarrow> bool) \<Rightarrow> 'a list \<Rightarrow> 'a option list" where
  "left_join p rows = (let ms = filter p rows in if ms = [] then [None] else map Some ms)"

definition j50_rows :: "db \<Rightarrow> (stock_movement \<times> stock_movement \<times> adjustment_reason_row option) list" where
  "j50_rows s =
     concat (map (\<lambda>n. concat (map (\<lambda>t. map (\<lambda>r. (n, t, r))
         (left_join (\<lambda>r. Some (ar_id r) = mv_adjustment_reason n) (adjustment_reasons s)))
       (filter (\<lambda>t. Some (mv_id t) = mv_reverses n) (movements s)))) (movements s))"

definition corrections :: "db \<Rightarrow> stock_movement list" where
  "corrections s = filter (\<lambda>m. mv_reverses m \<noteq> None) (movements s)"

definition j50_corrections_are_about_their_target :: "db \<Rightarrow> check_result" where
  "j50_corrections_are_about_their_target s =
     Inr (length (corrections s),
       concat (map (\<lambda>(n, t, r). map (\<lambda>(_, kind, detail).
           finding_of (J 50) kind (''correction '' @ show_uuid (mv_id n) @ '' '' @ detail))
         (filter fst (correction_faults n t r))) (j50_rows s)))"

text \<open>
  The view \<open>stock_movement_effective\<close>, one row for each movement that corrects nothing; its sums
  and the difference are cast to \<open>bigint\<close>.
\<close>

definition effective :: "db \<Rightarrow> stock_movement \<Rightarrow> int" where
  "effective s m = effective_quantity (movements s) m"

definition overreach :: "stock_movement \<Rightarrow> int \<Rightarrow> job_finding" where
  "overreach t reversed = finding_of (J 51) ''correction_overreach''
     (''movement '' @ show_uuid (mv_id t) @ '' of '' @ show_int (mv_quantity t) @ '' units has ''
       @ show_int reversed @ '' units reversed against it'')"

definition j51_corrections_do_not_overreach :: "db \<Rightarrow> check_result" where
  "j51_corrections_do_not_overreach s =
     (let roots = filter (\<lambda>t. mv_reverses t = None) (movements s);
          over = filter (\<lambda>t. effective s t < 0) roots in
      if (\<exists>t \<in> set roots. \<not> in_i64 (effective s t))
         \<or> (\<exists>t \<in> set over. \<not> in_i64 (mv_quantity t - effective s t)) then Inl Database
      else Inr (length (remdups (map mv_reverses (corrections s))),
        map (\<lambda>t. overreach t (mv_quantity t - effective s t)) over))"

text \<open>
  The walk of \<^verbatim>\<open>J52\<close> from one correction: a row joins the node the last one names, until the path
  holds 64 rows or closes on itself.
\<close>

fun walk_loops :: "nat \<Rightarrow> stock_movement list \<Rightarrow> uuid option \<Rightarrow> uuid list \<Rightarrow> bool" where
  "walk_loops 0 ms node path = False"
| "walk_loops (Suc n) ms node path =
     (\<exists>m \<in> set ms. Some (mv_id m) = node
        \<and> (mv_id m \<in> set path \<or> walk_loops n ms (mv_reverses m) (mv_id m # path)))"

definition j52_correction_chains_do_not_loop :: "db \<Rightarrow> check_result" where
  "j52_correction_chains_do_not_loop s =
     Inr (length (corrections s),
       map (\<lambda>i. finding_of (J 52) ''correction_cycle''
           (''correction chain from '' @ show_uuid i @ '' returns to itself''))
         (remdups (map mv_id (filter (\<lambda>m. walk_loops 63 (movements s) (mv_reverses m) [mv_id m])
           (corrections s)))))"

section \<open>Packages\<close>

text \<open>\<open>DISTINCT ON (package_id) ... ORDER BY package_id, occurred_at, recorded_at, id\<close> and its reverse.\<close>

definition by_package :: "(package_event \<Rightarrow> package_event \<Rightarrow> ordering) \<Rightarrow> package_event list \<Rightarrow> package_event list" where
  "by_package order es =
     map (\<lambda>p. hd (sort_by order (filter (\<lambda>e. pe_package e = p) es))) (sort (remdups (map pe_package es)))"

definition oldest_event :: "package_event \<Rightarrow> package_event \<Rightarrow> ordering" where
  "oldest_event a b = newest_event b a"

definition j6_package_projection_is_the_fold :: "db \<Rightarrow> check_result" where
  "j6_package_projection_is_the_fold s =
     (let winners = by_package newest_event (filter asserts_placement (package_events s)) in
      Inr (length winners,
        concat (map (\<lambda>k. map (\<lambda>_. finding_of (J 6) ''containment_conflict''
            (''package '' @ (case pk_barcode k of Some b \<Rightarrow> b | None \<Rightarrow> show_uuid (pk_id k))
              @ '' disagrees with the winning placement in its log''))
          (filter (\<lambda>w. pe_package w = pk_id k
             \<and> (pk_parent k \<noteq> pe_parent w \<or> pk_location k \<noteq> pe_location w)) winners)) (packages s))))"

definition j34_no_package_minted_from_an_assertion :: "db \<Rightarrow> check_result" where
  "j34_no_package_minted_from_an_assertion s =
     (let first = by_package oldest_event (package_events s) in
      Inr (length first, map (\<lambda>e. finding_of (J 34) ''minted_from_assertion''
          (''package '' @ show_uuid (pe_package e) @ '' was first identified by an ASN, not by an observation''))
        (filter (\<lambda>e. pe_source e = ''asn'') first)))"

definition nested :: "db \<Rightarrow> package_row list" where
  "nested s = filter (\<lambda>k. pk_parent k \<noteq> None) (packages s)"

text \<open>
  The walk up from one package: does it come back to its path?  It has no bound of its own; each
  step adds an identifier to the path, so one more step than there are packages is enough
  (\<open>loops_up_iff\<close>).
\<close>

fun loops_up :: "nat \<Rightarrow> package_row list \<Rightarrow> uuid option \<Rightarrow> uuid list \<Rightarrow> bool" where
  "loops_up 0 ks parent path = False"
| "loops_up (Suc n) ks parent path =
     (\<exists>k \<in> set ks. Some (pk_id k) = parent
        \<and> (pk_id k \<in> set path \<or> loops_up n ks (pk_parent k) (pk_id k # path)))"

definition j79_no_package_is_inside_itself :: "db \<Rightarrow> check_result" where
  "j79_no_package_is_inside_itself s =
     Inr (length (nested s), map (\<lambda>i. finding_of (J 79) ''containment_conflict''
         (''package '' @ show_uuid i @ '': following what it is in or on leads back to it''))
       (sort (remdups (map pk_id (filter (\<lambda>k.
          loops_up (length (packages s) + 1) (packages s) (pk_parent k) [pk_id k]) (nested s))))))"

text \<open>The rows of the walk of \<^verbatim>\<open>J80\<close> from one package: the parent reached and the level, at most 16.\<close>

fun levels_up :: "nat \<Rightarrow> package_row list \<Rightarrow> uuid option \<Rightarrow> nat \<Rightarrow> uuid list \<Rightarrow> (uuid option \<times> nat) list" where
  "levels_up 0 ks parent n path = [(parent, n)]"
| "levels_up (Suc f) ks parent n path =
     (parent, n) # concat (map (\<lambda>k. levels_up f ks (pk_parent k) (n + 1) (pk_id k # path))
       (filter (\<lambda>k. Some (pk_id k) = parent \<and> pk_id k \<notin> set path) ks))"

definition deepest :: "db \<Rightarrow> uuid \<Rightarrow> nat" where
  "deepest s i =
     fold max (map snd (filter (\<lambda>r. fst r \<noteq> None)
       (concat (map (\<lambda>k. levels_up 15 (packages s) (pk_parent k) 1 [pk_id k])
          (filter (\<lambda>k. pk_id k = i) (nested s)))))) 0"

definition j80_three_deep_at_most :: "db \<Rightarrow> check_result" where
  "j80_three_deep_at_most s =
     Inr (length (nested s), map (\<lambda>i. finding_of (J 80) ''nesting_too_deep''
         (''package '' @ show_uuid i @ '' is '' @ show_nat (deepest s i + 1)
           @ '' deep; a wrap, a pallet and a carton is the most''))
       (filter (\<lambda>i. deepest s i + 1 > 3) (sort (remdups (map pk_id (nested s))))))"

section \<open>Lines\<close>

definition j69_of :: "fulfilment_line_row list \<Rightarrow> order_line_row list \<Rightarrow> stock_movement \<Rightarrow> job_finding list" where
  "j69_of lines orders m =
     concat (map (\<lambda>l. map (\<lambda>o'. finding_of (J 69) ''scan_mismatch''
         (''stock_movement '' @ show_uuid (mv_id m) @ '' serves fulfilment_line '' @ show_uuid (fl_id l)
           @ '' but moves item '' @ show_uuid (mv_item m) @ '' where the line commits item ''
           @ show_uuid (ol_item o')))
       (filter (\<lambda>o'. ol_id o' = fl_order_line l \<and> mv_item m \<noteq> ol_item o') orders))
     (filter (\<lambda>l. Some (fl_id l) = mv_line m) lines))"

definition j69_found :: "db \<Rightarrow> job_finding list" where
  "j69_found s = concat (map (j69_of (fulfilment_lines s) (order_lines s)) (movements s))"

definition j69_a_movement_serves_its_line_s_item :: "db \<Rightarrow> check_result" where
  "j69_a_movement_serves_its_line_s_item s =
     Inr (length (filter (\<lambda>m. mv_line m \<noteq> None) (movements s)), j69_found s)"

definition j70_no_pick_leaves_package_held_storage_uncounted :: "db \<Rightarrow> check_result" where
  "j70_no_pick_leaves_package_held_storage_uncounted s =
     Inr (length (filter (\<lambda>m. mv_line m \<noteq> None \<and> sd_package (mv_from m) \<noteq> None) (movements s)),
       concat (map (\<lambda>m. case (mv_line m, sd_package (mv_from m), mv_reverses m) of
           (Some l, Some p, None) \<Rightarrow>
             (if \<exists>e \<in> set (movements s). mv_line e = Some l \<and> sd_package (mv_to e) = Some p
                   \<and> mv_occurred_at e \<le> mv_occurred_at m then []
              else [finding_of (J 70) ''short_pick''
                (''stock_movement '' @ show_uuid (mv_id m) @ '' takes '' @ show_int (mv_quantity m)
                  @ '' for fulfilment_line '' @ show_uuid l @ '' out of package '' @ show_uuid p
                  @ '', which nothing put there for that line: package-held storage, so the units are picked and picked_quantity does not count them'')])
         | _ \<Rightarrow> []) (movements s)))"

definition j16_no_ambiguous_resolution :: "db \<Rightarrow> check_result" where
  "j16_no_ambiguous_resolution s =
     Inr (length (discrepancies s), map (\<lambda>d. finding_of (J 16) ''policy_ambiguous''
         (''discrepancy '' @ show_uuid (di_id d) @ '' records an unresolvable policy scope: ''
           @ (case di_detail d of Some x \<Rightarrow> x | None \<Rightarrow> ''(no detail)'')))
       (filter (\<lambda>d. di_kind d = ''policy_ambiguous'') (discrepancies s)))"

end
