(* ===== verification/Guarantees.thy ===== *)
theory Guarantees
  imports Server Jobs
begin

text \<open>
  The jobs of \<open>Jobs\<close> against the server of \<open>Server\<close>: which of them find nothing on any state the
  handlers can reach, what a projection that is the fold means for the ones that read it, and which
  findings a write produces.
\<close>

section \<open>What every step does for the corrections\<close>

text \<open>\<open>n\<close> reverses \<open>t\<close> as a correction should, for a reason of the given list.\<close>

definition mirrors :: "adjustment_reason_row list \<Rightarrow> stock_movement \<Rightarrow> stock_movement \<Rightarrow> bool" where
  "mirrors reasons n t \<longleftrightarrow> mv_reverses n = Some (mv_id t) \<and> mv_occurred_at n = mv_occurred_at t
     \<and> mv_item n = mv_item t \<and> mv_tenant n = mv_tenant t \<and> mv_from n = mv_to t \<and> mv_to n = mv_from t
     \<and> (\<exists>r \<in> set reasons. Some (ar_id r) = mv_adjustment_reason n \<and> ar_class r = ''record_error'')"

definition honest :: "db \<Rightarrow> bool" where
  "honest s \<longleftrightarrow> (\<forall>j < length (movements s). mv_reverses (movements s ! j) = None
     \<or> (\<exists>i < j. mirrors (adjustment_reasons s) (movements s ! j) (movements s ! i)))"

definition revises :: "db \<Rightarrow> db \<Rightarrow> bool" where
  "revises s s' \<longleftrightarrow> adjustment_reasons s' = adjustment_reasons s
     \<and> (\<exists>ms. movements s' = movements s @ ms
          \<and> (\<forall>n \<in> set ms. mv_reverses n = None \<or> (\<exists>t \<in> set (movements s). mirrors (adjustment_reasons s) n t)))"

lemma revises_quiet:
  "adjustment_reasons s' = adjustment_reasons s \<Longrightarrow> movements s' = movements s \<Longrightarrow> revises s s'"
  by (simp add: revises_def)

lemma revises_snoc:
  "adjustment_reasons s' = adjustment_reasons s \<Longrightarrow> movements s' = movements s @ [m] \<Longrightarrow>
   mv_reverses m = None \<or> (\<exists>t \<in> set (movements s). mirrors (adjustment_reasons s) m t) \<Longrightarrow> revises s s'"
  by (simp add: revises_def)

lemma revises_honest:
  assumes "revises s s'" and "honest s"
  shows "honest s'"
proof -
  obtain ms where ms: "movements s' = movements s @ ms" "adjustment_reasons s' = adjustment_reasons s"
      "\<And>n. n \<in> set ms \<Longrightarrow> mv_reverses n = None \<or> (\<exists>t \<in> set (movements s). mirrors (adjustment_reasons s) n t)"
    using assms(1) by (auto simp: revises_def)
  show ?thesis unfolding honest_def
  proof (intro allI impI)
    fix j assume j: "j < length (movements s')"
    show "mv_reverses (movements s' ! j) = None
      \<or> (\<exists>i < j. mirrors (adjustment_reasons s') (movements s' ! j) (movements s' ! i))"
    proof (cases "j < length (movements s)")
      case True
      then show ?thesis using assms(2) ms(1,2) by (fastforce simp: honest_def nth_append)
    next
      case False
      then have "movements s' ! j \<in> set ms" using j ms(1) by (auto simp: nth_append)
      from ms(3) [OF this] show ?thesis
      proof
        assume "\<exists>t \<in> set (movements s). mirrors (adjustment_reasons s) (movements s' ! j) t"
        then obtain i where "i < length (movements s)"
            "mirrors (adjustment_reasons s) (movements s' ! j) (movements s ! i)"
          by (metis in_set_conv_nth)
        then show ?thesis using False ms(1,2) by (intro disjI2 exI [of _ i]) (simp add: nth_append)
      qed simp
    qed
  qed
qed

lemma move_revises:
  assumes run: "record_move pg who req s = Inr (v, s')"
  shows "revises s s'"
proof (cases "claimed (ca_tenant who) (rm_event req) s")
  case True
  then show ?thesis using move_writer.replay [OF run] by (simp add: revises_quiet)
next
  case False
  show ?thesis
    by (rule record_move_fresh [OF run False]) (simp add: revises_def move_movement_def)
qed

lemma pick_revises:
  assumes run: "record_pick pg who req s = Inr (v, s')"
  shows "revises s s'"
proof (cases "claimed (ca_tenant who) (rp_event req) s")
  case True
  then show ?thesis using pick_writer.replay [OF run] by (simp add: revises_quiet)
next
  case False
  show ?thesis
    by (rule record_pick_fresh [OF run False]) (simp add: revises_def pick_movement_def)
qed

lemma one_movement_revises:
  assumes run: "one_movement_act pg who act w why q row ws s = Inr ((i, ws'), s')"
    and row: "\<And>m. row = Inr m \<Longrightarrow> mv_reverses m = None"
  shows "revises s s'"
proof (cases "claimed (ca_tenant who) act s")
  case True
  then show ?thesis using one_movement_replay(1) [OF run] by (simp add: revises_quiet)
next
  case False
  obtain m where m: "row = Inr m" "movements s' = movements s @ [m]"
      "adjustment_reasons s' = adjustment_reasons s"
    using one_movement_fresh [OF run False] by auto
  show ?thesis by (rule revises_snoc [OF m(3,2)]) (simp add: row [OF m(1)])
qed

lemma repack_revises:
  assumes run: "repack groups pg who req s = Inr (v, s')"
  shows "revises s s'"
  by (rule repack_run [OF run], erule one_movement_revises) (auto split: list.splits)

lemma handover_revises:
  assumes run: "record_handover pg who req s = Inr (v, s')"
  shows "revises s s'"
  by (rule handover_run [OF run], erule one_movement_revises) (auto simp: handover_row_Inr)

lemma create_revises: "create_package pg who req s = Inr (v, s') \<Longrightarrow> revises s s'"
  using create_runs by (intro revises_quiet) blast+

lemma plan_revises: "save_plan pg who f parcels s = Inr (v, s') \<Longrightarrow> revises s s'"
  by (drule save_plan_effect(1)) (elim exE, simp add: revises_quiet)

lemma count_revises:
  assumes run: "record_count pg who req s = Inr (v, s')"
  shows "revises s s'"
proof (cases "claimed (ca_tenant who) (rc_event req) s")
  case True
  then show ?thesis using count_writer.replay [OF run] by (simp add: revises_quiet)
next
  case False
  show ?thesis by (rule record_count_fresh [OF run False]) (simp add: revises_quiet)
qed

lemma correction_revises:
  assumes run: "record_correction sh clock pg who req s = Inr (v, s')"
  shows "revises s s'"
proof (cases "claimed (ca_tenant who) (rx_event req) s")
  case True
  then show ?thesis using correction_writer.replay [OF run] by (simp add: revises_quiet)
next
  case False
  show ?thesis
  proof (rule record_correction_fresh [OF run False])
    fix m
    assume m: "movement_by_id (ca_tenant who) (rx_reverses req) s = Some m"
      and s': "s' = mark_dirty pg (ca_tenant who) ''correction''
       (s\<lparr>client_events := client_events s @ [correction_envelope clock pg who req],
          movements := movements s @ [correction_movement pg who req (movement_of_row m)]\<rparr>)"
    have m': "m \<in> set (movements s)" "mv_tenant m = ca_tenant who" "mv_id m = rx_reverses req"
      using m by (auto simp: row_simps dest: by_id_SomeD)
    obtain r where "adjustment_reason_by_id (ca_tenant who) (rx_reason req) s = Some r"
        "class_of_reason r = Some RecordError"
      using run m by (auto simp: record_correction_def Let_def correction_check_ok mirror_def
          bind_eq_Some_conv split: if_splits)
    then have "r \<in> set (adjustment_reasons s)" "ar_id r = rx_reason req" "ar_class r = ''record_error''"
      by (auto simp: adjustment_reason_by_id_def class_of_reason_def dest: find_SomeD split: if_splits)
    then have "mirrors (adjustment_reasons s) (correction_movement pg who req (movement_of_row m)) m"
      using m' by (auto simp: mirrors_def correction_movement_def movement_of_row_def)
    then show ?thesis using m'(1) by (intro revises_snoc) (auto simp: s')
  qed
qed

lemma package_act_revises:
  assumes "runs_package_act pg who act s s'"
  shows "revises s s'"
proof -
  obtain w e upd why ws i ws' where run: "package_act pg who act w e upd why ws s = Inr ((i, ws'), s')"
    using assms unfolding runs_package_act_def by fastforce
  show ?thesis
  proof (cases "claimed (ca_tenant who) act s")
    case True
    then show ?thesis using package_act_replay(1) [OF run] by (simp add: revises_quiet)
  next
    case False
    then show ?thesis using package_act_fresh [OF run] by (simp add: revises_quiet)
  qed
qed

lemma despatch_revises:
  assumes "despatch_package pg who r s = Inr (v, s')"
  shows "revises s s'"
proof (rule despatch_package_cases [OF assms])
  fix v'
  assume "despatch_itself pg who r s = Inr (v', s')"
  then show ?thesis by (rule package_act_revises [OF despatch_itself_runs_act])
next
  fix v' line
  assume run: "despatch_line_tx pg who (fst r) line (snd r) s = Inr (v', s')"
  show ?thesis
  proof (cases "claimed (ca_tenant who) (rd_event (snd r)) s")
    case True
    then show ?thesis using despatch_line_replay [OF run] by (simp add: revises_quiet)
  next
    case False
    show ?thesis
      by (rule despatch_line_fresh [OF run False]) (simp add: revises_def despatch_movement_def)
  qed
qed

lemma close_and_answer_quiet:
  assumes "close_and_answer pg who req c f mid ws s = Inr (v, s')"
  shows "movements s' = movements s \<and> adjustment_reasons s' = adjustment_reasons s"
  using close_and_answer_frame [OF assms] by auto

lemma adjustment_revises:
  assumes run: "record_adjustment pg who req s = Inr (v, s')"
  shows "revises s s'"
proof -
  let ?dir = "\<lambda>c. direction_of (i64_sub (ra_counted req) (sk_quantity c))"
  obtain c ws where body: "adjust_write pg who req c (load_finding (ca_tenant who) req s)
      (?dir c) ws s = Inr (v, s')"
    by (rule record_adjustment_Inr [OF run])
  show ?thesis
  proof (cases "?dir c")
    case None
    then obtain m ws' where "close_and_answer pg who req c (load_finding (ca_tenant who) req s) m ws' s
        = Inr (v, s')"
      using body by (auto simp: adjust_write_def and_then_eq_Inr split: option.splits)
    from close_and_answer_quiet [OF this] show ?thesis by (simp add: revises_quiet)
  next
    case (Some d)
    show ?thesis
    proof (cases "claimed (ca_tenant who) (ra_event req) s")
      case True
      then have "s' = s" using body Some by (auto simp: adjust_write_def claim_act_def and_then_eq_Inr)
      then show ?thesis by (simp add: revises_quiet)
    next
      case False
      from close_and_answer_quiet [OF adjust_write_fresh [OF body [unfolded Some] False]]
      show ?thesis by (simp add: revises_def adjusted_def adjust_movement_def Let_def)
    qed
  qed
qed

lemma allocation_revises:
  assumes run: "record_allocation clock pg who req s = Inr (v, s')"
  shows "revises s s'"
proof (cases "Option.bind (rl_id req) (\<lambda>i. prior_allocation (ca_tenant who) i s)")
  case None
  show ?thesis by (rule record_allocation_claims [OF run None]) (simp add: revises_quiet)
next
  case (Some prior)
  then show ?thesis using record_allocation_replay(1) [OF run] by (auto simp: bind_eq_Some_conv revises_quiet)
qed

lemma quiet_revises:
  "release_allocation pg who i force s = Inr (v, s') \<Longrightarrow> revises s s'"
  "investigate_discrepancy pg who i note s = Inr (v', s') \<Longrightarrow> revises s s'"
  "accept_discrepancy clock pg who i req s = Inr (v'', s') \<Longrightarrow> revises s s'"
  by (erule release_allocation_effect, simp add: revises_quiet)
     (erule investigate_frame accept_frame, simp add: revises_quiet)+

lemma receipt_revises:
  assumes run: "record_receipt ib pg who req s = Inr (v, s')" and db: "maintains (ib_refresh ib)"
  shows "revises s s'"
proof (cases "claimed (ca_tenant who) (gq_event req) s")
  case True
  show ?thesis by (rule record_receipt_replay [OF run True]) (simp add: revises_quiet)
next
  case False
  show ?thesis by (rule record_receipt_frame [OF run False db]) (simp add: revises_def)
qed

lemma rebuilt_revises: "rebuilt t s s' \<Longrightarrow> revises s s'"
  unfolding rebuilt_def by (rule revises_quiet; erule conjE; erule ssubst; simp)

lemma step_revises: "step t s s' \<Longrightarrow> revises s s'"
  by (induction rule: step.induct)
     (assumption | erule move_revises pick_revises count_revises adjustment_revises correction_revises
        receipt_revises repack_revises handover_revises create_revises plan_revises quiet_revises allocation_revises despatch_revises rebuilt_revises
        package_act_revises [OF place_runs_act] package_act_revises [OF contain_runs_act]
        package_act_revises [OF void_runs_act] package_act_revises [OF seal_runs_act]
        package_act_revises [OF open_runs_act])+

lemma steps_honest: "steps s s' \<Longrightarrow> honest s \<Longrightarrow> honest s'"
  by (induction rule: steps.induct) (auto dest: step_revises revises_honest)

section \<open>Corrections pass their jobs\<close>

text \<open>Rows of one identifier are one row, which is what a primary key says.\<close>

lemma same_id:
  assumes "distinct (map f xs)" and "x \<in> set xs" "y \<in> set xs" "f x = f y"
  shows "x = y"
  using assms by (auto simp: distinct_map inj_on_def)

lemma same_id_nth:
  assumes "distinct (map f xs)" and "i < length xs" "j < length xs" "f (xs ! i) = f (xs ! j)"
  shows "i = j"
  using assms by (metis length_map nth_eq_iff_index_eq nth_map)

lemma honest_target:
  assumes "honest s" and "n \<in> set (movements s)" and "mv_reverses n = Some u"
  obtains t where "t \<in> set (movements s)" "mirrors (adjustment_reasons s) n t" "mv_id t = u"
proof -
  obtain j where j: "j < length (movements s)" "n = movements s ! j" using assms(2) by (metis in_set_conv_nth)
  then obtain i where "i < j" "mirrors (adjustment_reasons s) n (movements s ! i)"
    using assms(1,3) by (auto simp: honest_def)
  with j(1) assms(3) show thesis by (intro that [of "movements s ! i"]) (auto simp: mirrors_def)
qed

lemma left_join_Some:
  assumes "r \<in> set (left_join p rows)" and "x \<in> set rows" "p x"
  shows "\<exists>y \<in> set rows. r = Some y \<and> p y"
proof -
  have "filter p rows \<noteq> []" using assms(2,3) by (auto simp: filter_eq_Nil_iff)
  then show ?thesis using assms(1) by (auto simp: left_join_def Let_def)
qed

lemma j50_silent:
  assumes "honest s" and ids: "distinct (map mv_id (movements s))" "distinct (map ar_id (adjustment_reasons s))"
    and row: "(n, t, r) \<in> set (j50_rows s)"
  shows "filter fst (correction_faults n t r) = []"
proof -
  have nt: "n \<in> set (movements s)" "t \<in> set (movements s)" "mv_reverses n = Some (mv_id t)"
    and r: "r \<in> set (left_join (\<lambda>r. Some (ar_id r) = mv_adjustment_reason n) (adjustment_reasons s))"
    using row by (auto simp: j50_rows_def)
  obtain t' where t': "t' \<in> set (movements s)" "mirrors (adjustment_reasons s) n t'" "mv_id t' = mv_id t"
    by (rule honest_target [OF assms(1) nt(1,3)])
  have "t' = t" by (rule same_id [OF ids(1) t'(1) nt(2) t'(3)])
  with t'(2) have m: "mirrors (adjustment_reasons s) n t" by simp
  then obtain x where x: "x \<in> set (adjustment_reasons s)" "Some (ar_id x) = mv_adjustment_reason n"
      "ar_class x = ''record_error''" by (auto simp: mirrors_def)
  from left_join_Some [OF r x(1,2)] obtain y where
      y: "y \<in> set (adjustment_reasons s)" "r = Some y" "Some (ar_id y) = mv_adjustment_reason n" by blast
  have "ar_id y = ar_id x" using x(2) y(3) by (metis option.inject)
  then have "y = x" using same_id [OF ids(2) y(1) x(1)] by simp
  with m x(3) y(2) show ?thesis by (simp add: correction_faults_def mirrors_def)
qed

lemma walk_never_loops:
  assumes "honest s" and ids: "distinct (map mv_id (movements s))"
    and i: "i < length (movements s)" and node: "node = mv_reverses (movements s ! i)"
    and path: "\<And>p. p \<in> set path \<Longrightarrow> \<exists>k. i \<le> k \<and> k < length (movements s) \<and> p = mv_id (movements s ! k)"
  shows "\<not> walk_loops n (movements s) node path"
  using i node path
proof (induction n arbitrary: i node path)
  case (Suc n)
  have False if m: "m \<in> set (movements s)" "Some (mv_id m) = node"
      "mv_id m \<in> set path \<or> walk_loops n (movements s) (mv_reverses m) (mv_id m # path)" for m
  proof -
    have "mv_reverses (movements s ! i) = Some (mv_id m)" using m(2) Suc.prems(2) by simp
    then obtain h where h: "h < i" "mirrors (adjustment_reasons s) (movements s ! i) (movements s ! h)"
      using assms(1) Suc.prems(1) by (force simp: honest_def)
    have hid: "mv_id (movements s ! h) = mv_id m"
      using h(2) m(2) Suc.prems(2) by (auto simp: mirrors_def)
    have hm: "movements s ! h = m"
      using same_id [OF ids _ m(1) hid] h(1) Suc.prems(1) by simp
    have "mv_id m \<notin> set path"
    proof
      assume "mv_id m \<in> set path"
      then obtain k where "i \<le> k" "k < length (movements s)" "mv_id m = mv_id (movements s ! k)"
        using Suc.prems(3) by blast
      then show False using same_id_nth [OF ids, of h k] h(1) Suc.prems(1) hid by simp
    qed
    moreover have "\<not> walk_loops n (movements s) (mv_reverses m) (mv_id m # path)"
    proof (rule Suc.IH [of h])
      show "h < length (movements s)" using h(1) Suc.prems(1) by simp
      show "mv_reverses m = mv_reverses (movements s ! h)" by (simp add: hm)
      show "\<exists>k. h \<le> k \<and> k < length (movements s) \<and> p = mv_id (movements s ! k)"
        if "p \<in> set (mv_id m # path)" for p
        using that Suc.prems(1,3) h(1) hm by (metis le_less_trans le_trans less_imp_le order_refl set_ConsD)
    qed
    ultimately show False using m(3) by blast
  qed
  then show ?case by auto
qed simp

lemma chain_never_loops:
  assumes "honest s" and "distinct (map mv_id (movements s))" and "m \<in> set (movements s)"
  shows "\<not> walk_loops n (movements s) (mv_reverses m) [mv_id m]"
proof -
  obtain i where i: "i < length (movements s)" "m = movements s ! i" using assms(3) by (metis in_set_conv_nth)
  show ?thesis by (rule walk_never_loops [OF assms(1,2) i(1)]) (use i in auto)
qed

text \<open>
  C20: Whatever the handlers write, the jobs that judge corrections find nothing.  On a server started
  with an empty ledger, after any handlers, retries and rebuilds, with movements and reasons keyed by
  their identifiers: every correction carries its target's moment, item, tenant and mirrored sides and
  a record-error reason (J50), and no correction chain returns to itself (J52).
\<close>

theorem corrections_pass_their_jobs:
  assumes run: "steps s s'" and empty: "movements s = []"
    and keys: "distinct (map mv_id (movements s'))" "distinct (map ar_id (adjustment_reasons s'))"
  shows "j50_corrections_are_about_their_target s' = Inr (length (corrections s'), [])
    \<and> j52_correction_chains_do_not_loop s' = Inr (length (corrections s'), [])"
proof -
  have "honest s" using empty by (simp add: honest_def)
  then have h: "honest s'" by (rule steps_honest [OF run])
  have "concat (map (\<lambda>(n, t, r). map (\<lambda>(_, kind, detail).
        finding_of (J 50) kind (''correction '' @ show_uuid (mv_id n) @ '' '' @ detail))
      (filter fst (correction_faults n t r))) (j50_rows s')) = []"
    using j50_silent [OF h keys] by auto
  moreover have "filter (\<lambda>m. walk_loops 63 (movements s') (mv_reverses m) [mv_id m]) (corrections s') = []"
    using chain_never_loops [OF h keys(1)] by (auto simp: filter_eq_Nil_iff corrections_def)
  ultimately show ?thesis
    by (simp add: j50_corrections_are_about_their_target_def j52_correction_chains_do_not_loop_def)
qed

definition corrected_db :: db where
  "corrected_db = fresh_db\<lparr>adjustment_reasons :=
     [\<lparr>ar_id = 71, ar_tenant = None, ar_class = ''record_error'', ar_code = ''miskeyed''\<rparr>]\<rparr>"

definition undo_move :: record_correction_request where
  "undo_move = \<lparr>rx_reverses = 79, rx_quantity = 45, rx_reason = 71, rx_event = 640\<rparr>"

theorem corrections_pass_their_jobs_witness:
  "\<exists>s :: db. length (corrections s) = 1 \<and> j50_corrections_are_about_their_target s = Inr (1, [])
     \<and> j52_correction_chains_do_not_loop s = Inr (1, [])"
proof -
  have "case record_move (willing_pg (\<lambda>_. 79)) sample_caller sample_move corrected_db of Inl _ \<Rightarrow> False
    | Inr (v, s1) \<Rightarrow> (case record_correction show_int 11 (willing_pg (\<lambda>_. 80)) sample_caller undo_move s1 of
        Inl _ \<Rightarrow> False | Inr (v2, s2) \<Rightarrow> length (corrections s2) = 1
          \<and> distinct (map mv_id (movements s2)) \<and> distinct (map ar_id (adjustment_reasons s2)))"
    by code_simp
  from run_then [OF this] obtain v s1 where 1: "record_move (willing_pg (\<lambda>_. 79)) sample_caller sample_move corrected_db = Inr (v, s1)"
    and rest: "case record_correction show_int 11 (willing_pg (\<lambda>_. 80)) sample_caller undo_move s1 of
        Inl _ \<Rightarrow> False | Inr (v2, s2) \<Rightarrow> length (corrections s2) = 1
          \<and> distinct (map mv_id (movements s2)) \<and> distinct (map ar_id (adjustment_reasons s2))"
    by blast
  from run_then [OF rest] obtain v2 s2 where
      2: "record_correction show_int 11 (willing_pg (\<lambda>_. 80)) sample_caller undo_move s1 = Inr (v2, s2)"
      "length (corrections s2) = 1" "distinct (map mv_id (movements s2))" "distinct (map ar_id (adjustment_reasons s2))"
    by blast
  have "steps corrected_db s2"
    by (rule steps.more [OF steps.more [OF steps.none step.move [OF 1]] step.correct [OF 2(1)]])
  moreover have "movements corrected_db = []" by (simp add: corrected_db_def fresh_db_def)
  ultimately have "j50_corrections_are_about_their_target s2 = Inr (length (corrections s2), [])
    \<and> j52_correction_chains_do_not_loop s2 = Inr (length (corrections s2), [])"
    using 2(3,4) by (rule corrections_pass_their_jobs)
  with 2(2) show ?thesis by (intro exI [of _ s2]) simp
qed

section \<open>Packages: the walks of the jobs against the forest\<close>

definition parent_of :: "package_row list \<Rightarrow> uuid \<Rightarrow> uuid option" where
  "parent_of ks x = Option.bind (find (\<lambda>k. pk_id k = x) ks) pk_parent"

lemma parent_of_row:
  assumes "distinct (map pk_id ks)" and "k \<in> set ks"
  shows "parent_of ks (pk_id k) = pk_parent k"
proof -
  have "find (\<lambda>j. pk_id j = pk_id k) ks \<noteq> None" using assms(2) by (auto simp: find_None_iff)
  then obtain j where j: "find (\<lambda>j. pk_id j = pk_id k) ks = Some j" by blast
  then have "j = k" using find_SomeD [OF j] same_id [OF assms(1) _ assms(2)] by blast
  with j show ?thesis by (simp add: parent_of_def)
qed

lemma climb_Suc_end: "climb (Suc n) pn x = Option.bind (climb n pn x) pn"
proof -
  have "climb 1 pn = pn" by (rule ext) (simp split: option.splits)
  then show ?thesis using climb_add [of n 1 pn x] by simp
qed

lemma cycle_never_ends:
  assumes "climb j pn z = Some z" and "0 < j"
  shows "climb n pn z \<noteq> None"
proof -
  have "climb (j * k) pn z = Some z" for k by (induction k) (simp_all add: climb_add assms(1))
  then have "climb (j * n) pn z \<noteq> None" by simp
  then show ?thesis by (rule climb_le) (use assms(2) in simp)
qed

lemma loops_up_sound:
  assumes ids: "distinct (map pk_id ks)"
    and "loops_up n ks parent path"
    and "\<And>p. p \<in> set path \<Longrightarrow> \<exists>j > 0. climb j (parent_of ks) p = parent"
  shows "\<exists>z. parent = Some z \<and> climb n' (parent_of ks) z \<noteq> None"
  using assms(2,3)
proof (induction n arbitrary: parent path)
  case (Suc n)
  obtain k where k: "k \<in> set ks" "parent = Some (pk_id k)"
      "pk_id k \<in> set path \<or> loops_up n ks (pk_parent k) (pk_id k # path)"
    using Suc.prems(1) by auto
  have pn: "parent_of ks (pk_id k) = pk_parent k" by (rule parent_of_row [OF ids k(1)])
  from k(3) show ?case
  proof
    assume "pk_id k \<in> set path"
    then obtain j where "0 < j" "climb j (parent_of ks) (pk_id k) = Some (pk_id k)" using Suc.prems(2) k(2) by metis
    then show ?thesis using cycle_never_ends k(2) by blast
  next
    assume more: "loops_up n ks (pk_parent k) (pk_id k # path)"
    have "\<exists>z. pk_parent k = Some z \<and> climb n' (parent_of ks) z \<noteq> None"
    proof (rule Suc.IH [OF more])
      fix p assume "p \<in> set (pk_id k # path)"
      then consider "p = pk_id k" | "p \<in> set path" by auto
      then show "\<exists>j > 0. climb j (parent_of ks) p = pk_parent k"
      proof cases
        case 1
        then show ?thesis by (intro exI [of _ 1]) (simp add: pn split: option.splits)
      next
        case 2
        then obtain j where "0 < j" "climb j (parent_of ks) p = Some (pk_id k)" using Suc.prems(2) k(2) by metis
        then have "climb (Suc j) (parent_of ks) p = pk_parent k" by (simp only: climb_Suc_end bind.simps pn)
        then show ?thesis by blast
      qed
    qed
    then obtain z where z: "pk_parent k = Some z" "climb n' (parent_of ks) z \<noteq> None" by blast
    then have "climb (Suc n') (parent_of ks) (pk_id k) \<noteq> None" by (simp add: pn)
    then have "climb n' (parent_of ks) (pk_id k) \<noteq> None" by (rule climb_le) simp
    then show ?thesis using k(2) by blast
  qed
qed simp

lemma loops_up_complete:
  assumes ids: "distinct (map pk_id ks)"
    and "\<not> loops_up n ks (Some z) path" and "\<And>m. climb m (parent_of ks) z \<noteq> None"
    and "distinct path" "set path \<subseteq> pk_id ` set ks"
  shows "length path + n \<le> length ks"
  using assms(2-)
proof (induction n arbitrary: z path)
  case 0
  have "length path = card (set path)" using 0(3) by (simp add: distinct_card)
  also have "\<dots> \<le> card (pk_id ` set ks)" by (rule card_mono) (use 0(4) in auto)
  also have "\<dots> \<le> length ks" by (metis card_length image_set length_map)
  finally show ?case by simp
next
  case (Suc n)
  obtain z' where z': "parent_of ks z = Some z'" using Suc.prems(2) [of 1] by (auto split: option.splits)
  obtain k where k: "k \<in> set ks" "pk_id k = z" "pk_parent k = Some z'"
    using z' by (auto simp: parent_of_def bind_eq_Some_conv dest: find_SomeD)
  have no: "z \<notin> set path" "\<not> loops_up n ks (Some z') (z # path)"
    using Suc.prems(1) k by auto
  have "length (z # path) + n \<le> length ks"
  proof (rule Suc.IH [OF no(2)])
    fix m
    have "climb (Suc m) (parent_of ks) z \<noteq> None" by (rule Suc.prems(2))
    then show "climb m (parent_of ks) z' \<noteq> None" by (simp add: z')
  qed (use Suc.prems(3,4) no(1) k in auto)
  then show ?case by simp
qed

text \<open>The walk reports a package exactly when following its parents never ends.\<close>

lemma loops_up_iff:
  assumes ids: "distinct (map pk_id ks)" and k: "k \<in> set ks"
  shows "loops_up (length ks + 1) ks (pk_parent k) [pk_id k]
    \<longleftrightarrow> (\<forall>n. climb n (parent_of ks) (pk_id k) \<noteq> None)"
proof
  assume l: "loops_up (length ks + 1) ks (pk_parent k) [pk_id k]"
  have pn: "parent_of ks (pk_id k) = pk_parent k" by (rule parent_of_row [OF ids k])
  show "\<forall>n. climb n (parent_of ks) (pk_id k) \<noteq> None"
  proof
    fix n
    have "\<exists>z. pk_parent k = Some z \<and> climb n (parent_of ks) z \<noteq> None"
    proof (rule loops_up_sound [OF ids l])
      fix p assume "p \<in> set [pk_id k]"
      then show "\<exists>j > 0. climb j (parent_of ks) p = pk_parent k"
        by (intro exI [of _ 1]) (simp add: pn split: option.splits)
    qed
    then have "climb (Suc n) (parent_of ks) (pk_id k) \<noteq> None" by (auto simp: pn)
    then show "climb n (parent_of ks) (pk_id k) \<noteq> None" by (rule climb_le) simp
  qed
next
  assume never: "\<forall>n. climb n (parent_of ks) (pk_id k) \<noteq> None"
  have pn: "parent_of ks (pk_id k) = pk_parent k" by (rule parent_of_row [OF ids k])
  obtain z where z: "pk_parent k = Some z"
    using never [THEN spec, of 1] by (auto simp: pn split: option.splits)
  have "climb m (parent_of ks) z \<noteq> None" for m
    using never [THEN spec, of "Suc m"] by (simp add: pn z)
  then show "loops_up (length ks + 1) ks (pk_parent k) [pk_id k]"
    using loops_up_complete [OF ids, of "length ks + 1" z "[pk_id k]"] k z by auto
qed

text \<open>Each row of the level walk names the ancestor of its level.\<close>

lemma levels_up_climb:
  assumes ids: "distinct (map pk_id ks)"
    and "(p, m) \<in> set (levels_up f ks parent n path)" and "parent = climb n (parent_of ks) x"
  shows "p = climb m (parent_of ks) x \<and> n \<le> m"
  using assms(2,3)
proof (induction f arbitrary: parent n path)
  case (Suc f)
  show ?case
  proof (cases "(p, m) = (parent, n)")
    case False
    then obtain k where k: "k \<in> set ks" "parent = Some (pk_id k)"
        "(p, m) \<in> set (levels_up f ks (pk_parent k) (n + 1) (pk_id k # path))"
      using Suc.prems(1) by auto
    have "climb (n + 1) (parent_of ks) x = pk_parent k"
      using Suc.prems(2) k(2) parent_of_row [OF ids k(1)] climb_Suc_end [of n "parent_of ks" x]
      by (simp del: climb.simps) (metis bind.simps(2))
    then show ?thesis using Suc.IH [OF k(3)] by (simp del: climb.simps)
  qed (use Suc.prems in simp)
qed simp

lemma fold_max_le: "(\<And>x. x \<in> set xs \<Longrightarrow> x \<le> b) \<Longrightarrow> a \<le> b \<Longrightarrow> fold max xs a \<le> b" for b :: nat
  by (induction xs arbitrary: a) auto

lemma deepest_three_levels:
  assumes ids: "distinct (map pk_id (packages s))" and "three_levels (parent_of (packages s))"
  shows "deepest s i \<le> 2"
  unfolding deepest_def
proof (rule fold_max_le)
  fix m
  assume "m \<in> set (map snd (filter (\<lambda>r. fst r \<noteq> None)
    (concat (map (\<lambda>k. levels_up 15 (packages s) (pk_parent k) 1 [pk_id k])
      (filter (\<lambda>k. pk_id k = i) (nested s))))))"
  then obtain k p where k: "k \<in> set (packages s)" "pk_id k = i"
      "(p, m) \<in> set (levels_up 15 (packages s) (pk_parent k) 1 [pk_id k])" "p \<noteq> None"
    by (auto simp: nested_def)
  have "pk_parent k = climb 1 (parent_of (packages s)) i"
    using parent_of_row [OF ids k(1)] k(2) by (simp split: option.splits)
  from levels_up_climb [OF ids k(3) this] k(4) have "climb m (parent_of (packages s)) i \<noteq> None" by simp
  show "m \<le> 2"
  proof (rule ccontr)
    assume "\<not> m \<le> 2"
    then have "3 \<le> m" by simp
    with \<open>climb m (parent_of (packages s)) i \<noteq> None\<close> have "climb 3 (parent_of (packages s)) i \<noteq> None" by (rule climb_le)
    with assms(2) show False by (simp add: three_levels_def)
  qed
qed simp

text \<open>The constraints of the package tables: a primary key, and foreign keys that carry the tenant.\<close>

definition package_keys :: "db \<Rightarrow> bool" where
  "package_keys s \<longleftrightarrow> distinct (map pk_id (packages s))
     \<and> (\<forall>e \<in> set (package_events s). \<forall>k \<in> set (packages s). pk_id k = pe_package e \<longrightarrow> pk_tenant k = pe_tenant e)
     \<and> (\<forall>k \<in> set (packages s). pk_parent k = None
          \<or> (\<exists>q \<in> set (packages s). Some (pk_id q) = pk_parent k \<and> pk_tenant q = pk_tenant k))"

text \<open>The package rows after the maintainer's fold: each as its winning placement says.\<close>

definition packages_folded :: "db \<Rightarrow> bool" where
  "packages_folded s \<longleftrightarrow> (\<forall>k \<in> set (packages s).
     case sort_by newest_event (placements (pk_tenant k) (pk_id k) s) of
       [] \<Rightarrow> pk_parent k = None
     | w # _ \<Rightarrow> pk_parent k = pe_parent w \<and> pk_location k = pe_location w)"

lemma folded_parent:
  "packages_folded s \<Longrightarrow> k \<in> set (packages s) \<Longrightarrow>
   pk_parent k = package_parent_now (pk_tenant k) (pk_id k) s"
  unfolding packages_folded_def package_parent_now_def by (auto split: list.splits dest!: bspec)

lemma folded_climb:
  assumes keys: "package_keys s" and folded: "packages_folded s" and k: "k \<in> set (packages s)"
  shows "climb n (parent_of (packages s)) (pk_id k)
    = climb n (\<lambda>x. package_parent_now (pk_tenant k) x s) (pk_id k)"
  using k
proof (induction n arbitrary: k)
  case (Suc n)
  have pn: "parent_of (packages s) (pk_id k) = pk_parent k"
    using keys Suc.prems by (intro parent_of_row) (simp_all add: package_keys_def)
  have now: "package_parent_now (pk_tenant k) (pk_id k) s = pk_parent k"
    using folded_parent [OF folded Suc.prems] by simp
  show ?case
  proof (cases "pk_parent k")
    case (Some y)
    then obtain q where q: "q \<in> set (packages s)" "pk_id q = y" "pk_tenant q = pk_tenant k"
      using keys Suc.prems unfolding package_keys_def by (metis option.distinct(1) option.inject)
    from Suc.IH [OF q(1)] show ?thesis by (simp add: pn now Some q(2,3))
  qed (simp add: pn now)
qed simp

lemma folded_three_levels:
  assumes keys: "package_keys s" and folded: "packages_folded s" and "\<And>t. forest t s"
  shows "three_levels (parent_of (packages s))"
  unfolding three_levels_def
proof
  fix x
  show "climb 3 (parent_of (packages s)) x = None"
  proof (cases "\<exists>k \<in> set (packages s). pk_id k = x")
    case True
    then obtain k where k: "k \<in> set (packages s)" "x = pk_id k" by blast
    have "climb 3 (parent_of (packages s)) x = climb 3 (\<lambda>x. package_parent_now (pk_tenant k) x s) x"
      unfolding k(2) by (rule folded_climb [OF keys folded k(1)])
    also have "\<dots> = None" using assms(3) [of "pk_tenant k"] by (simp add: forest_def three_levels_def)
    finally show ?thesis .
  next
    case False
    then have "find (\<lambda>k. pk_id k = x) (packages s) = None" by (auto simp: find_None_iff)
    then have "parent_of (packages s) x = None" by (simp add: parent_of_def)
    then show ?thesis by (simp add: numeral_3_eq_3)
  qed
qed

lemma j6_silent:
  assumes keys: "package_keys s" and folded: "packages_folded s" and k: "k \<in> set (packages s)"
    and w: "w \<in> set (by_package newest_event (filter asserts_placement (package_events s)))" "pe_package w = pk_id k"
  shows "pk_parent k = pe_parent w \<and> pk_location k = pe_location w"
proof -
  let ?es = "filter asserts_placement (package_events s)"
  obtain p where p: "p \<in> set (map pe_package ?es)" "w = hd (sort_by newest_event (filter (\<lambda>e. pe_package e = p) ?es))"
    using w(1) by (auto simp: by_package_def)
  then have ne: "filter (\<lambda>e. pe_package e = p) ?es \<noteq> []" by (auto simp: filter_eq_Nil_iff)
  then have "w \<in> set (filter (\<lambda>e. pe_package e = p) ?es)"
    using p(2) by (metis hd_in_set set_sort_by sort_by_eq_Nil)
  then have pw: "p = pk_id k" using w(2) by simp
  have "filter (\<lambda>e. pe_package e = p) ?es = placements (pk_tenant k) (pk_id k) s"
    using keys k unfolding placements_def visible_def package_keys_def pw
    by (auto intro!: filter_cong)
  with p(2) ne obtain ws where "sort_by newest_event (placements (pk_tenant k) (pk_id k) s) = w # ws"
    by (metis list.collapse sort_by_eq_Nil)
  then show ?thesis using folded k by (auto simp: packages_folded_def dest!: bspec)
qed

text \<open>
  C21: Once the fold has run, containment is what the jobs want it to be.  On a server started with no
  package event, after any handlers of any tenants in whatever clock order, with the package tables'
  keys and every row as its winning placement says: the fold agrees with the log (J6), no package is
  inside itself (J79) and no chain is more than three deep (J80).
\<close>

theorem folded_packages_pass_their_jobs:
  assumes run: "steps s s'" and empty: "package_events s = []"
    and keys: "package_keys s'" and folded: "packages_folded s'"
  shows "(\<exists>n. j6_package_projection_is_the_fold s' = Inr (n, []))
    \<and> j79_no_package_is_inside_itself s' = Inr (length (nested s'), [])
    \<and> j80_three_deep_at_most s' = Inr (length (nested s'), [])"
proof -
  have "forest t s" for t by (rule package_events_empty_forest [OF empty])
  then have "forest t s'" for t using steps_contract [OF run] by blast
  then have three: "three_levels (parent_of (packages s'))" by (rule folded_three_levels [OF keys folded])
  have ids: "distinct (map pk_id (packages s'))" using keys by (simp add: package_keys_def)
  have "filter (\<lambda>w. pe_package w = pk_id k \<and> (pk_parent k \<noteq> pe_parent w \<or> pk_location k \<noteq> pe_location w))
      (by_package newest_event (filter asserts_placement (package_events s'))) = []"
    if "k \<in> set (packages s')" for k
    using j6_silent [OF keys folded that] by (auto simp: filter_eq_Nil_iff)
  then have "\<exists>n. j6_package_projection_is_the_fold s' = Inr (n, [])"
    by (auto simp: j6_package_projection_is_the_fold_def Let_def)
  moreover have "filter (\<lambda>k. loops_up (length (packages s') + 1) (packages s') (pk_parent k) [pk_id k]) (nested s') = []"
  proof -
    have "\<not> loops_up (length (packages s') + 1) (packages s') (pk_parent k) [pk_id k]" if "k \<in> set (nested s')" for k
    proof -
      have "k \<in> set (packages s')" using that by (simp add: nested_def)
      from loops_up_iff [OF ids this] three show ?thesis by (auto simp: three_levels_def)
    qed
    then show ?thesis by (auto simp: filter_eq_Nil_iff)
  qed
  moreover have "\<not> 3 < deepest s' i + 1" for i using deepest_three_levels [OF ids three, of i] by simp
  ultimately show ?thesis
    by (simp add: j79_no_package_is_inside_itself_def j80_three_deep_at_most_def)
qed

text \<open>Package 5 is put into 6, and the fold writes what its event says.\<close>

theorem folded_packages_pass_their_jobs_witness:
  "\<exists>s :: db. length (nested s) = 1 \<and> j79_no_package_is_inside_itself s = Inr (1, [])
     \<and> j80_three_deep_at_most s = Inr (1, [])"
proof -
  let ?fold = "\<lambda>s :: db. s\<lparr>packages := [(sample_package 5)\<lparr>pk_parent := Some 6, pk_location := None\<rparr>, sample_package 6]\<rparr>"
  have "case contain_package sample_pg sample_caller (5, sample_contain) packed_db of Inl _ \<Rightarrow> False
    | Inr (v, s1) \<Rightarrow> package_keys (?fold s1) \<and> packages_folded (?fold s1) \<and> length (nested (?fold s1)) = 1
        \<and> list_all (\<lambda>k. pk_tenant k = 10) (packages s1)"
    by code_simp
  from run_then [OF this] obtain v s1 where
      1: "contain_package sample_pg sample_caller (5, sample_contain) packed_db = Inr (v, s1)"
      "package_keys (?fold s1)" "packages_folded (?fold s1)" "length (nested (?fold s1)) = 1"
      "list_all (\<lambda>k. pk_tenant k = 10) (packages s1)" by blast
  have "rebuilt 10 s1 (?fold s1)"
    using 1(5) by (auto simp: rebuilt_def isolated_def tenant_view_def visible_def sample_package_def
        list_all_iff filter_empty_conv)
  then have "steps packed_db (?fold s1)"
    by (rule steps.more [OF steps.more [OF steps.none step.contain [OF 1(1)]] step.rebuild])
  moreover have "package_events packed_db = []" by (simp add: packed_db_def sample_db_def empty_db_def)
  ultimately have "j79_no_package_is_inside_itself (?fold s1) = Inr (length (nested (?fold s1)), [])
    \<and> j80_three_deep_at_most (?fold s1) = Inr (length (nested (?fold s1)), [])"
    using folded_packages_pass_their_jobs 1(2,3) by blast
  with 1(4) show ?thesis by (intro exI [of _ "?fold s1"]) simp
qed

section \<open>The fold of the job is the ledger\<close>

lemma sum_at_append: "sum_at (xs @ ys) k = sum_at xs k + sum_at ys k"
  by (simp add: sum_at_def)

lemma sum_at_map: "sum_at (map (\<lambda>m. (key m, f m)) ms) k = sum_list (map (\<lambda>m. if key m = k then f m else 0) ms)"
  by (induction ms) (auto simp: sum_at_def)

lemma sum_list_visible:
  "sum_list (map f (visible tn t ms)) = sum_list (map (\<lambda>m. if tn m = t then f m else 0) ms)" for f :: "'a \<Rightarrow> int"
  by (induction ms) (auto simp: visible_def)

lemma sum_list_filtered:
  "(\<And>m. m \<in> set ms \<Longrightarrow> \<not> p m \<Longrightarrow> f m = 0) \<Longrightarrow> sum_list (map f (filter p ms)) = sum_list (map f ms)"
  for f :: "'a \<Rightarrow> int"
  by (induction ms) auto

lemma ledger_rows_sum:
  assumes "held_once sd"
  shows "sum_at (ledger_rows (movements s)) (t, i, sd) = on_hand t i sd s"
proof -
  have "sum_at (ledger_rows (movements s)) (t, i, sd)
      = sum_list (map (\<lambda>m. if (mv_tenant m, mv_item m, mv_to m) = (t, i, sd) then mv_quantity m else 0) (movements s))
      + sum_list (map (\<lambda>m. if (mv_tenant m, mv_item m, mv_from m) = (t, i, sd) then - mv_quantity m else 0) (movements s))"
    unfolding ledger_rows_def sum_at_append sum_at_map using assms
    by (intro arg_cong2 [of _ _ _ _ "(+)"] sum_list_filtered) auto
  also have "\<dots> = on_hand t i sd s"
    unfolding on_hand_def sum_list_visible sum_list_addf [symmetric]
    by (intro arg_cong [of _ _ sum_list] map_cong) (auto simp: net_def entered_def left_from_def)
  finally show ?thesis .
qed

lemma sum_at_absent: "k \<notin> fst ` set rows \<Longrightarrow> sum_at rows k = 0"
  by (induction rows) (auto simp: sum_at_def)

lemma ledger_fold_entry:
  "(k, q) \<in> set (ledger_fold ms) \<longleftrightarrow> k \<in> fst ` set (ledger_rows ms) \<and> q = sum_at (ledger_rows ms) k"
  by (auto simp: ledger_fold_def Let_def)

lemma ledger_rows_held: "(t, i, sd) \<in> fst ` set (ledger_rows ms) \<Longrightarrow> held_once sd"
  by (auto simp: ledger_rows_def)

lemma drift_rows_empty:
  "drift_rows folded cells = [] \<longleftrightarrow>
     (\<forall>(key, q) \<in> set folded. if \<exists>k \<in> set cells. stock_key k = key
        then \<forall>k \<in> set cells. stock_key k = key \<longrightarrow> sk_quantity k = q else q = 0)
     \<and> (\<forall>k \<in> set cells. stock_key k \<notin> fst ` set folded \<longrightarrow> sk_quantity k = 0)"
  unfolding drift_rows_def Let_def
  by (fastforce simp: filter_empty_conv filter_eq_Nil_iff split: if_splits)

text \<open>
  C22: The drift job is the ledger.  With every cell held by a location or a package and not both, and
  no balance past 64 bits, J1 finds nothing exactly when every stock row holds what the ledger says of
  its cell and no cell the ledger holds anything in is missing.
\<close>

theorem j1_silent_iff_stock_is_ledger:
  assumes held: "\<forall>k \<in> set (stock s). held_once (side_of_stock k)"
    and range: "\<And>t i sd. in_i64 (on_hand t i sd s)"
  shows "j1_stock_quantity_is_the_fold s = Inr (length (stock s), []) \<longleftrightarrow>
     (\<forall>k \<in> set (stock s). sk_quantity k = on_hand (sk_tenant k) (sk_item k) (side_of_stock k) s)
     \<and> (\<forall>t i sd. held_once sd \<and> on_hand t i sd s \<noteq> 0 \<longrightarrow> (\<exists>k \<in> set (stock s). stock_key k = (t, i, sd)))"
proof -
  let ?rows = "ledger_rows (movements s)" and ?fold = "ledger_fold (movements s)"
  have sum: "sum_at ?rows key = on_hand (fst key) (fst (snd key)) (snd (snd key)) s"
    if "key \<in> fst ` set ?rows" for key
    using ledger_rows_held ledger_rows_sum that by (metis prod.collapse)
  have absent: "on_hand t i sd s = 0" if "held_once sd" "(t, i, sd) \<notin> fst ` set ?rows" for t i sd
    using ledger_rows_sum [OF that(1)] sum_at_absent [OF that(2)] by metis
  have keys: "fst ` set ?fold = fst ` set ?rows"
    by (simp add: ledger_fold_def Let_def image_image)
  have "\<forall>(key, q) \<in> set ?fold. in_i64 q" using range by (auto simp: ledger_fold_entry sum)
  then have "j1_stock_quantity_is_the_fold s = Inr (length (stock s), []) \<longleftrightarrow> drift_rows ?fold (stock s) = []"
    by (auto simp: j1_stock_quantity_is_the_fold_def Let_def)
  also have "\<dots> \<longleftrightarrow> (\<forall>k \<in> set (stock s). sk_quantity k = on_hand (sk_tenant k) (sk_item k) (side_of_stock k) s)
     \<and> (\<forall>t i sd. held_once sd \<and> on_hand t i sd s \<noteq> 0 \<longrightarrow> (\<exists>k \<in> set (stock s). stock_key k = (t, i, sd)))"
    (is "_ \<longleftrightarrow> ?cells \<and> ?all")
  proof
    assume none: "drift_rows ?fold (stock s) = []"
    have cell: "sk_quantity k = on_hand (sk_tenant k) (sk_item k) (side_of_stock k) s" if k: "k \<in> set (stock s)" for k
    proof (cases "stock_key k \<in> fst ` set ?rows")
      case True
      then have "(stock_key k, sum_at ?rows (stock_key k)) \<in> set ?fold" by (simp add: ledger_fold_entry)
      then have "sk_quantity k = sum_at ?rows (stock_key k)"
        using none k unfolding drift_rows_empty by (fastforce split: if_splits)
      then show ?thesis using sum [OF True] by (simp add: stock_key_def)
    next
      case False
      then have "sk_quantity k = 0" using none k keys unfolding drift_rows_empty by blast
      then show ?thesis using absent False held k by (simp add: stock_key_def)
    qed
    moreover have "\<exists>k \<in> set (stock s). stock_key k = (t, i, sd)" if "held_once sd" "on_hand t i sd s \<noteq> 0" for t i sd
    proof (rule ccontr)
      assume no: "\<not> ?thesis"
      have "(t, i, sd) \<in> fst ` set ?rows" using absent that by blast
      then have "((t, i, sd), on_hand t i sd s) \<in> set ?fold" using sum by (simp add: ledger_fold_entry)
      then have "on_hand t i sd s = 0" using none no unfolding drift_rows_empty by (fastforce split: if_splits)
      with that show False by simp
    qed
    ultimately show "?cells \<and> ?all" by blast
  next
    assume right: "?cells \<and> ?all"
    have "if \<exists>k \<in> set (stock s). stock_key k = key
        then \<forall>k \<in> set (stock s). stock_key k = key \<longrightarrow> sk_quantity k = q else q = 0"
      if "(key, q) \<in> set ?fold" for key q
    proof -
      obtain t i sd where key: "key = (t, i, sd)" by (cases key)
      have mem: "(t, i, sd) \<in> fst ` set ?rows" using that key by (simp add: ledger_fold_entry)
      have q: "q = on_hand t i sd s" "held_once sd"
        using that sum [OF mem] ledger_rows_held [OF mem] key by (simp_all add: ledger_fold_entry)
      have "on_hand t i sd s = 0 \<or> (\<exists>k \<in> set (stock s). stock_key k = key)"
        using right q(2) key by blast
      moreover have "sk_quantity k = q" if "k \<in> set (stock s)" "stock_key k = key" for k
        using right that q(1) key by (auto simp: stock_key_def)
      ultimately show ?thesis using q(1) by auto
    qed
    moreover have "sk_quantity k = 0" if "k \<in> set (stock s)" "stock_key k \<notin> fst ` set ?fold" for k
      using right that absent held unfolding keys by (simp add: stock_key_def)
    ultimately show "drift_rows ?fold (stock s) = []" unfolding drift_rows_empty by blast
  qed
  finally show ?thesis .
qed

theorem j1_silent_iff_stock_is_ledger_witness:
  "j1_stock_quantity_is_the_fold sample_db = Inr (length (stock sample_db), []) \<longleftrightarrow>
     (\<forall>k \<in> set (stock sample_db). sk_quantity k = on_hand (sk_tenant k) (sk_item k) (side_of_stock k) sample_db)
     \<and> (\<forall>t i sd. held_once sd \<and> on_hand t i sd sample_db \<noteq> 0 \<longrightarrow>
          (\<exists>k \<in> set (stock sample_db). stock_key k = (t, i, sd)))"
proof (rule j1_silent_iff_stock_is_ledger)
  show "\<forall>k \<in> set (stock sample_db). held_once (side_of_stock k)" by code_simp
  show "in_i64 (on_hand t i sd sample_db)" for t i sd
    by (simp add: on_hand_def visible_def sample_db_def empty_db_def sample_receipt_def net_def
        entered_def left_from_def in_i64_def)
qed

section \<open>What a write makes the jobs find\<close>

lemma j69_snoc:
  assumes "movements s' = movements s @ [m]" and "fulfilment_lines s' = fulfilment_lines s"
    and "order_lines s' = order_lines s"
  shows "j69_found s' = j69_found s @ j69_of (fulfilment_lines s) (order_lines s) m"
  by (simp add: j69_found_def assms)

lemma j69_of_line:
  assumes keys: "distinct (map fl_id (fulfilment_lines s))" "distinct (map ol_id (order_lines s))"
    and line: "line_joined t i s = Some (l, item, c)" and m: "mv_line m = Some i"
  shows "length (j69_of (fulfilment_lines s) (order_lines s) m) = (if mv_item m = item then 0 else 1)"
proof -
  have l: "line_by_id t i s = Some l" by (rule line_joined_SomeD [OF line])
  then have l': "l \<in> set (fulfilment_lines s)" "fl_id l = i" by (auto simp: row_simps dest: by_id_SomeD)
  obtain o' where o': "o' \<in> set (order_lines s)" "ol_id o' = fl_order_line l" "ol_item o' = item"
    using line l by (auto simp: line_joined_def bind_eq_Some_conv dest: by_id_SomeD)
  have "filter (\<lambda>l. Some (fl_id l) = mv_line m) (fulfilment_lines s) = [l]"
    using distinct_map_filter_single [OF keys(1) l'(1)] l'(2) m by simp
  moreover have "filter (\<lambda>o'. ol_id o' = fl_order_line l) (order_lines s) = [o']"
    using distinct_map_filter_single [OF keys(2) o'(1)] o'(2) by simp
  then have "filter (\<lambda>o'. ol_id o' = fl_order_line l \<and> mv_item m \<noteq> ol_item o') (order_lines s)
      = (if mv_item m = item then [] else [o'])"
    using o'(3) by (simp add: filter_filter [symmetric] conj_commute)
  ultimately show ?thesis by (simp add: j69_of_def)
qed

text \<open>
  A substituted pick is recorded and found.  Picking never refuses a cell of another item; the row
  it writes is one more finding of J69 when the cell's item is not the one the line commits to, and
  adds none when it is.
\<close>

theorem pick_substitution_is_found:
  assumes run: "record_pick pg who req s = Inr (v, s')"
    and fresh: "\<not> claimed (ca_tenant who) (rp_event req) s"
    and keys: "distinct (map fl_id (fulfilment_lines s))" "distinct (map ol_id (order_lines s))"
    and cell: "stock_by_id (ca_tenant who) (rp_from_stock req) s = Some c"
    and line: "line_joined (ca_tenant who) (rp_line req) s = Some (l, item, cancelled)"
  shows "\<exists>new. j69_found s' = j69_found s @ new \<and> length new = (if sk_item c = item then 0 else 1)"
proof (rule record_pick_fresh [OF run fresh])
  fix c' d
  assume c': "stock_by_id (ca_tenant who) (rp_from_stock req) s = Some c'"
    and s': "s' = mark_dirty pg (ca_tenant who) ''pick''
       (s\<lparr>client_events := client_events s @ [pick_envelope pg who req],
          movements := movements s @ [pick_movement pg who req (pick_sides c' d)]\<rparr>)"
  have "j69_found s' = j69_found s @ j69_of (fulfilment_lines s) (order_lines s) (pick_movement pg who req (pick_sides c' d))"
    by (rule j69_snoc) (simp_all add: s')
  moreover have "length (j69_of (fulfilment_lines s) (order_lines s) (pick_movement pg who req (pick_sides c' d)))
      = (if sk_item c = item then 0 else 1)"
    using j69_of_line [OF keys line, of "pick_movement pg who req (pick_sides c' d)"] cell c'
    by (simp add: pick_movement_def pick_sides_def split: destination.splits)
  ultimately show ?thesis by blast
qed

definition other_item_db :: db where
  "other_item_db = sample_pick_db\<lparr>order_lines := [\<lparr>ol_id = 43, ol_tenant = 10, ol_item = 101\<rparr>]\<rparr>"

theorem pick_substitution_is_found_witness:
  "\<exists>v s' new. record_pick sample_pg sample_caller sample_pick other_item_db = Inr (v, s')
     \<and> j69_found s' = j69_found other_item_db @ new \<and> length new = 1"
proof -
  have "\<not> isl (record_pick sample_pg sample_caller sample_pick other_item_db)" by code_simp
  from runs [OF this] obtain v s' where run: "record_pick sample_pg sample_caller sample_pick other_item_db = Inr (v, s')"
    by blast
  have ok: "\<not> claimed (ca_tenant sample_caller) (rp_event sample_pick) other_item_db"
    "distinct (map fl_id (fulfilment_lines other_item_db))" "distinct (map ol_id (order_lines other_item_db))"
    by code_simp+
  have cell: "stock_by_id (ca_tenant sample_caller) (rp_from_stock sample_pick) other_item_db = Some sample_cell"
    by code_simp
  have "map_option (\<lambda>(l, item, c). item) (line_joined (ca_tenant sample_caller) (rp_line sample_pick) other_item_db)
      = Some 101" by code_simp
  then obtain l x where line: "line_joined (ca_tenant sample_caller) (rp_line sample_pick) other_item_db = Some (l, 101, x)"
    by auto
  obtain new where "j69_found s' = j69_found other_item_db @ new"
      "length new = (if sk_item sample_cell = 101 then 0 else 1)"
    using pick_substitution_is_found [OF run ok cell line] by blast
  with run show ?thesis by (auto simp: sample_cell_def)
qed

text \<open>A row nobody reverses is worth its quantity; new corrections are such rows.\<close>

lemma unreversed_worth: "reversals ms m = [] \<Longrightarrow> net_of_reversals (Suc n) ms m = mv_quantity m"
  by simp

lemma reversals_of_new:
  assumes ids: "distinct (map mv_id (xs @ ys))" and "y \<in> set ys"
    and targets: "\<And>n u. n \<in> set (xs @ ys) \<Longrightarrow> mv_reverses n = Some u \<Longrightarrow> \<exists>t \<in> set xs. mv_id t = u"
  shows "reversals (xs @ ys) y = []"
proof -
  have "mv_reverses n \<noteq> Some (mv_id y)" if n: "n \<in> set (xs @ ys)" for n
  proof
    assume "mv_reverses n = Some (mv_id y)"
    then obtain t where "t \<in> set xs" "mv_id t = mv_id y" using targets [OF n] by blast
    then show False using ids assms(2) by (force simp: image_iff)
  qed
  then show ?thesis unfolding reversals_def filter_eq_Nil_iff by blast
qed

text \<open>
  What the write path lets through, the job finds.  When a movement nobody has corrected is
  corrected in full twice, which the handler accepts, the next run of J51 that answers at all reports
  it, with twice its quantity reversed against it.
\<close>

theorem overcorrection_is_found:
  assumes history: "steps s0 s" "movements s0 = []"
    and target: "movement_by_id (ca_tenant who) (rx_reverses req) s = Some m" "mv_reverses m = None"
      "0 < mv_quantity m" "reversals (movements s) m = []"
    and first: "record_correction sh clock pg who req s = Inr (v, s1)" "\<not> claimed (ca_tenant who) (rx_event req) s"
      "rx_quantity req = mv_quantity m"
    and second: "record_correction sh clock' pg' who (req\<lparr>rx_event := act\<rparr>) s1 = Inr (v2, s2)"
      "\<not> claimed (ca_tenant who) act s1"
    and ids: "distinct (map mv_id (movements s2))"
    and job: "j51_corrections_do_not_overreach s2 = Inr (n, found)"
  shows "overreach m (2 * mv_quantity m) \<in> set found"
proof -
  let ?r1 = "correction_movement pg who req (movement_of_row m)"
  let ?r2 = "correction_movement pg' who (req\<lparr>rx_event := act\<rparr>) (movement_of_row m)"
  have m: "m \<in> set (movements s)" "mv_id m = rx_reverses req"
    using target(1) by (auto simp: row_simps dest: by_id_SomeD)
  have s1: "movements s1 = movements s @ [?r1]"
    by (rule record_correction_fresh [OF first(1,2)]) (use target(1) in simp)
  have again: "movement_by_id (ca_tenant who) (rx_reverses req) s1 = Some m"
    using target(1) by (simp add: row_simps by_id_def s1 find_append)
  have "\<not> claimed (ca_tenant who) (rx_event (req\<lparr>rx_event := act\<rparr>)) s1" using second(2) by simp
  then have s2: "movements s2 = movements s @ [?r1, ?r2]"
    by (rule record_correction_fresh [OF second(1)]) (use again s1 in simp)
  have "honest s0" using history(2) by (simp add: honest_def)
  then have h: "honest s" by (rule steps_honest [OF history(1)])
  have new: "reversals (movements s2) y = []" if "y \<in> {?r1, ?r2}" for y
    unfolding s2
  proof (rule reversals_of_new)
    fix k u assume k: "k \<in> set (movements s @ [?r1, ?r2])" "mv_reverses k = Some u"
    show "\<exists>t \<in> set (movements s). mv_id t = u"
    proof (cases "k \<in> set (movements s)")
      case True
      then show ?thesis using honest_target [OF h True k(2)] by blast
    next
      case False
      then show ?thesis using k m by auto
    qed
  qed (use ids s2 that in auto)
  have q: "mv_quantity ?r1 = mv_quantity m" "mv_quantity ?r2 = mv_quantity m" using first(3) by simp_all
  have rev: "reversals (movements s2) m = [?r1, ?r2]"
    using target(4) m(2) by (simp add: s2 reversals_def)
  obtain l where len: "length (movements s2) = Suc (Suc l)" by (simp add: s2)
  have "effective s2 m = - mv_quantity m"
    unfolding effective_def effective_quantity_net len net_of_reversals.simps(2) [of "Suc l" _ m] rev
    using unreversed_worth [OF new, of ?r1] unreversed_worth [OF new, of ?r2] q
    by (simp del: net_of_reversals.simps)
  moreover have "m \<in> set (movements s2)" using m(1) s2 by simp
  moreover have "found = map (\<lambda>t. overreach t (mv_quantity t - effective s2 t))
      (filter (\<lambda>t. effective s2 t < 0) (filter (\<lambda>t. mv_reverses t = None) (movements s2)))"
    using job by (simp add: j51_corrections_do_not_overreach_def Let_def split: if_splits)
  ultimately show ?thesis using target(2,3) by (auto intro!: image_eqI [of _ _ m])
qed

theorem overcorrection_is_found_witness:
  "\<exists>s2 n found. j51_corrections_do_not_overreach s2 = Inr (n, found)
     \<and> (\<exists>m. overreach m 90 \<in> set found)"
proof -
  let ?pg = "\<lambda>i. willing_pg (\<lambda>_. i)"
  have "case record_move (?pg 79) sample_caller sample_move corrected_db of Inl _ \<Rightarrow> False
    | Inr (v, s) \<Rightarrow> (case record_correction show_int 11 (?pg 80) sample_caller undo_move s of Inl _ \<Rightarrow> False
      | Inr (v1, s1) \<Rightarrow> (case record_correction show_int 11 (?pg 81) sample_caller (undo_move\<lparr>rx_event := 641\<rparr>) s1 of
          Inl _ \<Rightarrow> False
        | Inr (v2, s2) \<Rightarrow> distinct (map mv_id (movements s2)) \<and> \<not> claimed 10 640 s \<and> \<not> claimed 10 641 s1
            \<and> map_option (\<lambda>m. (mv_reverses m, mv_quantity m, reversals (movements s) m)) (movement_by_id 10 79 s)
                = Some (None, 45, [])
            \<and> list_all (\<lambda>t. in_i64 (effective s2 t) \<and> in_i64 (mv_quantity t - effective s2 t)) (movements s2)))"
    by code_simp
  from run_then [OF this] obtain v s where 1: "record_move (?pg 79) sample_caller sample_move corrected_db = Inr (v, s)"
    and rest: "case record_correction show_int 11 (?pg 80) sample_caller undo_move s of Inl _ \<Rightarrow> False
      | Inr (v1, s1) \<Rightarrow> (case record_correction show_int 11 (?pg 81) sample_caller (undo_move\<lparr>rx_event := 641\<rparr>) s1 of
          Inl _ \<Rightarrow> False
        | Inr (v2, s2) \<Rightarrow> distinct (map mv_id (movements s2)) \<and> \<not> claimed 10 640 s \<and> \<not> claimed 10 641 s1
            \<and> map_option (\<lambda>m. (mv_reverses m, mv_quantity m, reversals (movements s) m)) (movement_by_id 10 79 s)
                = Some (None, 45, [])
            \<and> list_all (\<lambda>t. in_i64 (effective s2 t) \<and> in_i64 (mv_quantity t - effective s2 t)) (movements s2))" by blast
  from run_then [OF rest] obtain v1 s1 where
      2: "record_correction show_int 11 (?pg 80) sample_caller undo_move s = Inr (v1, s1)"
    and rest2: "case record_correction show_int 11 (?pg 81) sample_caller (undo_move\<lparr>rx_event := 641\<rparr>) s1 of
          Inl _ \<Rightarrow> False
        | Inr (v2, s2) \<Rightarrow> distinct (map mv_id (movements s2)) \<and> \<not> claimed 10 640 s \<and> \<not> claimed 10 641 s1
            \<and> map_option (\<lambda>m. (mv_reverses m, mv_quantity m, reversals (movements s) m)) (movement_by_id 10 79 s)
                = Some (None, 45, [])
            \<and> list_all (\<lambda>t. in_i64 (effective s2 t) \<and> in_i64 (mv_quantity t - effective s2 t)) (movements s2)" by blast
  from run_then [OF rest2] obtain v2 s2 where
      3: "record_correction show_int 11 (?pg 81) sample_caller (undo_move\<lparr>rx_event := 641\<rparr>) s1 = Inr (v2, s2)"
    and ids: "distinct (map mv_id (movements s2))" and fresh: "\<not> claimed 10 640 s" "\<not> claimed 10 641 s1"
    and atm: "map_option (\<lambda>m. (mv_reverses m, mv_quantity m, reversals (movements s) m)) (movement_by_id 10 79 s)
                = Some (None, 45, [])"
    and answers: "list_all (\<lambda>t. in_i64 (effective s2 t) \<and> in_i64 (mv_quantity t - effective s2 t)) (movements s2)" by blast
  obtain m where m: "movement_by_id 10 79 s = Some m" "mv_reverses m = None" "mv_quantity m = 45"
      "reversals (movements s) m = []" using atm by auto
  have run: "steps corrected_db s" by (rule steps.more [OF steps.none step.move [OF 1]])
  have empty: "movements corrected_db = []" by (simp add: corrected_db_def fresh_db_def)
  obtain n found where job: "j51_corrections_do_not_overreach s2 = Inr (n, found)"
    using answers by (auto simp: j51_corrections_do_not_overreach_def Let_def list_all_iff)
  have "overreach m (2 * mv_quantity m) \<in> set found"
    by (rule overcorrection_is_found [OF run empty _ m(2) _ m(4) 2 _ _ 3 _ ids job])
       (use m fresh in \<open>simp_all add: sample_caller_def undo_move_def\<close>)
  with job m(3) show ?thesis by auto
qed

text \<open>
  J34 says a package first identified by an ASN cannot exist; the placement handler takes \<open>asn\<close> for a
  source, and where that is the package's first event the job reports it.
\<close>

definition asn_place :: place_request where
  "asn_place = \<lparr>rq_location = 9, rq_event = 650, rq_occurred_at = 5, rq_source = Some ''asn''\<rparr>"

lemma asn_placement_is_found:
  "\<exists>v s' n found. place_package sample_pg sample_caller (5, asn_place) packed_db = Inr (v, s')
     \<and> j34_no_package_minted_from_an_assertion s' = Inr (n, found) \<and> found \<noteq> []"
proof -
  have "case place_package sample_pg sample_caller (5, asn_place) packed_db of Inl _ \<Rightarrow> False
    | Inr (v, s') \<Rightarrow> filter (\<lambda>e. pe_source e = ''asn'') (by_package oldest_event (package_events s')) \<noteq> []"
    by code_simp
  from run_then [OF this] show ?thesis
    by (auto simp: j34_no_package_minted_from_an_assertion_def Let_def)
qed

end

