(* ===== verification/Layout.thy ===== *)
theory Layout
  imports Database
begin

text \<open>
  Where things are, \<^verbatim>\<open>layout.rs\<close>: the grid of a place and the numbers its labels carry, the patterns
  that name its cells, the frames of nested places, and the layout drafted from a bin list.  Text is
  UTF-8 bytes: every character the code looks for is ASCII, so none is found inside another.
\<close>

section \<open>Cells and grids\<close>

type_synonym i32 = int

definition wrap32 :: "int \<Rightarrow> i32" where
  "wrap32 x = (x + 2 ^ 31) mod 2 ^ 32 - 2 ^ 31"

definition in_i32 :: "int \<Rightarrow> bool" where
  "in_i32 x \<longleftrightarrow> - (2 ^ 31) \<le> x \<and> x < 2 ^ 31"

lemma wrap32_id [simp]: "in_i32 x \<Longrightarrow> wrap32 x = x"
  by (simp add: wrap32_def in_i32_def)

record grid_cell =
  gc_bay :: i32
  gc_level :: i32
  gc_row :: i32
  gc_position :: i32
  gc_side :: i32

record grid =
  gd_bays :: i32
  gd_levels :: i32
  gd_rows :: i32
  gd_positions :: "i32 list"
  gd_first_bay :: i32
  gd_bay_step :: i32
  gd_first_level :: i32
  gd_sides :: i32
  gd_from_right :: bool

definition single :: grid where
  "single = \<lparr>gd_bays = 1, gd_levels = 1, gd_rows = 1, gd_positions = [], gd_first_bay = 1,
     gd_bay_step = 1, gd_first_level = 1, gd_sides = 1, gd_from_right = False\<rparr>"

text \<open>A level below 1 is a huge index, which \<open>get\<close> does not find either.\<close>

definition positions_at :: "grid \<Rightarrow> i32 \<Rightarrow> i32" where
  "positions_at g level =
     (let i = wrap32 (level - 1) in
      if 0 \<le> i \<and> nat i < length (gd_positions g) then gd_positions g ! nat i else 1)"

definition contains :: "grid \<Rightarrow> grid_cell \<Rightarrow> bool" where
  "contains g c \<longleftrightarrow> 1 \<le> gc_side c \<and> gc_side c \<le> gd_sides g
     \<and> 1 \<le> gc_bay c \<and> gc_bay c \<le> gd_bays g \<and> 1 \<le> gc_level c \<and> gc_level c \<le> gd_levels g
     \<and> 1 \<le> gc_row c \<and> gc_row c \<le> gd_rows g
     \<and> 1 \<le> gc_position c \<and> gc_position c \<le> positions_at g (gc_level c)"

definition cells :: "grid \<Rightarrow> grid_cell list" where
  "cells g =
     concat (map (\<lambda>side. concat (map (\<lambda>bay. concat (map (\<lambda>level. concat (map (\<lambda>row. map (\<lambda>position.
       \<lparr>gc_bay = bay, gc_level = level, gc_row = row, gc_position = position, gc_side = side\<rparr>)
       [1..positions_at g level]) [1..gd_rows g])) [1..gd_levels g])) [1..gd_bays g])) [1..gd_sides g])"

definition label_number :: "grid \<Rightarrow> i32 \<Rightarrow> i32 \<Rightarrow> i32" where
  "label_number g side bay =
     (let along = (if gd_from_right g then wrap32 (wrap32 (gd_bays g + 1) - bay) else bay) in
      if side = 2
      then wrap32 (gd_first_bay g + wrap32 (wrap32 (wrap32 (2 * gd_bays g) - along) * gd_bay_step g))
      else wrap32 (gd_first_bay g + wrap32 (wrap32 (along - 1) * gd_bay_step g)))"

definition level_number :: "grid \<Rightarrow> i32 \<Rightarrow> i32" where
  "level_number g level = wrap32 (wrap32 (gd_first_level g + level) - 1)"

definition problems :: "grid \<Rightarrow> string list" where
  "problems g =
     (if gd_bays g < 1 \<or> gd_levels g < 1 \<or> gd_rows g < 1
      then [''a grid needs at least one bay, one level and one row''] else [])
     @ (if gd_positions g \<noteq> [] \<and> int (length (gd_positions g)) \<noteq> gd_levels g
        then [show_int (int (length (gd_positions g))) @ '' position counts for '' @
              show_int (gd_levels g) @ '' levels''] else [])
     @ (if \<exists>n \<in> set (gd_positions g). n < 1 then [''a level with no positions''] else [])
     @ (if gd_bay_step g = 0 then [''every bay would have the same number (a step of 0)''] else [])
     @ (if gd_sides g \<noteq> 1 \<and> gd_sides g \<noteq> 2 then [''a grid has one side or two''] else [])
     @ (if gd_first_bay g < 0 \<or> wrap32 (gd_first_bay g + wrap32 (wrap32 (wrap32 (max 1 (gd_bays g)
              * max 1 (min 2 (gd_sides g))) - 1) * gd_bay_step g)) < 0
        then [''a bay numbered below zero''] else [])
     @ (if gd_first_level g < 0 then [''a level numbered below zero''] else [])"

definition two_sides :: "grid \<Rightarrow> grid option" where
  "two_sides g =
     (if gd_bays g < 2 \<or> gd_sides g \<noteq> 1 then None
      else Some (g\<lparr>gd_bays := wrap32 (gd_bays g + 1) div 2, gd_sides := 2\<rparr>))"

section \<open>Naming patterns\<close>

datatype field = Bay | Level | Row | Position

datatype style = Plain | Padded nat | Letters

datatype piece = Words string | Numbered field style

type_synonym pattern = "piece list"

text \<open>Up to the closing brace: what is inside and what is left; an opening brace or the end is an error.\<close>

fun field_text :: "string \<Rightarrow> (string \<times> string) option" where
  "field_text [] = None"
| "field_text (c # cs) =
     (if c = CHR ''}'' then Some ([], cs)
      else if c = CHR ''{'' then None
      else map_option (\<lambda>(inner, rest). (c # inner, rest)) (field_text cs))"

lemma field_text_shorter: "field_text s = Some (i, r) \<Longrightarrow> length r < length s"
  by (induction s arbitrary: i r) (auto split: if_splits)

definition split_once :: "char \<Rightarrow> string \<Rightarrow> (string \<times> string) option" where
  "split_once c s =
     (if c \<in> set s then Some (takeWhile (\<lambda>x. x \<noteq> c) s, tl (dropWhile (\<lambda>x. x \<noteq> c) s)) else None)"

definition is_digit_char :: "char \<Rightarrow> bool" where
  "is_digit_char c \<longleftrightarrow> 48 \<le> (of_char c :: nat) \<and> (of_char c :: nat) \<le> 57"

definition decimal :: "string \<Rightarrow> nat" where
  "decimal s = foldl (\<lambda>n c. 10 * n + (of_char c - 48)) 0 s"

definition field_of_name :: "string \<Rightarrow> field option" where
  "field_of_name n =
     (if n = ''bay'' then Some Bay else if n = ''level'' then Some Level
      else if n = ''row'' then Some Row else if n = ''position'' then Some Position else None)"

definition style_of_spec :: "string option \<Rightarrow> style option" where
  "style_of_spec spec =
     (case spec of None \<Rightarrow> Some Plain
      | Some sp \<Rightarrow>
          if sp = ''A'' then Some Letters
          else if 2 \<le> length sp \<and> hd sp = CHR ''0'' \<and> list_all is_digit_char (tl sp)
          then Some (Padded (let n = decimal (tl sp) in if n < 2 ^ 64 then n else 0))
          else None)"

definition parse_field :: "string \<Rightarrow> string \<Rightarrow> string + piece" where
  "parse_field s inner =
     (let (name, spec) = (case split_once (CHR '':'') inner of
            Some (n, sp) \<Rightarrow> (trim n, Some (trim sp)) | None \<Rightarrow> (trim inner, None)) in
      and_then (ok_or (field_of_name name)
         (''`'' @ s @ ''` names a field `'' @ name @ ''`; a pattern knows bay, level, row and position''))
        (\<lambda>field. and_then (ok_or (style_of_spec spec)
         (''`'' @ s @ ''` formats a field as `'' @ (case spec of None \<Rightarrow> [] | Some sp \<Rightarrow> sp) @
          ''`; say `02` to pad to two digits or `A` for letters''))
        (\<lambda>style. Inr (Numbered field style))))"

definition flushed :: "string \<Rightarrow> piece list" where
  "flushed text = (if text = [] then [] else [Words text])"

function parse_pieces :: "string \<Rightarrow> string \<Rightarrow> string \<Rightarrow> string + piece list" where
  "parse_pieces s words [] = Inr (flushed words)"
| "parse_pieces s words (c # cs) =
     (if c = CHR ''{''
      then (case field_text cs of
              None \<Rightarrow> Inl (''`'' @ s @ ''` opens a field it does not close'')
            | Some (inner, rest) \<Rightarrow>
                and_then (parse_field s inner) (\<lambda>p.
                  and_then (parse_pieces s [] rest) (\<lambda>ps. Inr (flushed words @ p # ps))))
      else if c = CHR ''}'' then Inl (''`'' @ s @ ''` closes a field it never opened'')
      else parse_pieces s (words @ [c]) cs)"
  by pat_completeness auto
termination
  by (relation "measure (\<lambda>(s, words, cs). length cs)") (auto dest: field_text_shorter)

definition parse_pattern :: "string \<Rightarrow> string + pattern" where
  "parse_pattern s =
     and_then (parse_pieces s [] s) (\<lambda>ps.
       if \<exists>p \<in> set ps. (case p of Numbered f st \<Rightarrow> True | Words w \<Rightarrow> False) then Inr ps
       else Inl (''`'' @ s @ ''` has no fields, so every cell would have the same name''))"

definition has :: "pattern \<Rightarrow> field \<Rightarrow> bool" where
  "has ps f \<longleftrightarrow> (\<exists>p \<in> set ps. case p of Numbered g st \<Rightarrow> g = f | Words w \<Rightarrow> False)"

fun style_in :: "pattern \<Rightarrow> field \<Rightarrow> style option" where
  "style_in [] f = None"
| "style_in (Numbered g st # ps) f = (if g = f then Some st else style_in ps f)"
| "style_in (Words w # ps) f = style_in ps f"

definition gap :: "pattern \<Rightarrow> grid \<Rightarrow> string option" where
  "gap ps g =
     map_option (\<lambda>(_, _, name). ''it has no {'' @ name @ ''}, so two cells would share a name'')
       (find (\<lambda>(needed, f, _). needed \<and> \<not> has ps f)
          [(gd_bays g > 1, Bay, ''bay''), (gd_levels g > 1, Level, ''level''), (gd_rows g > 1, Row, ''row''),
           (\<exists>n \<in> set (gd_positions g). n > 1, Position, ''position'')])"

section \<open>Numbers on labels\<close>

text \<open>\<open>format!("{n:0w$}")\<close>: the zeros stand between the sign and the digits.\<close>

definition padded :: "nat \<Rightarrow> int \<Rightarrow> string" where
  "padded w n =
     (let d = show_nat (nat \<bar>n\<bar>); sign = (if n < 0 then ''-'' else []) in
      sign @ replicate (w - (length d + length sign)) (CHR ''0'') @ d)"

text \<open>The letters of a number, last first: base 26 with digits from 1 to 26.\<close>

function letters_rev :: "nat \<Rightarrow> string" where
  "letters_rev n = (if n = 0 then [] else char_of (65 + (n - 1) mod 26) # letters_rev ((n - 1) div 26))"
  by pat_completeness auto
termination
  by (relation "measure id") auto

declare letters_rev.simps [simp del]

definition letters :: "i32 \<Rightarrow> string + string" where
  "letters n =
     (if n < 1 then Inl (show_int n @ '' has no letter: lettering starts at 1, which is A'')
      else Inr (rev (letters_rev (nat n))))"

definition is_upper :: "char \<Rightarrow> bool" where
  "is_upper c \<longleftrightarrow> 65 \<le> (of_char c :: nat) \<and> (of_char c :: nat) \<le> 90"

definition from_letters :: "string \<Rightarrow> i32 option" where
  "from_letters s =
     (if s = [] \<or> \<not> list_all is_upper s then None
      else Some (foldl (\<lambda>n c. wrap32 (wrap32 (n * 26) + (of_char c - 65 + 1))) 0 s))"

fun format_number :: "i32 \<Rightarrow> style \<Rightarrow> string + string" where
  "format_number n Plain = Inr (show_int n)"
| "format_number n (Padded w) = Inr (padded w n)"
| "format_number n Letters = letters n"

definition number_of :: "grid \<Rightarrow> grid_cell \<Rightarrow> field \<Rightarrow> i32" where
  "number_of g c f = (case f of Bay \<Rightarrow> label_number g (gc_side c) (gc_bay c)
     | Level \<Rightarrow> level_number g (gc_level c) | Row \<Rightarrow> gc_row c | Position \<Rightarrow> gc_position c)"

fun render :: "pattern \<Rightarrow> grid \<Rightarrow> grid_cell \<Rightarrow> string + string" where
  "render [] g c = Inr []"
| "render (Words t # ps) g c = and_then (render ps g c) (\<lambda>out. Inr (t @ out))"
| "render (Numbered f st # ps) g c =
     and_then (format_number (number_of g c f) st) (\<lambda>t. and_then (render ps g c) (\<lambda>out. Inr (t @ out)))"

text \<open>The loop of \<open>names\<close>, with the names it has seen.\<close>

fun name_cells :: "pattern \<Rightarrow> grid \<Rightarrow> string list \<Rightarrow> grid_cell list \<Rightarrow> string + (grid_cell \<times> string) list" where
  "name_cells ps g seen [] = Inr []"
| "name_cells ps g seen (c # cs) =
     and_then (render ps g c) (\<lambda>name.
       if name \<in> set seen then Inl (''it names two cells `'' @ name @ ''`'')
       else and_then (name_cells ps g (name # seen) cs) (\<lambda>rest. Inr ((c, name) # rest)))"

definition names :: "pattern \<Rightarrow> grid \<Rightarrow> string + (grid_cell \<times> string) list" where
  "names ps g = (case gap ps g of Some e \<Rightarrow> Inl e | None \<Rightarrow> name_cells ps g [] (cells g))"

definition style_of :: "pattern option \<Rightarrow> field \<Rightarrow> style" where
  "style_of p f = (case Option.bind p (\<lambda>ps. style_in ps f) of None \<Rightarrow> Plain | Some st \<Rightarrow> st)"

text \<open>\<open>unwrap_or_else\<close>: a number that has no letters is written plainly.\<close>

definition plainly :: "i32 \<Rightarrow> string + string \<Rightarrow> string" where
  "plainly n r = (case r of Inl e \<Rightarrow> show_int n | Inr t \<Rightarrow> t)"

definition bay_label :: "grid \<Rightarrow> pattern option \<Rightarrow> i32 \<Rightarrow> i32 \<Rightarrow> string" where
  "bay_label g p side bay =
     (let n = label_number g side bay in plainly n (format_number n (style_of p Bay)))"

definition level_label :: "grid \<Rightarrow> pattern option \<Rightarrow> i32 \<Rightarrow> string" where
  "level_label g p level = (let n = level_number g level in plainly n (format_number n (style_of p Level)))"

definition labels :: "grid \<Rightarrow> pattern option \<Rightarrow> string list \<times> string list" where
  "labels g p = (map (bay_label g p 1) [1..gd_bays g], map (level_label g p) [1..gd_levels g])"

definition back_labels :: "grid \<Rightarrow> pattern option \<Rightarrow> string list" where
  "back_labels g p = (if gd_sides g < 2 then [] else map (bay_label g p 2) (rev [1..gd_bays g]))"

definition whereabouts :: "grid \<Rightarrow> pattern option \<Rightarrow> grid_cell \<Rightarrow> string" where
  "whereabouts g p c = join '', ''
     ((if gd_sides g > 1 then [if gc_side c = 2 then ''back'' else ''front''] else [])
      @ [''bay '' @ bay_label g p (gc_side c) (gc_bay c)]
      @ (if gd_levels g > 1 then [''level '' @ level_label g p (gc_level c)] else [])
      @ (if positions_at g (gc_level c) > 1 then [''position '' @ show_int (gc_position c)] else [])
      @ (if gd_rows g > 1 then [if gc_row c = 1 then ''front row'' else ''row '' @ show_int (gc_row c)] else []))"

section \<open>Frames\<close>

text \<open>
  Where every place stands, given its parent and its own box.  \<open>compose\<close> is over the sines and cosines
  of \<open>f64\<close> and is an argument here, as is the order of the keys, which a hash map does not fix.  The walk
  up collects a chain until it meets a frame it has, a place without a parent, or a place it has seen.
\<close>

datatype ('k, 'f) walk = Looped | Chain "'k list" 'f \<comment> \<open>outermost first; the frame it starts from\<close>

function walk_up ::
  "('k \<times> 'k option \<times> 'b) list \<Rightarrow> ('k \<Rightarrow> 'f option) \<Rightarrow> 'f \<Rightarrow> 'k list \<Rightarrow> 'k option \<Rightarrow> ('k, 'f) walk" where
  "walk_up places out site chain None = Chain chain site"
| "walk_up places out site chain (Some k) =
     (case out k of Some f \<Rightarrow> Chain chain f
      | None \<Rightarrow>
          if k \<in> set chain then Looped
          else (case map_of places k of
                  None \<Rightarrow> Chain (k # chain) site
                | Some (parent, box) \<Rightarrow> walk_up places out site (k # chain) parent))"
  by pat_completeness auto
termination
proof (relation "measure (\<lambda>(places, out, site, chain, p). card (set (map fst places) - set chain))", simp, goal_cases)
  case (1 places out site chain k p parent box)
  have "k \<in> set (map fst places)" using 1 by (metis domI dom_map_of_conv_image_fst set_map)
  then have "set (map fst places) - set (k # chain) \<subset> set (map fst places) - set chain" using 1 by auto
  then show ?case by (simp add: psubset_card_mono)
qed

text \<open>The second loop; \<open>None\<close> is the panic of \<open>places[&k]\<close> where no such place is among them.\<close>

fun walk_down ::
  "('f \<Rightarrow> 'b \<Rightarrow> 'f) \<Rightarrow> ('k \<times> 'k option \<times> 'b) list \<Rightarrow> 'f \<Rightarrow> 'k list \<Rightarrow> ('k \<Rightarrow> 'f option) \<Rightarrow> ('k \<Rightarrow> 'f option) option" where
  "walk_down put places base [] out = Some out"
| "walk_down put places base (k # ks) out =
     Option.bind (map_of places k) (\<lambda>(parent, box).
       let f = put base box in walk_down put places f ks (out(k \<mapsto> f)))"

fun frame_each ::
  "('f \<Rightarrow> 'b \<Rightarrow> 'f) \<Rightarrow> 'f \<Rightarrow> ('k \<times> 'k option \<times> 'b) list \<Rightarrow> 'k list \<Rightarrow> ('k \<Rightarrow> 'f option) \<Rightarrow> ('k \<Rightarrow> 'f option) option" where
  "frame_each put site places [] out = Some out"
| "frame_each put site places (k # ks) out =
     (case walk_up places out site [] (Some k) of
        Looped \<Rightarrow> frame_each put site places ks out
      | Chain chain base \<Rightarrow>
          Option.bind (walk_down put places base chain out) (frame_each put site places ks))"

definition frames ::
  "('f \<Rightarrow> 'b \<Rightarrow> 'f) \<Rightarrow> 'f \<Rightarrow> ('k \<times> 'k option \<times> 'b) list \<Rightarrow> ('k \<Rightarrow> 'f option) option" where
  "frames put site places = frame_each put site places (map fst places) (\<lambda>_. None)"

section \<open>A first draft, from the bin list\<close>

record drafted =
  dw_name :: string
  dw_solid :: bool
  dw_pattern :: string
  dw_grid :: grid
  dw_bins :: "(string \<times> grid_cell) list"

record draft =
  dr_places :: "drafted list"
  dr_unmatched :: "string list"

definition separators :: "char list" where
  "separators = [CHR ''-'', CHR ''.'', CHR ''_'', CHR ''/'', CHR '' '']"

fun split_code :: "string \<Rightarrow> string list \<times> char list" where
  "split_code [] = ([[]], [])"
| "split_code (c # cs) =
     (let (parts, seps) = split_code cs in
      if c \<in> set separators then ([] # parts, c # seps) else ((c # hd parts) # tl parts, seps))"

definition read_number :: "string \<Rightarrow> bool \<Rightarrow> (i32 \<times> style) option" where
  "read_number t letters_ok =
     (if t \<noteq> [] \<and> list_all is_digit_char t \<and> length t \<le> 6
      then Some (int (decimal t), if length t > 1 \<and> hd t = CHR ''0'' then Padded (length t) else Plain)
      else if letters_ok \<and> length t \<le> 2 then map_option (\<lambda>n. (n, Letters)) (from_letters t)
      else None)"

definition widths :: "style list \<Rightarrow> nat list" where
  "widths styles = concat (map (\<lambda>s. case s of Padded w \<Rightarrow> [w] | _ \<Rightarrow> []) styles)"

definition common_style :: "style list \<Rightarrow> style" where
  "common_style styles =
     (if Letters \<in> set styles then Letters
      else if widths styles = [] then Plain else Padded (fold max (widths styles) 0))"

text \<open>A code the draft can read: a first part, and one to three numbered parts, the first in digits.\<close>

definition numbered :: "string list \<Rightarrow> bool" where
  "numbered parts \<longleftrightarrow> 2 \<le> length parts \<and> length parts \<le> 4 \<and> hd parts \<noteq> []
     \<and> read_number (parts ! 1) False \<noteq> None \<and> (\<forall>p \<in> set (drop 2 parts). read_number p True \<noteq> None)"

type_synonym family = "string \<times> string \<times> nat"

text \<open>The order of a \<open>BTreeMap\<close> of (first part, separators, how many parts).\<close>

definition family_order :: "family \<Rightarrow> family \<Rightarrow> ordering" where
  "family_order = (\<lambda>(h, s, n) (h', s', n').
     then_cmp (byte_order h h') (then_cmp (byte_order s s') (cmp n n')))"

definition family_of :: "string \<Rightarrow> family" where
  "family_of code = (let (parts, seps) = split_code code in (hd parts, seps, length parts))"

fun add_code :: "family \<Rightarrow> string \<times> bool \<Rightarrow> (family \<times> (string \<times> bool) list) list \<Rightarrow> (family \<times> (string \<times> bool) list) list" where
  "add_code k c [] = [(k, [c])]"
| "add_code k c ((k', cs) # fs) =
     (case family_order k k' of
        Less \<Rightarrow> (k, [c]) # (k', cs) # fs
      | Equal \<Rightarrow> (k', cs @ [c]) # fs
      | Greater \<Rightarrow> (k', cs) # add_code k c fs)"

fun sort_codes ::
  "(string \<times> bool) list \<Rightarrow> (family \<times> (string \<times> bool) list) list \<Rightarrow> string list
   \<Rightarrow> (family \<times> (string \<times> bool) list) list \<times> string list" where
  "sort_codes [] fs unmatched = (fs, unmatched)"
| "sort_codes ((code, solid) # cs) fs unmatched =
     (if numbered (fst (split_code code))
      then sort_codes cs (add_code (family_of code) (code, solid) fs) unmatched
      else sort_codes cs fs (unmatched @ [code]))"

text \<open>What one family is read as: its numbers by part, the grid they span and the pattern they follow.\<close>

definition read_code :: "string \<Rightarrow> (i32 \<times> style) list" where
  "read_code code = map (\<lambda>p. case read_number p True of None \<Rightarrow> (0, Plain) | Some x \<Rightarrow> x) (tl (fst (split_code code)))"

definition axis :: "string list \<Rightarrow> nat \<Rightarrow> i32 list \<times> style" where
  "axis codes i =
     (let column = concat (map (\<lambda>c. case drop i (read_code c) of [] \<Rightarrow> [] | x # _ \<Rightarrow> [x]) codes) in
      (map fst column, common_style (map snd column)))"

definition least :: "i32 list \<Rightarrow> i32" where
  "least xs = fold min (tl xs) (hd xs)"

definition greatest :: "i32 list \<Rightarrow> i32" where
  "greatest xs = fold max (tl xs) (hd xs)"

fun most_positions :: "i32 \<Rightarrow> (i32 \<times> style) list list \<Rightarrow> i32 list \<Rightarrow> i32 list" where
  "most_positions min_l [] most = most"
| "most_positions min_l (v # vs) most =
     (let l = nat (fst (v ! 1) - min_l) in
      most_positions min_l vs (most[l := max (most ! l) (fst (v ! 2))]))"

definition family_grid :: "nat \<Rightarrow> string list \<Rightarrow> grid" where
  "family_grid n codes =
     (let bays = fst (axis codes 0);
          min_b = least bays; max_b = greatest bays;
          step = (if (\<forall>b \<in> set bays. (b - min_b) mod 2 = 0) \<and> max_b > min_b then 2 else 1);
          levels = (if 3 \<le> n then fst (axis codes 1) else [1]);
          min_l = least levels; max_l = greatest levels;
          grid = single\<lparr>gd_bays := (max_b - min_b) div step + 1, gd_levels := max_l - min_l + 1,
                        gd_first_bay := min_b, gd_bay_step := step, gd_first_level := min_l\<rparr> in
      if n = 4
      then (let most = most_positions min_l (map read_code codes) (replicate (nat (gd_levels grid)) 1) in
            if \<exists>m \<in> set most. m > 1 then grid\<lparr>gd_positions := most\<rparr> else grid)
      else grid)"

definition spec_text :: "style \<Rightarrow> string" where
  "spec_text st = (case st of Plain \<Rightarrow> [] | Padded w \<Rightarrow> '':0'' @ show_nat w | Letters \<Rightarrow> '':A'')"

definition family_pattern :: "string \<Rightarrow> string \<Rightarrow> nat \<Rightarrow> string list \<Rightarrow> string" where
  "family_pattern head seps n codes =
     head @ concat (map (\<lambda>(i, name). (seps ! i) # ''{'' @ name
                @ spec_text (snd (axis codes i)) @ ''}'')
       (take (n - 1) [(0, ''bay''), (1, ''level''), (2, ''position'')]))"

definition MOST_CELLS :: int where
  "MOST_CELLS = 20000"

definition cell_count :: "grid \<Rightarrow> int" where
  "cell_count g = gd_bays g * gd_rows g * sum_list (map (positions_at g) [1..gd_levels g])"

definition cell_order :: "string \<times> grid_cell \<Rightarrow> string \<times> grid_cell \<Rightarrow> ordering" where
  "cell_order = (\<lambda>(_, a) (_, b).
     then_cmp (cmp (gc_bay a) (gc_bay b)) (then_cmp (cmp (gc_level a) (gc_level b))
       (then_cmp (cmp (gc_row a) (gc_row b)) (then_cmp (cmp (gc_position a) (gc_position b))
         (cmp (gc_side a) (gc_side b))))))"

text \<open>\<open>distinct\<close>: a name taken before gets a number.\<close>

definition distinct_name :: "(string \<Rightarrow> nat) \<Rightarrow> string \<Rightarrow> string \<times> (string \<Rightarrow> nat)" where
  "distinct_name taken base =
     (let n = taken base + 1 in
      (if n = 1 then base else base @ '' ('' @ show_nat n @ '')'', taken(base := n)))"

text \<open>One family: what it places, and the codes it leaves unmatched.\<close>

definition draft_family ::
  "family \<Rightarrow> (string \<times> bool) list \<Rightarrow> (string \<times> bool \<times> string \<times> grid \<times> (string \<times> grid_cell) list) option \<times> string list" where
  "draft_family k codes =
     (let (head, seps, n) = k; texts = map fst codes;
          grid = family_grid n texts; text = family_pattern head seps n texts in
      case parse_pattern text of
        Inl e \<Rightarrow> (None, texts)
      | Inr pattern \<Rightarrow>
          if cell_count grid > MOST_CELLS then (None, texts)
          else (case names pattern grid of
            Inl e \<Rightarrow> (None, texts)
          | Inr named \<Rightarrow>
              (let by_name = (\<lambda>code. map_option fst (find (\<lambda>(c, s). s = code) named));
                   placed = concat (map (\<lambda>code. case by_name code of None \<Rightarrow> [] | Some c \<Rightarrow> [(code, c)]) texts);
                   lost = filter (\<lambda>code. by_name code = None) texts;
                   solid = length (filter snd codes) * 2 \<ge> length codes in
               (if placed = [] then None
                else Some (if solid then ''Rack '' @ head else head, solid, text, grid, sort_by cell_order placed),
                lost))))"

fun draft_families ::
  "(family \<times> (string \<times> bool) list) list \<Rightarrow> (string \<Rightarrow> nat) \<Rightarrow> draft \<Rightarrow> draft" where
  "draft_families [] taken out = out"
| "draft_families ((k, codes) # fs) taken out =
     (let (proposal, lost) = draft_family k codes;
          out1 = out\<lparr>dr_unmatched := dr_unmatched out @ lost\<rparr> in
      case proposal of
        None \<Rightarrow> draft_families fs taken out1
      | Some (base, solid, text, grid, bins) \<Rightarrow>
          (let (name, taken') = distinct_name taken base in
           draft_families fs taken' (out1\<lparr>dr_places := dr_places out1 @
             [\<lparr>dw_name = name, dw_solid = solid, dw_pattern = text, dw_grid = grid, dw_bins = bins\<rparr>]\<rparr>)))"

definition draft_layout :: "(string \<times> bool) list \<Rightarrow> draft" where
  "draft_layout bins =
     (let (fs, unmatched) = sort_codes bins [] [];
          out = draft_families fs (\<lambda>_. 0) \<lparr>dr_places = [], dr_unmatched = unmatched\<rparr> in
      out\<lparr>dr_unmatched := sort_by byte_order (dr_unmatched out)\<rparr>)"

section \<open>Letters\<close>

definition letter_value :: "string \<Rightarrow> nat" where
  "letter_value s = foldl (\<lambda>n c. n * 26 + (of_char c - 64)) 0 s"

lemma letter_value_simps [simp]:
  "letter_value [] = 0" "letter_value (s @ [c]) = letter_value s * 26 + (of_char c - 64)"
  by (simp_all add: letter_value_def)

text \<open>One letter, and the number it stands for as a digit from 1 to 26.\<close>

lemma letter_digit:
  assumes "is_upper c"
  shows "1 \<le> (of_char c :: nat) - 64" "(of_char c :: nat) - 64 \<le> 26"
    "char_of (65 + ((of_char c :: nat) - 64 - 1)) = c"
proof -
  have c: "65 \<le> (of_char c :: nat)" "(of_char c :: nat) \<le> 90" using assms by (simp_all add: is_upper_def)
  then show "1 \<le> (of_char c :: nat) - 64" "(of_char c :: nat) - 64 \<le> 26" by simp_all
  have "65 + ((of_char c :: nat) - 64 - 1) = of_char c" using c by simp
  then show "char_of (65 + ((of_char c :: nat) - 64 - 1)) = c" by simp
qed

lemma digit_letter:
  assumes "d < (26 :: nat)"
  shows "is_upper (char_of (65 + d))" "(of_char (char_of (65 + d)) :: nat) = 65 + d"
  using assms by (simp_all add: is_upper_def of_char_of)

lemma letters_value: "letter_value (rev (letters_rev n)) = n \<and> list_all is_upper (letters_rev n)"
proof (induction n rule: letters_rev.induct)
  case (1 n)
  show ?case
  proof (cases "n = 0")
    case False
    have "(n - 1) mod 26 < 26" by simp
    note d = digit_letter [OF this]
    have "(n - 1) div 26 * 26 + (65 + (n - 1) mod 26 - 64) = n"
      using False div_mult_mod_eq [of "n - 1" 26] by linarith
    then show ?thesis using 1 [OF False] d False by (subst (1 2) letters_rev.simps) simp
  qed (simp add: letters_rev.simps)
qed

lemma letters_of_value: "list_all is_upper s \<Longrightarrow> rev (letters_rev (letter_value s)) = s"
proof (induction s rule: rev_induct)
  case (snoc c s)
  note d = letter_digit [of c]
  let ?n = "letter_value (s @ [c])"
  have c: "is_upper c" using snoc.prems by simp
  have n: "?n - 1 = (of_char c - 64 - 1) + 26 * letter_value s" using d(1) [OF c] by simp
  have lt: "(of_char c :: nat) - 64 - 1 < 26" using d(2) [OF c] by linarith
  have "(?n - 1) mod 26 = of_char c - 64 - 1" unfolding n using lt by (simp only: mod_mult_self2 mod_less)
  moreover have "(?n - 1) div 26 = letter_value s" unfolding n using lt by simp
  moreover have "?n \<noteq> 0" using d(1) [OF c] by simp
  ultimately have "letters_rev ?n = c # letters_rev (letter_value s)"
    using d(3) [OF c] by (subst letters_rev.simps) simp
  then show ?case using snoc by simp
qed (simp add: letters_rev.simps)

text \<open>The wrapping fold of the code is the value while that fits an \<open>i32\<close>.\<close>

lemma wrapped_letters:
  "list_all is_upper s \<Longrightarrow> letter_value s < 2 ^ 31 \<Longrightarrow>
   foldl (\<lambda>n c. wrap32 (wrap32 (n * 26) + (of_char c - 65 + 1))) 0 s = int (letter_value s)"
proof (induction s rule: rev_induct)
  case (snoc c s)
  have c: "is_upper c" using snoc.prems by simp
  then have d: "65 \<le> (of_char c :: nat)" by (simp add: is_upper_def)
  have le: "letter_value s * 26 + (of_char c - 64) < 2 ^ 31" using snoc.prems(2) by simp
  then have "letter_value s < 2 ^ 31" by linarith
  then have IH: "foldl (\<lambda>n c. wrap32 (wrap32 (n * 26) + (of_char c - 65 + 1))) 0 s = int (letter_value s)"
    using snoc by simp
  have "int (letter_value s * 26 + (of_char c - 64)) < int (2 ^ 31)" using le by (simp only: of_nat_less_iff)
  then have "int (letter_value s) * 26 + int (of_char c - 64) < 2 ^ 31" by simp
  moreover have i: "(of_char c :: int) - 65 + 1 = int (of_char c - 64)" using d by (simp add: of_nat_diff of_nat_of_char)
  ultimately have "in_i32 (int (letter_value s) * 26)" "in_i32 (int (letter_value s) * 26 + ((of_char c :: int) - 65 + 1))"
    by (simp_all add: in_i32_def)
  then show ?case using IH i by simp
qed simp

text \<open>
  Lettered labels read back.  Every number from 1 up to the largest 32-bit integer has letters, and they read
  back as that number; and letters whose value fits are the ones their number is written in, so that
  lettering is one to one: no two numbers share a label, and no label is read as two numbers.
\<close>

theorem letters_read_back:
  "(1 \<le> n \<and> n < 2 ^ 31 \<longrightarrow> (\<exists>s. letters n = Inr s \<and> from_letters s = Some n))
   \<and> (list_all is_upper t \<and> t \<noteq> [] \<and> letter_value t < 2 ^ 31 \<longrightarrow>
        (\<exists>m. from_letters t = Some m \<and> letters m = Inr t))"
proof (intro conjI impI)
  assume n: "1 \<le> n \<and> n < 2 ^ 31"
  let ?s = "rev (letters_rev (nat n))"
  have v: "letter_value ?s = nat n" "list_all is_upper ?s" using letters_value [of "nat n"] by simp_all
  then have "letter_value ?s < 2 ^ 31" using n by (simp add: nat_less_iff)
  moreover have "?s \<noteq> []"
  proof
    assume "?s = []"
    then show False using v(1) n by (simp only: letter_value_simps) simp
  qed
  ultimately have "from_letters ?s = Some n" using wrapped_letters [OF v(2)] v n by (simp add: from_letters_def)
  then show "\<exists>s. letters n = Inr s \<and> from_letters s = Some n" using n by (simp add: letters_def)
next
  assume t: "list_all is_upper t \<and> t \<noteq> [] \<and> letter_value t < 2 ^ 31"
  then have "from_letters t = Some (int (letter_value t))"
    using wrapped_letters [of t] by (simp add: from_letters_def)
  moreover have "1 \<le> letter_value t"
  proof -
    obtain s c where "t = s @ [c]" using t by (cases t rule: rev_cases) auto
    then show ?thesis using t letter_digit(1) [of c] by auto
  qed
  then have "letters (int (letter_value t)) = Inr t" using t letters_of_value by (simp add: letters_def)
  ultimately show "\<exists>m. from_letters t = Some m \<and> letters m = Inr t" by blast
qed

theorem letters_read_back_witness:
  "letters 703 = Inr ''AAA'' \<and> from_letters ''AAA'' = Some 703 \<and> letters 0 \<noteq> Inr ''A''"
proof -
  have v: "letter_value ''AAA'' = 703" by (simp add: letter_value_def)
  then have "\<exists>m. from_letters ''AAA'' = Some m \<and> letters m = Inr ''AAA''"
    using letters_read_back [of 703 "''AAA''"] by (simp add: is_upper_def)
  moreover have "from_letters ''AAA'' = Some 703"
    by (simp add: from_letters_def is_upper_def wrap32_def)
  ultimately show ?thesis by (simp add: letters_def)
qed

section \<open>The cells of a grid and the numbers on its labels\<close>

lemma set_cells: "c \<in> set (cells g) \<longleftrightarrow> contains g c"
  by (cases c, simp add: cells_def contains_def, auto simp: image_iff)

text \<open>Lists of distinct parts: what each level of the nested loops adds.\<close>

lemma distinct_concat_map:
  assumes "distinct xs" and "\<And>x. x \<in> set xs \<Longrightarrow> distinct (f x)"
    and "\<And>x y c. x \<in> set xs \<Longrightarrow> y \<in> set xs \<Longrightarrow> c \<in> set (f x) \<Longrightarrow> c \<in> set (f y) \<Longrightarrow> x = y"
  shows "distinct (concat (map f xs))"
  using assms
proof (induction xs)
  case (Cons x xs)
  have "set (f x) \<inter> set (concat (map f xs)) = {}"
  proof -
    have False if "c \<in> set (f x)" "y \<in> set xs" "c \<in> set (f y)" for c y
      using Cons.prems(3) [of x y c] Cons.prems(1) that by auto
    then show ?thesis by auto
  qed
  then show ?case using Cons by simp
qed simp

lemma distinct_cells: "distinct (cells g)"
proof -
  note d = distinct_concat_map [OF distinct_upto]
  show ?thesis unfolding cells_def by (rule d, rule d, rule d, rule d) (auto simp: distinct_map inj_on_def)
qed

text \<open>The place of a bay among the numbers: along the front, and back along the other side.\<close>

definition bay_index :: "grid \<Rightarrow> i32 \<Rightarrow> i32 \<Rightarrow> int" where
  "bay_index g side bay =
     (let along = (if gd_from_right g then gd_bays g + 1 - bay else bay) in
      if side = 2 then 2 * gd_bays g - along else along - 1)"

text \<open>The label numbers a grid is asked for fit an \<open>i32\<close>.\<close>

definition fits :: "grid \<Rightarrow> bool" where
  "fits g \<longleftrightarrow> in_i32 (2 * gd_bays g) \<and> in_i32 (gd_first_bay g) \<and> in_i32 ((gd_bays g * gd_sides g - 1) * gd_bay_step g)
     \<and> in_i32 (gd_first_bay g + (gd_bays g * gd_sides g - 1) * gd_bay_step g)
     \<and> in_i32 (gd_first_level g) \<and> in_i32 (gd_levels g) \<and> in_i32 (gd_first_level g + gd_levels g)"

lemma between_ends:
  fixes k n s :: int
  assumes "0 \<le> k" "k \<le> n"
  shows "min 0 (n * s) \<le> k * s \<and> k * s \<le> max 0 (n * s)"
proof (cases "0 \<le> s")
  case True
  then have "0 \<le> k * s" "k * s \<le> n * s" using assms by (simp_all add: mult_right_mono)
  then show ?thesis by simp
next
  case False
  then have "k * s \<le> 0" "n * s \<le> k * s" using assms by (simp_all add: mult_nonneg_nonpos mult_right_mono_neg)
  then show ?thesis by simp
qed

lemma problems_none:
  "problems g = [] \<longleftrightarrow> 1 \<le> gd_bays g \<and> 1 \<le> gd_levels g \<and> 1 \<le> gd_rows g
     \<and> (gd_positions g \<noteq> [] \<longrightarrow> int (length (gd_positions g)) = gd_levels g)
     \<and> (\<forall>n \<in> set (gd_positions g). 1 \<le> n) \<and> gd_bay_step g \<noteq> 0 \<and> (gd_sides g = 1 \<or> gd_sides g = 2)
     \<and> 0 \<le> gd_first_bay g
     \<and> 0 \<le> wrap32 (gd_first_bay g + wrap32 (wrap32 (wrap32 (max 1 (gd_bays g) * max 1 (min 2 (gd_sides g))) - 1) * gd_bay_step g))
     \<and> 0 \<le> gd_first_level g"
  unfolding problems_def by (auto simp: not_less not_le)

lemma bay_index_range:
  assumes "1 \<le> side" "side \<le> gd_sides g" "gd_sides g \<le> 2" "1 \<le> bay" "bay \<le> gd_bays g"
  shows "0 \<le> bay_index g side bay" "bay_index g side bay \<le> gd_bays g * gd_sides g - 1"
proof -
  consider "side = 1" "gd_sides g = 1" | "side = 1" "gd_sides g = 2" | "side = 2" "gd_sides g = 2"
    using assms by linarith
  then have "0 \<le> bay_index g side bay \<and> bay_index g side bay \<le> gd_bays g * gd_sides g - 1"
    by cases (use assms in \<open>simp_all add: bay_index_def\<close>)
  then show "0 \<le> bay_index g side bay" "bay_index g side bay \<le> gd_bays g * gd_sides g - 1" by simp_all
qed

lemma label_number_index:
  assumes "problems g = []" "fits g" "1 \<le> side" "side \<le> gd_sides g" "1 \<le> bay" "bay \<le> gd_bays g"
  shows "label_number g side bay = gd_first_bay g + bay_index g side bay * gd_bay_step g"
    and "0 \<le> label_number g side bay"
proof -
  let ?k = "bay_index g side bay" and ?n = "gd_bays g * gd_sides g - 1"
  have s: "gd_sides g \<le> 2" "1 \<le> gd_bays g" "gd_sides g = 1 \<or> gd_sides g = 2" "0 \<le> gd_first_bay g"
    using assms(1) by (auto simp: problems_none)
  note k = bay_index_range [OF assms(3,4) s(1) assms(5,6)]
  note f = assms(2) [unfolded fits_def in_i32_def]
  have e: "min 0 (?n * gd_bay_step g) \<le> ?k * gd_bay_step g \<and> ?k * gd_bay_step g \<le> max 0 (?n * gd_bay_step g)"
    by (rule between_ends [OF k])
  have last: "0 \<le> gd_first_bay g + ?n * gd_bay_step g"
  proof -
    have m: "max 1 (gd_bays g) * max 1 (min 2 (gd_sides g)) = gd_bays g * gd_sides g" using s by auto
    have "in_i32 (gd_bays g * gd_sides g)" "in_i32 (gd_bays g * gd_sides g - 1)"
      using s f by (auto simp: in_i32_def)
    moreover have "in_i32 (?n * gd_bay_step g)" "in_i32 (gd_first_bay g + ?n * gd_bay_step g)"
      using f by (simp_all add: in_i32_def)
    ultimately show ?thesis using assms(1) unfolding problems_none m by simp
  qed
  have i: "in_i32 (?k * gd_bay_step g)" "in_i32 (gd_first_bay g + ?k * gd_bay_step g)"
    using e f s(4) last by (auto simp: in_i32_def min_def max_def split: if_splits)
  have a: "in_i32 (gd_bays g + 1)" "in_i32 (gd_bays g + 1 - bay)" "in_i32 bay" "in_i32 (2 * gd_bays g)"
      "in_i32 (2 * gd_bays g - bay)" "in_i32 (2 * gd_bays g - (gd_bays g + 1 - bay))"
      "in_i32 (bay - 1)" "in_i32 (gd_bays g + 1 - bay - 1)"
    using assms(5,6) f s by (auto simp: in_i32_def)
  show l: "label_number g side bay = gd_first_bay g + ?k * gd_bay_step g"
    using a i by (simp add: label_number_def bay_index_def Let_def split: if_splits)
  show "0 \<le> label_number g side bay"
    unfolding l using e s(4) last by (auto simp: min_def max_def split: if_splits)
qed

text \<open>
  The numbers on a grid's labels.  Where a grid has no problems and its numbers fit 32 bits, no two
  bays have the same number, whichever side they are on and whichever end they are counted from, no two
  levels do, and no number is below zero: the check at the ends is enough for every bay between.
\<close>

theorem grid_labels_distinct:
  assumes "problems g = []" "fits g"
  shows "inj_on (\<lambda>(side, bay). label_number g side bay) ({1..gd_sides g} \<times> {1..gd_bays g})
    \<and> inj_on (level_number g) {1..gd_levels g}
    \<and> (\<forall>side bay level. 1 \<le> side \<and> side \<le> gd_sides g \<and> 1 \<le> bay \<and> bay \<le> gd_bays g
          \<and> 1 \<le> level \<and> level \<le> gd_levels g \<longrightarrow> 0 \<le> label_number g side bay \<and> 0 \<le> level_number g level)"
proof -
  have s: "gd_sides g \<le> 2" "gd_bay_step g \<noteq> 0" "0 \<le> gd_first_level g" using assms(1) by (auto simp: problems_none)
  have level: "level_number g l = gd_first_level g + l - 1" if "1 \<le> l" "l \<le> gd_levels g" for l
  proof -
    have "in_i32 (gd_first_level g + l)" "in_i32 (gd_first_level g + l - 1)"
      using assms(2) s that by (auto simp: in_i32_def fits_def)
    then show ?thesis by (simp add: level_number_def)
  qed
  have "(sd, b) = (sd', b')" if "1 \<le> sd" "sd \<le> gd_sides g" "1 \<le> b" "b \<le> gd_bays g" "1 \<le> sd'" "sd' \<le> gd_sides g"
      "1 \<le> b'" "b' \<le> gd_bays g" "label_number g sd b = label_number g sd' b'" for sd b sd' b'
  proof -
    have "bay_index g sd b = bay_index g sd' b'"
      using label_number_index(1) [OF assms, of sd b] label_number_index(1) [OF assms, of sd' b'] that s by simp
    moreover have "sd = 1 \<or> sd = 2" "sd' = 1 \<or> sd' = 2" using that s by linarith+
    ultimately show ?thesis using that by (auto simp: bay_index_def split: if_splits)
  qed
  then have "inj_on (\<lambda>(side, bay). label_number g side bay) ({1..gd_sides g} \<times> {1..gd_bays g})"
    by (auto intro!: inj_onI)
  then show ?thesis using level label_number_index(2) [OF assms] s by (auto intro!: inj_onI)
qed

theorem grid_labels_distinct_witness:
  "let g = single\<lparr>gd_bays := 3, gd_levels := 2, gd_first_bay := 11, gd_bay_step := -2, gd_sides := 2\<rparr> in
   problems g = [] \<and> label_number g 2 1 = 1 \<and> inj_on (\<lambda>(side, bay). label_number g side bay) ({1..2} \<times> {1..3})"
proof -
  let ?g = "single\<lparr>gd_bays := 3, gd_levels := 2, gd_first_bay := 11, gd_bay_step := -2, gd_sides := 2\<rparr>"
  have a: "problems ?g = []" "fits ?g"
    by (simp_all add: problems_none fits_def in_i32_def single_def wrap32_def)
  have sel: "gd_sides ?g = 2" "gd_bays ?g = 3" by simp_all
  have "label_number ?g 2 1 = 1" by (simp add: label_number_def wrap32_def single_def)
  then show ?thesis
    unfolding Let_def using a(1) grid_labels_distinct [OF a, THEN conjunct1, unfolded sel] by (intro conjI)
qed

text \<open>
  A row numbered along one face and read from two: with an even number of bays the same numbers stand on
  the two sides, and with an odd number there is one more at the end.
\<close>

lemma bay_indices:
  assumes "1 \<le> gd_bays g" "gd_sides g = 1 \<or> gd_sides g = 2"
  shows "(\<lambda>(side, bay). bay_index g side bay) ` ({1..gd_sides g} \<times> {1..gd_bays g}) = {0..<gd_bays g * gd_sides g}"
    (is "?f ` ?X = ?Y")
proof (rule subset_antisym)
  show "?f ` ?X \<subseteq> ?Y" using bay_index_range [of _ g] assms by fastforce
  show "?Y \<subseteq> ?f ` ?X"
  proof
    fix k assume k: "k \<in> ?Y"
    let ?side = "if k < gd_bays g then 1 else 2 :: int"
    let ?along = "if k < gd_bays g then k + 1 else 2 * gd_bays g - k"
    let ?bay = "if gd_from_right g then gd_bays g + 1 - ?along else ?along"
    have lt: "0 \<le> k" "k < gd_bays g \<or> gd_sides g = 2 \<and> k < gd_bays g * 2" using k assms(2) by auto
    have "bay_index g ?side ?bay = k" by (simp add: bay_index_def)
    moreover have "1 \<le> ?along" "?along \<le> gd_bays g" using lt by (auto split: if_split)
    then have "(?side, ?bay) \<in> ?X" using lt assms(2) by (auto split: if_split)
    ultimately
    show "k \<in> ?f ` ?X" by force
  qed
qed

section \<open>Names\<close>

lemma gap_none:
  "gap ps g = None \<longleftrightarrow> (gd_bays g > 1 \<longrightarrow> has ps Bay) \<and> (gd_levels g > 1 \<longrightarrow> has ps Level)
     \<and> (gd_rows g > 1 \<longrightarrow> has ps Row) \<and> ((\<exists>n \<in> set (gd_positions g). n > 1) \<longrightarrow> has ps Position)"
  by (simp add: gap_def)

text \<open>A field that a pattern does not have does not show in the names it makes.\<close>

lemma render_reads:
  "(\<And>f. has ps f \<Longrightarrow> number_of g c f = number_of g d f) \<Longrightarrow> render ps g c = render ps g d"
proof (induction ps)
  case (Cons p ps)
  have "has ps f \<Longrightarrow> has (p # ps) f" for f by (auto simp: has_def)
  then have "render ps g c = render ps g d" using Cons by blast
  moreover have "number_of g c f = number_of g d f" if "p = Numbered f st" for f st
    using Cons.prems [of f] that by (simp add: has_def)
  ultimately show ?case by (cases p) simp_all
qed simp

lemma name_cells_iff:
  "name_cells ps g seen cs = Inr named \<longleftrightarrow>
     map fst named = cs \<and> list_all (\<lambda>(c, n). render ps g c = Inr n) named
     \<and> distinct (map snd named) \<and> set (map snd named) \<inter> set seen = {}"
proof (induction cs arbitrary: seen named)
  case Nil
  then show ?case by auto
next
  case (Cons c cs)
  show ?case
  proof (cases "render ps g c")
    case (Inl e)
    then show ?thesis by (cases named) auto
  next
    case (Inr n)
    show ?thesis
    proof (cases "n \<in> set seen")
      case True
      then show ?thesis using Inr by (cases named) auto
    next
      case False
      have "name_cells ps g seen (c # cs) = Inr named \<longleftrightarrow>
          (\<exists>rest. named = (c, n) # rest \<and> name_cells ps g (n # seen) cs = Inr rest)"
        using Inr False by (cases "name_cells ps g (n # seen) cs") auto
      also have "\<dots> \<longleftrightarrow> map fst named = c # cs \<and> list_all (\<lambda>(c, n). render ps g c = Inr n) named
          \<and> distinct (map snd named) \<and> set (map snd named) \<inter> set seen = {}"
        unfolding Cons.IH using Inr False by (cases named) (auto, force+)
      finally show ?thesis .
    qed
  qed
qed

lemma names_iff:
  "names ps g = Inr named \<longleftrightarrow> gap ps g = None \<and> map fst named = cells g
     \<and> list_all (\<lambda>(c, n). render ps g c = Inr n) named \<and> distinct (map snd named)"
  by (simp add: names_def name_cells_iff split: option.split)

text \<open>Where the pattern lacks a field the grid needs, two of the cells are named alike.\<close>

lemma gap_collides:
  assumes ok: "problems g = []" "in_i32 (gd_levels g)" and gap: "gap ps g \<noteq> None"
  shows "\<exists>c \<in> set (cells g). \<exists>d \<in> set (cells g). c \<noteq> d \<and> render ps g c = render ps g d"
proof -
  note p = ok(1) [unfolded problems_none]
  define c0 where "c0 = \<lparr>gc_bay = 1, gc_level = 1, gc_row = 1, gc_position = 1, gc_side = 1\<rparr>"
  have one: "1 \<le> positions_at g l" for l using p by (auto simp: positions_at_def Let_def)
  have same: ?thesis if "contains g c" "contains g d" "c \<noteq> d" "\<And>f. has ps f \<Longrightarrow> number_of g c f = number_of g d f" for c d
    using that(1-3) render_reads [of ps g c d, OF that(4)] set_cells by blast
  have c0: "contains g c0" using p one by (auto simp: contains_def c0_def)
  note num = number_of_def field.splits
  consider "gd_bays g > 1" "\<not> has ps Bay" | "gd_levels g > 1" "\<not> has ps Level" | "gd_rows g > 1" "\<not> has ps Row"
    | n where "n \<in> set (gd_positions g)" "n > 1" "\<not> has ps Position"
    using gap by (auto simp: gap_none)
  then show ?thesis
  proof cases
    case 1
    then show ?thesis using c0 one
      by (intro same [of c0 "c0\<lparr>gc_bay := 2\<rparr>"]) (auto simp: contains_def c0_def number_of_def split: field.split)
  next
    case 2
    then show ?thesis using c0 one
      by (intro same [of c0 "c0\<lparr>gc_level := 2\<rparr>"]) (auto simp: contains_def c0_def number_of_def split: field.split)
  next
    case 3
    then show ?thesis using c0 one
      by (intro same [of c0 "c0\<lparr>gc_row := 2\<rparr>"]) (auto simp: contains_def c0_def number_of_def split: field.split)
  next
    case 4
    then obtain i where i: "i < length (gd_positions g)" "gd_positions g ! i = n" by (auto simp: in_set_conv_nth)
    define l where "l = int i + 1"
    have ne: "gd_positions g \<noteq> []" using i by auto
    then have l: "1 \<le> l" "l \<le> gd_levels g" using p i by (auto simp: l_def)
    have "in_i32 (l - 1)" using ok(2) l by (auto simp: in_i32_def)
    then have "positions_at g l = n" using i by (simp add: positions_at_def l_def)
    then show ?thesis using 4 l c0
      by (intro same [of "c0\<lparr>gc_level := l\<rparr>" "c0\<lparr>gc_level := l, gc_position := 2\<rparr>"])
         (auto simp: contains_def c0_def number_of_def split: field.split)
  qed
qed

lemma names_lists:
  assumes "names ps g = Inr named"
  shows "distinct (map fst named)" and "distinct (map snd named)"
    and "(c, n) \<in> set named \<longleftrightarrow> contains g c \<and> render ps g c = Inr n"
proof -
  have m: "map fst named = cells g" "list_all (\<lambda>(c, n). render ps g c = Inr n) named" "distinct (map snd named)"
    using assms by (simp_all add: names_iff)
  show "distinct (map fst named)" "distinct (map snd named)" using m(1,3) distinct_cells by simp_all
  show "(c, n) \<in> set named \<longleftrightarrow> contains g c \<and> render ps g c = Inr n"
  proof
    assume i: "(c, n) \<in> set named"
    then have "c \<in> set (map fst named)" by force
    then show "contains g c \<and> render ps g c = Inr n" using m(1,2) i by (auto simp: list_all_iff set_cells)
  next
    assume c: "contains g c \<and> render ps g c = Inr n"
    then have "c \<in> fst ` set named" using m(1) by (metis set_cells set_map)
    then show "(c, n) \<in> set named" using m(2) c by (auto simp: list_all_iff)
  qed
qed

lemma names_exist:
  assumes "gap ps g = None" "\<And>c. contains g c \<Longrightarrow> \<exists>n. render ps g c = Inr n" "inj_on (render ps g) {c. contains g c}"
  shows "\<exists>named. names ps g = Inr named"
proof -
  define named where "named = map (\<lambda>c. (c, projr (render ps g c))) (cells g)"
  have "render ps g c = Inr (projr (render ps g c))" if "contains g c" for c using assms(2) [OF that] by auto
  then have n: "list_all (\<lambda>(c, n). render ps g c = Inr n) named"
    by (auto simp: named_def list_all_iff set_cells)
  have "inj_on (\<lambda>c. projr (render ps g c)) (set (cells g))"
    using assms(2,3) by (intro inj_onI) (metis inj_onD mem_Collect_eq set_cells sum.sel(2))
  then have "distinct (map snd named)" by (simp add: named_def distinct_map distinct_cells comp_def)
  then have "names ps g = Inr named" using assms(1) n by (simp add: names_iff) (simp add: named_def comp_def)
  then show ?thesis by blast
qed

text \<open>
  C31: A pattern is accepted exactly when it names every cell apart.  For a grid without problems,
  the naming answers if and only if every cell it contains has a name and no two have the same one, and the
  answer lists each of these cells once with its own name; the check of the fields refuses nothing that
  would have worked.
\<close>

theorem names_tell_apart:
  assumes "problems g = []" "in_i32 (gd_levels g)"
  shows "(names ps g = Inr named \<longrightarrow> distinct (map fst named)
            \<and> (\<forall>c n. (c, n) \<in> set named \<longleftrightarrow> contains g c \<and> render ps g c = Inr n))
       \<and> ((\<exists>named. names ps g = Inr named) \<longleftrightarrow>
            (\<forall>c. contains g c \<longrightarrow> (\<exists>n. render ps g c = Inr n)) \<and> inj_on (render ps g) {c. contains g c})"
proof (intro conjI impI iffI)
  assume "names ps g = Inr named"
  note n = names_lists [OF this]
  show "distinct (map fst named)" "\<forall>c n. (c, n) \<in> set named \<longleftrightarrow> contains g c \<and> render ps g c = Inr n"
    using n by blast+
next
  assume "\<exists>named. names ps g = Inr named"
  then obtain named where named: "names ps g = Inr named" by blast
  note n = names_lists [OF named]
  have r: "\<exists>n. (c, n) \<in> set named" if "contains g c" for c
  proof -
    have "c \<in> set (map fst named)" using named that by (simp add: names_iff set_cells)
    then show ?thesis by auto
  qed
  then show "\<forall>c. contains g c \<longrightarrow> (\<exists>n. render ps g c = Inr n)" using n(3) by blast
  have "c = d" if cd: "contains g c" "contains g d" "render ps g c = render ps g d" for c d
  proof -
    obtain m where m: "(c, m) \<in> set named" using r cd(1) by blast
    then have "(d, m) \<in> set named" using n(3) cd by simp
    then show ?thesis using m inj_onD [of snd "set named" "(c, m)" "(d, m)"] n(2) by (simp add: distinct_map)
  qed
  then show "inj_on (render ps g) {c. contains g c}" by (auto intro!: inj_onI)
next
  assume r: "(\<forall>c. contains g c \<longrightarrow> (\<exists>n. render ps g c = Inr n)) \<and> inj_on (render ps g) {c. contains g c}"
  have "gap ps g = None"
  proof (rule ccontr)
    assume "gap ps g \<noteq> None"
    then obtain c d where "contains g c" "contains g d" "c \<noteq> d" "render ps g c = render ps g d"
      using gap_collides [OF assms, of ps] set_cells by blast
    then show False using r by (auto dest: inj_onD)
  qed
  then show "\<exists>named. names ps g = Inr named" using r by (intro names_exist) simp_all
qed

theorem names_tell_apart_witness:
  "(\<exists>named. names [Words ''A'', Numbered Bay (Padded 2)] (single\<lparr>gd_bays := 2\<rparr>) = Inr named)
   \<and> inj_on (render [Words ''A'', Numbered Bay (Padded 2)] (single\<lparr>gd_bays := 2\<rparr>))
       {c. contains (single\<lparr>gd_bays := 2\<rparr>) c}"
proof -
  let ?g = "single\<lparr>gd_bays := 2\<rparr>"
  have a: "problems ?g = []" "in_i32 (gd_levels ?g)"
    by (simp_all add: problems_none in_i32_def single_def wrap32_def)
  have "cells ?g = map (\<lambda>b. \<lparr>gc_bay = b, gc_level = 1, gc_row = 1, gc_position = 1, gc_side = 1\<rparr>) [1..2]"
    by (simp add: cells_def single_def positions_at_def wrap32_def upto_rec1)
  moreover have "char_of (49 :: nat) = CHR ''1''" "char_of (50 :: nat) = CHR ''2''" by code_simp+
  ultimately have "names [Words ''A'', Numbered Bay (Padded 2)] ?g = Inr (zip (cells ?g) [''A01'', ''A02''])"
    by (simp add: names_def gap_def has_def number_of_def label_number_def wrap32_def single_def padded_def
        show_nat.simps digit_char_def upto_rec1 Let_def)
  then show ?thesis using names_tell_apart [OF a] by blast
qed

section \<open>Where every place stands\<close>

text \<open>
  What a frame is: that of the parent, composed with the box of the place; the site's for a place
  without a parent.  A place whose parents never end has none.
\<close>

inductive framed ::
  "('f \<Rightarrow> 'b \<Rightarrow> 'f) \<Rightarrow> 'f \<Rightarrow> ('k \<times> 'k option \<times> 'b) list \<Rightarrow> 'k \<Rightarrow> 'f \<Rightarrow> bool"
  for put site places where
  outermost: "map_of places k = Some (None, box) \<Longrightarrow> framed put site places k (put site box)"
| nested: "map_of places k = Some (Some p, box) \<Longrightarrow> framed put site places p f
             \<Longrightarrow> framed put site places k (put f box)"

inductive_cases framedE: "framed put site places k f"

definition parent_of :: "('k \<times> 'k option \<times> 'b) list \<Rightarrow> ('k \<times> 'k) set" where
  "parent_of places = {(k, p). \<exists>box. map_of places k = Some (Some p, box)}"

definition orphan :: "('k \<times> 'k option \<times> 'b) list \<Rightarrow> bool" where
  "orphan places \<longleftrightarrow> (\<exists>k p box. map_of places k = Some (Some p, box) \<and> map_of places p = None)"

lemma framed_unique: "framed put site places k f \<Longrightarrow> framed put site places k f' \<Longrightarrow> f = f'"
proof (induction arbitrary: f' rule: framed.induct)
  case (outermost k box)
  from outermost.prems show ?case using outermost.hyps by cases auto
next
  case (nested k p box f)
  from nested.prems obtain g where "framed put site places p g" "f' = put g box"
    using nested.hyps(1) by cases auto
  then show ?case using nested.IH by blast
qed

lemma framed_acyclic: "framed put site places k f \<Longrightarrow> (k, k) \<notin> (parent_of places)\<^sup>+"
proof (induction rule: framed.induct)
  case (outermost k box)
  then show ?case by (auto simp: parent_of_def dest: tranclD)
next
  case (nested k p box f)
  show ?case
  proof
    assume "(k, k) \<in> (parent_of places)\<^sup>+"
    then obtain q where q: "(k, q) \<in> parent_of places" "(q, k) \<in> (parent_of places)\<^sup>*" by (auto dest: tranclD)
    then have "q = p" using nested.hyps(1) by (auto simp: parent_of_def)
    then have "(p, p) \<in> (parent_of places)\<^sup>+" using q by (meson rtrancl_into_trancl1)
    then show False using nested.IH by blast
  qed
qed

lemma framed_ancestors: "(k, p) \<in> (parent_of places)\<^sup>* \<Longrightarrow> framed put site places k f \<Longrightarrow> \<exists>f'. framed put site places p f'"
proof (induction arbitrary: f rule: converse_rtrancl_induct)
  case (step k q)
  then obtain f' where "framed put site places q f'"
    by (auto simp: parent_of_def elim: framedE)
  then show ?case using step.IH by blast
qed blast

text \<open>A chain of the first loop: each place under the one before it, the first under what the loop looks at.\<close>

fun linked :: "('k \<times> 'k option \<times> 'b) list \<Rightarrow> 'k option \<Rightarrow> 'k list \<Rightarrow> bool" where
  "linked places p [] = True"
| "linked places p (k # ks) = ((\<exists>box. map_of places k = Some (p, box)) \<and> linked places (Some k) ks)"

lemma linked_ancestors:
  "linked places (Some p) ks \<Longrightarrow> k \<in> set ks \<Longrightarrow> (k, p) \<in> (parent_of places)\<^sup>+"
proof (induction ks arbitrary: p)
  case (Cons c ks)
  then have c: "(c, p) \<in> parent_of places" by (auto simp: parent_of_def)
  show ?case
  proof (cases "k = c")
    case False
    then have "(k, c) \<in> (parent_of places)\<^sup>+" using Cons by simp
    then show ?thesis using c by (rule trancl_into_trancl)
  qed (use c in blast)
qed simp

text \<open>What the first loop ends with: a chain down to the place from a frame, an absent parent, or a circle.\<close>

lemma walk_up_result:
  "linked places p chain \<Longrightarrow> (if chain = [] then p = Some k else last chain = k) \<Longrightarrow>
   (case walk_up places out site chain p of
      Looped \<Rightarrow> \<exists>c. (c, c) \<in> (parent_of places)\<^sup>+ \<and> (k, c) \<in> (parent_of places)\<^sup>*
    | Chain ks base \<Rightarrow>
        (\<exists>q. linked places q ks \<and> (if ks = [] then q = Some k else last ks = k)
             \<and> (case q of None \<Rightarrow> base = site | Some a \<Rightarrow> out a = Some base))
        \<or> ks \<noteq> [] \<and> map_of places (hd ks) = None \<and> (hd ks = k \<or> orphan places))"
proof (induction places out site chain p rule: walk_up.induct)
  case (1 places out site chain)
  then show ?case by (auto split: if_splits)
next
  case (2 places out site chain c)
  show ?case
  proof (cases "out c")
    case (Some f)
    then show ?thesis using "2.prems" by (auto split: if_splits)
  next
    case None
    show ?thesis
    proof (cases "c \<in> set chain")
      case True
      then have "last chain = k" "k \<in> set chain" using "2.prems"(2) by (auto split: if_splits)
      then have "(c, c) \<in> (parent_of places)\<^sup>+" "(k, c) \<in> (parent_of places)\<^sup>+"
        using linked_ancestors [OF "2.prems"(1)] True by simp_all
      then show ?thesis using None True by (auto intro: trancl_into_rtrancl)
    next
      case False
      show ?thesis
      proof (cases "map_of places c")
        case missing: None
        have "c = k \<or> orphan places"
          using "2.prems" missing by (cases chain) (auto simp: orphan_def)
        then show ?thesis using None False missing by simp
      next
        case (Some pb)
        then obtain parent box where pb: "map_of places c = Some (parent, box)" by (cases pb) simp
        have "linked places parent (c # chain)" using pb "2.prems"(1) by simp
        moreover have "last (c # chain) = k" using "2.prems"(2) by (simp split: if_splits)
        ultimately show ?thesis using "2.IH" [OF None False pb refl] None False pb by simp
      qed
    qed
  qed
qed

text \<open>The frames written so far are right.\<close>

definition sound_frames ::
  "('f \<Rightarrow> 'b \<Rightarrow> 'f) \<Rightarrow> 'f \<Rightarrow> ('k \<times> 'k option \<times> 'b) list \<Rightarrow> ('k \<Rightarrow> 'f option) \<Rightarrow> bool" where
  "sound_frames put site places out \<longleftrightarrow> (\<forall>k f. out k = Some f \<longrightarrow> framed put site places k f)"

lemma walk_down_frames:
  "linked places q ks \<Longrightarrow> (case q of None \<Rightarrow> base = site | Some a \<Rightarrow> framed put site places a base) \<Longrightarrow>
   sound_frames put site places out \<Longrightarrow>
   \<exists>out'. walk_down put places base ks out = Some out' \<and> sound_frames put site places out' \<and> dom out' = dom out \<union> set ks"
proof (induction ks arbitrary: q base out)
  case (Cons k ks)
  then obtain box where k: "map_of places k = Some (q, box)" "linked places (Some k) ks" by auto
  have f: "framed put site places k (put base box)"
    using k(1) Cons.prems(2) by (cases q) (auto intro: framed.intros)
  then have "sound_frames put site places (out(k \<mapsto> put base box))"
    using Cons.prems(3) by (simp add: sound_frames_def)
  then show ?case using Cons.IH [OF k(2), of "put base box" "out(k \<mapsto> put base box)"] f k(1)
    by (auto simp: Let_def simp del: fun_upd_apply)
qed simp

text \<open>One turn of the outer loop: a panic at an absent place, a circle passed over, or the place framed.\<close>

lemma frame_turn:
  assumes sound: "sound_frames put site places out" and k: "map_of places k \<noteq> None"
  shows "(orphan places \<and> frame_each put site places (k # ks) out = None)
    \<or> (\<exists>out'. frame_each put site places (k # ks) out = frame_each put site places ks out'
          \<and> sound_frames put site places out' \<and> dom out \<subseteq> dom out' \<and> (\<forall>f. framed put site places k f \<longrightarrow> out' k \<noteq> None))"
proof (cases "walk_up places out site [] (Some k)")
  case Looped
  then obtain c where "(c, c) \<in> (parent_of places)\<^sup>+" "(k, c) \<in> (parent_of places)\<^sup>*"
    using walk_up_result [of places "Some k" "[]" k site out] by auto
  then have "\<not> framed put site places k f" for f
    using framed_ancestors [of k c places put site f] framed_acyclic by metis
  then show ?thesis using Looped sound by (auto simp del: walk_up.simps)
next
  case (Chain chain base)
  then consider q where "linked places q chain" "if chain = [] then q = Some k else last chain = k"
      "case q of None \<Rightarrow> base = site | Some a \<Rightarrow> out a = Some base"
    | "chain \<noteq> []" "map_of places (hd chain) = None" "orphan places"
    using walk_up_result [of places "Some k" "[]" k site out] k by auto
  then show ?thesis
  proof cases
    case 1
    have "case q of None \<Rightarrow> base = site | Some a \<Rightarrow> framed put site places a base"
      using 1(3) sound by (cases q) (auto simp: sound_frames_def)
    then obtain out' where o: "walk_down put places base chain out = Some out'"
        "sound_frames put site places out'" "dom out' = dom out \<union> set chain"
      using walk_down_frames [OF 1(1) _ sound] by blast
    have "out' k \<noteq> None"
    proof (cases "chain = []")
      case True
      then show ?thesis using 1 o(3) by (auto split: option.splits)
    next
      case False
      then have "k \<in> set chain" using 1(2) last_in_set [OF False] by simp
      then show ?thesis using o(3) by auto
    qed
    then have "frame_each put site places (k # ks) out = frame_each put site places ks out'"
      using Chain o(1) by (simp del: walk_up.simps)
    then show ?thesis using o(2,3) \<open>out' k \<noteq> None\<close> by (intro disjI2 exI [of _ out']) simp
  next
    case 2
    then show ?thesis using Chain by (cases chain) (auto simp del: walk_up.simps)
  qed
qed

lemma frame_each_complete:
  "\<not> orphan places \<Longrightarrow> sound_frames put site places out \<Longrightarrow> (\<forall>k \<in> set ks. map_of places k \<noteq> None) \<Longrightarrow>
   \<exists>out'. frame_each put site places ks out = Some out' \<and> sound_frames put site places out' \<and> dom out \<subseteq> dom out'
     \<and> (\<forall>k \<in> set ks. \<forall>f. framed put site places k f \<longrightarrow> out' k \<noteq> None)"
proof (induction ks arbitrary: out)
  case (Cons k ks)
  then obtain out1 where t: "frame_each put site places (k # ks) out = frame_each put site places ks out1"
      "sound_frames put site places out1" "dom out \<subseteq> dom out1" "\<forall>f. framed put site places k f \<longrightarrow> out1 k \<noteq> None"
    using frame_turn [of put site places out k ks] by auto
  from Cons.IH [OF Cons.prems(1) t(2)] Cons.prems(3)
  obtain out' where o: "frame_each put site places ks out1 = Some out'" "sound_frames put site places out'"
      "dom out1 \<subseteq> dom out'" "\<forall>k \<in> set ks. \<forall>f. framed put site places k f \<longrightarrow> out' k \<noteq> None" by auto
  have "\<forall>f. framed put site places k f \<longrightarrow> out' k \<noteq> None" using t(4) o(3) by blast
  then show ?case using t o by (intro exI [of _ out']) auto
qed auto

lemma orphan_not_framed:
  assumes "map_of places k = Some (Some p, box)" "map_of places p = None"
  shows "\<not> framed put site places k f" "\<not> framed put site places p f"
proof -
  have p: "\<not> framed put site places p g" for g
  proof
    assume "framed put site places p g"
    then show False using assms(2) by cases auto
  qed
  then show "\<not> framed put site places p f" .
  show "\<not> framed put site places k f"
  proof
    assume "framed put site places k f"
    then show False using assms(1) p by cases auto
  qed
qed

lemma frame_each_panics:
  assumes "map_of places k = Some (Some p, box)" "map_of places p = None"
  shows "sound_frames put site places out \<Longrightarrow> (\<forall>j \<in> set ks. map_of places j \<noteq> None) \<Longrightarrow> k \<in> set ks \<Longrightarrow>
    frame_each put site places ks out = None"
proof (induction ks arbitrary: out)
  case (Cons j ks)
  show ?case
  proof (cases "j = k")
    case True
    have "out k = None" "out p = None"
      using Cons.prems(1) orphan_not_framed [OF assms] unfolding sound_frames_def by (metis not_None_eq)+
    moreover have "p \<noteq> k" using assms by auto
    ultimately show ?thesis using True assms by simp
  next
    case False
    then have "k \<in> set ks" "\<forall>j \<in> set ks. map_of places j \<noteq> None" using Cons.prems by auto
    then show ?thesis
      using frame_turn [OF Cons.prems(1), of j ks] Cons.IH Cons.prems(2) by (metis list.set_intros(1))
  qed
qed simp

text \<open>
  C30: The walk over nested places ends with every frame there is.  For places whose parents are all
  among them it returns, circles included, and what it returns gives a place a frame exactly when its
  chain of parents ends, that frame being the composition of the boxes down the chain, whatever order
  the keys come in; it panics exactly when a place names a parent that is not there.
\<close>

theorem frames_end:
  "(frames put site places = None \<longleftrightarrow> orphan places)
   \<and> (\<not> orphan places \<longrightarrow> (\<exists>out. frames put site places = Some out
          \<and> (\<forall>k f. out k = Some f \<longleftrightarrow> framed put site places k f)))"
proof -
  have keys: "\<forall>k \<in> set (map fst places). map_of places k \<noteq> None" by (auto simp: map_of_eq_None_iff)
  have sound: "sound_frames put site places (\<lambda>_. None)" by (simp add: sound_frames_def)
  have "frames put site places = None" if o: "orphan places"
  proof -
    obtain k p box where k: "map_of places k = Some (Some p, box)" "map_of places p = None"
      using o unfolding orphan_def by blast
    then have "k \<in> set (map fst places)" using map_of_eq_None_iff [of places k] by simp
    then show ?thesis using frame_each_panics [OF k sound keys] by (simp add: frames_def)
  qed
  moreover have "\<exists>out. frames put site places = Some out \<and> (\<forall>k f. out k = Some f \<longleftrightarrow> framed put site places k f)"
    if no: "\<not> orphan places"
  proof -
    obtain out where o: "frames put site places = Some out" "sound_frames put site places out"
        "\<forall>k \<in> set (map fst places). \<forall>f. framed put site places k f \<longrightarrow> out k \<noteq> None"
      using frame_each_complete [OF no sound keys] by (auto simp: frames_def)
    have "out k = Some f" if f: "framed put site places k f" for k f
    proof -
      have "map_of places k \<noteq> None" using f by cases simp_all
      then have "k \<in> set (map fst places)" by (simp add: map_of_eq_None_iff)
      then obtain g where "out k = Some g" using o(3) f by blast
      then show ?thesis using o(2) f framed_unique unfolding sound_frames_def by metis
    qed
    then show ?thesis using o(1,2) unfolding sound_frames_def by blast
  qed
  ultimately show ?thesis by (metis option.distinct(1))
qed

theorem frames_end_witness:
  "let places = [(1 :: nat, Some 2, 10 :: int), (2, None, 5), (3, Some 4, 1), (4, Some 3, 1)] in
   \<exists>out. frames (+) 0 places = Some out \<and> out 1 = Some 15 \<and> out 3 = None"
proof -
  let ?places = "[(1 :: nat, Some 2, 10 :: int), (2, None, 5), (3, Some 4, 1), (4, Some 3, 1)]"
  have "\<not> orphan ?places" by (simp add: orphan_def)
  then obtain out where o: "frames (+) 0 ?places = Some out"
      "\<And>k f. out k = Some f \<longleftrightarrow> framed (+) 0 ?places k f" using frames_end [of "(+)" 0 ?places] by blast
  have "framed (+) (0 :: int) ?places 2 (0 + 5)" by (rule framed.outermost) simp
  then have "framed (+) 0 ?places 1 (0 + 5 + 10)" by (rule framed.nested [rotated]) simp
  then have "out 1 = Some 15" using o(2) [of 1 15] by simp
  moreover have "(3, 3) \<in> (parent_of ?places)\<^sup>+"
    by (rule trancl_into_trancl [of _ 4]) (auto simp: parent_of_def)
  then have "out 3 = None" using o(2) [of 3] framed_acyclic by (metis not_None_eq)
  ultimately show ?thesis using o(1) by (auto simp: Let_def)
qed

section \<open>The draft\<close>

definition family_codes :: "(family \<times> (string \<times> bool) list) list \<Rightarrow> string multiset" where
  "family_codes fs = mset (concat (map (\<lambda>(_, cs). map fst cs) fs))"

definition placed_codes :: "draft \<Rightarrow> string multiset" where
  "placed_codes out = mset (concat (map (\<lambda>p. map fst (dw_bins p)) (dr_places out)))"

lemma family_codes_simps [simp]:
  "family_codes [] = {#}" "family_codes ((k, cs) # fs) = mset (map fst cs) + family_codes fs"
  by (simp_all add: family_codes_def)

lemma family_codes_add: "family_codes (add_code k c fs) = add_mset (fst c) (family_codes fs)"
  by (induction k c fs rule: add_code.induct) (simp_all split: ordering.split)

lemma sort_codes_keeps:
  "family_codes (fst (sort_codes cs fs un)) + mset (snd (sort_codes cs fs un)) = family_codes fs + mset un + mset (map fst cs)"
  by (induction cs fs un rule: sort_codes.induct) (simp_all add: family_codes_add)

text \<open>What a draft says of a place: its pattern names its cells, and each bin by its own code.\<close>

definition reads_back :: "drafted \<Rightarrow> bool" where
  "reads_back p \<longleftrightarrow> (\<exists>ps. parse_pattern (dw_pattern p) = Inr ps \<and> (\<exists>named. names ps (dw_grid p) = Inr named)
     \<and> cell_count (dw_grid p) \<le> MOST_CELLS
     \<and> (\<forall>(code, c) \<in> set (dw_bins p). contains (dw_grid p) c \<and> render ps (dw_grid p) c = Inr code))"

lemma placed_or_lost:
  "mset (map fst (concat (map (\<lambda>code. case f code of None \<Rightarrow> [] | Some c \<Rightarrow> [(code, c)]) texts)))
     + mset (filter (\<lambda>code. f code = None) texts) = mset texts"
  by (induction texts) (auto split: option.split)

lemma found_named:
  assumes "names ps g = Inr named" "map_option fst (find (\<lambda>(c, s). s = code) named) = Some c"
  shows "contains g c \<and> render ps g c = Inr code"
  using assms(2) names_lists(3) [OF assms(1)] by (auto simp: find_Some_iff) (metis nth_mem)+

text \<open>One family: its codes placed or lost, and those placed read back.\<close>

lemma draft_family_keeps:
  assumes "draft_family k codes = (proposal, lost)"
  shows "mset (map fst codes) = mset lost + (case proposal of None \<Rightarrow> {#} | Some (_, _, _, _, bins) \<Rightarrow> mset (map fst bins))"
    and "proposal = Some (base, solid, text1, g, bins) \<Longrightarrow>
      reads_back \<lparr>dw_name = n, dw_solid = solid, dw_pattern = text1, dw_grid = g, dw_bins = bins\<rparr>"
proof -
  obtain head seps m where k: "k = (head, seps, m)" by (cases k) auto
  define texts where "texts = map fst codes"
  define g0 where "g0 = family_grid m texts"
  define t where "t = family_pattern head seps m texts"
  define look where "look = (\<lambda>named code. map_option fst (find (\<lambda>(c :: grid_cell, s). s = (code :: string)) named))"
  define placed where "placed = (\<lambda>named. concat (map (\<lambda>code. case look named code of None \<Rightarrow> [] | Some c \<Rightarrow> [(code, c)]) texts))"
  have cases: "(proposal = None \<and> lost = texts)
      \<or> (\<exists>ps named. parse_pattern t = Inr ps \<and> cell_count g0 \<le> MOST_CELLS \<and> names ps g0 = Inr named
           \<and> lost = filter (\<lambda>code. look named code = None) texts
           \<and> (if placed named = [] then proposal = None
              else \<exists>b s. proposal = Some (b, s, t, g0, sort_by cell_order (placed named))))"
    using assms unfolding k draft_family_def Let_def prod.case placed_def look_def t_def g0_def texts_def
    by (auto split: sum.splits if_splits)
  have keep: "mset (map fst (placed named)) + mset (filter (\<lambda>code. look named code = None) texts) = mset texts" for named
    unfolding placed_def by (rule placed_or_lost)
  show "mset (map fst codes) = mset lost + (case proposal of None \<Rightarrow> {#} | Some (_, _, _, _, bins) \<Rightarrow> mset (map fst bins))"
    using cases
  proof (elim disjE exE conjE)
    fix ps named assume "lost = filter (\<lambda>code. look named code = None) texts"
      "if placed named = [] then proposal = None
       else \<exists>b s. proposal = Some (b, s, t, g0, sort_by cell_order (placed named))"
    then show ?thesis using keep [of named] by (cases "placed named = []") (auto simp: add.commute texts_def)
  qed (simp add: texts_def)
  show "reads_back \<lparr>dw_name = n, dw_solid = solid, dw_pattern = text1, dw_grid = g, dw_bins = bins\<rparr>"
    if some: "proposal = Some (base, solid, text1, g, bins)"
  proof -
    obtain ps named where p: "parse_pattern t = Inr ps" "cell_count g0 \<le> MOST_CELLS" "names ps g0 = Inr named"
        "text1 = t" "g = g0" "bins = sort_by cell_order (placed named)"
      using cases some by (auto split: if_splits)
    have "contains g0 c \<and> render ps g0 c = Inr code" if "(code, c) \<in> set (placed named)" for code c
    proof -
      have "look named code = Some c" using that by (auto simp: placed_def split: option.splits)
      then show ?thesis unfolding look_def by (rule found_named [OF p(3)])
    qed
    then show ?thesis using p by (auto simp: reads_back_def)
  qed
qed

lemma draft_families_keep:
  "placed_codes (draft_families fs taken out) + mset (dr_unmatched (draft_families fs taken out))
      = placed_codes out + mset (dr_unmatched out) + family_codes fs"
  and draft_families_read_back:
  "(\<forall>p \<in> set (dr_places out). reads_back p) \<longrightarrow> (\<forall>p \<in> set (dr_places (draft_families fs taken out)). reads_back p)"
proof (induction fs arbitrary: taken out)
  case (Cons f fs)
  obtain k codes where f: "f = (k, codes)" by (cases f)
  obtain proposal lost where d: "draft_family k codes = (proposal, lost)" by (cases "draft_family k codes")
  note keep = draft_family_keeps [OF d]
  {
    case 1
    show ?case using Cons.IH(1) d keep(1) unfolding f
      by (cases proposal) (auto simp: placed_codes_def distinct_name_def Let_def)
  next
    case 2
    show ?case
    proof (cases proposal)
      case None
      then show ?thesis using Cons.IH(2) [of "out\<lparr>dr_unmatched := dr_unmatched out @ lost\<rparr>" taken] d by (simp add: f)
    next
      case (Some a)
      then obtain base solid t g bins where a: "proposal = Some (base, solid, t, g, bins)" by (cases a) auto
      obtain name taken' where n: "distinct_name taken base = (name, taken')" by (cases "distinct_name taken base")
      let ?p = "\<lparr>dw_name = name, dw_solid = solid, dw_pattern = t, dw_grid = g, dw_bins = bins\<rparr>"
      show ?thesis
        using Cons.IH(2) [of "out\<lparr>dr_unmatched := dr_unmatched out @ lost, dr_places := dr_places out @ [?p]\<rparr>" taken']
          keep(2) [OF a, of name] d a n by (simp add: f)
    qed
  }
qed simp_all

text \<open>
  C32: A draft neither loses nor invents a code, and places none it cannot read back.  Every code of the
  bin list is placed or listed as unmatched, as often as it was given; and each place it proposes has a
  pattern that parses, names every cell of its grid apart, and names each bin's own cell, which is in
  the grid, by exactly that bin's code.
\<close>

theorem draft_reads_back:
  "placed_codes (draft_layout bins) + mset (dr_unmatched (draft_layout bins)) = mset (map fst bins)
   \<and> list_all reads_back (dr_places (draft_layout bins))"
proof -
  obtain fs un where s: "sort_codes bins [] [] = (fs, un)" by (cases "sort_codes bins [] []")
  have k: "family_codes fs + mset un = mset (map fst bins)" using sort_codes_keeps [of bins "[]" "[]"] s by simp
  let ?out = "draft_families fs (\<lambda>_. 0) \<lparr>dr_places = [], dr_unmatched = un\<rparr>"
  have "placed_codes ?out + mset (dr_unmatched ?out) = mset (map fst bins)"
    unfolding draft_families_keep(1) k [symmetric] by (simp add: placed_codes_def)
  moreover have "\<forall>p \<in> set (dr_places ?out). reads_back p" by (rule draft_families_read_back [THEN mp]) simp
  ultimately show ?thesis using s by (simp add: draft_layout_def placed_codes_def list_all_iff Let_def)
qed

lemma draft_example:
  "map dw_name (dr_places (draft_layout [(''D-1'', False), (''D-3'', False), (''3PL'', True)])) = [''D'']
   \<and> dr_unmatched (draft_layout [(''D-1'', False), (''D-3'', False), (''3PL'', True)]) = [''3PL'']"
  by code_simp

section \<open>Two sides of one rack\<close>

lemma label_set:
  assumes "problems g = []" "fits g"
  shows "(\<lambda>(side, bay). label_number g side bay) ` ({1..gd_sides g} \<times> {1..gd_bays g})
    = (\<lambda>k. gd_first_bay g + k * gd_bay_step g) ` {0..<gd_bays g * gd_sides g}"
proof -
  have s: "1 \<le> gd_bays g" "gd_sides g = 1 \<or> gd_sides g = 2" using assms(1) by (simp_all add: problems_none)
  have "(\<lambda>(side, bay). label_number g side bay) ` ({1..gd_sides g} \<times> {1..gd_bays g})
      = (\<lambda>(side, bay). gd_first_bay g + bay_index g side bay * gd_bay_step g) ` ({1..gd_sides g} \<times> {1..gd_bays g})"
    using label_number_index(1) [OF assms] by (intro image_cong) auto
  also have "\<dots> = (\<lambda>k. gd_first_bay g + k * gd_bay_step g) ` (\<lambda>(side, bay). bay_index g side bay) ` ({1..gd_sides g} \<times> {1..gd_bays g})"
    by (simp add: image_image case_prod_beta)
  finally show ?thesis unfolding bay_indices [OF s] .
qed

text \<open>With an even number of bays the two sides carry the numbers the one face did, each once.\<close>

lemma two_sides_labels:
  assumes g: "problems g = []" "fits g" and even: "even (gd_bays g)" and two: "two_sides g = Some g'"
  shows "problems g' = []" "fits g'"
    and "(\<lambda>(side, bay). label_number g' side bay) ` ({1..gd_sides g'} \<times> {1..gd_bays g'})
       = (\<lambda>(side, bay). label_number g side bay) ` ({1..gd_sides g} \<times> {1..gd_bays g})"
proof -
  have one: "gd_sides g = 1" "2 \<le> gd_bays g" using two by (simp_all add: two_sides_def split: if_splits)
  have "in_i32 (gd_bays g + 1)" using g(2) one(2) by (simp add: fits_def in_i32_def)
  moreover have half: "(gd_bays g + 1) div 2 * 2 = gd_bays g" "(gd_bays g + 1) div 2 = gd_bays g div 2" using even by auto
  ultimately have g': "g' = g\<lparr>gd_bays := gd_bays g div 2, gd_sides := 2\<rparr>"
    using two by (simp add: two_sides_def split: if_splits)
  have n: "gd_bays g' * gd_sides g' = gd_bays g * gd_sides g" using half one by (simp add: g')
  show ok: "problems g' = []" "fits g'"
    using g one half n by (auto simp: problems_none fits_def in_i32_def g')
  show "(\<lambda>(side, bay). label_number g' side bay) ` ({1..gd_sides g'} \<times> {1..gd_bays g'})
       = (\<lambda>(side, bay). label_number g side bay) ` ({1..gd_sides g} \<times> {1..gd_bays g})"
    unfolding label_set [OF ok] label_set [OF g] n by (simp add: g')
qed

end
