(* ===== verification/Routing.thy ===== *)
theory Routing
  imports Floats
begin

text \<open>
  The order of a walk's stops, \<^verbatim>\<open>routing.rs\<close>: the exact order for a dozen stops, the improved one beyond,
  and the plan of a walk.  Distances are doubles, and sums of them are rounded.  A cost matrix is the list
  of its rows; the clock of the heuristic is the list of its answers, an argument.
\<close>

unbundle bit_operations_syntax

section \<open>Walks and their length\<close>

type_synonym costs = "f64 list list"

definition cost_of :: "costs \<Rightarrow> nat \<Rightarrow> nat \<Rightarrow> f64" where
  "cost_of cost i j = cost ! i ! j"

definition length_of :: "costs \<Rightarrow> nat list \<Rightarrow> bool \<Rightarrow> f64" where
  "length_of cost route loop =
     (let sum = foldl (\<lambda>s (i, j). f64_add s (cost_of cost i j)) (Fin 0) (zip route (tl route)) in
      if loop \<and> 1 < length route then f64_add sum (cost_of cost (last route) (hd route)) else sum)"

definition f64_finite :: "f64 \<Rightarrow> bool" where
  "f64_finite x = (case x of Fin r \<Rightarrow> True | _ \<Rightarrow> False)"

text \<open>\<open>a.partial_cmp(b).unwrap_or(Equal)\<close>, and \<open>min_by\<close>, which keeps the first of the least.\<close>

definition f64_cmp :: "f64 \<Rightarrow> f64 \<Rightarrow> ordering" where
  "f64_cmp x y = (if f64_lt x y then Less else if f64_lt y x then Greater else Equal)"

definition min_by :: "('a \<Rightarrow> 'a \<Rightarrow> ordering) \<Rightarrow> 'a list \<Rightarrow> 'a option" where
  "min_by c xs = (case xs of [] \<Rightarrow> None | x # ys \<Rightarrow> Some (foldl (\<lambda>m y. if c m y = Greater then y else m) x ys))"

section \<open>Held and Karp\<close>

text \<open>
  The table: for each set of stops, a bit mask over \<open>others\<close>, and each stop of it, the least walk from the
  start over the set that ends there, and the stop before; \<open>None\<close> is \<open>usize::MAX\<close>.
\<close>

type_synonym table = "f64 list \<times> nat option list"

definition others :: "costs \<Rightarrow> nat \<Rightarrow> nat list" where
  "others cost start = filter (\<lambda>k. k \<noteq> start) [0..<length cost]"

definition relax_k :: "costs \<Rightarrow> nat list \<Rightarrow> f64 \<Rightarrow> nat \<Rightarrow> nat \<Rightarrow> nat \<Rightarrow> table \<Rightarrow> table" where
  "relax_k cost os here s j k = (\<lambda>(best, prev).
     if bit s k then (best, prev)
     else (let n = set_bit k s; via = f64_add here (cost_of cost (os ! j) (os ! k)); i = n * length os + k in
       if f64_lt via (best ! i) then (best[i := via], prev[i := Some j]) else (best, prev)))"

definition relax_j :: "costs \<Rightarrow> nat list \<Rightarrow> nat \<Rightarrow> nat \<Rightarrow> table \<Rightarrow> table" where
  "relax_j cost os s j = (\<lambda>(best, prev).
     if \<not> bit s j then (best, prev)
     else (let here = best ! (s * length os + j) in
       if \<not> f64_finite here then (best, prev)
       else fold (relax_k cost os here s j) [0..<length os] (best, prev)))"

definition relax_set :: "costs \<Rightarrow> nat list \<Rightarrow> nat \<Rightarrow> table \<Rightarrow> table" where
  "relax_set cost os s = fold (relax_j cost os s) [0..<length os]"

definition first_table :: "costs \<Rightarrow> nat \<Rightarrow> nat list \<Rightarrow> table" where
  "first_table cost start os =
     (fold (\<lambda>j best. best[2 ^ j * length os + j := cost_of cost start (os ! j)]) [0..<length os]
        (replicate (2 ^ length os * length os) PosInf),
      replicate (2 ^ length os * length os) None)"

definition hk_table :: "costs \<Rightarrow> nat \<Rightarrow> nat list \<Rightarrow> table" where
  "hk_table cost start os = fold (relax_set cost os) [1..<2 ^ length os] (first_table cost start os)"

definition hk_end :: "costs \<Rightarrow> nat \<Rightarrow> bool \<Rightarrow> nat list \<Rightarrow> f64 list \<Rightarrow> nat" where
  "hk_end cost start loop os best =
     (let m = length os;
          f = (\<lambda>a. f64_add (best ! ((2 ^ m - 1) * m + a)) (if loop then cost_of cost (os ! a) start else Fin 0)) in
      case min_by (\<lambda>a b. f64_cmp (f a) (f b)) [0..<m] of None \<Rightarrow> 0 | Some a \<Rightarrow> a)"

text \<open>The way home along the table; a loop, so that not ending would be \<open>None\<close>.\<close>

partial_function (option) unwind :: "nat list \<Rightarrow> nat option list \<Rightarrow> nat \<Rightarrow> nat option \<Rightarrow> nat list option" where
  "unwind os prev s p =
     (if p = None then Some []
      else let j = the p in
        Option.bind (unwind os prev (unset_bit j s) (prev ! (s * length os + j))) (\<lambda>rest. Some (os ! j # rest)))"

definition exact :: "costs \<Rightarrow> nat \<Rightarrow> bool \<Rightarrow> nat list option" where
  "exact cost start loop =
     (let os = others cost start; (best, prev) = hk_table cost start os in
      map_option (\<lambda>pushed. rev (pushed @ [start]))
        (unwind os prev (2 ^ length os - 1) (Some (hk_end cost start loop os best))))"


section \<open>The improved order\<close>

text \<open>\<open>Vec::swap_remove\<close>: what is left when the element at \<open>i\<close> is taken out, the last in its place.\<close>

definition swap_removed :: "nat \<Rightarrow> 'a list \<Rightarrow> 'a list" where
  "swap_removed i xs = (if Suc i = length xs then butlast xs else (butlast xs)[i := last xs])"

lemma length_swap_removed [simp]: "length (swap_removed i xs) = length xs - 1"
  by (simp add: swap_removed_def)

definition f64_min :: "f64 \<Rightarrow> f64 \<Rightarrow> f64" where
  "f64_min x y = (if x = NaN then y else if y = NaN then x else if f64_lt y x then y else x)"

definition first_least :: "('a \<Rightarrow> f64) \<Rightarrow> 'a list \<Rightarrow> nat" where
  "first_least f xs =
     (case min_by (\<lambda>a b. f64_cmp (f (xs ! a)) (f (xs ! b))) [0..<length xs] of None \<Rightarrow> 0 | Some i \<Rightarrow> i)"

text \<open>What a stop adds to the route when it goes in at a place.\<close>

definition added_at :: "costs \<Rightarrow> nat \<Rightarrow> bool \<Rightarrow> nat list \<Rightarrow> nat \<Rightarrow> nat \<Rightarrow> f64" where
  "added_at cost start loop route k i =
     (let before = route ! (i - 1) in
      if i = length route
      then f64_add (cost_of cost before k)
             (if loop then f64_sub (cost_of cost k start) (cost_of cost before start) else Fin 0)
      else f64_sub (f64_add (cost_of cost before k) (cost_of cost k (route ! i))) (cost_of cost before (route ! i)))"

definition insertion_place :: "costs \<Rightarrow> nat \<Rightarrow> bool \<Rightarrow> nat list \<Rightarrow> nat \<Rightarrow> nat" where
  "insertion_place cost start loop route k =
     fst (foldl (\<lambda>(best, least) i. let added = added_at cost start loop route k i in
           if f64_lt added least then (i, added) else (best, least))
       (length route, PosInf) [1..<length route + 1])"

function inserted_from :: "costs \<Rightarrow> nat \<Rightarrow> bool \<Rightarrow> nat list \<Rightarrow> nat list \<Rightarrow> nat list" where
  "inserted_from cost start loop route left =
     (if left = [] then route
      else let pick = first_least (\<lambda>k. foldl f64_min PosInf (map (\<lambda>r. cost_of cost r k) route)) left;
               k = left ! pick; p = insertion_place cost start loop route k in
        inserted_from cost start loop (take p route @ k # drop p route) (swap_removed pick left))"
  by pat_completeness auto
termination
  by (relation "measure (\<lambda>(cost, start, loop, route, left). length left)") (simp_all add: Let_def)

definition inserted :: "costs \<Rightarrow> nat \<Rightarrow> bool \<Rightarrow> nat list" where
  "inserted cost start loop = inserted_from cost start loop [start] (others cost start)"

function nearest_from :: "costs \<Rightarrow> nat list \<Rightarrow> nat list \<Rightarrow> nat list" where
  "nearest_from cost route left =
     (if left = [] then route
      else let i = first_least (cost_of cost (last route)) left in
        nearest_from cost (route @ [left ! i]) (swap_removed i left))"
  by pat_completeness auto
termination
  by (relation "measure (\<lambda>(cost, route, left). length left)") (simp_all add: Let_def)

definition nearest :: "costs \<Rightarrow> nat \<Rightarrow> nat list" where
  "nearest cost start = nearest_from cost [start] (others cost start)"

declare inserted_from.simps [simp del] nearest_from.simps [simp del]

text \<open>\<open>length(tried) + 1e-9 < now\<close>.\<close>

definition EPS :: f64 where
  "EPS = round_f64 (1 / 10 ^ 9)"

definition shorter :: "costs \<Rightarrow> bool \<Rightarrow> nat list \<Rightarrow> f64 \<Rightarrow> bool" where
  "shorter cost loop tried now \<longleftrightarrow> f64_lt (f64_add (length_of cost tried loop) EPS) now"

text \<open>
  \<open>late t\<close> is the answer of the \<open>t\<close>-th look at the clock, \<open>Instant::now() > budget\<close>; the count of looks
  goes along with the route and whether anything got better.
\<close>

type_synonym polished = "nat list \<times> bool \<times> nat"

definition reversed :: "nat \<Rightarrow> nat \<Rightarrow> nat list \<Rightarrow> nat list" where
  "reversed i k route = take i route @ rev (drop i (take (k + 1) route)) @ drop (k + 1) route"

definition two_opt_at :: "costs \<Rightarrow> bool \<Rightarrow> nat \<Rightarrow> polished \<Rightarrow> polished" where
  "two_opt_at cost loop i st =
     fold (\<lambda>k (route, better, t).
         let tried = reversed i k route in
         if shorter cost loop tried (length_of cost route loop) then (tried, True, t) else (route, better, t))
       [i + 1..<length (fst st)] st"

fun two_opt :: "costs \<Rightarrow> bool \<Rightarrow> (nat \<Rightarrow> bool) \<Rightarrow> nat list \<Rightarrow> polished \<Rightarrow> polished" where
  "two_opt cost loop late [] st = st"
| "two_opt cost loop late (i # is) (route, better, t) =
     (if late t then (route, better, t + 1)
      else two_opt cost loop late is (two_opt_at cost loop i (route, better, t + 1)))"

definition spliced :: "nat \<Rightarrow> nat list \<Rightarrow> nat list \<Rightarrow> nat list" where
  "spliced p piece rest = take p rest @ piece @ drop p rest"

text \<open>The places a stretch is tried at, either way round, and the first that is shorter.\<close>

definition moved :: "costs \<Rightarrow> bool \<Rightarrow> nat \<Rightarrow> nat \<Rightarrow> nat list \<Rightarrow> nat list option" where
  "moved cost loop len i route =
     (let now = length_of cost route loop; rest = take i route @ drop (i + len) route; piece = take len (drop i route) in
      find (\<lambda>tried. shorter cost loop tried now)
        (concat (map (\<lambda>p. (if p = i then [] else [spliced p piece rest]) @ [spliced p (rev piece) rest])
           [1..<length rest + 1])))"

lemma moved_length: "moved cost loop len i route = Some tried \<Longrightarrow> i + len \<le> length route \<Longrightarrow> length tried = length route"
  by (auto simp: moved_def Let_def spliced_def dest!: find_SomeD split: if_splits)

function or_opt :: "costs \<Rightarrow> bool \<Rightarrow> (nat \<Rightarrow> bool) \<Rightarrow> nat \<Rightarrow> nat \<Rightarrow> polished \<Rightarrow> polished" where
  "or_opt cost loop late len i (route, better, t) =
     (if \<not> i + len \<le> length route then (route, better, t)
      else if late t then (route, better, t + 1)
      else (case moved cost loop len i route of
              None \<Rightarrow> or_opt cost loop late len (i + 1) (route, better, t + 1)
            | Some tried \<Rightarrow> or_opt cost loop late len (i + 1) (tried, True, t + 1)))"
  by pat_completeness auto
termination
  by (relation "measure (\<lambda>(cost, loop, late, len, i, route, better, t). length route + 1 - i)") (auto simp: moved_length)

declare or_opt.simps [simp del]

fun polish_rounds :: "costs \<Rightarrow> bool \<Rightarrow> (nat \<Rightarrow> bool) \<Rightarrow> nat \<Rightarrow> nat list \<times> nat \<Rightarrow> nat list \<times> nat" where
  "polish_rounds cost loop late 0 st = st"
| "polish_rounds cost loop late (Suc n) (route, t) =
     (if late t then (route, t + 1)
      else let st = two_opt cost loop late [1..<length route - 1] (route, False, t + 1);
               (route', better, t') = fold (\<lambda>len. or_opt cost loop late len 1) [1..<4] st in
        if better then polish_rounds cost loop late n (route', t') else (route', t'))"

definition polish :: "costs \<Rightarrow> bool \<Rightarrow> (nat \<Rightarrow> bool) \<Rightarrow> nat list \<times> nat \<Rightarrow> nat list \<times> nat" where
  "polish cost loop late = polish_rounds cost loop late 50"

text \<open>The three cuts come from a congruential generator over \<open>u64\<close>.\<close>

definition roll :: "64 word \<Rightarrow> nat \<Rightarrow> nat \<times> 64 word" where
  "roll seed below = (let s = seed * 6364136223846793005 + 1442695040888963407 in (unat (drop_bit 33 s) mod max below 1, s))"

definition cuts :: "64 word \<Rightarrow> nat \<Rightarrow> nat list \<times> 64 word" where
  "cuts seed n = (let (a, s1) = roll seed (n - 1); (b, s2) = roll s1 (n - 1); (c, s3) = roll s2 (n - 1) in
     (sort [1 + a, 1 + b, 1 + c], s3))"

definition shaken :: "nat list \<Rightarrow> nat list \<Rightarrow> nat list" where
  "shaken cs best = take (cs ! 0) best @ drop (cs ! 1) (take (cs ! 2) best) @ drop (cs ! 0) (take (cs ! 1) best) @ drop (cs ! 2) best"

fun shake :: "costs \<Rightarrow> bool \<Rightarrow> (nat \<Rightarrow> bool) \<Rightarrow> nat \<Rightarrow> nat \<Rightarrow> 64 word \<Rightarrow> nat list \<times> nat \<Rightarrow> nat list" where
  "shake cost loop late n 0 seed (best, t) = best"
| "shake cost loop late n (Suc m) seed (best, t) =
     (if n < 5 then best
      else if late t then best
      else let (cs, seed') = cuts seed n in
        if cs ! 0 = cs ! 1 \<or> cs ! 1 = cs ! 2 then shake cost loop late n m seed' (best, t + 1)
        else let (tried, t') = polish cost loop late (shaken cs best, t + 1) in
          shake cost loop late n m seed'
            (if shorter cost loop tried (length_of cost best loop) then tried else best, t'))"

definition improved :: "costs \<Rightarrow> (nat \<Rightarrow> bool) \<Rightarrow> nat \<Rightarrow> bool \<Rightarrow> nat list" where
  "improved cost late start loop =
     (let (one, t1) = polish cost loop late (inserted cost start loop, 0);
          (other, t2) = polish cost loop late (nearest cost start, t1);
          best = (if f64_lt (length_of cost other loop) (length_of cost one loop) then other else one) in
      shake cost loop late (length best) 400 (0x9e3779b97f4a7c15 XOR of_nat (length cost)) (best, t2))"

definition EXACT_UP_TO :: nat where
  "EXACT_UP_TO = 12"

definition order_stops :: "costs \<Rightarrow> (nat \<Rightarrow> bool) \<Rightarrow> nat \<Rightarrow> bool \<Rightarrow> nat list option" where
  "order_stops cost late start loop =
     (let n = length cost in
      if n \<le> 2 then Some (start # others cost start)
      else if n - 1 \<le> EXACT_UP_TO then exact cost start loop
      else Some (improved cost late start loop))"

section \<open>A walk, planned\<close>

text \<open>
  \<open>apart\<close> is \<open>Floor::distances\<close>, the walks from one node to each of a list of nodes, and \<open>line\<close> is
  \<open>line_through\<close>; the floor itself, gridded and searched over \<open>f64\<close> points, is behind them.
\<close>

record 'p planned =
  pl_order :: "nat list"
  pl_unreachable :: "nat list"
  pl_walked :: f64
  pl_typed :: f64
  pl_path :: "'p list"

definition plan_start :: "'n option \<Rightarrow> 'n list \<Rightarrow> 'n option" where
  "plan_start base stops = (case base of Some b \<Rightarrow> Some b | None \<Rightarrow> (case stops of [] \<Rightarrow> None | s # _ \<Rightarrow> Some s))"

definition reached_stops :: "('n \<Rightarrow> 'n list \<Rightarrow> f64 list) \<Rightarrow> 'n \<Rightarrow> 'n list \<Rightarrow> nat list" where
  "reached_stops apart start stops = filter (\<lambda>k. f64_finite (apart start (start # stops) ! (k + 1))) [0..<length stops]"

definition unreachable_stops :: "('n \<Rightarrow> 'n list \<Rightarrow> f64 list) \<Rightarrow> 'n \<Rightarrow> 'n list \<Rightarrow> nat list" where
  "unreachable_stops apart start stops = filter (\<lambda>k. \<not> f64_finite (apart start (start # stops) ! (k + 1))) [0..<length stops]"

definition walk_costs :: "('n \<Rightarrow> 'n list \<Rightarrow> f64 list) \<Rightarrow> 'n \<Rightarrow> 'n list \<Rightarrow> costs" where
  "walk_costs apart start stops =
     (let mine = start # map ((!) stops) (reached_stops apart start stops) in map (\<lambda>a. apart a mine) mine)"

definition plan_walk ::
  "('n \<Rightarrow> 'n list \<Rightarrow> f64 list) \<Rightarrow> ('n list \<Rightarrow> 'p list) \<Rightarrow> (nat \<Rightarrow> bool) \<Rightarrow> 'n option \<Rightarrow> 'n list \<Rightarrow> 'p planned option" where
  "plan_walk apart line late base stops =
     (case plan_start base stops of
        None \<Rightarrow> Some \<lparr>pl_order = [], pl_unreachable = [], pl_walked = Fin 0, pl_typed = Fin 0, pl_path = []\<rparr>
      | Some start \<Rightarrow>
          let loop = (base \<noteq> None); reached = reached_stops apart start stops;
              mine = start # map ((!) stops) reached; cost = walk_costs apart start stops in
          map_option (\<lambda>route.
            \<lparr>pl_order = map (\<lambda>i. reached ! (i - 1)) (tl route),
             pl_unreachable = unreachable_stops apart start stops,
             pl_walked = length_of cost route loop,
             pl_typed = length_of cost [0..<length mine] loop,
             pl_path = line (map ((!) mine) route @ (if loop then [start] else []))\<rparr>)
          (order_stops cost late 0 loop))"

end
