(* ===== verification/Held_Karp.thy ===== *)
theory Held_Karp
  imports Routing
begin

text \<open>
  The exact order of stops is the shortest, in the rounded lengths the code compares: the table of the
  dynamic programme over sets of stops, the loops that fill it, and the way back along it.
\<close>

section \<open>The table holds the least walks\<close>

text \<open>A walk over stops of \<open>os\<close>, last stop first, and its length.\<close>

fun walk_len :: "costs \<Rightarrow> nat \<Rightarrow> nat list \<Rightarrow> nat list \<Rightarrow> f64" where
  "walk_len cost start os [] = Fin 0"
| "walk_len cost start os [j] = cost_of cost start (os ! j)"
| "walk_len cost start os (k # j # r) = f64_add (walk_len cost start os (j # r)) (cost_of cost (os ! j) (os ! k))"

lemma slot_inj: "j < m \<Longrightarrow> j' < m \<Longrightarrow> s * m + j = s' * m + j' \<Longrightarrow> s = s' \<and> j = (j' :: nat)"
  by (metis add.commute div_mult_self3 div_less less_nat_zero_code mod_less mod_mult_self3 Nat.add_0_right not_gr_zero)

lemma slot_less: "s < 2 ^ m \<Longrightarrow> j < m \<Longrightarrow> s * m + j < 2 ^ m * (m :: nat)"
proof -
  assume "s < 2 ^ m" "j < m"
  then have "s * m + j < (s + 1) * m" "(s + 1) * m \<le> 2 ^ m * m" by (simp_all only: mult_le_mono1 Suc_leI Suc_eq_plus1 [symmetric], simp)
  then show ?thesis by linarith
qed

lemma set_bit_less: "s < 2 ^ m \<Longrightarrow> k < m \<Longrightarrow> set_bit k s < (2 ^ m :: nat)"
  by (metis linorder_not_less take_bit_nat_eq_self_iff take_bit_set_bit_eq)

lemma unset_set_bit: "\<not> bit s k \<Longrightarrow> unset_bit k (set_bit k s) = (s :: nat)"
  by (rule bit_eqI) (auto simp: bit_simps)

lemma set_unset_bit: "bit s k \<Longrightarrow> set_bit k (unset_bit k s) = (s :: nat)"
  by (rule bit_eqI) (auto simp: bit_simps)

lemma set_bit_greater: "\<not> bit s k \<Longrightarrow> s < set_bit k (s :: nat)"
  by (simp add: set_bit_eq)



text \<open>
  What the slots say once the triples \<open>D\<close> (set, stop it ends at, stop tried next) have been tried: a
  single stop is reached from the start; a set is reached over the stop before, at no more than any triple
  tried, or not yet.
\<close>

definition slot_ok ::
  "costs \<Rightarrow> nat \<Rightarrow> nat list \<Rightarrow> (nat \<times> nat \<times> nat) set \<Rightarrow> (nat \<Rightarrow> nat \<Rightarrow> f64) \<Rightarrow> (nat \<Rightarrow> nat \<Rightarrow> nat option) \<Rightarrow> nat \<Rightarrow> nat \<Rightarrow> bool" where
  "slot_ok cost start os D bs ps s j =
     (if unset_bit j s = 0 then bs s j = cost_of cost start (os ! j) \<and> ps s j = None
      else (\<forall>k < length os. (unset_bit j s, k, j) \<in> D \<longrightarrow> bit (unset_bit j s) k \<longrightarrow> f64_finite (bs (unset_bit j s) k) \<longrightarrow>
                f64_le (bs s j) (f64_add (bs (unset_bit j s) k) (cost_of cost (os ! k) (os ! j))))
         \<and> (case ps s j of None \<Rightarrow> bs s j = PosInf
            | Some k \<Rightarrow> k < length os \<and> (unset_bit j s, k, j) \<in> D \<and> bit (unset_bit j s) k
                 \<and> f64_finite (bs (unset_bit j s) k) \<and> f64_lt (bs s j) PosInf
                 \<and> bs s j = f64_add (bs (unset_bit j s) k) (cost_of cost (os ! k) (os ! j))))"

lemma f64_lt_PosInf: "f64_lt x y \<Longrightarrow> f64_lt x PosInf"
  by (cases x; cases y) simp_all

lemma f64_finite_add: "f64_finite x \<Longrightarrow> f64_add x (Fin c) \<noteq> NaN"
  by (cases x) (simp_all add: f64_finite_def)

lemma slot_number:
  assumes "slot_ok cost start os D bs ps s j" "unset_bit j s \<noteq> 0"
  shows "bs s j \<noteq> NaN"
  using assms by (cases "ps s j") (auto simp: slot_ok_def)

text \<open>A slot whose own entry and whose sources are as before, and which no new triple changes.\<close>

lemma slot_kept:
  assumes slot: "slot_ok cost start os D bs ps t a" and own: "bs' t a = bs t a" "ps' t a = ps t a"
    and src: "\<And>b. b < length os \<Longrightarrow> (unset_bit a t, b, a) \<in> D \<Longrightarrow> bs' (unset_bit a t) b = bs (unset_bit a t) b"
    and new: "\<And>b. b < length os \<Longrightarrow> (unset_bit a t, b, a) \<in> D' \<Longrightarrow> bit (unset_bit a t) b \<Longrightarrow>
                f64_finite (bs' (unset_bit a t) b) \<Longrightarrow> (unset_bit a t, b, a) \<in> D"
    and sub: "D \<subseteq> D'"
  shows "slot_ok cost start os D' bs' ps' t a"
proof (cases "unset_bit a t = 0")
  case True
  then show ?thesis using slot own by (simp add: slot_ok_def)
next
  case False
  have tried: "\<forall>k < length os. (unset_bit a t, k, a) \<in> D' \<longrightarrow> bit (unset_bit a t) k \<longrightarrow> f64_finite (bs' (unset_bit a t) k) \<longrightarrow>
      f64_le (bs' t a) (f64_add (bs' (unset_bit a t) k) (cost_of cost (os ! k) (os ! a)))"
  proof (intro allI impI)
    fix k assume k: "k < length os" "(unset_bit a t, k, a) \<in> D'" "bit (unset_bit a t) k" "f64_finite (bs' (unset_bit a t) k)"
    then have "(unset_bit a t, k, a) \<in> D" by (rule new)
    moreover from this have "bs' (unset_bit a t) k = bs (unset_bit a t) k" by (rule src [OF k(1)])
    ultimately show "f64_le (bs' t a) (f64_add (bs' (unset_bit a t) k) (cost_of cost (os ! k) (os ! a)))"
      using slot own(1) k False by (simp add: slot_ok_def)
  qed
  show ?thesis
  proof (cases "ps t a")
    case None
    then show ?thesis using False tried slot own by (simp add: slot_ok_def)
  next
    case (Some k)
    then have "k < length os" "(unset_bit a t, k, a) \<in> D" using False slot by (simp_all add: slot_ok_def)
    then show ?thesis using src False tried Some slot own sub by (auto simp: slot_ok_def)
  qed
qed

text \<open>The slot a new triple is about.\<close>

lemma slot_tried:
  assumes slot: "slot_ok cost start os D bs ps t k" and src: "unset_bit k t = s" "s \<noteq> 0" "bit s j" "j < length os"
    and here: "f64_finite (bs s j)" and fin: "\<exists>c. cost_of cost (os ! j) (os ! k) = Fin c"
    and via: "via = f64_add (bs s j) (cost_of cost (os ! j) (os ! k))" and same: "\<And>b. b < length os \<Longrightarrow> bs' s b = bs s b"
    and upd: "bs' t k = (if f64_lt via (bs t k) then via else bs t k)"
      "ps' t k = (if f64_lt via (bs t k) then Some j else ps t k)"
  shows "slot_ok cost start os (insert (s, j, k) D) bs' ps' t k"
proof -
  have nan: "via \<noteq> NaN" "bs t k \<noteq> NaN"
    using via here fin f64_finite_add slot_number [OF slot] src by auto
  have le: "f64_le (bs' t k) (bs t k)" "f64_le (bs' t k) via"
    using nan f64_linear [of via "bs t k"] by (auto simp: upd f64_le_def f64_eq_def)
  have tried: "\<forall>b < length os. (s, b, k) \<in> insert (s, j, k) D \<longrightarrow> bit s b \<longrightarrow> f64_finite (bs' s b) \<longrightarrow>
      f64_le (bs' t k) (f64_add (bs' s b) (cost_of cost (os ! b) (os ! k)))"
  proof (intro allI impI)
    fix b assume b: "b < length os" "(s, b, k) \<in> insert (s, j, k) D" "bit s b" "f64_finite (bs' s b)"
    show "f64_le (bs' t k) (f64_add (bs' s b) (cost_of cost (os ! b) (os ! k)))"
    proof (cases "b = j")
      case True
      then show ?thesis using le(2) via same b(1) by simp
    next
      case False
      then have "f64_le (bs t k) (f64_add (bs s b) (cost_of cost (os ! b) (os ! k)))"
        using slot b same src by (simp add: slot_ok_def)
      then show ?thesis using f64_le_trans [OF le(1)] same b(1) by simp
    qed
  qed
  show ?thesis
  proof (cases "f64_lt via (bs t k)")
    case True
    then show ?thesis using tried src here via upd same f64_lt_PosInf by (simp add: slot_ok_def)
  next
    case False
    then show ?thesis using tried slot src upd same by (auto simp: slot_ok_def split: option.splits)
  qed
qed

section \<open>The loops keep it\<close>

definition best_at :: "nat list \<Rightarrow> table \<Rightarrow> nat \<Rightarrow> nat \<Rightarrow> f64" where
  "best_at os tb s j = fst tb ! (s * length os + j)"

definition prev_at :: "nat list \<Rightarrow> table \<Rightarrow> nat \<Rightarrow> nat \<Rightarrow> nat option" where
  "prev_at os tb s j = snd tb ! (s * length os + j)"

definition table_ok :: "costs \<Rightarrow> nat \<Rightarrow> nat list \<Rightarrow> (nat \<times> nat \<times> nat) set \<Rightarrow> table \<Rightarrow> bool" where
  "table_ok cost start os D tb \<longleftrightarrow>
     length (fst tb) = 2 ^ length os * length os \<and> length (snd tb) = 2 ^ length os * length os
     \<and> (\<forall>s < 2 ^ length os. \<forall>j < length os. bit s j \<longrightarrow> slot_ok cost start os D (best_at os tb) (prev_at os tb) s j)"

lemma relax_k_at:
  assumes "length (fst tb) = 2 ^ length os * length os" "length (snd tb) = 2 ^ length os * length os"
    and "s < 2 ^ length os" "k < length os" "a < length os"
  shows "best_at os (relax_k cost os here s j k tb) t a =
      (if \<not> bit s k \<and> t = set_bit k s \<and> a = k \<and> f64_lt (f64_add here (cost_of cost (os ! j) (os ! k))) (best_at os tb t a)
       then f64_add here (cost_of cost (os ! j) (os ! k)) else best_at os tb t a)"
    and "prev_at os (relax_k cost os here s j k tb) t a =
      (if \<not> bit s k \<and> t = set_bit k s \<and> a = k \<and> f64_lt (f64_add here (cost_of cost (os ! j) (os ! k))) (best_at os tb t a)
       then Some j else prev_at os tb t a)"
    and "length (fst (relax_k cost os here s j k tb)) = length (fst tb)"
    and "length (snd (relax_k cost os here s j k tb)) = length (snd tb)"
proof -
  obtain best prev where bp: "tb = (best, prev)" by (cases tb)
  let ?i = "set_bit k s * length os + k"
  have i: "?i < 2 ^ length os * length os" by (rule slot_less [OF set_bit_less [OF assms(3,4)] assms(4)])
  have at: "t * length os + a = ?i \<longleftrightarrow> t = set_bit k s \<and> a = k" using slot_inj [OF assms(5,4)] by auto
  show "best_at os (relax_k cost os here s j k tb) t a =
      (if \<not> bit s k \<and> t = set_bit k s \<and> a = k \<and> f64_lt (f64_add here (cost_of cost (os ! j) (os ! k))) (best_at os tb t a)
       then f64_add here (cost_of cost (os ! j) (os ! k)) else best_at os tb t a)"
    "prev_at os (relax_k cost os here s j k tb) t a =
      (if \<not> bit s k \<and> t = set_bit k s \<and> a = k \<and> f64_lt (f64_add here (cost_of cost (os ! j) (os ! k))) (best_at os tb t a)
       then Some j else prev_at os tb t a)"
    using i at assms(1,2) by (auto simp: relax_k_def best_at_def prev_at_def bp Let_def nth_list_update)
  show "length (fst (relax_k cost os here s j k tb)) = length (fst tb)"
    "length (snd (relax_k cost os here s j k tb)) = length (snd tb)"
    by (simp_all add: relax_k_def bp Let_def)
qed

text \<open>Distances among the stops are finite doubles; \<open>os\<close> are stops of the matrix.\<close>

definition finite_legs :: "costs \<Rightarrow> nat list \<Rightarrow> bool" where
  "finite_legs cost os \<longleftrightarrow> (\<forall>i \<in> set os. \<forall>j \<in> set os. \<exists>c. cost_of cost i j = Fin c)"

lemma relax_k_ok:
  assumes tb: "table_ok cost start os D tb" and here: "best_at os tb s j = here" "f64_finite here"
    and s: "s < 2 ^ length os" "j < length os" "bit s j" and k: "k < length os"
    and fin: "finite_legs cost os" and below: "\<forall>(t, _) \<in> D. t \<le> s"
  shows "table_ok cost start os (insert (s, j, k) D) (relax_k cost os here s j k tb)
    \<and> (\<forall>t \<le> s. \<forall>a < length os. best_at os (relax_k cost os here s j k tb) t a = best_at os tb t a)"
proof -
  let ?tb = "relax_k cost os here s j k tb" and ?D = "insert (s, j, k) D"
  have len: "length (fst tb) = 2 ^ length os * length os" "length (snd tb) = 2 ^ length os * length os"
    using tb by (simp_all add: table_ok_def)
  note eff = relax_k_at [OF len s(1) k]
  have D: "\<And>t a b. (t, a, b) \<in> D \<Longrightarrow> t \<le> s" using below by auto
  have old: "best_at os ?tb t a = best_at os tb t a" if "t \<le> s" "a < length os" for t a
    using that set_bit_greater [of s k] by (auto simp: eff(1))
  have "slot_ok cost start os ?D (best_at os ?tb) (prev_at os ?tb) t a" if t: "t < 2 ^ length os" "a < length os" "bit t a" for t a
  proof -
    have slot: "slot_ok cost start os D (best_at os tb) (prev_at os tb) t a" using tb t by (simp add: table_ok_def)
    show ?thesis
    proof (cases "\<not> bit s k \<and> t = set_bit k s \<and> a = k")
      case True
      then have "unset_bit k t = s" by (simp add: unset_set_bit)
      moreover have "s \<noteq> 0" using s(3) bit_0_eq by (metis bot_apply bot_bool_def)
      moreover have "\<exists>c. cost_of cost (os ! j) (os ! k) = Fin c" using fin s(2) k by (simp add: finite_legs_def)
      ultimately have "slot_ok cost start os (insert (s, j, k) D) (best_at os ?tb) (prev_at os ?tb) t k"
        by (intro slot_tried [where via = "f64_add here (cost_of cost (os ! j) (os ! k))" and bs = "best_at os tb" and ps = "prev_at os tb"])
           (use slot True here s old eff(1,2) [OF k] in simp_all)
      then show ?thesis using True by simp
    next
      case False
      have own: "best_at os ?tb t a = best_at os tb t a" "prev_at os ?tb t a = prev_at os tb t a"
        using False eff(1,2) [OF t(2)] by auto
      have ne: "(unset_bit a t, b, a) \<noteq> (s, j, k)" if "bit (unset_bit a t) b" for b
        using False set_unset_bit [OF t(3)] by (auto simp: bit_unset_bit_iff)
      show ?thesis by (rule slot_kept [where bs = "best_at os tb" and ps = "prev_at os tb", OF slot])
        (use own old D ne in blast)+
    qed
  qed
  moreover have "length (fst ?tb) = length (fst tb)" "length (snd ?tb) = length (snd tb)" by (rule eff(3,4) [OF k])+
  ultimately show ?thesis using old len by (auto simp: table_ok_def)
qed

text \<open>A stretch of the loops: the triples tried, and the slots of sets up to the current one unchanged.\<close>

definition tries :: "costs \<Rightarrow> nat \<Rightarrow> nat list \<Rightarrow> nat \<Rightarrow> (nat \<times> nat \<times> nat) set \<Rightarrow> (table \<Rightarrow> table) \<Rightarrow> bool" where
  "tries cost start os s N f \<longleftrightarrow> (\<forall>D tb. table_ok cost start os D tb \<longrightarrow> (\<forall>(t, _) \<in> D. t \<le> s) \<longrightarrow>
     table_ok cost start os (N \<union> D) (f tb) \<and> (\<forall>t \<le> s. \<forall>a < length os. best_at os (f tb) t a = best_at os tb t a))"

lemma tries_fold:
  assumes "\<And>x. x \<in> set xs \<Longrightarrow> tries cost start os s (N x) (f x)" and "\<And>x t y. (t, y) \<in> N x \<Longrightarrow> t = s"
  shows "tries cost start os s (\<Union>x \<in> set xs. N x) (fold f xs)"
  using assms(1)
proof (induction xs)
  case Nil
  then show ?case by (simp add: tries_def)
next
  case (Cons x xs)
  show ?case unfolding tries_def
  proof (intro allI impI)
    fix D tb assume tb: "table_ok cost start os D tb" "\<forall>(t, _) \<in> D. t \<le> s"
    have x: "table_ok cost start os (N x \<union> D) (f x tb)" "\<forall>t \<le> s. \<forall>a < length os. best_at os (f x tb) t a = best_at os tb t a"
      using Cons.prems [of x] tb unfolding tries_def by (meson list.set_intros(1))+
    have "\<forall>(t, _) \<in> N x \<union> D. t \<le> s" using tb(2) assms(2) by auto
    moreover have "tries cost start os s (\<Union>x \<in> set xs. N x) (fold f xs)" using Cons by simp
    ultimately have "table_ok cost start os ((\<Union>x \<in> set xs. N x) \<union> (N x \<union> D)) (fold f xs (f x tb))"
        "\<forall>t \<le> s. \<forall>a < length os. best_at os (fold f xs (f x tb)) t a = best_at os (f x tb) t a"
      using x(1) unfolding tries_def by blast+
    then show "table_ok cost start os ((\<Union>x \<in> set (x # xs). N x) \<union> D) (fold f (x # xs) tb)
        \<and> (\<forall>t \<le> s. \<forall>a < length os. best_at os (fold f (x # xs) tb) t a = best_at os tb t a)"
      using x(2) by (simp add: Un_ac)
  qed
qed

lemma table_ok_idle:
  assumes "table_ok cost start os D tb"
    and "\<And>j k. (s, j, k) \<in> N \<Longrightarrow> bit s j \<Longrightarrow> \<not> f64_finite (best_at os tb s j)" and "\<And>t y. (t, y) \<in> N \<Longrightarrow> t = s"
  shows "table_ok cost start os (N \<union> D) tb"
proof -
  have "slot_ok cost start os (N \<union> D) (best_at os tb) (prev_at os tb) t a" if "t < 2 ^ length os" "a < length os" "bit t a" for t a
  proof (rule slot_kept)
    show "slot_ok cost start os D (best_at os tb) (prev_at os tb) t a" using assms(1) that by (simp add: table_ok_def)
    fix b assume b: "b < length os" "(unset_bit a t, b, a) \<in> N \<union> D" "bit (unset_bit a t) b"
      "f64_finite (best_at os tb (unset_bit a t) b)"
    then show "(unset_bit a t, b, a) \<in> D" using assms(2,3) by blast
  qed simp_all
  then show ?thesis using assms(1) by (simp add: table_ok_def)
qed

lemma relax_j_tries:
  assumes fin: "finite_legs cost os" and s: "s < 2 ^ length os" "j < length os"
  shows "tries cost start os s ({s} \<times> {j} \<times> {..<length os}) (relax_j cost os s j)"
  unfolding tries_def
proof (intro allI impI)
  fix D tb assume tb: "table_ok cost start os D tb" "\<forall>(t, _) \<in> D. t \<le> s"
  obtain best prev where bp: "tb = (best, prev)" by (cases tb)
  define here where "here = best_at os tb s j"
  have run: "relax_j cost os s j tb = (if bit s j \<and> f64_finite here then fold (relax_k cost os here s j) [0..<length os] tb else tb)"
    by (simp add: relax_j_def bp best_at_def here_def Let_def)
  show "table_ok cost start os ({s} \<times> {j} \<times> {..<length os} \<union> D) (relax_j cost os s j tb)
    \<and> (\<forall>t \<le> s. \<forall>a < length os. best_at os (relax_j cost os s j tb) t a = best_at os tb t a)"
  proof (cases "bit s j \<and> f64_finite here")
    case False
    have "table_ok cost start os ({s} \<times> {j} \<times> {..<length os} \<union> D) tb"
      by (rule table_ok_idle [OF tb(1), of s]) (use False in \<open>auto simp: here_def\<close>)
    then show ?thesis unfolding run if_not_P [OF False] by simp
  next
    case True
    have "table_ok cost start os ({s} \<times> {j} \<times> set ks \<union> D) (fold (relax_k cost os here s j) ks tb)
        \<and> (\<forall>t \<le> s. \<forall>a < length os. best_at os (fold (relax_k cost os here s j) ks tb) t a = best_at os tb t a)"
      if "set ks \<subseteq> {..<length os}" for ks using that
    proof (induction ks rule: rev_induct)
      case Nil
      then show ?case using tb by simp
    next
      case (snoc k ks)
      let ?tb = "fold (relax_k cost os here s j) ks tb"
      have IH: "table_ok cost start os ({s} \<times> {j} \<times> set ks \<union> D) ?tb"
        "\<forall>t \<le> s. \<forall>a < length os. best_at os ?tb t a = best_at os tb t a" using snoc by auto
      have k: "k < length os" using snoc.prems by simp
      have le: "\<forall>(t, _) \<in> {s} \<times> {j} \<times> set ks \<union> D. t \<le> s" using tb(2) by auto
      have h: "best_at os ?tb s j = here" "f64_finite here" "bit s j" using IH(2) s(2) True by (simp_all add: here_def)
      have e: "insert (s, j, k) ({s} \<times> {j} \<times> set ks \<union> D) = {s} \<times> {j} \<times> set (ks @ [k]) \<union> D" by auto
      have f: "fold (relax_k cost os here s j) (ks @ [k]) tb = relax_k cost os here s j k ?tb" by simp
      show ?case unfolding f using relax_k_ok [OF IH(1) h(1,2) s h(3) k fin le, unfolded e] IH(2) by metis
    qed
    from this [of "[0..<length os]"] show ?thesis unfolding run if_P [OF True] by (simp add: lessThan_atLeast0)
  qed
qed

lemma relax_set_tries:
  assumes "finite_legs cost os" "s < 2 ^ length os"
  shows "tries cost start os s ({s} \<times> {..<length os} \<times> {..<length os}) (relax_set cost os s)"
proof -
  have "tries cost start os s (\<Union>j \<in> set [0..<length os]. {s} \<times> {j} \<times> {..<length os}) (relax_set cost os s)"
    unfolding relax_set_def using assms by (intro tries_fold relax_j_tries) auto
  moreover have "(\<Union>j \<in> set [0..<length os]. {s} \<times> {j} \<times> {..<length os}) = {s} \<times> {..<length os} \<times> {..<length os}" by auto
  ultimately show ?thesis by simp
qed

lemma first_table_at:
  assumes "set js \<subseteq> {..<length os}" "length best = 2 ^ length os * length os" "j < length os"
  shows "length (fold (\<lambda>j best. best[2 ^ j * length os + j := cost_of cost start (os ! j)]) js best) = length best"
    and "fold (\<lambda>j best. best[2 ^ j * length os + j := cost_of cost start (os ! j)]) js best ! (s * length os + j)
      = (if s = 2 ^ j \<and> j \<in> set js then cost_of cost start (os ! j) else best ! (s * length os + j))"
  using assms(1)
proof (induction js rule: rev_induct)
  case (snoc k js)
  let ?b = "fold (\<lambda>j best. best[2 ^ j * length os + j := cost_of cost start (os ! j)]) js best"
  {
    case 1
    then show ?case using snoc by simp
  next
    case 2
    have k: "k < length os" using 2 by simp
    then have i: "2 ^ k * length os + k < length ?b" using slot_less [of "2 ^ k" "length os" k] snoc.IH(1) 2 assms(2) by simp
    have "2 ^ k * length os + k = s * length os + j \<longleftrightarrow> s = 2 ^ k \<and> j = k" using slot_inj [OF k assms(3)] by auto
    then show ?case using i snoc.IH(2) 2 by (auto simp: nth_list_update)
  }
qed simp_all

lemma only_bit: "bit s j \<Longrightarrow> unset_bit j s = 0 \<longleftrightarrow> s = (2 ^ j :: nat)"
  using set_unset_bit [of s j] by (auto simp: set_bit_eq unset_bit_eq bit_simps)

lemma first_table_ok: "table_ok cost start os {} (first_table cost start os)"
proof -
  have "slot_ok cost start os {} (best_at os (first_table cost start os)) (prev_at os (first_table cost start os)) s j"
    if s: "s < 2 ^ length os" "j < length os" "bit s j" for s j
  proof -
    have "best_at os (first_table cost start os) s j = (if s = 2 ^ j then cost_of cost start (os ! j) else PosInf)"
      using first_table_at(2) [of "[0..<length os]" os "replicate (2 ^ length os * length os) PosInf" j cost start s] s
        slot_less [OF s(1,2)] by (simp add: best_at_def first_table_def lessThan_atLeast0)
    moreover have "prev_at os (first_table cost start os) s j = None"
      using slot_less [OF s(1,2)] by (simp add: prev_at_def first_table_def)
    ultimately show ?thesis using only_bit [OF s(3)] by (cases "s = 2 ^ j") (simp_all add: slot_ok_def)
  qed
  moreover have "length (fst (first_table cost start os)) = 2 ^ length os * length os"
    using first_table_at(1) [of "[0..<length os]" os "replicate (2 ^ length os * length os) PosInf" 0 cost start]
    by (cases os) (auto simp: first_table_def lessThan_atLeast0)
  ultimately show ?thesis by (simp add: table_ok_def) (simp add: first_table_def)
qed

lemma hk_table_ok:
  assumes "finite_legs cost os"
  shows "table_ok cost start os ({1..<2 ^ length os} \<times> {..<length os} \<times> {..<length os}) (hk_table cost start os)"
proof -
  have "table_ok cost start os ({1..<n} \<times> {..<length os} \<times> {..<length os}) (fold (relax_set cost os) [1..<n] (first_table cost start os))"
    if "n \<le> 2 ^ length os" for n using that
  proof (induction n)
    case 0
    then show ?case using first_table_ok by simp
  next
    case (Suc n)
    show ?case
    proof (cases "n = 0")
      case True
      then show ?thesis using first_table_ok by simp
    next
      case False
      let ?D = "{1..<n} \<times> {..<length os} \<times> {..<length os}" and ?N = "{n} \<times> {..<length os} \<times> {..<length os}"
      have "table_ok cost start os ?D (fold (relax_set cost os) [1..<n] (first_table cost start os))" using Suc by simp
      moreover have "\<forall>(t, _) \<in> ?D. t \<le> n" by auto
      moreover have "tries cost start os n ?N (relax_set cost os n)" using Suc.prems assms by (intro relax_set_tries) simp_all
      ultimately have "table_ok cost start os (?N \<union> ?D) (relax_set cost os n (fold (relax_set cost os) [1..<n] (first_table cost start os)))"
        unfolding tries_def by blast
      moreover have "?N \<union> ?D = {1..<Suc n} \<times> {..<length os} \<times> {..<length os}" using False by auto
      moreover have "[1..<Suc n] = [1..<n] @ [n]" using False by simp
      ultimately show ?thesis by simp
    qed
  qed
  from this [of "2 ^ length os"] show ?thesis by (simp add: hk_table_def)
qed

text \<open>What a walk over a set of stops is, last stop first.\<close>

definition walk_over :: "nat \<Rightarrow> nat list \<Rightarrow> bool" where
  "walk_over s r \<longleftrightarrow> r \<noteq> [] \<and> distinct r \<and> set r = {j. bit s j}"

definition finite_walks :: "costs \<Rightarrow> nat \<Rightarrow> nat list \<Rightarrow> bool" where
  "finite_walks cost start os \<longleftrightarrow> (\<forall>r. r \<noteq> [] \<and> distinct r \<and> set r \<subseteq> {..<length os} \<longrightarrow> f64_finite (walk_len cost start os r))"

lemma bits_below: "s < 2 ^ m \<Longrightarrow> bit s j \<Longrightarrow> j < m" for s :: nat
  by (metis bit_take_bit_iff take_bit_nat_eq_self)

lemma unset_bits: "bit s j \<Longrightarrow> {a. bit (unset_bit j s) a} = {a. bit s a} - {j}"
  by (auto simp: bit_unset_bit_iff)

lemma unset_bit_less: "bit s j \<Longrightarrow> unset_bit j s < (s :: nat)"
  using set_unset_bit [of s j] set_bit_greater [of "unset_bit j s" j] by (simp add: bit_unset_bit_iff)

lemma unwind_simps:
  "unwind os prev s None = Some []"
  "unwind os prev s (Some j) =
     Option.bind (unwind os prev (unset_bit j s) (prev ! (s * length os + j))) (\<lambda>rest. Some (os ! j # rest))"
  by (subst unwind.simps, simp)+

lemma table_walk:
  assumes tb: "table_ok cost start os D (best, prev)"
  shows "s < 2 ^ length os \<Longrightarrow> bit s j \<Longrightarrow> best_at os (best, prev) s j \<noteq> PosInf \<Longrightarrow>
    \<exists>r. walk_over s (j # r) \<and> walk_len cost start os (j # r) = best_at os (best, prev) s j
      \<and> unwind os prev s (Some j) = Some (map ((!) os) (j # r))"
proof (induction s arbitrary: j rule: less_induct)
  case (less s)
  let ?u = "unset_bit j s"
  have j: "j < length os" using less.prems bits_below by blast
  then have slot: "slot_ok cost start os D (best_at os (best, prev)) (prev_at os (best, prev)) s j"
    using tb less.prems by (simp add: table_ok_def)
  have p: "prev ! (s * length os + j) = prev_at os (best, prev) s j" by (simp add: prev_at_def)
  show ?case
  proof (cases "?u = 0")
    case True
    then have "{a. bit s a} = {j}" using only_bit [OF less.prems(2)] by (auto simp: bit_exp_iff)
    then have "walk_over s [j]" by (simp add: walk_over_def)
    then show ?thesis using slot True p by (intro exI [of _ "[]"]) (simp add: slot_ok_def unwind_simps)
  next
    case False
    then obtain k where k: "prev_at os (best, prev) s j = Some k" "k < length os" "bit ?u k"
        "f64_finite (best_at os (best, prev) ?u k)"
        "best_at os (best, prev) s j = f64_add (best_at os (best, prev) ?u k) (cost_of cost (os ! k) (os ! j))"
      using slot less.prems(3) by (cases "prev_at os (best, prev) s j") (auto simp: slot_ok_def)
    have u: "?u < s" "?u < 2 ^ length os" using unset_bit_less [OF less.prems(2)] less.prems(1) by simp_all
    moreover have "best_at os (best, prev) ?u k \<noteq> PosInf" using k(4) by (auto simp: f64_finite_def)
    ultimately obtain r where r: "walk_over ?u (k # r)" "walk_len cost start os (k # r) = best_at os (best, prev) ?u k"
        "unwind os prev ?u (Some k) = Some (map ((!) os) (k # r))" using less.IH k(3) by blast
    have "walk_over s (j # k # r)" using r(1) less.prems(2) unset_bits [OF less.prems(2)] by (auto simp: walk_over_def)
    then show ?thesis using r(2,3) k p by (intro exI [of _ "k # r"]) (simp add: unwind_simps)
  qed
qed

lemma table_least:
  assumes tb: "table_ok cost start os ({1..<2 ^ length os} \<times> {..<length os} \<times> {..<length os}) (best, prev)"
    and legs: "finite_legs cost os" and fin: "finite_walks cost start os"
  shows "s < 2 ^ length os \<Longrightarrow> walk_over s r \<Longrightarrow> f64_le (best_at os (best, prev) s (hd r)) (walk_len cost start os r)"
proof (induction r arbitrary: s rule: induct_list012)
  case (2 j)
  then have b: "{a. bit s a} = {j}" by (auto simp: walk_over_def)
  then have "bit s j" by auto
  moreover have "unset_bit j s = 0" using b by (intro bit_eqI) (auto simp: bit_unset_bit_iff)
  moreover have "j < length os" using bits_below [OF "2.prems"(1)] calculation(1) by simp
  ultimately have "best_at os (best, prev) s j = walk_len cost start os [j]"
    using tb "2.prems"(1) by (simp add: table_ok_def slot_ok_def)
  moreover have "f64_finite (walk_len cost start os [j])"
    using fin \<open>j < length os\<close> by (simp add: finite_walks_def del: walk_len.simps)
  ultimately show ?case by (cases "walk_len cost start os [j]") (simp_all add: f64_finite_def)
next
  case (3 k j r)
  let ?u = "unset_bit k s" and ?b = "best_at os (best, prev)"
  have s: "bit s k" "distinct (k # j # r)" "set (k # j # r) = {a. bit s a}" using 3(4) by (auto simp: walk_over_def)
  then have w: "walk_over ?u (j # r)" "bit ?u j" unfolding walk_over_def unset_bits [OF s(1)] by (auto simp: bit_unset_bit_iff)
  have u: "?u < s" "?u < 2 ^ length os" using unset_bit_less [OF s(1)] 3(3) by simp_all
  have m: "k < length os" "j < length os" using bits_below [OF 3(3)] s by auto
  have IH: "f64_le (?b ?u j) (walk_len cost start os (j # r))" using 3(2) [OF u(2) w(1)] by simp
  have "f64_finite (walk_len cost start os q)" if "walk_over ?u q" for q
    using fin that bits_below [OF u(2)] unfolding finite_walks_def walk_over_def by blast
  then have f: "f64_finite (walk_len cost start os (j # r))" "?b ?u j = PosInf \<or> f64_finite (?b ?u j)"
    using w table_walk [OF tb u(2) w(2)] by metis+
  then have fb: "f64_finite (?b ?u j)"
    using IH by (cases "walk_len cost start os (j # r)") (auto simp: f64_finite_def f64_le_def f64_eq_def)
  obtain c where c: "cost_of cost (os ! j) (os ! k) = Fin c" using legs m unfolding finite_legs_def by (meson nth_mem)
  have "?u \<noteq> 0" using w(2) bit_0_eq by (metis bot_apply bot_bool_def)
  then have "f64_le (?b s k) (f64_add (?b ?u j) (cost_of cost (os ! j) (os ! k)))"
    using tb 3(3) m s(1) w(2) fb u by (simp add: table_ok_def slot_ok_def)
  also have "f64_le (f64_add (?b ?u j) (cost_of cost (os ! j) (os ! k))) (walk_len cost start os (k # j # r))"
    unfolding walk_len.simps c by (rule f64_add_mono [OF IH])
  finally (f64_le_trans) show ?case by simp
qed (simp add: walk_over_def)

section \<open>The exact order\<close>

lemma min_by_least:
  assumes "min_by (\<lambda>a b. f64_cmp (f a) (f b)) xs = Some x" "\<And>a. a \<in> set xs \<Longrightarrow> f a \<noteq> NaN"
  shows "x \<in> set xs \<and> (\<forall>a \<in> set xs. f64_le (f x) (f a))"
proof -
  let ?g = "\<lambda>m y. if f64_cmp (f m) (f y) = Greater then y else m"
  have "foldl ?g m ys \<in> insert m (set ys) \<and> (\<forall>a \<in> insert m (set ys). f64_le (f (foldl ?g m ys)) (f a))"
    if "f m \<noteq> NaN" "\<And>a. a \<in> set ys \<Longrightarrow> f a \<noteq> NaN" for m ys using that
  proof (induction ys arbitrary: m)
    case (Cons y ys)
    let ?m = "?g m y"
    have nan: "f y \<noteq> NaN" using Cons.prems(2) [of y] by simp
    have le: "f64_le (f ?m) (f m)" "f64_le (f ?m) (f y)"
      using f64_linear [OF nan Cons.prems(1)] f64_linear [OF Cons.prems(1) nan] Cons.prems(1) nan
      by (auto simp: f64_cmp_def f64_le_def f64_eq_def)
    have "f ?m \<noteq> NaN" using Cons.prems(1) nan by simp
    then have IH: "foldl ?g ?m ys \<in> insert ?m (set ys)" "\<forall>a \<in> insert ?m (set ys). f64_le (f (foldl ?g ?m ys)) (f a)"
      using Cons.IH [of ?m] Cons.prems(2) by auto
    have "f64_le (f (foldl ?g ?m ys)) (f m)" "f64_le (f (foldl ?g ?m ys)) (f y)"
      using IH(2) le f64_le_trans by blast+
    then show ?case using IH by (auto split: if_splits)
  qed simp
  then show ?thesis using assms by (cases xs) (auto simp: min_by_def)
qed

text \<open>The distances a walk is ordered by: a square of finite doubles.\<close>

definition distances_ok :: "costs \<Rightarrow> bool" where
  "distances_ok cost \<longleftrightarrow> (\<forall>i < length cost. \<forall>j < length cost. \<exists>c. cost_of cost i j = Fin c \<and> is_double (Fin c))"

definition tour :: "nat \<Rightarrow> nat \<Rightarrow> nat list \<Rightarrow> bool" where
  "tour n start route \<longleftrightarrow> distinct route \<and> set route = {..<n} \<and> hd route = start"

text \<open>No walk from the start is so long that its length is not a number.\<close>

definition no_overflow :: "costs \<Rightarrow> nat \<Rightarrow> bool" where
  "no_overflow cost start \<longleftrightarrow> (\<forall>route. route \<noteq> [] \<and> hd route = start \<and> distinct route \<and> set route \<subseteq> {..<length cost} \<longrightarrow>
     f64_finite (length_of cost route False))"

lemma others_props:
  assumes "start < length cost"
  shows "distinct (others cost start)" "set (others cost start) = {..<length cost} - {start}"
    "length (others cost start) = length cost - 1"
proof -
  show "distinct (others cost start)" "set (others cost start) = {..<length cost} - {start}"
    by (auto simp: others_def)
  then show "length (others cost start) = length cost - 1"
    using distinct_card [of "others cost start"] assms by simp
qed

lemma zip_tl_snoc: "xs \<noteq> [] \<Longrightarrow> zip (xs @ [y]) (tl (xs @ [y])) = zip xs (tl xs) @ [(last xs, y)]"
  by (induction xs rule: induct_list012) auto

lemma length_of_snoc:
  "xs \<noteq> [] \<Longrightarrow> length_of cost (xs @ [y]) False = f64_add (length_of cost xs False) (cost_of cost (last xs) y)"
  by (simp add: length_of_def zip_tl_snoc del: tl_append2)

lemma length_of_walk:
  assumes "\<And>i. i \<in> set os \<Longrightarrow> is_double (cost_of cost start i)" "set r \<subseteq> {..<length os}"
  shows "length_of cost (start # map ((!) os) (rev r)) False = walk_len cost start os r"
  using assms(2)
proof (induction r rule: induct_list012)
  case (2 j)
  then show ?case using assms(1) [of "os ! j"] by (simp add: length_of_def f64_add_0)
next
  case (3 k j r)
  then show ?case using length_of_snoc [of "start # map ((!) os) (rev (j # r))" cost "os ! k"] by simp
qed (simp add: length_of_def)

lemma nth_preimage: "set q \<subseteq> set os \<Longrightarrow> \<exists>p. q = map ((!) os) p \<and> set p \<subseteq> {..<length os}"
proof (induction q)
  case (Cons x q)
  then obtain p where p: "q = map ((!) os) p" "set p \<subseteq> {..<length os}" by auto
  obtain i where "i < length os" "os ! i = x" using Cons.prems by (auto simp: in_set_conv_nth)
  then show ?case using p by (intro exI [of _ "i # p"]) simp
qed simp

lemma full_bits: "{j. bit (2 ^ m - 1 :: nat) j} = {..<m}"
  unfolding mask_eq_exp_minus_1 [symmetric] by (auto simp: bit_mask_iff)

lemma tour_walk:
  assumes "start < length cost" "2 \<le> length cost"
  shows "tour (length cost) start route \<longleftrightarrow>
    (\<exists>r. walk_over (2 ^ length (others cost start) - 1) r \<and> route = start # map ((!) (others cost start)) (rev r))"
proof
  let ?os = "others cost start"
  note os = others_props [OF assms(1)]
  assume t: "tour (length cost) start route"
  then have "route \<noteq> []" using assms(1) unfolding tour_def by (metis empty_iff lessThan_iff list.set(1))
  then obtain q where q: "route = start # q" using t by (cases route) (simp_all add: tour_def)
  then have "insert start (set q) = {..<length cost}" "start \<notin> set q" "distinct q" using t by (simp_all add: tour_def)
  then have "set q = set ?os" "distinct q" unfolding os(2) by blast+
  then obtain p where p: "q = map ((!) ?os) p" "set p \<subseteq> {..<length ?os}" using nth_preimage [of q ?os] by blast
  then have d: "distinct p" using \<open>distinct q\<close> by (simp add: distinct_map)
  have "length p = length ?os" using p(1) \<open>set q = set ?os\<close> \<open>distinct q\<close> os(1) by (metis distinct_card length_map)
  then have "set p = {..<length ?os}" using p(2) d by (metis card_lessThan card_subset_eq distinct_card finite_lessThan)
  moreover have "p \<noteq> []" using \<open>length p = length ?os\<close> os(3) assms(2) by (cases p) simp_all
  ultimately have "walk_over (2 ^ length ?os - 1) (rev p)" using d unfolding walk_over_def full_bits by simp
  then show "\<exists>r. walk_over (2 ^ length ?os - 1) r \<and> route = start # map ((!) ?os) (rev r)" using q p(1) by (intro exI [of _ "rev p"]) simp
next
  let ?os = "others cost start"
  note os = others_props [OF assms(1)]
  assume "\<exists>r. walk_over (2 ^ length ?os - 1) r \<and> route = start # map ((!) ?os) (rev r)"
  then obtain r where r: "distinct r" "set r = {..<length ?os}" "route = start # map ((!) ?os) (rev r)"
    unfolding walk_over_def full_bits by blast
  have "set (map ((!) ?os) (rev r)) = (!) ?os ` {..<length ?os}" by (simp add: r(2))
  also have "\<dots> = set ?os" by (auto simp: set_conv_nth)
  finally have s: "set (map ((!) ?os) (rev r)) = set ?os" .
  have "distinct (map ((!) ?os) (rev r))" using r os(1) by (auto simp: distinct_map inj_on_def nth_eq_iff_index_eq)
  moreover have "start \<notin> set ?os" "insert start (set ?os) = {..<length cost}" using os(2) assms(1) by auto
  ultimately show "tour (length cost) start route" unfolding tour_def r(3) using s by (auto simp del: set_map)
qed

lemma walk_len_double:
  assumes "\<And>i. i \<in> set os \<Longrightarrow> is_double (cost_of cost start i)"
    and "\<And>i j. i \<in> set os \<Longrightarrow> j \<in> set os \<Longrightarrow> is_double (cost_of cost i j)"
  shows "set r \<subseteq> {..<length os} \<Longrightarrow> is_double (walk_len cost start os r)"
  using assms by (induction r rule: induct_list012) (auto intro!: is_double_add simp: is_double_def [of "Fin 0"] rounded_def)

text \<open>The facts about a matrix the proof is over: \<open>os\<close> are the stops besides the start.\<close>

lemma stops_of_matrix:
  assumes ok: "distances_ok cost" and n: "start < length cost" "2 \<le> length cost" and big: "no_overflow cost start"
    and os: "os = others cost start"
  shows "0 < length os" and "finite_legs cost os"
    and "\<And>i. i \<in> set os \<Longrightarrow> is_double (cost_of cost start i)"
    and "\<And>i j. i \<in> set os \<Longrightarrow> j \<in> set os \<Longrightarrow> is_double (cost_of cost i j)"
    and "\<And>i. i \<in> set os \<Longrightarrow> \<exists>c. cost_of cost i start = Fin c"
    and "finite_walks cost start os"
proof -
  note p = others_props [OF n(1), folded os]
  show "0 < length os" using p(3) n(2) by simp
  have inside: "i < length cost" if "i \<in> set os" for i using that p(2) by auto
  show "finite_legs cost os" using ok inside unfolding finite_legs_def distances_ok_def by blast
  show "\<And>i j. i \<in> set os \<Longrightarrow> j \<in> set os \<Longrightarrow> is_double (cost_of cost i j)"
    using ok inside unfolding distances_ok_def by metis
  show "\<And>i. i \<in> set os \<Longrightarrow> \<exists>c. cost_of cost i start = Fin c" using ok inside n(1) unfolding distances_ok_def by metis
  show dbl: "\<And>i. i \<in> set os \<Longrightarrow> is_double (cost_of cost start i)" using ok inside n(1) unfolding distances_ok_def by metis
  show "finite_walks cost start os" unfolding finite_walks_def
  proof (intro allI impI)
    fix r assume r: "r \<noteq> [] \<and> distinct r \<and> set r \<subseteq> {..<length os}"
    have "set (map ((!) os) (rev r)) \<subseteq> set os" using r by auto
    then have "start \<notin> set (map ((!) os) (rev r))" "set (map ((!) os) (rev r)) \<subseteq> {..<length cost}"
      unfolding p(2) by blast+
    moreover have "distinct (map ((!) os) (rev r))"
      using r p(1) by (auto simp: distinct_map inj_on_def nth_eq_iff_index_eq subset_iff)
    ultimately have "f64_finite (length_of cost (start # map ((!) os) (rev r)) False)"
      using big n(1) unfolding no_overflow_def by (simp del: set_map)
    then show "f64_finite (walk_len cost start os r)" using length_of_walk [OF dbl] r by simp
  qed
qed

lemma length_of_tour:
  assumes "\<And>i. i \<in> set os \<Longrightarrow> is_double (cost_of cost start i)"
    and "\<And>i j. i \<in> set os \<Longrightarrow> j \<in> set os \<Longrightarrow> is_double (cost_of cost i j)" "set (a # r) \<subseteq> {..<length os}"
  shows "length_of cost (start # map ((!) os) (rev (a # r))) loop
    = f64_add (walk_len cost start os (a # r)) (if loop then cost_of cost (os ! a) start else Fin 0)"
proof -
  let ?route = "start # map ((!) os) (rev (a # r))"
  have "length_of cost ?route loop = (if loop then f64_add (length_of cost ?route False) (cost_of cost (last ?route) (hd ?route))
      else length_of cost ?route False)" by (simp add: length_of_def Let_def)
  moreover have "length_of cost ?route False = walk_len cost start os (a # r)" by (rule length_of_walk [OF assms(1,3)])
  ultimately show ?thesis using f64_add_0(2) [OF walk_len_double [OF assms]] by simp
qed

lemma walk_over_full: "walk_over (2 ^ m - 1) r \<Longrightarrow> set r = {..<m}"
  unfolding walk_over_def full_bits by simp

text \<open>Over the full set the table has, for each last stop, a walk of finite length and the way back along it.\<close>

lemma full_walks:
  assumes tb: "table_ok cost start os ({1..<2 ^ length os} \<times> {..<length os} \<times> {..<length os}) (best, prev)"
    and legs: "finite_legs cost os" and fin: "finite_walks cost start os" and a: "a < length os"
  shows "\<exists>r. walk_over (2 ^ length os - 1) (a # r)
      \<and> walk_len cost start os (a # r) = best_at os (best, prev) (2 ^ length os - 1) a
      \<and> unwind os prev (2 ^ length os - 1) (Some a) = Some (map ((!) os) (a # r))
      \<and> f64_finite (best_at os (best, prev) (2 ^ length os - 1) a)"
proof -
  let ?s = "2 ^ length os - 1 :: nat" and ?r = "a # filter (\<lambda>k. k \<noteq> a) [0..<length os]"
  have finite: "f64_finite (walk_len cost start os r)" if "walk_over ?s r" for r
    using fin that walk_over_full [OF that] unfolding finite_walks_def walk_over_def by blast
  have w: "walk_over ?s ?r" unfolding walk_over_def full_bits using a by auto
  have "f64_le (best_at os (best, prev) ?s a) (walk_len cost start os ?r)"
    using table_least [OF tb legs fin _ w] by simp
  then have "best_at os (best, prev) ?s a \<noteq> PosInf"
    using finite [OF w] by (cases "walk_len cost start os ?r") (auto simp: f64_finite_def f64_le_def f64_eq_def)
  moreover have "bit ?s a" using a full_bits [of "length os"] by auto
  ultimately obtain r where "walk_over ?s (a # r)" "walk_len cost start os (a # r) = best_at os (best, prev) ?s a"
      "unwind os prev ?s (Some a) = Some (map ((!) os) (a # r))"
    using table_walk [OF tb, of ?s a] by auto
  then show ?thesis using finite by metis
qed

lemma exact_shortest:
  assumes ok: "distances_ok cost" and n: "start < length cost" "2 \<le> length cost" and big: "no_overflow cost start"
  shows "\<exists>route. exact cost start loop = Some route \<and> tour (length cost) start route
    \<and> (\<forall>other. tour (length cost) start other \<longrightarrow> f64_le (length_of cost route loop) (length_of cost other loop))"
proof -
  define os where "os = others cost start"
  let ?m = "length os" and ?s = "2 ^ length os - 1 :: nat"
  note st = stops_of_matrix [OF ok n big os_def] and tours = tour_walk [OF n, folded os_def]
  have len: "set (a # r) \<subseteq> {..<?m} \<Longrightarrow> length_of cost (start # map ((!) os) (rev (a # r))) loop
      = f64_add (walk_len cost start os (a # r)) (if loop then cost_of cost (os ! a) start else Fin 0)" for a r
    by (rule length_of_tour) (use st(3,4) in auto)
  obtain best prev where t: "hk_table cost start os = (best, prev)" by (cases "hk_table cost start os")
  note tb = hk_table_ok [OF st(2), of start, unfolded t]
  define home where "home = (\<lambda>a. if loop then cost_of cost (os ! a) start else Fin 0)"
  define f where "f = (\<lambda>a. f64_add (best_at os (best, prev) ?s a) (home a))"
  have home: "\<exists>c. home a = Fin c" if "a < ?m" for a using st(5) that by (auto simp: home_def)
  note walks = full_walks [OF tb st(2,6)]
  have number: "f a \<noteq> NaN" if a: "a < ?m" for a
    using walks [OF a] home [OF a] f64_finite_add unfolding f_def by metis
  define e where "e = hk_end cost start loop os best"
  have "min_by (\<lambda>a b. f64_cmp (f a) (f b)) [0..<?m] = Some e"
    using st(1) by (auto simp: e_def hk_end_def f_def home_def best_at_def min_by_def Let_def split: list.split)
  from min_by_least [OF this] have e: "e < ?m" "\<And>a. a < ?m \<Longrightarrow> f64_le (f e) (f a)" using number by auto
  obtain r where r: "walk_over ?s (e # r)" "walk_len cost start os (e # r) = best_at os (best, prev) ?s e"
      "unwind os prev ?s (Some e) = Some (map ((!) os) (e # r))" using walks [OF e(1)] by blast
  let ?route = "start # map ((!) os) (rev (e # r))"
  have run: "exact cost start loop = Some ?route"
    using r(3) by (simp add: exact_def t rev_map flip: os_def e_def)
  have short: "length_of cost ?route loop = f e" unfolding f_def home_def r(2) [symmetric]
    by (rule len) (use walk_over_full [OF r(1)] in simp)
  have "f64_le (length_of cost ?route loop) (length_of cost other loop)" if o: "tour (length cost) start other" for other
  proof -
    obtain q where q: "walk_over ?s q" "other = start # map ((!) os) (rev q)" using tours o by blast
    have "q \<noteq> []" using q(1) unfolding walk_over_def by blast
    then obtain b q' where b: "q = b # q'" by (cases q) simp_all
    have bm: "b < ?m" using walk_over_full [OF q(1)] b by auto
    have "f64_le (best_at os (best, prev) ?s b) (walk_len cost start os q)"
      using table_least [OF tb st(2,6) _ q(1)] b by simp
    then have "f64_le (f b) (f64_add (walk_len cost start os q) (home b))"
      using home [OF bm] f64_add_mono unfolding f_def by metis
    also have "f64_add (walk_len cost start os q) (home b) = length_of cost other loop"
      unfolding home_def q(2) b
      by (rule len [symmetric]) (use walk_over_full [OF q(1)] b in simp)
    finally show ?thesis unfolding short using e(2) [OF bm] f64_le_trans by blast
  qed
  moreover have "tour (length cost) start ?route" using tours r(1) by blast
  ultimately show ?thesis using run by blast
qed

text \<open>
  C27: The order of a dozen stops is exactly the shortest, rounding and all.  For distances that are finite
  doubles and do not overflow, the dynamic programme ends, visits every stop once from the start, and no
  other order has a length, added up leg by leg with rounding, below that of the one it returns, whether
  or not the walk comes back.
\<close>

theorem exact_is_shortest:
  assumes ok: "distances_ok cost" and n: "start < length cost" "2 \<le> length cost" and big: "no_overflow cost start"
  shows "\<exists>route. exact cost start loop = Some route \<and> tour (length cost) start route
    \<and> (\<forall>other. tour (length cost) start other \<longrightarrow> f64_le (length_of cost route loop) (length_of cost other loop))"
  using assms by (rule exact_shortest)

end
