(* ===== verification/Walks.thy ===== *)
theory Walks
  imports Held_Karp
begin

text \<open>
  The heuristic for long walks keeps every stop and never lengthens, and a planned walk goes no further
  than the order typed; whole distances are an instance where nothing is rounded.
\<close>

section \<open>The improved order is a walk, and never the longer for it\<close>

definition same_stops :: "nat list \<Rightarrow> nat list \<Rightarrow> bool" where
  "same_stops a b \<longleftrightarrow> mset a = mset b \<and> take 1 a = take 1 b"

lemma same_stops_refl [simp]: "same_stops a a"
  by (simp add: same_stops_def)

lemma same_stops_trans: "same_stops a b \<Longrightarrow> same_stops b c \<Longrightarrow> same_stops a c"
  by (simp add: same_stops_def)

lemma same_stops_length: "same_stops a b \<Longrightarrow> length a = length b"
  using mset_eq_length by (auto simp: same_stops_def)

lemma take_1_append: "1 \<le> i \<Longrightarrow> xs \<noteq> [] \<Longrightarrow> take 1 (take i xs @ ys) = take 1 xs"
  by (cases xs; cases i) simp_all

lemma same_stops_reversed:
  assumes "1 \<le> i" "i \<le> k"
  shows "same_stops (reversed i k route) route"
proof (cases "route = []")
  case False
  have "mset (reversed i k route) = mset (take i (take (k + 1) route)) + mset (drop i (take (k + 1) route)) + mset (drop (k + 1) route)"
    using assms(2) by (simp add: reversed_def min_def)
  also have "\<dots> = mset (take (k + 1) route) + mset (drop (k + 1) route)" by (metis append_take_drop_id mset_append)
  also have "\<dots> = mset route" by (metis append_take_drop_id mset_append)
  finally have "mset (reversed i k route) = mset route" .
  moreover have "take 1 (reversed i k route) = take 1 route" unfolding reversed_def by (rule take_1_append [OF assms(1) False])
  ultimately show ?thesis by (simp only: same_stops_def simp_thms)
qed (simp add: reversed_def)

lemma same_stops_spliced:
  assumes "1 \<le> i" "1 \<le> p" "i + len \<le> length route" "mset piece = mset (take len (drop i route))"
  shows "same_stops (spliced p piece (take i route @ drop (i + len) route)) route"
proof -
  let ?rest = "take i route @ drop (i + len) route"
  have ne: "route \<noteq> []" "?rest \<noteq> []" using assms by auto
  have "mset (spliced p piece ?rest) = mset (take p ?rest) + mset (drop p ?rest) + mset piece"
    by (simp only: spliced_def mset_append ac_simps)
  also have "\<dots> = mset ?rest + mset piece" by (metis append_take_drop_id mset_append)
  also have "\<dots> = mset (take i route) + (mset (take len (drop i route)) + mset (drop len (drop i route)))"
    by (simp add: assms(4) add.commute ac_simps)
  also have "\<dots> = mset route" by (metis append_take_drop_id mset_append)
  finally have "mset (spliced p piece ?rest) = mset route" .
  moreover have "take 1 (spliced p piece ?rest) = take 1 ?rest" unfolding spliced_def by (rule take_1_append [OF assms(2) ne(2)])
  moreover have "take 1 ?rest = take 1 route" by (rule take_1_append [OF assms(1) ne(1)])
  ultimately show ?thesis by (simp only: same_stops_def simp_thms)
qed

lemma moved_same:
  assumes "moved cost loop len i route = Some tried" "1 \<le> i" "i + len \<le> length route"
  shows "same_stops tried route" and "shorter cost loop tried (length_of cost route loop)"
proof -
  obtain p where "1 \<le> p" "tried \<in> {spliced p (take len (drop i route)) (take i route @ drop (i + len) route),
      spliced p (rev (take len (drop i route))) (take i route @ drop (i + len) route)}"
    and s: "shorter cost loop tried (length_of cost route loop)"
    using assms(1) by (auto simp: moved_def Let_def dest!: find_SomeD split: if_splits)
  then show "same_stops tried route" using same_stops_spliced assms(2,3) by auto
  show "shorter cost loop tried (length_of cost route loop)" by (rule s)
qed

text \<open>
  What every move of the heuristic does: the same stops with the start first, and no longer.  A shorter
  length by the code's test is a shorter length: adding \<open>1e-9\<close> with rounding takes nothing away.
\<close>

definition lengths_ok :: "costs \<Rightarrow> bool \<Rightarrow> nat list \<Rightarrow> bool" where
  "lengths_ok cost loop route \<longleftrightarrow> (\<forall>r. mset r = mset route \<longrightarrow> is_double (length_of cost r loop) \<and> length_of cost r loop \<noteq> NaN)"

definition improves :: "costs \<Rightarrow> bool \<Rightarrow> nat list \<Rightarrow> nat list \<Rightarrow> bool" where
  "improves cost loop new old \<longleftrightarrow> same_stops new old
     \<and> (lengths_ok cost loop old \<longrightarrow> f64_le (length_of cost new loop) (length_of cost old loop))"

lemma improves_refl [simp]: "improves cost loop r r"
  by (auto simp: improves_def lengths_ok_def)

lemma improves_trans: "improves cost loop a b \<Longrightarrow> improves cost loop b c \<Longrightarrow> improves cost loop a c"
  unfolding improves_def lengths_ok_def same_stops_def using f64_le_trans by metis

lemma EPS_Fin: "\<exists>e. EPS = Fin e \<and> 0 \<le> e"
  using round_f64_Fin [of "1 / 10 ^ 9"] rounded_nonneg [of "1 / 10 ^ 9"] by (simp add: EPS_def)

lemma shorter_improves:
  assumes "shorter cost loop tried (length_of cost route loop)" "same_stops tried route"
  shows "improves cost loop tried route"
proof -
  obtain e where e: "EPS = Fin e" "0 \<le> e" using EPS_Fin by blast
  have "f64_le (length_of cost tried loop) (length_of cost route loop)" if "lengths_ok cost loop route"
  proof -
    have "is_double (length_of cost tried loop)" "length_of cost tried loop \<noteq> NaN"
      using that assms(2) by (auto simp: lengths_ok_def same_stops_def)
    then have "f64_le (length_of cost tried loop) (f64_add (length_of cost tried loop) EPS)"
      unfolding e(1) by (rule f64_add_ge [OF _ _ e(2)])
    then show ?thesis using assms(1) unfolding shorter_def by (meson f64_le_def f64_le_trans)
  qed
  then show ?thesis using assms(2) by (simp add: improves_def)
qed

lemma two_opt_at_improves:
  assumes "1 \<le> i"
  shows "improves cost loop (fst (two_opt_at cost loop i st)) (fst st)"
proof -
  have "improves cost loop (fst (fold (\<lambda>k (route, better, t).
         let tried = reversed i k route in
         if shorter cost loop tried (length_of cost route loop) then (tried, True, t) else (route, better, t)) ks st)) (fst st)"
    if "\<forall>k \<in> set ks. i \<le> k" for ks and st :: polished using that
  proof (induction ks arbitrary: st)
    case (Cons k ks)
    obtain route better t where st: "st = (route, better, t)" by (cases st)
    let ?tried = "reversed i k route"
    show ?case
    proof (cases "shorter cost loop ?tried (length_of cost route loop)")
      case True
      have "improves cost loop ?tried route" using shorter_improves [OF True same_stops_reversed] assms Cons.prems by simp
      then show ?thesis using Cons.IH [of "(?tried, True, t)"] Cons.prems True st improves_trans by (fastforce simp: Let_def)
    next
      case False
      then show ?thesis using Cons.IH [of st] Cons.prems st by (simp add: Let_def)
    qed
  qed simp
  then show ?thesis unfolding two_opt_at_def by simp
qed

lemma two_opt_improves:
  "\<forall>i \<in> set is. 1 \<le> i \<Longrightarrow> improves cost loop (fst (two_opt cost loop late is st)) (fst st)"
proof (induction "is" arbitrary: st)
  case (Cons i "is")
  obtain route better t where st: "st = (route, better, t)" by (cases st)
  have "improves cost loop (fst (two_opt_at cost loop i (route, better, t + 1))) route"
    using two_opt_at_improves [of i cost loop "(route, better, t + 1)"] Cons.prems by simp
  then show ?case using Cons.IH [of "two_opt_at cost loop i (route, better, t + 1)"] Cons.prems improves_trans
    unfolding st by fastforce
qed simp

lemma or_opt_improves: "1 \<le> i \<Longrightarrow> improves cost loop (fst (or_opt cost loop late len i st)) (fst st)"
proof (induction cost loop late len i st rule: or_opt.induct)
  case (1 cost loop late len i route better t)
  show ?case
  proof (cases "i + len \<le> length route \<and> \<not> late t")
    case False
    then show ?thesis by (subst or_opt.simps) auto
  next
    case True
    then have go: "\<not> \<not> i + len \<le> length route" "\<not> late t" by auto
    show ?thesis
    proof (cases "moved cost loop len i route")
      case None
      have "or_opt cost loop late len i (route, better, t) = or_opt cost loop late len (i + 1) (route, better, t + 1)"
        by (subst or_opt.simps) (use go None in simp)
      then show ?thesis using "1.IH"(1) [OF go None] by simp
    next
      case (Some tried)
      have "improves cost loop tried route"
        using moved_same [OF Some "1.prems"] shorter_improves True by blast
      moreover have "or_opt cost loop late len i (route, better, t) = or_opt cost loop late len (i + 1) (tried, True, t + 1)"
        by (subst or_opt.simps) (use go Some in simp)
      moreover have "improves cost loop (fst (or_opt cost loop late len (i + 1) (tried, True, t + 1))) tried"
        using "1.IH"(2) [OF go Some] by simp
      ultimately show ?thesis using improves_trans by (metis fst_conv)
    qed
  qed
qed

lemma or_opts_improve: "improves cost loop (fst (fold (\<lambda>len. or_opt cost loop late len 1) lens st)) (fst st)"
proof (induction lens arbitrary: st)
  case (Cons len lens)
  have "improves cost loop (fst (or_opt cost loop late len 1 st)) (fst st)" by (rule or_opt_improves) simp
  then show ?case using Cons.IH [of "or_opt cost loop late len 1 st"] improves_trans by simp
qed simp

lemma polish_improves: "improves cost loop (fst (polish_rounds cost loop late n st)) (fst st)"
proof (induction n arbitrary: st)
  case (Suc n)
  obtain route t where st: "st = (route, t)" by (cases st)
  let ?two = "two_opt cost loop late [1..<length route - 1] (route, False, t + 1)"
  have two: "improves cost loop (fst ?two) route" using two_opt_improves [of "[1..<length route - 1]" cost loop late "(route, False, t + 1)"] by simp
  obtain route' better t' where f: "fold (\<lambda>len. or_opt cost loop late len 1) [1..<4] ?two = (route', better, t')"
    by (cases "fold (\<lambda>len. or_opt cost loop late len 1) [1..<4] ?two")
  have one: "improves cost loop route' route" using or_opts_improve [of cost loop late "[1..<4]" ?two] two f improves_trans by (metis fst_conv)
  have rest: "improves cost loop (fst (polish_rounds cost loop late n (route', t'))) route'" using Suc [of "(route', t')"] by simp
  have more: "improves cost loop (fst (if better then polish_rounds cost loop late n (route', t') else (route', t'))) route"
  proof (cases better)
    case True
    then show ?thesis using improves_trans [OF rest one] by simp
  qed (simp add: one)
  show ?case
  proof (cases "late t")
    case False
    then have "polish_rounds cost loop late (Suc n) st = (if better then polish_rounds cost loop late n (route', t') else (route', t'))"
      using f by (simp add: st Let_def del: upt_rec_numeral)
    then show ?thesis using more st by (simp only: fst_conv)
  qed (simp add: st)
qed simp

lemma mset_swap_removed: "i < length xs \<Longrightarrow> add_mset (xs ! i) (mset (swap_removed i xs)) = mset xs"
proof (cases "Suc i = length xs")
  case True
  assume "i < length xs"
  then have "xs \<noteq> []" by auto
  then have "xs \<noteq> []" "xs ! i = last xs" by (simp_all add: last_conv_nth flip: True)
  then have "mset xs = mset (butlast xs @ [xs ! i])" by simp
  then show ?thesis using True by (simp add: swap_removed_def)
next
  case False
  assume "i < length xs"
  then have ne: "xs \<noteq> []" and i: "i < length (butlast xs)" "butlast xs ! i = xs ! i" using False by (auto simp: nth_butlast)
  have "mset xs = mset (butlast xs @ [last xs])" using ne by simp
  moreover have "add_mset (xs ! i) (mset (butlast xs) - {#xs ! i#}) = mset (butlast xs)"
    using i by (intro insert_DiffM) (metis in_set_conv_nth set_mset_mset)
  ultimately show ?thesis using False i by (simp add: swap_removed_def mset_update add_mset_commute)
qed

lemma first_least_less: "xs \<noteq> [] \<Longrightarrow> first_least f xs < length xs"
proof -
  have "foldl (\<lambda>m y. if c m y = Greater then y else m) m ys \<in> insert m (set ys)" for c :: "nat \<Rightarrow> nat \<Rightarrow> ordering" and m ys
  proof (induction ys arbitrary: m)
    case (Cons y ys)
    then show ?case by (cases "c m y = Greater") (fastforce+)
  qed simp
  moreover assume "xs \<noteq> []"
  then have "[0..<length xs] = 0 # [1..<length xs]" by (simp add: upt_conv_Cons)
  moreover have "i \<in> insert 0 (set [1..<length xs]) \<Longrightarrow> i < length xs" for i using \<open>xs \<noteq> []\<close> by auto
  ultimately show ?thesis unfolding first_least_def min_by_def by (simp only: list.case option.case)
qed

lemma foldl_keeps: "(\<And>a x. P a \<Longrightarrow> x \<in> set xs \<Longrightarrow> P (h a x)) \<Longrightarrow> P a \<Longrightarrow> P (foldl h a xs)"
  by (induction xs arbitrary: a) simp_all

lemma insertion_place_pos:
  assumes "route \<noteq> []"
  shows "1 \<le> insertion_place cost start loop route k"
  unfolding insertion_place_def Let_def
proof (rule foldl_keeps [where P = "\<lambda>a. 1 \<le> fst a"])
  show "1 \<le> fst (length route, PosInf)" using assms by (simp add: Suc_le_eq)
qed (auto split: prod.splits if_splits)

lemma nearest_same: "route \<noteq> [] \<Longrightarrow> mset (nearest_from cost route left) = mset route + mset left
   \<and> take 1 (nearest_from cost route left) = take 1 route"
proof (induction cost route left rule: nearest_from.induct)
  case (1 cost route left)
  show ?case
  proof (cases "left = []")
    case True
    then show ?thesis by (simp add: nearest_from.simps)
  next
    case False
    define i where "i = first_least (cost_of cost (last route)) left"
    have i: "i < length left" unfolding i_def by (rule first_least_less [OF False])
    have "nearest_from cost route left = nearest_from cost (route @ [left ! i]) (swap_removed i left)"
      using False by (subst nearest_from.simps) (simp add: i_def Let_def)
    moreover have "take 1 (route @ [left ! i]) = take 1 route" using 1(2) by (cases route) simp_all
    ultimately show ?thesis using 1(1) [OF False i_def] mset_swap_removed [OF i] by simp
  qed
qed

lemma inserted_same: "route \<noteq> [] \<Longrightarrow> mset (inserted_from cost start loop route left) = mset route + mset left
   \<and> take 1 (inserted_from cost start loop route left) = take 1 route"
proof (induction cost start loop route left rule: inserted_from.induct)
  case (1 cost start loop route left)
  show ?case
  proof (cases "left = []")
    case True
    then show ?thesis by (simp add: inserted_from.simps)
  next
    case False
    define i where "i = first_least (\<lambda>k. foldl f64_min PosInf (map (\<lambda>r. cost_of cost r k) route)) left"
    define p where "p = insertion_place cost start loop route (left ! i)"
    have i: "i < length left" unfolding i_def by (rule first_least_less [OF False])
    have eq: "inserted_from cost start loop route left
        = inserted_from cost start loop (take p route @ left ! i # drop p route) (swap_removed i left)"
      using False by (subst inserted_from.simps) (simp add: i_def p_def Let_def)
    have "1 \<le> p" using insertion_place_pos [OF 1(2)] by (simp add: p_def)
    then have "take 1 (take p route @ left ! i # drop p route) = take 1 route" by (rule take_1_append [OF _ 1(2)])
    moreover have "mset (take p route @ left ! i # drop p route) = add_mset (left ! i) (mset route)"
      by simp (metis append_take_drop_id mset_append)
    ultimately show ?thesis
      using 1(1) [OF False i_def refl p_def] mset_swap_removed [OF i] unfolding eq by simp
  qed
qed

lemma cuts_ordered:
  assumes "5 \<le> n" "cuts seed n = (cs, seed')"
  shows "1 \<le> cs ! 0" "cs ! 0 \<le> cs ! 1" "cs ! 1 \<le> cs ! 2" "cs ! 2 < n"
proof -
  obtain a b c s1 s2 where r: "roll seed (n - 1) = (a, s1)" "roll s1 (n - 1) = (b, s2)" "fst (roll s2 (n - 1)) = c"
    by (metis surj_pair)
  have below: "fst (roll s (n - 1)) < n - 1" for s using assms(1) by (simp add: roll_def Let_def)
  have abc: "a < n - 1" "b < n - 1" "c < n - 1" using below [of seed] below [of s1] below [of s2] r by simp_all
  have "cs = fst (cuts seed n)" using assms(2) by simp
  also have "\<dots> = sort [1 + a, 1 + b, 1 + c]" using r by (simp only: cuts_def Let_def prod.case case_prod_beta fst_conv snd_conv)
  finally have cs: "cs = sort [1 + a, 1 + b, 1 + c]" .
  have len: "length cs = 3" by (simp add: cs)
  have sorted: "sorted cs" unfolding cs by (rule sorted_sort)
  show "cs ! 0 \<le> cs ! 1" "cs ! 1 \<le> cs ! 2" using sorted_nth_mono [OF sorted] len by simp_all
  have "cs ! 0 \<in> set cs" "cs ! 2 \<in> set cs" using len by simp_all
  moreover have "set cs = {1 + a, 1 + b, 1 + c}" by (simp only: cs set_sort list.set)
  ultimately have ends: "cs ! 0 \<in> {1 + a, 1 + b, 1 + c}" "cs ! 2 \<in> {1 + a, 1 + b, 1 + c}" by (simp_all only:)
  show "1 \<le> cs ! 0" using ends(1) by force
  show "cs ! 2 < n" using ends(2) abc by force
qed

lemma same_stops_shaken:
  assumes "1 \<le> cs ! 0" "cs ! 0 \<le> cs ! 1" "cs ! 1 \<le> cs ! 2"
  shows "same_stops (shaken cs best) best"
proof (cases "best = []")
  case False
  have split: "mset (take i xs) + mset (drop i (take j xs)) = mset (take j xs)" if "i \<le> j" for i j and xs :: "nat list"
    using that by (metis append_take_drop_id min.absorb1 mset_append take_take)
  have "mset (shaken cs best) = mset (take (cs ! 0) best) + mset (drop (cs ! 0) (take (cs ! 1) best))
      + mset (drop (cs ! 1) (take (cs ! 2) best)) + mset (drop (cs ! 2) best)"
    by (simp only: shaken_def mset_append ac_simps)
  also have "\<dots> = mset best" unfolding split [OF assms(2)] split [OF assms(3)] by (metis append_take_drop_id mset_append)
  finally have "mset (shaken cs best) = mset best" .
  moreover have "take 1 (shaken cs best) = take 1 best" unfolding shaken_def by (rule take_1_append [OF assms(1) False])
  ultimately show ?thesis by (simp only: same_stops_def simp_thms)
qed (simp add: shaken_def)

lemma shake_improves: "length best = n \<Longrightarrow> improves cost loop (shake cost loop late n m seed (best, t)) best"
proof (induction m arbitrary: seed best t)
  case (Suc m)
  obtain cs seed' where c: "cuts seed n = (cs, seed')" by (cases "cuts seed n")
  obtain tried t' where p: "polish cost loop late (shaken cs best, t + 1) = (tried, t')"
    by (cases "polish cost loop late (shaken cs best, t + 1)")
  show ?case
  proof (cases "n < 5 \<or> late t \<or> cs ! 0 = cs ! 1 \<or> cs ! 1 = cs ! 2")
    case True
    then show ?thesis using Suc c by (auto simp: Let_def)
  next
    case False
    let ?best = "if shorter cost loop tried (length_of cost best loop) then tried else best"
    have "same_stops tried (shaken cs best)"
      using polish_improves [of cost loop late 50 "(shaken cs best, t + 1)"] p by (simp add: polish_def improves_def)
    moreover have "same_stops (shaken cs best) best"
      using cuts_ordered [OF _ c] False by (intro same_stops_shaken) simp_all
    ultimately have same: "same_stops tried best" by (rule same_stops_trans)
    have better: "improves cost loop ?best best" using shorter_improves [OF _ same] by simp
    have "length ?best = n" using same_stops_length [OF same] Suc.prems by simp
    then have "improves cost loop (shake cost loop late n m seed' (?best, t')) ?best" by (rule Suc.IH)
    moreover have "shake cost loop late n (Suc m) seed (best, t) = shake cost loop late n m seed' (?best, t')"
      using False c p by (simp add: Let_def)
    ultimately show ?thesis using better improves_trans by simp
  qed
qed simp

lemma start_and_others:
  assumes "start < length cost"
  shows "mset (start # others cost start) = mset [0..<length cost]"
proof -
  note os = others_props [OF assms]
  have "distinct (start # others cost start)" using os(1,2) by simp
  moreover have "insert start ({..<length cost} - {start}) = {..<length cost}" using assms by blast
  then have "set (start # others cost start) = set [0..<length cost]" by (simp only: list.set os(2) set_upt atLeast0LessThan)
  ultimately show ?thesis using set_eq_iff_mset_eq_distinct [of "start # others cost start" "[0..<length cost]"] by (metis distinct_upt)
qed

lemma tour_of_mset:
  assumes "mset route = mset [0..<n]" "take 1 route = [start]"
  shows "tour n start route"
proof -
  have "distinct route" using mset_eq_imp_distinct_iff [OF assms(1)] by simp
  moreover have "set route = {..<n}" using mset_eq_setD [OF assms(1)] by (simp only: set_upt atLeast0LessThan)
  moreover have "hd route = start" using assms(2) by (cases route) simp_all
  ultimately show ?thesis by (simp only: tour_def simp_thms)
qed

text \<open>Lengths of walks over finite distances are numbers, and doubles.\<close>

lemma length_of_number:
  assumes "distances_ok cost" "set route \<subseteq> {..<length cost}"
  shows "is_double (length_of cost route loop) \<and> length_of cost route loop \<noteq> NaN"
proof -
  have add: "is_double (f64_add x (cost_of cost i j)) \<and> f64_add x (cost_of cost i j) \<noteq> NaN"
    if x: "is_double x \<and> x \<noteq> NaN" and ij: "i < length cost" "j < length cost" for x i j
  proof -
    obtain c where c: "cost_of cost i j = Fin c" "is_double (Fin c)" using assms(1) ij unfolding distances_ok_def by blast
    then show ?thesis using is_double_add [OF conjunct1 [OF x] c(2)] x by (cases x) simp_all
  qed
  have zero: "is_double (Fin 0)" by (simp add: is_double_def rounded_def)
  have legs: "i < length cost \<and> j < length cost" if "(i, j) \<in> set (zip route (tl route))" for i j
    using set_zip_leftD [OF that] set_zip_rightD [OF that] assms(2) by (cases route) auto
  have sum: "is_double (foldl (\<lambda>s (i, j). f64_add s (cost_of cost i j)) (Fin 0) (zip route (tl route)))
      \<and> foldl (\<lambda>s (i, j). f64_add s (cost_of cost i j)) (Fin 0) (zip route (tl route)) \<noteq> NaN"
    by (rule foldl_keeps [where P = "\<lambda>x. is_double x \<and> x \<noteq> NaN"]) (use add legs zero in auto)
  have ends: "last route < length cost" "hd route < length cost" if "1 < length route"
  proof -
    have "route \<noteq> []" using that by auto
    then show "last route < length cost" "hd route < length cost"
      using assms(2) last_in_set [of route] hd_in_set [of route] by blast+
  qed
  show ?thesis
  proof (cases "loop \<and> 1 < length route")
    case True
    then show ?thesis using add [OF sum] ends unfolding length_of_def Let_def if_P [OF True] by simp
  next
    case False
    then show ?thesis using sum unfolding length_of_def Let_def if_not_P [OF False] by simp
  qed
qed

lemma improved_lengths:
  assumes "start < length cost"
  shows "tour (length cost) start (improved cost late start loop)
    \<and> (distances_ok cost \<longrightarrow>
         f64_le (length_of cost (improved cost late start loop) loop) (length_of cost (inserted cost start loop) loop)
       \<and> f64_le (length_of cost (improved cost late start loop) loop) (length_of cost (nearest cost start) loop))"
proof -
  let ?new = "improved cost late start loop" and ?ins = "inserted cost start loop" and ?near = "nearest cost start"
  obtain one t1 where one: "polish cost loop late (?ins, 0) = (one, t1)" by (cases "polish cost loop late (?ins, 0)")
  obtain other t2 where other: "polish cost loop late (?near, t1) = (other, t2)" by (cases "polish cost loop late (?near, t1)")
  define best where "best = (if f64_lt (length_of cost other loop) (length_of cost one loop) then other else one)"
  have new: "improves cost loop ?new best"
    using shake_improves [of best "length best"] one other by (simp add: improved_def best_def Let_def)
  have i1: "improves cost loop one ?ins" and i2: "improves cost loop other ?near"
    using polish_improves [of cost loop late 50 "(?ins, 0)"] polish_improves [of cost loop late 50 "(?near, t1)"] one other
    by (simp_all add: polish_def)
  have start: "mset ?ins = mset [0..<length cost]" "take 1 ?ins = [start]" "mset ?near = mset [0..<length cost]" "take 1 ?near = [start]"
    using inserted_same [of "[start]" cost start loop "others cost start"] nearest_same [of "[start]" cost "others cost start"]
      start_and_others [OF assms] by (simp_all add: inserted_def nearest_def)
  have stops: "mset one = mset [0..<length cost]" "mset other = mset [0..<length cost]" "take 1 one = [start]" "take 1 other = [start]"
    using i1 i2 start by (simp_all only: improves_def same_stops_def)
  then have best: "mset best = mset [0..<length cost]" "take 1 best = [start]" by (simp_all only: best_def split: if_split) blast+
  have tour: "tour (length cost) start ?new"
    using new best by (intro tour_of_mset) (simp_all only: improves_def same_stops_def)
  have "f64_le (length_of cost ?new loop) (length_of cost ?ins loop) \<and> f64_le (length_of cost ?new loop) (length_of cost ?near loop)"
    if ok: "distances_ok cost"
  proof -
    have number: "is_double (length_of cost r loop) \<and> length_of cost r loop \<noteq> NaN" if "mset r = mset [0..<length cost]" for r
      using length_of_number [OF ok, of r loop] mset_eq_setD [OF that] by (simp add: atLeast0LessThan)
    then have lengths: "lengths_ok cost loop r" if "mset r = mset [0..<length cost]" for r using that by (simp add: lengths_ok_def)
    have "f64_le (length_of cost best loop) (length_of cost one loop)" "f64_le (length_of cost best loop) (length_of cost other loop)"
      using number [OF stops(1)] number [OF stops(2)] f64_linear [of "length_of cost other loop" "length_of cost one loop"]
      by (auto simp: best_def f64_le_def f64_eq_def)
    moreover have "f64_le (length_of cost ?new loop) (length_of cost best loop)" using new lengths [OF best(1)] by (simp add: improves_def)
    moreover have "f64_le (length_of cost one loop) (length_of cost ?ins loop)" using i1 lengths [OF start(1)] by (simp add: improves_def)
    moreover have "f64_le (length_of cost other loop) (length_of cost ?near loop)" using i2 lengths [OF start(3)] by (simp add: improves_def)
    ultimately show ?thesis using f64_le_trans by blast
  qed
  then show ?thesis using tour by blast
qed

text \<open>
  C29: The improved order is a walk over every stop, never longer than the two it starts from.  Whatever
  the clock says and whenever it runs out, the heuristic for a long walk returns every stop once with the
  start first; and for finite distances its length is at most that of the nearest-insertion route and that
  of the nearest-neighbour route, rounding included.
\<close>

theorem improved_never_longer:
  assumes "start < length cost"
  shows "tour (length cost) start (improved cost late start loop)
    \<and> (distances_ok cost \<longrightarrow>
         f64_le (length_of cost (improved cost late start loop) loop) (length_of cost (inserted cost start loop) loop)
       \<and> f64_le (length_of cost (improved cost late start loop) loop) (length_of cost (nearest cost start) loop))"
  using assms by (rule improved_lengths)

section \<open>The order, and the plan\<close>

lemma small_tour: "length cost \<le> 2 \<Longrightarrow> start < length cost \<Longrightarrow> tour (length cost) start (start # others cost start)"
  using start_and_others [of start cost] by (intro tour_of_mset) simp_all

lemma order_stops_tour:
  assumes "start < length cost"
    and "length cost \<le> EXACT_UP_TO + 1 \<longrightarrow> distances_ok cost \<and> no_overflow cost start"
  shows "\<exists>route. order_stops cost late start loop = Some route \<and> tour (length cost) start route"
proof -
  consider "length cost \<le> 2" | "2 < length cost" "length cost - 1 \<le> EXACT_UP_TO" | "2 < length cost" "EXACT_UP_TO < length cost - 1"
    by linarith
  then show ?thesis
  proof cases
    case 1
    then show ?thesis using small_tour assms(1) by (simp add: order_stops_def)
  next
    case 2
    then show ?thesis using exact_shortest [of cost start loop] assms by (auto simp: order_stops_def Let_def)
  next
    case 3
    then show ?thesis using improved_lengths [OF assms(1)] by (simp add: order_stops_def Let_def)
  qed
qed

lemma mset_parts: "mset (filter P xs) + mset (filter (\<lambda>x. \<not> P x) xs) = mset xs"
  by (induction xs) simp_all

lemma tour_two:
  assumes "n \<le> 2" "tour n start a" "tour n start b"
  shows "a = b"
proof -
  have len: "length a = n" "length b = n" using assms(2,3) distinct_card unfolding tour_def by (metis card_lessThan)+
  have sets: "set a = set b" using assms(2,3) by (simp add: tour_def)
  consider "n = 0" | "n = 1" | "n = 2" using assms(1) by linarith
  then show ?thesis
  proof cases
    case 1
    then show ?thesis using len by simp
  next
    case 2
    then obtain x u where ab: "a = [x]" "b = [u]" using len by (metis One_nat_def length_0_conv length_Suc_conv)
    then show ?thesis using assms(2,3) by (simp add: tour_def)
  next
    case 3
    then obtain x y u v where ab: "a = [x, y]" "b = [u, v]" using len by (auto simp: numeral_2_eq_2 length_Suc_conv)
    then have "x = u" "x \<noteq> y" "u \<noteq> v" "{x, y} = {u, v}" using assms(2,3) sets by (simp_all add: tour_def)
    then show ?thesis using ab by (metis doubleton_eq_iff)
  qed
qed


section \<open>Whole distances\<close>

text \<open>Distances that are whole and not huge are doubles, and no sum of them is rounded, let alone overflows.\<close>

definition whole_distances :: "costs \<Rightarrow> bool" where
  "whole_distances cost \<longleftrightarrow> length cost \<le> 2 ^ 12
     \<and> (\<forall>i < length cost. \<forall>j < length cost. \<exists>k. cost_of cost i j = Fin (of_int k) \<and> \<bar>k\<bar> \<le> 2 ^ 40)"

lemma whole_sum:
  assumes "\<forall>(i, j) \<in> set legs. \<exists>k. cost_of cost i j = Fin (of_int k) \<and> \<bar>k\<bar> \<le> 2 ^ 40" "length legs \<le> 2 ^ 12"
  shows "\<exists>m. foldl (\<lambda>s (i, j). f64_add s (cost_of cost i j)) (Fin 0) legs = Fin (of_int m) \<and> \<bar>m\<bar> \<le> int (length legs) * 2 ^ 40"
  using assms
proof (induction legs rule: rev_induct)
  case Nil
  show ?case by (intro exI [of _ 0]) simp
next
  case (snoc x legs)
  obtain i j where x: "x = (i, j)" by (cases x)
  obtain k where k: "cost_of cost i j = Fin (of_int k)" "\<bar>k\<bar> \<le> 2 ^ 40" using snoc.prems(1) x by auto
  obtain m where m: "foldl (\<lambda>s (i, j). f64_add s (cost_of cost i j)) (Fin 0) legs = Fin (of_int m)"
      "\<bar>m\<bar> \<le> int (length legs) * 2 ^ 40" using snoc by auto
  have b: "\<bar>m + k\<bar> \<le> int (length (legs @ [x])) * 2 ^ 40" using m(2) k(2) by (simp add: algebra_simps)
  also have "\<dots> \<le> 2 ^ 12 * 2 ^ 40" using snoc.prems(2) by (intro mult_right_mono) simp_all
  finally have "\<bar>m + k\<bar> < 2 ^ 53" by simp
  then have "round_f64 (of_int (m + k)) = Fin (of_int (m + k))" using f64_of_int_exact [of "m + k"] by (simp add: f64_of_int_def)
  then show ?case using b by (intro exI [of _ "m + k"]) (simp add: m(1) k(1) x)
qed

lemma whole_distances_ok:
  assumes "whole_distances cost"
  shows "distances_ok cost" and "no_overflow cost start"
proof -
  have w: "\<exists>k. cost_of cost i j = Fin (of_int k) \<and> \<bar>k\<bar> \<le> 2 ^ 40" if "i < length cost" "j < length cost" for i j
    using assms that by (simp add: whole_distances_def)
  have "is_double (Fin (of_int k))" if "\<bar>k\<bar> \<le> 2 ^ 40" for k
  proof -
    have "\<bar>k\<bar> < 2 ^ 53" using that by simp
    then have "Fin (of_int k) = round_f64 (of_int k)" using f64_of_int_exact by (simp add: f64_of_int_def)
    then show ?thesis by simp
  qed
  then show "distances_ok cost" using w unfolding distances_ok_def by blast
  show "no_overflow cost start" unfolding no_overflow_def
  proof (intro allI impI)
    fix route assume r: "route \<noteq> [] \<and> hd route = start \<and> distinct route \<and> set route \<subseteq> {..<length cost}"
    have "length route \<le> length cost" using r by (metis card_lessThan card_mono distinct_card finite_lessThan)
    moreover have "length cost \<le> 2 ^ 12" using assms by (simp add: whole_distances_def)
    ultimately have "length (zip route (tl route)) \<le> 2 ^ 12" unfolding length_zip by linarith
    moreover have "\<forall>(i, j) \<in> set (zip route (tl route)). \<exists>k. cost_of cost i j = Fin (of_int k) \<and> \<bar>k\<bar> \<le> 2 ^ 40"
    proof clarify
      fix i j assume ij: "(i, j) \<in> set (zip route (tl route))"
      have "i \<in> set route" "j \<in> set route" using set_zip_leftD [OF ij] set_zip_rightD [OF ij] r by (auto dest: list.set_sel(2))
      then show "\<exists>k. cost_of cost i j = Fin (of_int k) \<and> \<bar>k\<bar> \<le> 2 ^ 40" using w r by blast
    qed
    ultimately show "f64_finite (length_of cost route False)"
      using whole_sum [of "zip route (tl route)" cost] by (auto simp: length_of_def f64_finite_def)
  qed
qed

text \<open>Four stops on a line, the start at one end: the typed order doubles back, the exact one does not.\<close>

definition sample_costs :: costs where
  "sample_costs = map (\<lambda>a. map (\<lambda>b. Fin (of_int \<bar>a - b\<bar>)) [0, 9, 3, 6]) [0, 9, 3, 6]"

lemma sample_costs_whole: "whole_distances sample_costs"
proof -
  let ?xs = "[0, 9, 3, 6] :: int list"
  have "\<exists>k. cost_of sample_costs i j = Fin (of_int k) \<and> \<bar>k\<bar> \<le> 2 ^ 40" if "i < length ?xs" "j < length ?xs" for i j
  proof -
    have "0 \<le> ?xs ! i \<and> ?xs ! i \<le> 9" "0 \<le> ?xs ! j \<and> ?xs ! j \<le> 9" using nth_mem [OF that(1)] nth_mem [OF that(2)] by auto
    then have "\<bar>?xs ! i - ?xs ! j\<bar> \<le> 9" by linarith
    also have "(9 :: int) \<le> 2 ^ 40" by simp
    finally have k: "\<bar>?xs ! i - ?xs ! j\<bar> \<le> 2 ^ 40" .
    have "cost_of sample_costs i j = Fin (of_int \<bar>?xs ! i - ?xs ! j\<bar>)"
      unfolding cost_of_def sample_costs_def nth_map [OF that(1)] nth_map [OF that(2)] by (rule refl)
    moreover have "\<bar>\<bar>?xs ! i - ?xs ! j\<bar>\<bar> \<le> 2 ^ 40" unfolding abs_idempotent by (rule k)
    ultimately show ?thesis by (intro exI conjI)
  qed
  moreover have "length sample_costs = length ?xs" "length ?xs \<le> 2 ^ 12" by (simp_all add: sample_costs_def)
  ultimately show ?thesis unfolding whole_distances_def by metis
qed

theorem exact_is_shortest_witness:
  "\<exists>route. exact sample_costs 0 False = Some route \<and> tour 4 0 route
     \<and> f64_le (length_of sample_costs route False) (length_of sample_costs [0, 2, 3, 1] False)"
proof -
  have n: "length sample_costs = 4" by (simp add: sample_costs_def)
  have "tour (length sample_costs) 0 [0, 2, 3, 1]" unfolding n by (auto simp: tour_def)
  then show ?thesis
    using exact_is_shortest [OF whole_distances_ok(1) [OF sample_costs_whole], of 0 False] whole_distances_ok(2) [OF sample_costs_whole, of 0]
    by (auto simp: n)
qed

theorem improved_never_longer_witness:
  "f64_le (length_of sample_costs (improved sample_costs (\<lambda>t. 7 < t) 0 True) True) (length_of sample_costs (nearest sample_costs 0) True)"
  using improved_never_longer [of 0 sample_costs "\<lambda>t. 7 < t" True] whole_distances_ok(1) [OF sample_costs_whole]
  by (simp add: sample_costs_def)


end
