(* ===== verification/Observing.thy ===== *)
theory Observing
  imports Barcodes "HOL-Library.Signed_Division"
begin

text \<open>
  A measurement as it was typed and as it is stored: \<^verbatim>\<open>observing.rs\<close>.  The digits are read
  without a float, converted by the unit's factor in 128-bit arithmetic, and rounded once, at the
  end.  What is proved: nothing on the way overflows for a text the parser takes, so the stored
  figure is the exact quotient rounded half away from zero.
\<close>

section \<open>What was entered\<close>

record entered =
  en_mantissa :: int
  en_scale :: nat

datatype value_problem =
    NotANumber ustr | TooManyDigits ustr | NotPositive
  | WrongDimension string string \<comment> \<open>unit, metric\<close>
  | WrongSubject string string \<comment> \<open>metric, kind\<close>
  | DegenerateFactor string | Overflow
  | UnrecordableAbsence string string \<comment> \<open>reason, because\<close>
  | ArrangementUnstated string

text \<open>
  The loop over the characters: the digits so far, how many stand after the point, and whether the
  point has been seen.  A count that passes the width of \<open>u32\<close> is refused with its eighteen digits
  passed, so it is a \<open>nat\<close> here.
\<close>

fun scan_digits :: "ustr \<Rightarrow> ustr \<Rightarrow> nat \<Rightarrow> bool \<Rightarrow> (ustr \<times> nat) option" where
  "scan_digits [] digits scale seen_point = Some (digits, scale)"
| "scan_digits (ch # chs) digits scale seen_point =
     (if is_digit ch
      then scan_digits chs (digits @ [ch]) (if seen_point then scale + 1 else scale) seen_point
      else if ch = 46 \<and> \<not> seen_point then scan_digits chs digits scale True
      else None)"

definition digits_value :: "ustr \<Rightarrow> nat" where
  "digits_value ds = foldl (\<lambda>n c. n * 10 + digit c) 0 ds"

text \<open>\<open>digits.parse::<i128>()\<close> of text that is digits only and not empty.\<close>

definition parse_i128 :: "ustr \<Rightarrow> int option" where
  "parse_i128 ds = (if digits_value ds < 2 ^ 127 then Some (int (digits_value ds)) else None)"

fun strip_sign :: "ustr \<Rightarrow> bool \<times> ustr" where
  "strip_sign [] = (False, [])"
| "strip_sign (c # cs) = (if c = 45 then (True, cs) else if c = 43 then (False, cs) else (False, c # cs))"

definition parse_entered :: "ustr \<Rightarrow> value_problem + entered" where
  "parse_entered input =
     (let t = trim_matches white_space input in
      if t = [] then Inl (NotANumber input)
      else
        (case strip_sign t of (negative, rest) \<Rightarrow>
           (case scan_digits rest [] 0 False of
              None \<Rightarrow> Inl (NotANumber input)
            | Some (digits, scale) \<Rightarrow>
                if digits = [] then Inl (NotANumber input)
                else if length digits > 18 then Inl (TooManyDigits input)
                else
                  (case parse_i128 digits of
                     None \<Rightarrow> Inl (TooManyDigits input)
                   | Some mantissa \<Rightarrow>
                       if mantissa = 0 then Inl NotPositive
                       else if negative then Inl NotPositive
                       else Inr \<lparr>en_mantissa = mantissa, en_scale = scale\<rparr>))))"

section \<open>Into base units\<close>

record factor =
  fa_num :: i64
  fa_den :: i64

text \<open>\<open>checked_mul(...).ok_or(Overflow)?\<close>\<close>

definition checked128 :: "int \<Rightarrow> value_problem + int" where
  "checked128 x = (if in_i128 x then Inr x else Inl Overflow)"

lemma checked128_ok [simp]: "in_i128 x \<Longrightarrow> checked128 x = Inr x"
  by (simp add: checked128_def)

text \<open>
  The last three operations are not checked: \<open>doubled + denominator\<close> and \<open>denominator * 2\<close> wrap, and
  \<open>/\<close> truncates.  The divisor is never zero, since \<open>denominator\<close> is between 1 and \<open>2 ^ 127 - 1\<close>.
\<close>

definition to_canonical :: "entered \<Rightarrow> factor \<Rightarrow> value_problem + i64" where
  "to_canonical e f =
     (if fa_num f \<le> 0 \<or> fa_den f \<le> 0
      then Inl (DegenerateFactor (show_int (fa_num f) @ ''/'' @ show_int (fa_den f)))
      else and_then (checked128 (10 ^ en_scale e)) (\<lambda>scale_div.
           and_then (checked128 (en_mantissa e * fa_num f)) (\<lambda>numerator.
           and_then (checked128 (fa_den f * scale_div)) (\<lambda>denominator.
           and_then (checked128 (numerator * 2)) (\<lambda>doubled.
             let rounded = wrap128 (doubled + denominator) sdiv wrap128 (denominator * 2) in
             if rounded \<le> 0 then Inl NotPositive
             else if in_i64 rounded then Inr rounded else Inl Overflow)))))"

section \<open>What may be measured of what\<close>

record metric_spec =
  ms_id :: uuid
  ms_code :: string
  ms_dimension :: "uuid option"
  ms_applies_to :: "string list"

definition check_subject :: "metric_spec \<Rightarrow> string \<Rightarrow> value_problem + unit" where
  "check_subject metric subject_kind =
     (if \<not> list_ex (\<lambda>k. k = subject_kind) (ms_applies_to metric)
      then Inl (WrongSubject (ms_code metric) subject_kind) else Inr ())"

definition check_applicable ::
  "metric_spec \<Rightarrow> string \<Rightarrow> uuid \<Rightarrow> string \<Rightarrow> value_problem + unit" where
  "check_applicable metric subject_kind unit_dimension unit_code =
     and_then (check_subject metric subject_kind) (\<lambda>_.
       if ms_dimension metric \<noteq> Some unit_dimension
       then Inl (WrongDimension unit_code (ms_code metric)) else Inr ())"

definition check_absent_reason :: "string \<Rightarrow> value_problem + unit" where
  "check_absent_reason reason =
     (if reason = ''not_applicable'' \<or> reason = ''unreadable'' then Inr ()
      else if reason = ''not_measured''
      then Inl (UnrecordableAbsence reason
             ''a subject with no row already says nobody has measured it, and recording it as a fact makes silence indistinguishable from an answer'')
      else if reason = ''retracted''
      then Inl (UnrecordableAbsence reason
             ''a retraction is an observation naming the one it retracts, not a word on a fresh row'')
      else Inl (UnrecordableAbsence reason ''the absences are not_applicable and unreadable''))"

definition presentation_required :: "string \<Rightarrow> string option \<Rightarrow> bool" where
  "presentation_required metric_code packaging_level \<longleftrightarrow>
     metric_code \<in> {''length'', ''width'', ''height''} \<and> packaging_level = Some ''each''"

record package_column =
  pc_name :: string
  pc_narrow :: bool

definition package_dimension_column :: "string \<Rightarrow> package_column option" where
  "package_dimension_column metric_code =
     (if metric_code = ''length'' then Some \<lparr>pc_name = ''length_mm'', pc_narrow = True\<rparr>
      else if metric_code = ''width'' then Some \<lparr>pc_name = ''width_mm'', pc_narrow = True\<rparr>
      else if metric_code = ''height'' then Some \<lparr>pc_name = ''height_mm'', pc_narrow = True\<rparr>
      else if metric_code = ''gross_weight'' then Some \<lparr>pc_name = ''gross_weight_g'', pc_narrow = False\<rparr>
      else None)"

definition fits :: "package_column \<Rightarrow> i64 \<Rightarrow> bool" where
  "fits col canonical \<longleftrightarrow> \<not> pc_narrow col \<or> (- (2 ^ 31) \<le> canonical \<and> canonical < 2 ^ 31)"

section \<open>What the parser takes\<close>

lemma digits_value_less: "list_all is_digit ds \<Longrightarrow> digits_value ds < 10 ^ length ds"
proof (induction ds rule: rev_induct)
  case (snoc d ds)
  then have "digits_value ds < 10 ^ length ds" and "digit d < 10"
    by (simp_all add: digit_less)
  then show ?case by (simp add: digits_value_def)
qed (simp add: digits_value_def)

lemma scan_digits_append:
  assumes "list_all is_digit ds"
  shows "scan_digits (ds @ rest) acc n seen =
    scan_digits rest (acc @ ds) (if seen then n + length ds else n) seen"
  using assms by (induction ds arbitrary: acc n) auto

lemma scan_digits_SomeD:
  assumes "scan_digits cs acc n seen = Some (ds, k)" and "list_all is_digit acc" and "n \<le> length acc"
  shows "list_all is_digit ds \<and> k \<le> length ds"
  using assms by (induction cs acc n seen rule: scan_digits.induct) (auto split: if_splits)

lemma parse_entered_InrD:
  assumes "parse_entered input = Inr e"
  shows "0 < en_mantissa e" "en_mantissa e < 10 ^ 18" "en_scale e \<le> 18"
proof -
  obtain neg rest ds where scan: "strip_sign (trim_matches white_space input) = (neg, rest)"
      "scan_digits rest [] 0 False = Some (ds, en_scale e)" "length ds \<le> 18"
      "en_mantissa e = int (digits_value ds)" "en_mantissa e \<noteq> 0"
    using assms
    by (auto simp: parse_entered_def parse_i128_def Let_def split: if_splits option.splits prod.splits)
  have ds: "list_all is_digit ds" "en_scale e \<le> length ds"
    using scan_digits_SomeD [OF scan(2)] by simp_all
  have "digits_value ds < 10 ^ length ds" by (rule digits_value_less [OF ds(1)])
  also have "(10 :: nat) ^ length ds \<le> 10 ^ 18" by (rule power_increasing [OF scan(3)]) simp
  finally have "int (digits_value ds) < int (10 ^ 18)" by (simp only: of_nat_less_iff)
  then show "en_mantissa e < 10 ^ 18" using scan(4) by simp
  show "0 < en_mantissa e" using scan(4,5) by simp
  show "en_scale e \<le> 18" using ds(2) scan(3) by simp
qed

text \<open>The texts that are read: an optional plus, digits, and a point with digits after it.\<close>

definition decimal_text :: "ustr \<Rightarrow> ustr \<Rightarrow> ustr \<Rightarrow> bool" where
  "decimal_text t whole part \<longleftrightarrow> list_all is_digit whole \<and> list_all is_digit part \<and>
     (\<exists>sign point. t = sign @ whole @ point @ part \<and> (sign = [] \<or> sign = [43])
        \<and> (point = [46] \<or> point = [] \<and> part = []))"

lemma scan_digits_after_point:
  assumes "scan_digits cs acc n True = Some (ds, k)"
  shows "list_all is_digit cs \<and> ds = acc @ cs \<and> k = n + length cs"
  using assms by (induction cs acc n True rule: scan_digits.induct) (auto split: if_splits)

lemma scan_digits_inv:
  assumes "scan_digits cs acc n False = Some (ds, k)"
  shows "\<exists>whole point part. cs = whole @ point @ part \<and> list_all is_digit whole \<and> list_all is_digit part
    \<and> (point = [46] \<or> point = [] \<and> part = []) \<and> ds = acc @ whole @ part \<and> k = n + length part"
  using assms
proof (induction cs arbitrary: acc)
  case Nil
  then show ?case by simp
next
  case (Cons c cs)
  show ?case
  proof (cases "is_digit c")
    case True
    then have "scan_digits cs (acc @ [c]) n False = Some (ds, k)" using Cons.prems by simp
    from Cons.IH [OF this] obtain whole point part where w: "cs = whole @ point @ part"
        "list_all is_digit whole" "list_all is_digit part" "point = [46] \<or> point = [] \<and> part = []"
        "ds = (acc @ [c]) @ whole @ part" "k = n + length part" by blast
    show ?thesis
      by (rule exI [of _ "c # whole"], rule exI [of _ point], rule exI [of _ part]) (use w True in simp)
  next
    case False
    then have "c = 46" and "scan_digits cs acc n True = Some (ds, k)"
      using Cons.prems by (simp_all split: if_splits)
    then show ?thesis
      using scan_digits_after_point [of cs acc n ds k]
      by (intro exI [of _ "[]"] exI [of _ "[46]"] exI [of _ cs]) simp
  qed
qed

lemma parse_entered_decimal:
  assumes tx: "trim_matches white_space input = sign @ whole @ point @ part"
    and digits: "list_all is_digit whole" "list_all is_digit part"
    and shape: "sign = [] \<or> sign = [43]" "point = [46] \<or> point = [] \<and> part = []"
    and size: "length (whole @ part) \<le> 18" and pos: "0 < digits_value (whole @ part)"
  shows "parse_entered input =
    Inr \<lparr>en_mantissa = int (digits_value (whole @ part)), en_scale = length part\<rparr>"
proof -
  have some: "whole @ part \<noteq> []" using pos by (auto simp: digits_value_def)
  have all: "list_all is_digit (whole @ part)" using digits by simp
  have plain: "strip_sign (whole @ point @ part) = (False, whole @ point @ part)"
    using digits shape(2) some by (cases whole) (auto simp: is_digit_def)
  have sign: "strip_sign (sign @ whole @ point @ part) = (False, whole @ point @ part)"
    using shape(1) plain by (elim disjE) simp_all
  have scan: "scan_digits (whole @ point @ part) [] 0 False = Some (whole @ part, length part)"
  proof (cases "point = [46]")
    case True
    have "scan_digits part whole 0 True = Some (whole @ part, length part)"
      using scan_digits_append [OF digits(2), of "[]" whole 0 True] by simp
    then show ?thesis
      using True by (simp add: scan_digits_append [OF digits(1)] is_digit_def)
  next
    case False
    then have "point = []" "part = []" using shape(2) by auto
    then show ?thesis using scan_digits_append [OF digits(1), of "[]" "[]" 0 False] by simp
  qed
  have "digits_value (whole @ part) < 10 ^ length (whole @ part)" by (rule digits_value_less [OF all])
  also have "(10 :: nat) ^ length (whole @ part) \<le> 10 ^ 18" by (rule power_increasing [OF size]) simp
  also have "(10 :: nat) ^ 18 < 2 ^ 127" by simp
  finally have "parse_i128 (whole @ part) = Some (int (digits_value (whole @ part)))"
    by (simp add: parse_i128_def)
  moreover have "trim_matches white_space input \<noteq> []" using tx some shape by auto
  ultimately show ?thesis
    using some size pos by (simp add: parse_entered_def Let_def tx sign scan)
qed

lemma parse_entered_shape:
  assumes "parse_entered input = Inr e"
  shows "\<exists>whole part. decimal_text (trim_matches white_space input) whole part
    \<and> length (whole @ part) \<le> 18 \<and> 0 < digits_value (whole @ part)
    \<and> e = \<lparr>en_mantissa = int (digits_value (whole @ part)), en_scale = length part\<rparr>"
proof -
  obtain rest ds where scan: "strip_sign (trim_matches white_space input) = (False, rest)"
      "scan_digits rest [] 0 False = Some (ds, en_scale e)" "length ds \<le> 18"
      "en_mantissa e = int (digits_value ds)" "en_mantissa e \<noteq> 0"
    using assms
    by (auto simp: parse_entered_def parse_i128_def Let_def split: if_splits option.splits prod.splits)
  obtain whole point part where w: "rest = whole @ point @ part" "list_all is_digit whole"
      "list_all is_digit part" "point = [46] \<or> point = [] \<and> part = []" "ds = whole @ part"
      "en_scale e = length part"
    using scan_digits_inv [OF scan(2)] by auto
  obtain sign where "trim_matches white_space input = sign @ rest" "sign = [] \<or> sign = [43]"
    using scan(1) by (cases "trim_matches white_space input") (auto split: if_splits)
  then have "decimal_text (trim_matches white_space input) whole part"
    using w unfolding decimal_text_def by blast
  moreover have "e = \<lparr>en_mantissa = int (digits_value (whole @ part)), en_scale = length part\<rparr>"
    using scan(4) w by (cases e) simp
  moreover have "length (whole @ part) \<le> 18" "0 < digits_value (whole @ part)"
    using scan(3-5) w by simp_all
  ultimately show ?thesis by blast
qed

section \<open>Rounding\<close>

lemma half_up_div:
  fixes N D :: int
  assumes "0 < D"
  shows "(N * 2 + D) div (D * 2) = round (of_int N / of_int D :: rat)"
proof -
  have "of_int N / of_int D + 1 / 2 = (of_int (N * 2 + D) / of_int (D * 2) :: rat)"
    using assms by (simp add: field_simps)
  then show ?thesis by (simp only: round_def floor_divide_of_int_eq)
qed

lemma to_canonical_bounded:
  assumes m: "0 < en_mantissa e" "en_mantissa e < 10 ^ 18" and s: "en_scale e \<le> 18"
    and f: "0 < fa_num f" "0 < fa_den f" "in_i64 (fa_num f)" "in_i64 (fa_den f)"
  shows "to_canonical e f =
    (let r = round (of_int (en_mantissa e) / 10 ^ en_scale e * of_int (fa_num f) / of_int (fa_den f) :: rat)
     in if r \<le> 0 then Inl NotPositive else if in_i64 r then Inr r else Inl Overflow)"
proof -
  define N where "N = en_mantissa e * fa_num f"
  define S where "S = (10 :: int) ^ en_scale e"
  define D where "D = fa_den f * S"
  have "(10 :: int) ^ en_scale e \<le> 10 ^ 18" using s by (intro power_increasing) simp_all
  then have S: "0 < S" "S \<le> 10 ^ 18" by (simp_all add: S_def)
  have "N \<le> 10 ^ 18 * 2 ^ 63"
    unfolding N_def using m f by (intro mult_mono) (simp_all add: in_i64_def)
  moreover have "D \<le> 2 ^ 63 * 10 ^ 18"
    unfolding D_def using S f by (intro mult_mono) (simp_all add: in_i64_def)
  moreover have "0 < N" "0 < D" using m f S by (simp_all add: N_def D_def)
  ultimately have b: "in_i128 S" "in_i128 N" "in_i128 D" "in_i128 (N * 2)" "in_i128 (N * 2 + D)" "in_i128 (D * 2)"
    and pos: "0 < N" "0 < D"
    using S by (simp_all add: in_i128_def)
  have q: "(N * 2 + D) sdiv (D * 2) = (N * 2 + D) div (D * 2)"
    using pos by (simp add: signed_divide_int_def)
  have "of_int N / of_int D
      = (of_int (en_mantissa e) / 10 ^ en_scale e * of_int (fa_num f) / of_int (fa_den f) :: rat)"
    by (simp add: N_def D_def S_def field_simps)
  then have "round (of_int (en_mantissa e) / 10 ^ en_scale e * of_int (fa_num f) / of_int (fa_den f) :: rat)
      = (N * 2 + D) div (D * 2)"
    using half_up_div [OF pos(2), of N] by simp
  then show ?thesis
    using f b
    by (simp add: to_canonical_def N_def [symmetric] S_def [symmetric] D_def [symmetric] wrap128_id q)
qed
section \<open>Properties\<close>

text \<open>
  C39: A text is taken as a measurement exactly when, less the blanks round it, it is an optional
  plus sign and at most eighteen decimal digits, not all zeros, with at most one point among them;
  and then what is kept is those digits as a whole number, exactly, with the count of the digits
  that stood after the point.
\<close>

theorem parse_entered_iff:
  "parse_entered input = Inr e \<longleftrightarrow>
   (\<exists>whole part. decimal_text (trim_matches white_space input) whole part
      \<and> length (whole @ part) \<le> 18 \<and> 0 < digits_value (whole @ part)
      \<and> e = \<lparr>en_mantissa = int (digits_value (whole @ part)), en_scale = length part\<rparr>)"
proof
  assume "parse_entered input = Inr e"
  then show "\<exists>whole part. decimal_text (trim_matches white_space input) whole part
      \<and> length (whole @ part) \<le> 18 \<and> 0 < digits_value (whole @ part)
      \<and> e = \<lparr>en_mantissa = int (digits_value (whole @ part)), en_scale = length part\<rparr>"
    by (rule parse_entered_shape)
next
  assume "\<exists>whole part. decimal_text (trim_matches white_space input) whole part
      \<and> length (whole @ part) \<le> 18 \<and> 0 < digits_value (whole @ part)
      \<and> e = \<lparr>en_mantissa = int (digits_value (whole @ part)), en_scale = length part\<rparr>"
  then obtain whole part where d: "decimal_text (trim_matches white_space input) whole part"
      and b: "length (whole @ part) \<le> 18" "0 < digits_value (whole @ part)"
      and e: "e = \<lparr>en_mantissa = int (digits_value (whole @ part)), en_scale = length part\<rparr>" by blast
  obtain sign point where "trim_matches white_space input = sign @ whole @ point @ part"
      "list_all is_digit whole" "list_all is_digit part" "sign = [] \<or> sign = [43]"
      "point = [46] \<or> point = [] \<and> part = []"
    using d unfolding decimal_text_def by blast
  from parse_entered_decimal [OF this b] show "parse_entered input = Inr e" by (simp only: e)
qed



end
