(* ===== verification/Spec2Isabelle.thy ===== *)
theory Spec2Isabelle
  imports Policy Server Barcodes Guarantees Layout Walks Observing Baseline
begin

text \<open>
  A verification of spork, a warehouse server in Rust.  Sources are named under
  \<^verbatim>\<open>src/crates/server/src\<close> unless another crate is named.

  \<^bold>\<open>The program.\<close>  Handhelds and browsers post acts (a move, a pick, a count, a seal) to HTTP
  handlers.  Each handler reads some rows, asks a pure decision procedure what is wrong with the
  proposal, refuses it if a problem is hard, claims the act's client event so that a retry is told
  apart from a first attempt, appends to the ledger or to an event log, and marks the tenant's
  projections dirty.  Projections (what a cell holds, where a package is, a line's progress) are
  folded from the ledger by SQL maintainers later, so handlers decide on figures that may be stale.
  Every table carries row-level security by tenant.  Jobs run over the data afterwards and report
  what the write paths could not refuse.

  \<^bold>\<open>The theories.\<close>
  \<^item> \<open>Prelude\<close>: identifiers, instants, \<open>i64\<close> with wrap-around, \<open>ApiError\<close> and its HTTP face
    (\<^verbatim>\<open>error.rs\<close>), the \<open>?\<close> operator, text, stable sorting with its \<open>comparator\<close> contract.
  \<^item> \<open>Database\<close>: the rows the statements read and write, row-level visibility, the caller
    (\<^verbatim>\<open>auth.rs\<close>) and the transaction (\<^verbatim>\<open>tenancy.rs\<close>).  PostgreSQL is the parameter \<open>pg\<close>: which
    writes it accepts, \<open>now()\<close>, the identifiers it mints, the collation.
  \<^item> \<open>Client_Events\<close>: \<^verbatim>\<open>client_events.rs\<close>, every function, and the contract of a write path
    (\<open>act_writer\<close>, \<open>strict_writer\<close>), which every handler's theory interprets.
  \<^item> \<open>Ledger\<close>: \<^verbatim>\<open>ledger_views.rs\<close>, and the ledger read as quantities: \<open>on_hand\<close>, \<open>total_held\<close>, the
    effective quantity of a movement under its correction chain.
  \<^item> \<open>Moving\<close>, \<open>Picking\<close>, \<open>Counting\<close>, \<open>Adjusting\<close>, \<open>Correction\<close>, \<open>Findings\<close>, \<open>Allocating\<close>,
    \<open>Packages\<close>, \<open>Despatching\<close>: one component each: its decision procedure from the file of that
    name (\<^verbatim>\<open>picking/mod.rs\<close> and \<^verbatim>\<open>picking/record.rs\<close>, \<^verbatim>\<open>checking.rs\<close> for a seal), its handler from
    \<^verbatim>\<open>routes.rs\<close>, what a fresh run and a replay do, and its properties.
  \<^item> \<open>Acts\<close>: one ledger row under one act, the tail two handlers share; \<open>Repacking\<close> and \<open>Handover\<close>:
    \<^verbatim>\<open>repacking.rs\<close> and \<^verbatim>\<open>handover.rs\<close>, the bench's own moves and the goods picked elsewhere.
  \<^item> \<open>Plans\<close>: \<^verbatim>\<open>pack_plan.rs\<close>, the board's plan, checked, saved and read back; \<open>Creating\<close>: the
    handler \<open>create_package\<close>, which uses a planned parcel up.
  \<^item> \<open>Observing\<close>: \<^verbatim>\<open>observing.rs\<close>, a typed figure to base units; \<open>Baseline\<close>: \<^verbatim>\<open>baseline.rs\<close>, what a
    thing has weighed before.
  \<^item> \<open>Policy\<close>: the crate \<^verbatim>\<open>crates/policy\<close>: resolution among scoped candidates, its explanation, and
    the clamps that hold a tenant to the platform's bounds.
  \<^item> \<open>Barcodes\<close>: \<^verbatim>\<open>barcodes.rs\<close>, \<^verbatim>\<open>binding.rs\<close> and the outcome of a lookup in \<^verbatim>\<open>locator.rs\<close>.
  \<^item> \<open>Floats\<close>: binary64 rounding and sums: how far rounding moves a number, that it keeps the order.
  \<^item> \<open>Receiving\<close>: \<^verbatim>\<open>receiving.rs\<close>: the handover of claims to what arrived, the disposition of a
    line, cartons to base units, the resolution of the policy; \<open>Receipts\<close>: the receipt handler of
    \<^verbatim>\<open>routes.rs\<close>, with the SQL function that applies a disposition.
  \<^item> \<open>Layout\<close>: \<^verbatim>\<open>layout.rs\<close>: the grid of a place and the numbers on its labels, naming patterns, the
    frames of nested places, and the layout drafted from a bin list.
  \<^item> \<open>Routing\<close>: \<^verbatim>\<open>routing.rs\<close>: the exact and the improved order of a walk's stops, and its plan.
    \<open>Held_Karp\<close>: the exact order is the shortest; \<open>Walks\<close>: the improved one and the plan.
  \<^item> \<open>Server\<close>: all handlers and the maintainers' rebuild as one step relation, with any tenants,
    retries and orders; the contract of a step and the invariants of the reachable states.
  \<^item> \<open>Jobs\<close>: queries of \<^verbatim>\<open>crates/invariants/src/jobs.rs\<close>; \<open>Guarantees\<close>: what they find on the states
    the server reaches.

  \<^bold>\<open>How the model reads the code.\<close>  A row is a record and a table the list of its rows in the order
  inserted; a statement sees the rows of its tenant.  A handler is one function from the database to
  an error or a response and the next database, with the handler's checks in their order; a request,
  a response, a problem and its text are the code's.  An \<open>expect\<close> that would panic is the error
  \<open>Panicked\<close>, and a slice inside a character is \<open>None\<close>.  Ids are 128-bit words; \<open>i64\<close> arithmetic
  wraps where the code does not check it; \<open>f64\<close> is compared exactly and rounded as binary64.

  \<^bold>\<open>What the lemmas show.\<close>  Of each decision, exactly what it accepts; of each handler, its effect when
  the act is fresh and that a replay writes nothing and answers as the first time (the \<open>_fresh\<close> and
  \<open>_replay\<close> lemmas); of the server, that history is immutable, an act owns at most one ledger row,
  tenants are isolated, containment is a forest of at most three levels, and a signed-off finding is
  final; of the jobs, which stay silent on every reachable state and which writes they catch.

  \<^bold>\<open>Bounds and fuel.\<close>  Correction chains are unrolled as deep as the ledger is long, enough because a
  correction stands after its target (\<open>chain_fuel_enough\<close>).  The nesting queries stop at 16 rows and
  job J52 at 64, which are the code's own limits; J79 has none and is given one step more than there
  are packages, enough by \<open>loops_up_iff\<close>.  The parser of scans ends because each round consumes text.

  \<^bold>\<open>Not modelled.\<close>  Transactions are taken as serial.  The SQL maintainers appear only as what they may
  change (\<open>rebuilt\<close>) and, where a theorem needs it, as rows that equal the fold.  HTTP reads that only
  format rows, sessions, password and passkey cryptography, file, image and socket I/O are left out;
  so are prepack, cartons, wraps and the packers.  Of measuring and the baselines the handlers and
  queries around the arithmetic are left out, as is the wording of a refusal that quotes what was
  typed.  Of the layout
  and the routes, the \<open>f64\<close> geometry (composing frames, footprints, outlines, the gridded floor and the
  searches over it) is left out: frames take the composition, and a plan its distances, as arguments.
\<close>

end
